(* ===== verification/Prelude.thy ===== *)
theory Prelude
  imports Main "HOL-Library.Word"
begin

text \<open>
  Shared vocabulary of the development: machine integer types, error results, C memory buffers
  as lists of bytes, the named collections of simplification rules that the component theories
  fill, and the two interfaces every component uses: a machine whose steps keep an invariant
  (\<open>invariant_machine\<close>) and a fixed-width integer codec over a byte buffer (\<open>byte_codec\<close>).
\<close>

unbundle bit_operations_syntax

named_theorems wire_simps \<open>field access after a write into a frame buffer\<close>
named_theorems session_simps \<open>unfolding of the data session operations\<close>
named_theorems bus_simps \<open>unfolding of the bus state machine\<close>

type_synonym u8 = "8 word"
type_synonym u16 = "16 word"
type_synonym u32 = "32 word"
type_synonym u64 = "64 word"
type_synonym bytes = "u8 list"

section \<open>Error results\<close>

definition bind_result :: "'e + 'a \<Rightarrow> ('a \<Rightarrow> 'e + 'b) \<Rightarrow> 'e + 'b" where
  "bind_result r f = (case r of Inl e \<Rightarrow> Inl e | Inr a \<Rightarrow> f a)"

lemma bind_result_simps [simp]:
  "bind_result (Inl e) f = Inl e"
  "bind_result (Inr a) f = f a"
  by (simp_all add: bind_result_def)

lemma bind_result_eq_Inr [simp]:
  "bind_result r f = Inr b \<longleftrightarrow> (\<exists>a. r = Inr a \<and> f a = Inr b)"
  by (cases r) auto

lemma bind_result_eq_Inl:
  "bind_result r f = Inl e \<longleftrightarrow> r = Inl e \<or> (\<exists>a. r = Inr a \<and> f a = Inl e)"
  by (cases r) auto

text \<open>A loop over an array that stops at the first element its body refuses.\<close>

fun map_result :: "('a \<Rightarrow> 'e + 'b) \<Rightarrow> 'a list \<Rightarrow> 'e + 'b list" where
  "map_result f [] = Inr []"
| "map_result f (x # xs) =
     bind_result (f x) (\<lambda>y. bind_result (map_result f xs) (\<lambda>ys. Inr (y # ys)))"

lemma map_result_Inr:
  "map_result f xs = Inr ys \<longleftrightarrow> list_all2 (\<lambda>x y. f x = Inr y) xs ys"
proof (induction xs arbitrary: ys)
  case Nil
  then show ?case by auto
next
  case (Cons x xs)
  then show ?case by (cases ys) auto
qed

lemma map_result_length: "map_result f xs = Inr ys \<Longrightarrow> length ys = length xs"
  by (auto simp: map_result_Inr dest: list_all2_lengthD)

lemma map_result_set:
  assumes "map_result f xs = Inr ys" and "y \<in> set ys"
  obtains x where "x \<in> set xs" and "f x = Inr y"
proof -
  from assms(1) have "list_all2 (\<lambda>x y. f x = Inr y) xs ys"
    by (simp add: map_result_Inr)
  then have "length xs = length ys" and nth: "\<And>i. i < length ys \<Longrightarrow> f (xs ! i) = Inr (ys ! i)"
    by (simp_all add: list_all2_conv_all_nth)
  moreover from assms(2) obtain i where "i < length ys" and "y = ys ! i"
    by (auto simp: in_set_conv_nth)
  ultimately show ?thesis using that [of "xs ! i"] by simp
qed

section \<open>Machines with an invariant\<close>

text \<open>
  The contract every stateful component offers: a predicate on its state that holds after
  initialisation and that no operation breaks. Operations are the events of a machine; the
  client's lemma is that any sequence of them keeps the invariant.
\<close>

locale invariant_machine =
  fixes init :: "'s \<Rightarrow> bool"
    and step :: "'e \<Rightarrow> 's \<Rightarrow> 's"
    and inv :: "'s \<Rightarrow> bool"
  assumes init_inv: "init s \<Longrightarrow> inv s"
    and step_inv: "inv s \<Longrightarrow> inv (step e s)"
begin

lemma run_inv: "inv s \<Longrightarrow> inv (fold step es s)"
  by (induction es arbitrary: s) (auto intro: step_inv)

lemma run_init_inv: "init s \<Longrightarrow> inv (fold step es s)"
  by (rule run_inv) (rule init_inv)

end

text \<open>
  The same contract for concurrent components, whose steps are a relation labelled with the thread
  that takes them. Every machine of operations is one.
\<close>

inductive reach :: "('s \<Rightarrow> bool) \<Rightarrow> ('a \<Rightarrow> 's \<Rightarrow> 's \<Rightarrow> bool) \<Rightarrow> 's \<Rightarrow> bool"
  for init :: "'s \<Rightarrow> bool" and step :: "'a \<Rightarrow> 's \<Rightarrow> 's \<Rightarrow> bool" where
  reach_init: "init s \<Longrightarrow> reach init step s"
| reach_step: "reach init step s \<Longrightarrow> step a s t \<Longrightarrow> reach init step t"

locale step_invariant =
  fixes start :: "'s \<Rightarrow> bool"
    and trans :: "'a \<Rightarrow> 's \<Rightarrow> 's \<Rightarrow> bool"
    and good :: "'s \<Rightarrow> bool"
  assumes start_good: "start s \<Longrightarrow> good s"
    and trans_good: "good s \<Longrightarrow> trans a s t \<Longrightarrow> good t"
begin

lemma reach_good: "reach start trans s \<Longrightarrow> good s"
  by (induction rule: reach.induct) (auto intro: start_good trans_good)

end

sublocale invariant_machine \<subseteq> relational: step_invariant init "\<lambda>e s t. t = step e s" inv
  by unfold_locales (auto intro: init_inv step_inv)

section \<open>Byte buffers\<close>

text \<open>\<open>memcpy (buf + off, bs)\<close> into a buffer that is large enough.\<close>

definition mem_write :: "'a list \<Rightarrow> nat \<Rightarrow> 'a list \<Rightarrow> 'a list" where
  "mem_write buf off bs = take off buf @ bs @ drop (off + length bs) buf"

lemma length_mem_write [simp]:
  "off + length bs \<le> length buf \<Longrightarrow> length (mem_write buf off bs) = length buf"
  by (simp add: mem_write_def)

lemma mem_write_all: "length bs = length buf \<Longrightarrow> mem_write buf 0 bs = bs"
  by (simp add: mem_write_def)

text \<open>
  A fixed-width unsigned integer stored at an offset of a byte buffer. The client's lemmas say
  that storing one field never disturbs another: \<open>agree\<close> is what a reader of the field needs.
\<close>

locale byte_codec =
  fixes width :: nat
    and put :: "bytes \<Rightarrow> nat \<Rightarrow> 'v \<Rightarrow> bytes"
    and get :: "bytes \<Rightarrow> nat \<Rightarrow> 'v"
  assumes put_length: "length (put buf off v) = length buf"
    and get_put: "off + width \<le> length buf \<Longrightarrow> get (put buf off v) off = v"
    and put_other: "i < off \<or> off + width \<le> i \<Longrightarrow> put buf off v ! i = buf ! i"
    and put_get: "off + width \<le> length buf \<Longrightarrow> put buf off (get buf off) = buf"
    and get_local: "(\<And>i. i < width \<Longrightarrow> a ! (off + i) = b ! (off + i)) \<Longrightarrow> get a off = get b off"
begin

lemma get_update_other: "i < off \<or> off + width \<le> i \<Longrightarrow> get (buf[i := x]) off = get buf off"
  by (rule get_local) (auto simp: nth_list_update)

lemma get_other:
  assumes "\<And>i. off \<le> i \<Longrightarrow> i < off + width \<Longrightarrow> b ! i = a ! i"
  shows "get b off = get a off"
  by (rule get_local) (use assms in auto)

lemma put_inject:
  assumes "off + width \<le> length buf" and "put buf off v = put buf off w"
  shows "v = w"
proof -
  from assms(2) have "get (put buf off v) off = get (put buf off w) off" by simp
  with assms(1) show ?thesis by (simp add: get_put)
qed

end

section \<open>Little-endian words\<close>

text \<open>The word whose bytes, least significant first, are a given list.\<close>

definition le_word :: "bytes \<Rightarrow> 'a::len word" where
  "le_word bs = foldr (\<lambda>b v. push_bit 8 v OR ucast b) bs 0"

lemma bit_le_word:
  "bit (le_word bs :: 'a::len word) n \<longleftrightarrow>
     n < LENGTH('a) \<and> n div 8 < length bs \<and> bit (bs ! (n div 8)) (n mod 8)"
proof (induction bs arbitrary: n)
  case Nil
  then show ?case by (simp add: le_word_def)
next
  case (Cons b bs)
  have step: "(le_word (b # bs) :: 'a word) = push_bit 8 (le_word bs) OR ucast b"
    by (simp add: le_word_def)
  show ?case
  proof (cases "n < 8")
    case True
    then show ?thesis by (auto simp: step bit_simps dest: bit_imp_le_length)
  next
    case False
    then obtain m where m: "n = m + 8" by (metis add.commute le_Suc_ex not_less)
    have "\<not> bit b n" using False by (auto dest: bit_imp_le_length)
    moreover have "(m + 8) div 8 = Suc (m div 8)" by simp
    ultimately show ?thesis using Cons.IH [of m] by (auto simp: step m bit_simps)
  qed
qed

lemma le_word_of_bytes:
  assumes "LENGTH('a) \<le> 8 * n"
  shows "le_word (map (\<lambda>i. ucast (drop_bit (8 * i) v)) [0..<n]) = (v :: 'a::len word)"
proof (rule bit_word_eqI)
  fix k assume k: "k < LENGTH('a)"
  with assms have "k div 8 < n" by linarith
  then show "bit (le_word (map (\<lambda>i. ucast (drop_bit (8 * i) v) :: u8) [0..<n]) :: 'a word) k = bit v k"
    using k by (simp add: bit_le_word bit_simps)
qed

lemma byte_of_le_word:
  assumes "i < length bs" and "8 * length bs \<le> LENGTH('a)"
  shows "ucast (drop_bit (8 * i) (le_word bs :: 'a::len word)) = bs ! i"
proof (rule bit_word_eqI)
  fix k assume "k < LENGTH(8)"
  then have k: "k < 8" by simp
  then have "(8 * i + k) div 8 = i" and "(8 * i + k) mod 8 = k" by simp_all
  moreover have "8 * i + k < LENGTH('a)" using assms k by linarith
  ultimately show "bit (ucast (drop_bit (8 * i) (le_word bs :: 'a word)) :: u8) k = bit (bs ! i) k"
    using assms k by (simp add: bit_simps bit_le_word)
qed

text \<open>
  The store loop \<^verbatim>\<open>for (i = 0; i < n; i++) p[i] = v >> (8 * i)\<close> and the load loop
  \<^verbatim>\<open>for (i = n - 1; i >= 0; i--) v = (v << 8) | p[i]\<close> at an offset of a buffer.
\<close>

definition le_store :: "nat \<Rightarrow> bytes \<Rightarrow> nat \<Rightarrow> 'a::len word \<Rightarrow> bytes" where
  "le_store n p off v = fold (\<lambda>i q. q[off + i := ucast (drop_bit (8 * i) v)]) [0..<n] p"

definition le_load :: "nat \<Rightarrow> bytes \<Rightarrow> nat \<Rightarrow> 'a::len word" where
  "le_load n p off = fold (\<lambda>i v. push_bit 8 v OR ucast (p ! (off + i))) (rev [0..<n]) 0"

lemma le_load_eq: "le_load n p off = le_word (map (\<lambda>i. p ! (off + i)) [0..<n])"
  by (simp add: le_load_def le_word_def foldr_conv_fold rev_map fold_map comp_def)

lemma le_store_Suc:
  "le_store (Suc n) p off v = (le_store n p off v)[off + n := ucast (drop_bit (8 * n) v)]"
  by (simp add: le_store_def)

lemma le_store_0 [simp]: "le_store 0 p off v = p"
  by (simp add: le_store_def)

lemma length_le_store [simp]: "length (le_store n p off v) = length p"
  by (induction n) (simp_all add: le_store_Suc)

lemma nth_le_store:
  "off + n \<le> length p \<Longrightarrow> j < n \<Longrightarrow> le_store n p off v ! (off + j) = ucast (drop_bit (8 * j) v)"
  by (induction n) (auto simp: le_store_Suc nth_list_update less_Suc_eq)

lemma nth_le_store_other:
  "j < off \<or> off + n \<le> j \<Longrightarrow> le_store n p off v ! j = p ! j"
  by (induction n) (auto simp: le_store_Suc nth_list_update)

lemma le_load_store:
  assumes "off + n \<le> length p" and "LENGTH('a) = 8 * n"
  shows "le_load n (le_store n p off v) off = (v :: 'a::len word)"
proof -
  have "map (\<lambda>i. le_store n p off v ! (off + i)) [0..<n]
      = map (\<lambda>i. ucast (drop_bit (8 * i) v)) [0..<n]"
    using assms(1) by (auto simp: nth_le_store)
  then have "le_load n (le_store n p off v) off
      = (le_word (map (\<lambda>i. ucast (drop_bit (8 * i) v)) [0..<n]) :: 'a word)"
    by (simp only: le_load_eq)
  then show ?thesis using assms(2) by (simp add: le_word_of_bytes)
qed

lemma le_store_load:
  assumes "off + n \<le> length p" and "LENGTH('a) = 8 * n"
  shows "le_store n p off (le_load n p off :: 'a::len word) = p"
proof (rule nth_equalityI)
  fix j assume "j < length (le_store n p off (le_load n p off :: 'a word))"
  show "le_store n p off (le_load n p off :: 'a word) ! j = p ! j"
  proof (cases "off \<le> j \<and> j < off + n")
    case True
    then obtain i where i: "j = off + i" "i < n" by (metis le_Suc_ex nat_add_left_cancel_less)
    then show ?thesis
      using assms by (simp add: nth_le_store le_load_eq byte_of_le_word)
  next
    case False
    then show ?thesis by (auto simp: nth_le_store_other)
  qed
qed simp

lemma le_load_cong:
  assumes "\<And>i. i < n \<Longrightarrow> a ! (off + i) = b ! (off + i)"
  shows "(le_load n a off :: 'a::len word) = le_load n b off"
proof -
  have "map (\<lambda>i. a ! (off + i)) [0..<n] = map (\<lambda>i. b ! (off + i)) [0..<n]"
    using assms by simp
  then show ?thesis by (simp only: le_load_eq)
qed

end
