(* ===== verification/CLib.thy ===== *)
theory CLib
  imports Prelude
begin

text \<open>
  The parts of the C language and its standard library that the sources rely on: the character
  classes of the C locale, the integer and floating-point scanners (\<^verbatim>\<open>strtol\<close>, \<^verbatim>\<open>strtoul\<close>,
  \<^verbatim>\<open>strtod\<close>), IEEE 754 doubles with round-to-nearest-even, and bounded string copies. A C string
  is the list of its characters before the terminating NUL; \<^verbatim>\<open>long\<close> is 64 bits wide. A scanner
  returns the value and the unread rest, or \<open>None\<close> where C leaves \<^verbatim>\<open>endptr\<close> at the start.
\<close>

section \<open>Characters\<close>

abbreviation code_of :: "char \<Rightarrow> nat" where "code_of c \<equiv> of_char c"

definition isdigit :: "char \<Rightarrow> bool" where
  "isdigit c \<longleftrightarrow> 48 \<le> code_of c \<and> code_of c \<le> 57"

definition isalpha :: "char \<Rightarrow> bool" where
  "isalpha c \<longleftrightarrow> 65 \<le> code_of c \<and> code_of c \<le> 90 \<or> 97 \<le> code_of c \<and> code_of c \<le> 122"

definition isalnum :: "char \<Rightarrow> bool" where
  "isalnum c \<longleftrightarrow> isalpha c \<or> isdigit c"

definition isxdigit :: "char \<Rightarrow> bool" where
  "isxdigit c \<longleftrightarrow> isdigit c \<or> 65 \<le> code_of c \<and> code_of c \<le> 70 \<or> 97 \<le> code_of c \<and> code_of c \<le> 102"

definition isspace :: "char \<Rightarrow> bool" where
  "isspace c \<longleftrightarrow> 9 \<le> code_of c \<and> code_of c \<le> 13 \<or> code_of c = 32"

definition tolower :: "char \<Rightarrow> nat" where
  "tolower c = (if 65 \<le> code_of c \<and> code_of c \<le> 90 then code_of c + 32 else code_of c)"

lemmas ctype_defs = isdigit_def isalpha_def isalnum_def isxdigit_def isspace_def tolower_def

section \<open>Strings\<close>

text \<open>A copy into a buffer of \<open>n\<close> bytes, the last of which is the terminator.\<close>

definition c_copy :: "nat \<Rightarrow> string \<Rightarrow> string" where
  "c_copy n s = take (n - 1) s"

lemma c_copy_length: "0 < n \<Longrightarrow> length (c_copy n s) < n"
  by (simp add: c_copy_def)

lemma c_copy_short: "length s < n \<Longrightarrow> c_copy n s = s"
  by (simp add: c_copy_def)

definition starts_with :: "string \<Rightarrow> string \<Rightarrow> bool" where
  "starts_with p s \<longleftrightarrow> take (length p) s = p"

section \<open>Integer scanners\<close>

definition digit_of :: "char \<Rightarrow> nat option" where
  "digit_of c =
     (if isdigit c then Some (code_of c - 48)
      else if 97 \<le> code_of c \<and> code_of c \<le> 122 then Some (code_of c - 87)
      else if 65 \<le> code_of c \<and> code_of c \<le> 90 then Some (code_of c - 55)
      else None)"

fun scan_digits :: "nat \<Rightarrow> string \<Rightarrow> nat list \<times> string" where
  "scan_digits b [] = ([], [])"
| "scan_digits b (c # s) =
     (case digit_of c of
        None \<Rightarrow> ([], c # s)
      | Some d \<Rightarrow> if d < b then (let (ds, r) = scan_digits b s in (d # ds, r)) else ([], c # s))"

definition digits_value :: "nat \<Rightarrow> nat list \<Rightarrow> nat" where
  "digits_value b ds = fold (\<lambda>d v. v * b + d) ds 0"

definition skip_sign :: "string \<Rightarrow> bool \<times> string" where
  "skip_sign s =
     (case s of
        [] \<Rightarrow> (False, s)
      | c # t \<Rightarrow> if c = CHR ''-'' then (True, t) else if c = CHR ''+'' then (False, t) else (False, s))"

definition has_hex_prefix :: "string \<Rightarrow> bool" where
  "has_hex_prefix s =
     (case s of
        a # b # c # _ \<Rightarrow> a = CHR ''0'' \<and> (b = CHR ''x'' \<or> b = CHR ''X'') \<and> isxdigit c
      | _ \<Rightarrow> False)"

definition scan_int :: "nat \<Rightarrow> string \<Rightarrow> (bool \<times> nat \<times> string) option" where
  "scan_int base s =
     (let (neg, t) = skip_sign (dropWhile isspace s);
          hex = ((base = 0 \<or> base = 16) \<and> has_hex_prefix t);
          b = (if hex then 16 else if base = 0 then (if starts_with ''0'' t then 8 else 10) else base);
          (ds, r) = scan_digits b (if hex then drop 2 t else t)
      in if ds = [] then None else Some (neg, digits_value b ds, r))"

definition strtoul :: "nat \<Rightarrow> string \<Rightarrow> (nat \<times> string) option" where
  "strtoul base s =
     (case scan_int base s of
        None \<Rightarrow> None
      | Some (neg, v, r) \<Rightarrow>
          Some (if v \<ge> 2 ^ 64 then 2 ^ 64 - 1 else if neg then (2 ^ 64 - v) mod 2 ^ 64 else v, r))"

definition strtol :: "nat \<Rightarrow> string \<Rightarrow> (int \<times> string) option" where
  "strtol base s =
     (case scan_int base s of
        None \<Rightarrow> None
      | Some (neg, v, r) \<Rightarrow>
          Some (if neg then max (- (2 ^ 63)) (- int v) else min (2 ^ 63 - 1) (int v), r))"

text \<open>The conversion \<^verbatim>\<open>%0<w>X\<close> of an unsigned value.\<close>

definition hex_char :: "nat \<Rightarrow> char" where
  "hex_char d = ''0123456789ABCDEF'' ! (d mod 16)"

fun hex_chars :: "nat \<Rightarrow> string" where
  "hex_chars n = (if n < 16 then [hex_char n] else hex_chars (n div 16) @ [hex_char n])"

declare hex_chars.simps [simp del]

definition fmt_hex :: "nat \<Rightarrow> nat \<Rightarrow> string" where
  "fmt_hex w n = (let s = hex_chars n in replicate (w - length s) CHR ''0'' @ s)"

text \<open>The conversion \<^verbatim>\<open>%d\<close>, and \<^verbatim>\<open>atoi\<close> as \<^verbatim>\<open>(int)strtol\<close>.\<close>

definition dec_char :: "nat \<Rightarrow> char" where
  "dec_char d = ''0123456789'' ! (d mod 10)"

fun dec_chars :: "nat \<Rightarrow> string" where
  "dec_chars n = (if n < 10 then [dec_char n] else dec_chars (n div 10) @ [dec_char n])"

declare dec_chars.simps [simp del]

definition fmt_dec :: "int \<Rightarrow> string" where
  "fmt_dec i = (if i < 0 then CHR ''-'' # dec_chars (nat (- i)) else dec_chars (nat i))"

definition atoi :: "string \<Rightarrow> int" where
  "atoi s = (case strtol 10 s of None \<Rightarrow> 0 | Some (v, _) \<Rightarrow> sint (of_int v :: u32))"

lemma dec_char_digit: "digit_of (dec_char d) = Some (d mod 10)" "isdigit (dec_char d)"
proof -
  have "\<forall>i\<in>{..<10}. digit_of (''0123456789'' ! i) = Some i \<and> isdigit (''0123456789'' ! i)"
    by (simp add: lessThan_nat_numeral lessThan_Suc digit_of_def isdigit_def)
  then show "digit_of (dec_char d) = Some (d mod 10)" "isdigit (dec_char d)"
    by (simp_all add: dec_char_def)
qed

lemma scan_digits_append:
  "snd (scan_digits b s) = [] \<Longrightarrow> scan_digits b (s @ t) =
     (fst (scan_digits b s) @ fst (scan_digits b t), snd (scan_digits b t))"
  by (induction s) (auto split: option.splits if_splits prod.splits)

lemma scan_dec_chars:
  "snd (scan_digits 10 (dec_chars n)) = [] \<and> digits_value 10 (fst (scan_digits 10 (dec_chars n))) = n \<and>
   fst (scan_digits 10 (dec_chars n)) \<noteq> []"
proof (induction n rule: dec_chars.induct)
  case (1 n)
  show ?case
  proof (cases "n < 10")
    case True
    then show ?thesis by (simp add: dec_chars.simps [of n] dec_char_digit digits_value_def)
  next
    case False
    with 1 show ?thesis
      by (simp add: dec_chars.simps [of n] scan_digits_append dec_char_digit digits_value_def)
  qed
qed

lemma dec_chars_digits: "list_all isdigit (dec_chars n)" "dec_chars n \<noteq> []"
  by (induction n rule: dec_chars.induct)
    (subst dec_chars.simps; simp add: dec_char_digit(2))+

lemma dec_chars_length: "0 < k \<Longrightarrow> n < 10 ^ k \<Longrightarrow> length (dec_chars n) \<le> k"
proof (induction n arbitrary: k rule: dec_chars.induct)
  case (1 n)
  show ?case
  proof (cases "n < 10")
    case True
    with "1.prems" show ?thesis by (subst dec_chars.simps) simp
  next
    case False
    with "1.prems" obtain j where k: "k = Suc j" "0 < j" by (cases k rule: nat.exhaust; cases "k - 1") auto
    with "1.prems" have "n div 10 < 10 ^ j" by (simp add: less_mult_imp_div_less mult.commute)
    with "1.IH" [OF False, of j] k False show ?thesis by (subst dec_chars.simps) simp
  qed
qed

lemma dec_chars_bounds: "n < 10 ^ length (dec_chars n) \<and> (0 < n \<longrightarrow> 10 ^ (length (dec_chars n) - 1) \<le> n)"
proof (induction n rule: dec_chars.induct)
  case (1 n)
  show ?case
  proof (cases "n < 10")
    case True
    then show ?thesis by (subst (1 2) dec_chars.simps) simp
  next
    case False
    let ?k = "length (dec_chars (n div 10))"
    have k: "0 < ?k" using dec_chars_digits(2) by simp
    have ih: "n div 10 < 10 ^ ?k" "10 ^ (?k - 1) \<le> n div 10" using 1 False by auto
    have "n < 10 * 10 ^ ?k" using ih(1) by simp
    moreover have "10 * 10 ^ (?k - 1) \<le> n" using ih(2) by simp
    moreover have "(10::nat) * 10 ^ (?k - 1) = 10 ^ ?k" using k by (cases ?k) simp_all
    ultimately show ?thesis using False by (subst (1 2) dec_chars.simps) simp
  qed
qed

lemma dec_chars_times_10: "0 < n \<Longrightarrow> dec_chars (n * 10) = dec_chars n @ ''0''"
  by (subst dec_chars.simps) (simp add: dec_char_def)

lemma dec_chars_shift: "0 < n \<Longrightarrow> dec_chars (n * 10 ^ k) = dec_chars n @ replicate k CHR ''0''"
proof (induction k)
  case (Suc k)
  have "dec_chars (n * 10 ^ Suc k) = dec_chars (n * 10 ^ k * 10)" by (simp add: mult_ac)
  then show ?case using Suc by (simp add: dec_chars_times_10 replicate_append_same)
qed simp

lemma strtol_fmt_dec:
  assumes "- (2 ^ 63) \<le> i" and "i < 2 ^ 63"
  shows "strtol 10 (fmt_dec i) = Some (i, [])"
proof -
  let ?n = "nat \<bar>i\<bar>"
  obtain c cs where cs: "dec_chars ?n = c # cs" using dec_chars_digits(2) by (cases "dec_chars ?n") auto
  then have c: "isdigit c" using dec_chars_digits(1) [of ?n] by simp
  have "skip_sign (dropWhile isspace (fmt_dec i)) = (i < 0, dec_chars ?n)"
    using cs c by (auto simp: fmt_dec_def skip_sign_def isspace_def isdigit_def)
  moreover obtain ds where "scan_digits 10 (dec_chars ?n) = (ds, [])" "ds \<noteq> []" "digits_value 10 ds = ?n"
    using scan_dec_chars [of ?n] by (cases "scan_digits 10 (dec_chars ?n)") auto
  ultimately have "scan_int 10 (fmt_dec i) = Some (i < 0, ?n, [])" by (simp add: scan_int_def)
  then show ?thesis using assms by (auto simp: strtol_def)
qed

lemma atoi_fmt_dec:
  assumes "- (2 ^ 31) \<le> i" and "i < 2 ^ 31"
  shows "atoi (fmt_dec i) = i"
proof -
  have "sint (of_int i :: u32) = i" using assms by (simp add: sint_sbintrunc' signed_take_bit_int_eq_self)
  then show ?thesis using strtol_fmt_dec [of i] assms by (simp add: atoi_def)
qed

section \<open>IEEE 754 doubles\<close>

text \<open>
  A double as its kind, sign and scaled magnitude: \<open>D_fin s m e\<close> is \<open>(-1) ^ s * m * 2 ^ e\<close> with
  \<open>m < 2 ^ 53\<close> and \<open>- 1074 \<le> e \<le> 971\<close>, where \<open>m < 2 ^ 52\<close> only if \<open>e = - 1074\<close>.
\<close>

datatype cdouble = D_nan | D_inf bool | D_fin bool nat int

fun bit_len :: "nat \<Rightarrow> nat" where
  "bit_len n = (if n = 0 then 0 else Suc (bit_len (n div 2)))"

declare bit_len.simps [simp del]

definition scale_ratio :: "nat \<Rightarrow> nat \<Rightarrow> int \<Rightarrow> nat \<times> nat" where
  "scale_ratio num den e = (if e \<ge> 0 then (num, den * 2 ^ nat e) else (num * 2 ^ nat (- e), den))"

definition ieee_round :: "nat \<Rightarrow> int \<Rightarrow> int \<Rightarrow> bool \<Rightarrow> nat \<Rightarrow> nat \<Rightarrow> cdouble" where
  "ieee_round p emin emax neg num den =
     (if num = 0 then D_fin neg 0 emin
      else
        let e0 = max emin (int (bit_len num) - int (bit_len den) - int p);
            (a0, b0) = scale_ratio num den e0;
            e = (if a0 div b0 \<ge> 2 ^ p then e0 + 1 else e0);
            (a, b) = scale_ratio num den e;
            q = a div b;
            q' = (if 2 * (a mod b) > b \<or> 2 * (a mod b) = b \<and> odd q then q + 1 else q);
            (m, e') = (if q' = 2 ^ p then (2 ^ (p - 1), e + 1) else (q', e))
        in if e' > emax then D_inf neg else D_fin neg m e')"

definition double_round :: "bool \<Rightarrow> nat \<Rightarrow> nat \<Rightarrow> cdouble" where
  "double_round = ieee_round 53 (- 1074) 971"

definition float_round :: "bool \<Rightarrow> nat \<Rightarrow> nat \<Rightarrow> cdouble" where
  "float_round = ieee_round 24 (- 149) 104"

definition double_of_int :: "int \<Rightarrow> cdouble" where
  "double_of_int i = double_round (i < 0) (nat \<bar>i\<bar>) 1"

text \<open>Comparison with an integer constant, truncation towards zero, and the conversions of C.\<close>

fun d_le :: "cdouble \<Rightarrow> int \<Rightarrow> bool" where
  "d_le D_nan k = False"
| "d_le (D_inf s) k = s"
| "d_le (D_fin s m e) k =
     (let sm = (if s then - int m else int m)
      in if e \<ge> 0 then sm * 2 ^ nat e \<le> k else sm \<le> k * 2 ^ nat (- e))"

fun d_ge :: "cdouble \<Rightarrow> int \<Rightarrow> bool" where
  "d_ge D_nan k = False"
| "d_ge (D_inf s) k = (\<not> s)"
| "d_ge (D_fin s m e) k =
     (let sm = (if s then - int m else int m)
      in if e \<ge> 0 then k \<le> sm * 2 ^ nat e else k * 2 ^ nat (- e) \<le> sm)"

fun d_trunc :: "cdouble \<Rightarrow> int" where
  "d_trunc (D_fin s m e) =
     (let t = (if e \<ge> 0 then int m * 2 ^ nat e else int (m div 2 ^ nat (- e)))
      in if s then - t else t)"
| "d_trunc _ = 0"

text \<open>\<^verbatim>\<open>(int64_t)v\<close>: undefined (\<open>None\<close>) for NaN, infinities and values out of range.\<close>

definition double_to_int64 :: "cdouble \<Rightarrow> int option" where
  "double_to_int64 v =
     (case v of
        D_fin s m e \<Rightarrow>
          (let t = d_trunc v in if - (2 ^ 63) \<le> t \<and> t < 2 ^ 63 then Some t else None)
      | _ \<Rightarrow> None)"

fun double_bits :: "cdouble \<Rightarrow> u64" where
  "double_bits D_nan = 0x7FF8000000000000"
| "double_bits (D_inf s) = (if s then 0xFFF0000000000000 else 0x7FF0000000000000)"
| "double_bits (D_fin s m e) =
     (if s then 2 ^ 63 else 0) +
     (if m < 2 ^ 52 then of_nat m else of_int (e + 1075) * 2 ^ 52 + of_nat (m - 2 ^ 52))"

fun float_bits :: "cdouble \<Rightarrow> u32" where
  "float_bits D_nan = 0x7FC00000"
| "float_bits (D_inf s) = (if s then 0xFF800000 else 0x7F800000)"
| "float_bits (D_fin s m e) =
     (if s then 2 ^ 31 else 0) +
     (if m < 2 ^ 23 then of_nat m else of_int (e + 150) * 2 ^ 23 + of_nat (m - 2 ^ 23))"

text \<open>\<^verbatim>\<open>(float)v\<close>\<close>

fun double_to_float :: "cdouble \<Rightarrow> cdouble" where
  "double_to_float (D_fin s m e) =
     (if e \<ge> 0 then float_round s (m * 2 ^ nat e) 1 else float_round s m (2 ^ nat (- e)))"
| "double_to_float v = v"

section \<open>Floating-point scanner\<close>

definition lower_prefix :: "string \<Rightarrow> string \<Rightarrow> bool" where
  "lower_prefix p s \<longleftrightarrow> map tolower (take (length p) s) = map code_of p"

definition nan_payload :: "string \<Rightarrow> string" where
  "nan_payload s =
     (case s of
        c # t \<Rightarrow>
          if c = CHR ''('' then
            (case dropWhile (\<lambda>x. isalnum x \<or> x = CHR ''_'') t of
               d # r \<Rightarrow> if d = CHR '')'' then r else s
             | [] \<Rightarrow> s)
          else s
      | [] \<Rightarrow> s)"

definition scan_exponent :: "char set \<Rightarrow> string \<Rightarrow> int \<times> string" where
  "scan_exponent marks s =
     (case s of
        [] \<Rightarrow> (0, s)
      | c # t \<Rightarrow>
          if c \<in> marks then
            (let (neg, u) = skip_sign t; (ds, r) = scan_digits 10 u
             in if ds = [] then (0, s)
                else (if neg then - int (digits_value 10 ds) else int (digits_value 10 ds), r))
          else (0, s))"

definition scan_mantissa :: "nat \<Rightarrow> string \<Rightarrow> nat list \<times> nat list \<times> string" where
  "scan_mantissa b s =
     (let (ds, r) = scan_digits b s
      in case r of
           c # t \<Rightarrow>
             if c = CHR ''.'' then
               (let (fs, r') = scan_digits b t in if ds = [] \<and> fs = [] then ([], [], s) else (ds, fs, r'))
             else (ds, [], r)
         | [] \<Rightarrow> (ds, [], r))"

definition strtod :: "string \<Rightarrow> (cdouble \<times> string) option" where
  "strtod s =
     (let (neg, t) = skip_sign (dropWhile isspace s)
      in if lower_prefix ''infinity'' t then Some (D_inf neg, drop 8 t)
         else if lower_prefix ''inf'' t then Some (D_inf neg, drop 3 t)
         else if lower_prefix ''nan'' t then Some (D_nan, nan_payload (drop 3 t))
         else
           let (hs, hf, hr) = scan_mantissa 16 (drop 2 t)
           in if (starts_with ''0x'' t \<or> starts_with ''0X'' t) \<and> hs @ hf \<noteq> [] then
                (let (x, r) = scan_exponent {CHR ''p'', CHR ''P''} hr;
                     e = x - 4 * int (length hf);
                     n = digits_value 16 (hs @ hf)
                 in Some (if e \<ge> 0 then double_round neg (n * 2 ^ nat e) 1
                          else double_round neg n (2 ^ nat (- e)), r))
              else
                let (ds, fs, r0) = scan_mantissa 10 t
                in if ds @ fs = [] then None
                   else
                     (let (x, r) = scan_exponent {CHR ''e'', CHR ''E''} r0;
                          e = x - int (length fs);
                          n = digits_value 10 (ds @ fs)
                      in Some (if e \<ge> 0 then double_round neg (n * 10 ^ nat e) 1
                               else double_round neg n (10 ^ nat (- e)), r)))"

lemmas strtod_defs = strtod_def scan_mantissa_def scan_exponent_def lower_prefix_def starts_with_def
  skip_sign_def digit_of_def digits_value_def double_round_def ieee_round_def scale_ratio_def
  nan_payload_def

section \<open>The range of doubles\<close>

definition double_wf :: "cdouble \<Rightarrow> bool" where
  "double_wf d = (case d of D_fin s m e \<Rightarrow> m < 2 ^ 53 \<and> - 1074 \<le> e \<and> e \<le> 971 | _ \<Rightarrow> True)"

lemma bit_len_props: "0 < n \<Longrightarrow> 0 < bit_len n \<and> 2 ^ (bit_len n - 1) \<le> n \<and> n < 2 ^ bit_len n"
proof (induction n rule: bit_len.induct)
  case (1 n)
  show ?case
  proof (cases "n < 2")
    case True
    with 1 have "n = 1" by simp
    then show ?thesis by (simp add: bit_len.simps)
  next
    case False
    let ?k = "bit_len (n div 2)"
    have ih: "0 < ?k" "2 ^ (?k - 1) \<le> n div 2" "n div 2 < 2 ^ ?k" using 1 False by auto
    have "(2::nat) * 2 ^ (?k - 1) = 2 ^ ?k" using ih(1) by (cases ?k) simp_all
    moreover have "2 * 2 ^ (?k - 1) \<le> n" "n < 2 * 2 ^ ?k" using ih by simp_all
    moreover have "bit_len n = Suc ?k" using False by (subst bit_len.simps) simp
    ultimately show ?thesis by simp
  qed
qed

lemma scale_ratio_step:
  assumes "scale_ratio num den e = (a, b)" and "scale_ratio num den (e + 1) = (a', b')" and "a < 2 * n * b"
  shows "a' < n * b'"
proof (cases "e \<ge> 0")
  case True
  then have "a' = a" "b' = 2 * b" using assms(1,2) by (auto simp: scale_ratio_def nat_add_distrib)
  then show ?thesis using assms(3) by simp
next
  case False
  then have "e = - 1 - int (nat (- e - 1))" by simp
  then obtain k where "e = - 1 - int k" by blast
  then have "a = 2 * a'" "b' = b" using assms(1,2) by (auto simp: scale_ratio_def nat_add_distrib split: if_splits)
  then show ?thesis using assms(3) by simp
qed

lemma scale_ratio_bound:
  assumes "0 < num" "0 < den" and "scale_ratio num den e = (a, b)" and "int (bit_len num) - int (bit_len den) - int p \<le> e"
  shows "a < 2 * 2 ^ p * b \<and> 0 < b"
proof -
  note n = bit_len_props [OF assms(1)] and d = bit_len_props [OF assms(2)]
  show ?thesis
  proof (cases "e \<ge> 0")
    case True
    then obtain k where k: "e = int k" using zero_le_imp_eq_int by blast
    have "num < 2 ^ bit_len num" using n by simp
    also have "\<dots> \<le> 2 ^ (Suc p + (bit_len den - 1) + k)" using assms(4) d unfolding k by (intro power_increasing) auto
    also have "\<dots> = 2 ^ Suc p * (2 ^ (bit_len den - 1) * 2 ^ k)" by (simp only: power_add mult.assoc)
    also have "\<dots> \<le> 2 ^ Suc p * (den * 2 ^ k)" using d by simp
    finally show ?thesis using assms(2,3) k by (auto simp: scale_ratio_def)
  next
    case False
    then obtain k where k: "e = - int k" by (metis int_cases linorder_linear neg_int_cases of_nat_0_le_iff)
    have "num * 2 ^ k < 2 ^ bit_len num * 2 ^ k" using n by simp
    also have "\<dots> = 2 ^ (bit_len num + k)" by (simp add: power_add)
    also have "\<dots> \<le> 2 ^ (Suc p + (bit_len den - 1))" using assms(4) d unfolding k by (intro power_increasing) auto
    also have "\<dots> = 2 ^ Suc p * 2 ^ (bit_len den - 1)" by (simp only: power_add)
    also have "\<dots> \<le> 2 ^ Suc p * den" using d by simp
    finally show ?thesis using assms(2,3) k False by (auto simp: scale_ratio_def)
  qed
qed

lemma ieee_round_range:
  assumes "0 < den" "0 < p" "emin \<le> emax" "ieee_round p emin emax neg num den = D_fin s m e"
  shows "m < 2 ^ p \<and> emin \<le> e \<and> e \<le> emax"
proof (cases "num = 0")
  case True
  then show ?thesis using assms by (auto simp: ieee_round_def)
next
  case False
  define e0 where "e0 = max emin (int (bit_len num) - int (bit_len den) - int p)"
  obtain a0 b0 where ab0: "scale_ratio num den e0 = (a0, b0)" by force
  define e1 where "e1 = (if a0 div b0 \<ge> 2 ^ p then e0 + 1 else e0)"
  obtain a b where ab: "scale_ratio num den e1 = (a, b)" by force
  have r0: "a0 < 2 * 2 ^ p * b0" "0 < b0" using scale_ratio_bound [OF _ assms(1) ab0, of p] False by (simp_all add: e0_def)
  have "a < 2 ^ p * b"
  proof (cases "a0 div b0 \<ge> 2 ^ p")
    case True
    then show ?thesis using scale_ratio_step [OF ab0 _ r0(1)] ab by (simp add: e1_def)
  next
    case False
    then have "a = a0" "b = b0" using ab ab0 by (simp_all add: e1_def)
    then show ?thesis using False r0(2) by (simp add: not_le div_less_iff_less_mult)
  qed
  then have q: "a div b < 2 ^ p" by (simp add: less_mult_imp_div_less)
  have "emin \<le> e1" by (auto simp: e1_def e0_def)
  then show ?thesis using assms(2,4) False q ab ab0
    by (auto simp: ieee_round_def Let_def e0_def [symmetric] e1_def [symmetric] split: if_splits)
qed

lemma double_round_wf: "0 < den \<Longrightarrow> double_wf (double_round neg num den)"
  using ieee_round_range [of den 53 "- 1074" 971 neg num]
  by (auto simp: double_wf_def double_round_def split: cdouble.split)

lemma strtod_wf: "strtod s = Some (v, r) \<Longrightarrow> double_wf v"
  by (auto simp: strtod_def Let_def double_round_wf double_wf_def [of "D_inf _"] double_wf_def [of D_nan]
      split: prod.splits if_splits)

lemma double_of_int_wf: "double_wf (double_of_int i)"
  by (simp add: double_of_int_def double_round_wf)

end
