(* ===== verification/Json.thy ===== *)
theory Json
  imports CLib
begin

text \<open>
  The JSON tree that \<^verbatim>\<open>src/cjson\<close> builds and the accessors the program uses on it. A
  \<^verbatim>\<open>cJSON *\<close> that may be NULL is an option. The saturated integer reading of a number
  (\<open>valueint\<close>) is the one \<^verbatim>\<open>parse_number\<close> stores beside the double. The text parser and
  printer of the library are modelled on these trees in the theories that follow.
\<close>

datatype json =
    J_null
  | J_bool bool
  | J_num cdouble
  | J_str string
  | J_arr "json list"
  | J_obj "(string \<times> json) list"

definition valueint :: "cdouble \<Rightarrow> int" where
  "valueint number =
     (if d_ge number 2147483647 then 2147483647
      else if d_le number (- 2147483648) then - 2147483648
      else d_trunc number)"

definition get_object_item :: "json option \<Rightarrow> string \<Rightarrow> json option" where
  "get_object_item object name =
     (case object of Some (J_obj kvs) \<Rightarrow> map_of kvs name | _ \<Rightarrow> None)"

definition cJSON_GetArraySize :: "json \<Rightarrow> nat" where
  "cJSON_GetArraySize j = (case j of J_arr xs \<Rightarrow> length xs | J_obj kvs \<Rightarrow> length kvs | _ \<Rightarrow> 0)"

definition cJSON_IsArray :: "json option \<Rightarrow> bool" where
  "cJSON_IsArray j = (case j of Some (J_arr _) \<Rightarrow> True | _ \<Rightarrow> False)"

definition cJSON_IsObject :: "json option \<Rightarrow> bool" where
  "cJSON_IsObject j = (case j of Some (J_obj _) \<Rightarrow> True | _ \<Rightarrow> False)"

text \<open>The accessors of the configuration parser (\<^verbatim>\<open>src/config.c\<close>).\<close>

definition get_string :: "json option \<Rightarrow> string \<Rightarrow> string option \<Rightarrow> string option" where
  "get_string obj key default_val =
     (case get_object_item obj key of Some (J_str s) \<Rightarrow> Some s | _ \<Rightarrow> default_val)"

definition get_int :: "json option \<Rightarrow> string \<Rightarrow> int \<Rightarrow> int" where
  "get_int obj key default_val =
     (case get_object_item obj key of Some (J_num n) \<Rightarrow> valueint n | _ \<Rightarrow> default_val)"

definition get_bool :: "json option \<Rightarrow> string \<Rightarrow> bool \<Rightarrow> bool" where
  "get_bool obj key default_val =
     (case get_object_item obj key of Some (J_bool b) \<Rightarrow> b | _ \<Rightarrow> default_val)"

definition get_numeric_value :: "json option \<Rightarrow> string \<Rightarrow> cdouble \<Rightarrow> cdouble" where
  "get_numeric_value obj key default_val =
     (case get_object_item obj key of
        None \<Rightarrow> default_val
      | Some (J_num n) \<Rightarrow> n
      | Some (J_str str) \<Rightarrow>
          if str = [] then default_val
          else if starts_with ''0x'' str \<or> starts_with ''0X'' str then
            (case strtol 16 str of Some (hex_val, []) \<Rightarrow> double_of_int hex_val | _ \<Rightarrow> default_val)
          else
            (case strtod str of Some (dval, []) \<Rightarrow> dval | _ \<Rightarrow> default_val)
      | Some _ \<Rightarrow> default_val)"

text \<open>A string with a non-NULL default.\<close>

abbreviation get_str :: "json option \<Rightarrow> string \<Rightarrow> string \<Rightarrow> string" where
  "get_str obj key d \<equiv> the (get_string obj key (Some d))"

lemma get_string_default [simp]: "\<exists>s. get_string obj key (Some d) = Some s"
  by (auto simp: get_string_def split: option.splits json.splits)

lemma int_div_less:
  fixes x k p :: int
  assumes "0 < p" and "x < k * p"
  shows "x div p < k"
proof (rule ccontr)
  assume "\<not> x div p < k"
  then have "k * p \<le> (x div p) * p" using assms(1) by (intro mult_right_mono) simp_all
  moreover have "(x div p) * p + x mod p = x" by simp
  moreover have "0 \<le> x mod p" using assms(1) by simp
  ultimately show False using assms(2) by linarith
qed

lemma valueint_bounds: "- 2147483648 \<le> valueint v \<and> valueint v \<le> 2147483647"
proof (cases v)
  case (D_fin s m e)
  define p where "p = (2::int) ^ nat (- e)"
  have p: "0 < p" by (simp add: p_def)
  show ?thesis
  proof (cases "0 \<le> e")
    case True
    then show ?thesis by (auto simp: valueint_def D_fin Let_def)
  next
    case False
    have div: "int (m div 2 ^ nat (- e)) = int m div p" by (simp add: p_def zdiv_int)
    have lo: "int m < 2147483647 * p \<Longrightarrow> int m div p < 2147483647"
      using p by (rule int_div_less)
    have hi: "- 2147483648 * p < - int m \<Longrightarrow> int m div p < 2147483648"
      by (rule int_div_less [OF p]) simp
    have nonneg: "0 \<le> int m div p" using p by (simp add: pos_imp_zdiv_nonneg_iff)
    from False lo hi nonneg show ?thesis
      by (auto simp: valueint_def D_fin Let_def div simp flip: p_def)
  qed
qed (auto simp: valueint_def)

end
