(* ===== verification/Config.thy ===== *)
theory Config
  imports Json
begin

text \<open>
  The data of a bus configuration (\<^verbatim>\<open>src/config.h\<close>) and the helpers of \<^verbatim>\<open>src/config.c\<close> that do not
  parse: interface names, hexadecimal fields, data type names and sizes, bus state names. A
  counted heap array is a list; its count is the list's length and its capacity, which the
  program sets to the same number, is left out except in the layout. A fixed \<^verbatim>\<open>char\<close> array holds
  the string before its terminator.
\<close>

section \<open>Data\<close>

datatype ecat_data_type =
    ECAT_DTYPE_UNKNOWN | ECAT_DTYPE_BOOL | ECAT_DTYPE_INT8 | ECAT_DTYPE_UINT8
  | ECAT_DTYPE_INT16 | ECAT_DTYPE_UINT16 | ECAT_DTYPE_INT32 | ECAT_DTYPE_UINT32
  | ECAT_DTYPE_INT64 | ECAT_DTYPE_UINT64 | ECAT_DTYPE_REAL32 | ECAT_DTYPE_REAL64
  | ECAT_DTYPE_PAD | ECAT_DTYPE_BYTESTRING

datatype config_error = ERR_FILE | ERR_PARSE | ERR_MEMORY | ERR_INVALID | ERR_MISSING

type_synonym 'a parsed = "config_error + 'a"

definition ECAT_MAX_MASTERS :: nat where "ECAT_MAX_MASTERS = 4"
definition ECAT_MAX_NAME_LEN :: nat where "ECAT_MAX_NAME_LEN = 64"
definition ECAT_IFNAME_MAX :: nat where "ECAT_IFNAME_MAX = 128"
definition ECAT_LINUX_IFNAME_MAX :: nat where "ECAT_LINUX_IFNAME_MAX = 16"

record ecat_pdo_entry =
  pe_index :: string
  pe_subindex :: u8
  pe_bit_length :: u8
  pe_name :: string
  pe_type :: ecat_data_type

record ecat_pdo =
  pdo_index :: string
  pdo_name :: string
  pdo_entries :: "ecat_pdo_entry list"
  pdo_fixed :: bool

record ecat_sdo_config =
  sdo_index :: string
  sdo_subindex :: u8
  sdo_value :: cdouble
  sdo_value_bytes :: "bytes option"
  sdo_type :: ecat_data_type
  sdo_complete_access :: bool
  sdo_name :: string

record ecat_channel =
  ch_index :: int
  ch_name :: string
  ch_type :: string
  ch_bit_length :: u8
  ch_pdo_index :: string
  ch_pdo_entry_index :: string
  ch_pdo_entry_subindex :: u8

record ecat_startup_checks =
  check_vendor_id :: bool
  check_product_code :: bool

record ecat_timeouts =
  sdo_timeout_ms :: int
  init_to_preop_timeout_ms :: int
  safeop_to_op_timeout_ms :: int

record ecat_watchdog =
  sm_watchdog_enabled :: bool
  sm_watchdog_ms :: int
  pdi_watchdog_enabled :: bool
  pdi_watchdog_ms :: int

record ecat_dc_config =
  dc_enabled :: bool
  sync_unit_cycle_us :: int
  sync0_enabled :: bool
  sync0_cycle_us :: int
  sync0_shift_us :: int
  sync1_enabled :: bool
  sync1_cycle_us :: int
  sync1_shift_us :: int

record ecat_slot_def =
  min_instances :: int
  max_instances :: int
  sl_classes :: "string list"
  sl_idents :: "u32 list"

record ecat_module =
  mod_slot :: int
  mod_ident :: u32
  mod_class_name :: string

record ecat_modular =
  m_present :: bool
  slot_index_increment :: int
  m_slots :: "ecat_slot_def list"
  m_modules :: "ecat_module list"

record ecat_slave =
  position :: int
  sv_name :: string
  sv_type :: string
  vendor_id :: u32
  product_code :: u32
  revision :: u32
  channels :: "ecat_channel list"
  sdo_configs :: "ecat_sdo_config list"
  rx_pdos :: "ecat_pdo list"
  tx_pdos :: "ecat_pdo list"
  startup_checks :: ecat_startup_checks
  ethercat_address :: u16
  timeouts :: ecat_timeouts
  watchdog :: ecat_watchdog
  dc :: ecat_dc_config
  strict_sdo :: bool
  mandatory_pdos :: "string list"
  modular :: ecat_modular

record ecat_master_config =
  interface :: string
  cycle_time_us :: int
  receive_timeout_us :: int
  watchdog_timeout_cycles :: int
  log_level :: string
  task_priority :: int
  safe_close :: bool

record ecat_diagnostics_config =
  log_connections :: bool
  log_data_access :: bool
  log_errors :: bool
  max_log_entries :: int
  status_update_interval_ms :: int

record ecat_config =
  c_master :: ecat_master_config
  c_slaves :: "ecat_slave list"
  c_diagnostics :: ecat_diagnostics_config

section \<open>Interface names\<close>

datatype ecat_iface_validate_mode = ECAT_IFACE_LINUX_STRICT | ECAT_IFACE_ANY_PLATFORM

definition ecat_iface_validate :: "string option \<Rightarrow> ecat_iface_validate_mode \<Rightarrow> bool" where
  "ecat_iface_validate iface mode =
     (case iface of
        None \<Rightarrow> False
      | Some s \<Rightarrow>
          if length s = 0 then False
          else if mode = ECAT_IFACE_LINUX_STRICT then
            (if length s \<ge> ECAT_LINUX_IFNAME_MAX then False
             else if \<not> isalpha (hd s) then False
             else list_all (\<lambda>c. isalnum c \<or> c = CHR ''_'' \<or> c = CHR ''-'') s)
          else if length s \<ge> ECAT_IFNAME_MAX then False
          else list_all (\<lambda>c. isalnum c \<or> c = CHR ''_'' \<or> c = CHR ''-'' \<or> c = CHR 0x5C \<or>
                 c = CHR ''{'' \<or> c = CHR ''}'' \<or> c = CHR ''.'') s)"

definition ecat_is_valid_iface_name :: "string option \<Rightarrow> bool" where
  "ecat_is_valid_iface_name iface = ecat_iface_validate iface ECAT_IFACE_LINUX_STRICT"

section \<open>Hexadecimal fields\<close>

definition safe_strcpy :: "string option \<Rightarrow> nat \<Rightarrow> string" where
  "safe_strcpy src max_len = (case src of None \<Rightarrow> [] | Some s \<Rightarrow> c_copy max_len s)"

definition hex_nibble :: "char \<Rightarrow> u32" where
  "hex_nibble d =
     (let c = tolower d in if c \<le> 57 then of_nat c - 48 else of_nat c - 97 + 10)"

fun parse_hex_digits :: "u32 \<Rightarrow> string \<Rightarrow> u32 option" where
  "parse_hex_digits v [] = Some v"
| "parse_hex_digits v (d # ds) =
     (if \<not> isxdigit d then None else parse_hex_digits (push_bit 4 v OR hex_nibble d) ds)"

definition parse_hex_u32 :: "string \<Rightarrow> u32 option" where
  "parse_hex_u32 s =
     (case s of
        a # b # d \<Rightarrow>
          if (a = CHR ''0'' \<or> a = CHR ''#'') \<and> (b = CHR ''x'' \<or> b = CHR ''X'') then
            (if length d = 0 \<or> length d > 8 then None else parse_hex_digits 0 d)
          else None
      | _ \<Rightarrow> None)"

definition get_hex_u32 :: "json option \<Rightarrow> string \<Rightarrow> u32 \<Rightarrow> u32 option" where
  "get_hex_u32 obj key mx =
     (case get_object_item obj key of
        Some (J_str s) \<Rightarrow>
          (case parse_hex_u32 s of None \<Rightarrow> None | Some v \<Rightarrow> if v > mx then None else Some v)
      | _ \<Rightarrow> None)"

section \<open>Data types and bus states\<close>

fun strcasecmp_local :: "string \<Rightarrow> string \<Rightarrow> int" where
  "strcasecmp_local (a # as) (b # bs) =
     (let diff = int (tolower a) - int (tolower b)
      in if diff \<noteq> 0 then diff else strcasecmp_local as bs)"
| "strcasecmp_local (a # as) [] = int (tolower a)"
| "strcasecmp_local [] (b # bs) = - int (tolower b)"
| "strcasecmp_local [] [] = 0"

definition names :: "string \<Rightarrow> string list \<Rightarrow> bool" where
  "names str alts \<longleftrightarrow> list_ex (\<lambda>a. strcasecmp_local str a = 0) alts"

definition ecat_parse_data_type :: "string \<Rightarrow> ecat_data_type" where
  "ecat_parse_data_type str =
     (if str = [] then ECAT_DTYPE_UNKNOWN
      else if names str [''BOOL''] then ECAT_DTYPE_BOOL
      else if names str [''INT8'', ''SINT''] then ECAT_DTYPE_INT8
      else if names str [''UINT8'', ''USINT'', ''BYTE''] then ECAT_DTYPE_UINT8
      else if names str [''INT16'', ''INT''] then ECAT_DTYPE_INT16
      else if names str [''UINT16'', ''UINT'', ''WORD''] then ECAT_DTYPE_UINT16
      else if names str [''INT32'', ''DINT''] then ECAT_DTYPE_INT32
      else if names str [''UINT32'', ''UDINT'', ''DWORD''] then ECAT_DTYPE_UINT32
      else if names str [''INT64'', ''LINT''] then ECAT_DTYPE_INT64
      else if names str [''UINT64'', ''ULINT'', ''LWORD''] then ECAT_DTYPE_UINT64
      else if names str [''REAL'', ''REAL32'', ''FLOAT''] then ECAT_DTYPE_REAL32
      else if names str [''LREAL'', ''REAL64'', ''DOUBLE''] then ECAT_DTYPE_REAL64
      else if names str [''PAD''] then ECAT_DTYPE_PAD
      else if names str [''VISIBLE_STRING'', ''OCTET_STRING'', ''STRING''] then ECAT_DTYPE_BYTESTRING
      else ECAT_DTYPE_UNKNOWN)"

fun ecat_data_type_size :: "ecat_data_type \<Rightarrow> nat" where
  "ecat_data_type_size ECAT_DTYPE_BOOL = 1"
| "ecat_data_type_size ECAT_DTYPE_INT8 = 1"
| "ecat_data_type_size ECAT_DTYPE_UINT8 = 1"
| "ecat_data_type_size ECAT_DTYPE_INT16 = 2"
| "ecat_data_type_size ECAT_DTYPE_UINT16 = 2"
| "ecat_data_type_size ECAT_DTYPE_INT32 = 4"
| "ecat_data_type_size ECAT_DTYPE_UINT32 = 4"
| "ecat_data_type_size ECAT_DTYPE_INT64 = 8"
| "ecat_data_type_size ECAT_DTYPE_UINT64 = 8"
| "ecat_data_type_size ECAT_DTYPE_REAL32 = 4"
| "ecat_data_type_size ECAT_DTYPE_REAL64 = 8"
| "ecat_data_type_size ECAT_DTYPE_UNKNOWN = 0"
| "ecat_data_type_size ECAT_DTYPE_PAD = 0"
| "ecat_data_type_size ECAT_DTYPE_BYTESTRING = 0"

fun ecat_data_type_to_string :: "ecat_data_type \<Rightarrow> string" where
  "ecat_data_type_to_string ECAT_DTYPE_UNKNOWN = ''UNKNOWN''"
| "ecat_data_type_to_string ECAT_DTYPE_BOOL = ''BOOL''"
| "ecat_data_type_to_string ECAT_DTYPE_INT8 = ''INT8''"
| "ecat_data_type_to_string ECAT_DTYPE_UINT8 = ''UINT8''"
| "ecat_data_type_to_string ECAT_DTYPE_INT16 = ''INT16''"
| "ecat_data_type_to_string ECAT_DTYPE_UINT16 = ''UINT16''"
| "ecat_data_type_to_string ECAT_DTYPE_INT32 = ''INT32''"
| "ecat_data_type_to_string ECAT_DTYPE_UINT32 = ''UINT32''"
| "ecat_data_type_to_string ECAT_DTYPE_INT64 = ''INT64''"
| "ecat_data_type_to_string ECAT_DTYPE_UINT64 = ''UINT64''"
| "ecat_data_type_to_string ECAT_DTYPE_REAL32 = ''REAL32''"
| "ecat_data_type_to_string ECAT_DTYPE_REAL64 = ''REAL64''"
| "ecat_data_type_to_string ECAT_DTYPE_PAD = ''PAD''"
| "ecat_data_type_to_string ECAT_DTYPE_BYTESTRING = ''BYTESTRING''"

datatype ecat_bus_state =
    ECAT_STATE_IDLE | ECAT_STATE_SCANNING | ECAT_STATE_CONFIGURING | ECAT_STATE_TRANSITIONING
  | ECAT_STATE_OPERATIONAL | ECAT_STATE_RECOVERING | ECAT_STATE_ERROR | ECAT_STATE_STOPPED

fun ecat_state_to_string :: "ecat_bus_state \<Rightarrow> string" where
  "ecat_state_to_string ECAT_STATE_IDLE = ''IDLE''"
| "ecat_state_to_string ECAT_STATE_SCANNING = ''SCANNING''"
| "ecat_state_to_string ECAT_STATE_CONFIGURING = ''CONFIGURING''"
| "ecat_state_to_string ECAT_STATE_TRANSITIONING = ''TRANSITIONING''"
| "ecat_state_to_string ECAT_STATE_OPERATIONAL = ''OPERATIONAL''"
| "ecat_state_to_string ECAT_STATE_RECOVERING = ''RECOVERING''"
| "ecat_state_to_string ECAT_STATE_ERROR = ''ERROR''"
| "ecat_state_to_string ECAT_STATE_STOPPED = ''STOPPED''"

section \<open>Theorems\<close>

lemma strcasecmp_cong:
  "map tolower s = map tolower n \<Longrightarrow> strcasecmp_local s t = strcasecmp_local n t"
proof (induction n t arbitrary: s rule: strcasecmp_local.induct)
  case (1 a as b bs)
  from "1.prems" obtain x xs
    where s: "s = x # xs" "tolower x = tolower a" and xs: "map tolower xs = map tolower as"
    by (cases s) auto
  show ?case
  proof (cases "tolower a = tolower b")
    case True
    with "1.IH" [OF refl _ xs] have "strcasecmp_local xs bs = strcasecmp_local as bs" by simp
    with True s show ?thesis by simp
  qed (simp add: s)
next
  case (2 a as)
  then show ?case by (cases s) auto
qed auto

lemma names_cong: "map tolower s = map tolower n \<Longrightarrow> names s alts = names n alts"
  by (simp add: names_def strcasecmp_cong [of s n])

lemma parse_data_type_cong:
  assumes "map tolower s = map tolower n"
  shows "ecat_parse_data_type s = ecat_parse_data_type n"
proof -
  from assms have "s = [] \<longleftrightarrow> n = []" by auto
  then show ?thesis unfolding ecat_parse_data_type_def by (simp add: names_cong [OF assms])
qed

lemma parse_data_type_to_string:
  "ecat_parse_data_type (ecat_data_type_to_string dt) =
     (if dt = ECAT_DTYPE_BYTESTRING then ECAT_DTYPE_UNKNOWN else dt)"
  by (cases dt) (simp_all add: ecat_parse_data_type_def names_def tolower_def Let_def)

text \<open>
  The name printed for a data type, in any letter case, parses back to that type; only the
  printed name of the byte-string type is not one of the names the parser knows.
\<close>

theorem data_type_name_roundtrip:
  "map tolower s = map tolower (ecat_data_type_to_string dt) \<Longrightarrow>
   ecat_parse_data_type s = (if dt = ECAT_DTYPE_BYTESTRING then ECAT_DTYPE_UNKNOWN else dt)"
  by (drule parse_data_type_cong) (simp add: parse_data_type_to_string)

theorem data_type_name_roundtrip_witness:
  "ecat_parse_data_type ''uInt16'' = ECAT_DTYPE_UINT16"
  using data_type_name_roundtrip [of "''uInt16''" ECAT_DTYPE_UINT16] by (simp add: tolower_def)

text \<open>Hexadecimal digits: the value of the characters read, and that no digit is lost.\<close>

definition nibble :: "char \<Rightarrow> nat" where
  "nibble c = (case digit_of c of Some d \<Rightarrow> d | None \<Rightarrow> 0)"

lemma isxdigit_digit_of: "isxdigit c \<longleftrightarrow> (\<exists>d. digit_of c = Some d \<and> d < 16)"
  by (auto simp: ctype_defs digit_of_def)

lemma nibble_less: "isxdigit c \<Longrightarrow> nibble c < 16"
  by (auto simp: isxdigit_digit_of nibble_def)

lemma hex_nibble_eq: "isxdigit c \<Longrightarrow> hex_nibble c = of_nat (nibble c)"
  by (auto simp: ctype_defs digit_of_def nibble_def hex_nibble_def Let_def of_nat_diff)

lemma push_or_nibble:
  fixes v :: u32
  assumes "n < 16" and "unat v < 2 ^ 28"
  shows "unat (push_bit 4 v OR of_nat n) = unat v * 16 + n"
proof -
  have n: "(of_nat n :: u32) = take_bit 4 (of_nat n)"
    using assms(1) by (simp add: take_bit_of_nat flip: of_nat_take_bit) (simp add: take_bit_eq_mod)
  have "push_bit 4 v AND (of_nat n :: u32) = 0"
    by (subst n, rule bit_eqI) (auto simp: bit_simps)
  then have "push_bit 4 v OR of_nat n = push_bit 4 v + of_nat n"
    by (simp add: disjunctive_add_eq_or)
  also have "\<dots> = of_nat (unat v * 16 + n)"
    by (simp add: push_bit_eq_mult)
  finally have "unat (push_bit 4 v OR of_nat n) = (unat v * 16 + n) mod 2 ^ 32"
    by (simp only: unat_of_nat) simp
  then show ?thesis using assms by simp
qed

definition hex_value :: "nat \<Rightarrow> string \<Rightarrow> nat" where
  "hex_value v ds = fold (\<lambda>c a. a * 16 + nibble c) ds v"

lemma hex_value_bound: "list_all isxdigit ds \<Longrightarrow> hex_value v ds < (v + 1) * 16 ^ length ds"
proof (induction ds arbitrary: v)
  case (Cons c ds)
  then have "hex_value (v * 16 + nibble c) ds < (v * 16 + nibble c + 1) * 16 ^ length ds" by simp
  also have "\<dots> \<le> (v + 1) * 16 * 16 ^ length ds"
    using nibble_less [of c] Cons.prems by (intro mult_right_mono) auto
  finally show ?case by (simp add: hex_value_def algebra_simps)
qed (simp add: hex_value_def)

lemma parse_hex_digits_value:
  assumes "length ds \<le> k" and "k \<le> 8" and "unat v < 16 ^ (8 - k)"
  shows "parse_hex_digits v ds =
     (if list_all isxdigit ds then Some (of_nat (hex_value (unat v) ds)) else None)"
  using assms
proof (induction v ds arbitrary: k rule: parse_hex_digits.induct)
  case (2 v d ds)
  show ?case
  proof (cases "isxdigit d")
    case True
    obtain j where k: "k = Suc j" "length ds \<le> j" "j < 8" using "2.prems" by (cases k) auto
    have small: "unat v < 16 ^ (7 - j)" using "2.prems" k by simp
    also have "\<dots> \<le> 16 ^ 7" by (rule power_increasing) simp_all
    finally have "unat v < 2 ^ 28" by simp
    with True have eq: "unat (push_bit 4 v OR hex_nibble d) = unat v * 16 + nibble d"
      by (simp add: hex_nibble_eq push_or_nibble nibble_less)
    have "unat v * 16 + nibble d < (unat v + 1) * 16"
      using nibble_less [OF True] by simp
    also have "\<dots> \<le> 16 ^ (7 - j) * 16" using small by simp
    also have "\<dots> = 16 ^ (8 - j)"
    proof -
      have "8 - j = Suc (7 - j)" using k(3) by simp
      then show ?thesis by (simp only: power_Suc mult.commute)
    qed
    finally have "unat (push_bit 4 v OR hex_nibble d) < 16 ^ (8 - j)" by (simp add: eq)
    with "2.IH" [of j] True k show ?thesis by (simp add: eq hex_value_def)
  qed simp
qed (simp add: hex_value_def)

lemma parse_hex_u32_value:
  "parse_hex_u32 s = Some v \<longleftrightarrow>
     (\<exists>a b d. s = a # b # d \<and> a \<in> {CHR ''0'', CHR ''#''} \<and> b \<in> {CHR ''x'', CHR ''X''} \<and>
        0 < length d \<and> length d \<le> 8 \<and> list_all isxdigit d \<and> unat v = hex_value 0 d)"
proof -
  have "parse_hex_digits 0 d = Some v \<longleftrightarrow> list_all isxdigit d \<and> unat v = hex_value 0 d"
    if "length d \<le> 8" for d
  proof -
    have "hex_value 0 d < 2 ^ 32" if "list_all isxdigit d"
    proof -
      have "hex_value 0 d < 16 ^ length d" using hex_value_bound [OF that, of 0] by simp
      also have "\<dots> \<le> 16 ^ 8" using \<open>length d \<le> 8\<close> by (rule power_increasing) simp
      finally show ?thesis by simp
    qed
    then have "of_nat (hex_value 0 d) = v \<longleftrightarrow> unat v = hex_value 0 d" if "list_all isxdigit d"
      using that by (auto simp: word_unat_eq_iff unat_of_nat)
    with parse_hex_digits_value [of d 8 0] that show ?thesis by auto
  qed
  then show ?thesis
    by (cases s rule: remdups_adj.cases) (auto simp: parse_hex_u32_def)
qed

lemma scan_hex_digits:
  "snd (scan_digits 16 d) = [] \<longleftrightarrow> list_all isxdigit d"
  "list_all isxdigit d \<Longrightarrow> scan_digits 16 d = (map nibble d, [])"
  by (induction d) (auto simp: isxdigit_digit_of nibble_def split: option.splits prod.splits)

lemma digits_value_nibbles: "digits_value 16 (map nibble d) = hex_value 0 d"
  by (simp add: digits_value_def hex_value_def fold_map comp_def)

lemma strtoul_hex:
  assumes "length d \<le> 8"
  shows "strtoul 16 (CHR ''0'' # CHR ''x'' # d) = Some (n, []) \<longleftrightarrow>
     d \<noteq> [] \<and> list_all isxdigit d \<and> n = hex_value 0 d"
proof -
  let ?s = "CHR ''0'' # CHR ''x'' # d"
  have start: "skip_sign (dropWhile isspace ?s) = (False, ?s)"
    by (simp add: skip_sign_def isspace_def)
  have prefix: "has_hex_prefix ?s \<longleftrightarrow> d \<noteq> [] \<and> isxdigit (hd d)"
    by (auto simp: has_hex_prefix_def split: list.splits)
  show ?thesis
  proof (cases "has_hex_prefix ?s")
    case False
    then have "scan_int 16 ?s = Some (False, 0, CHR ''x'' # d)"
      unfolding scan_int_def start by (simp add: digits_value_def digit_of_def isdigit_def)
    with False prefix show ?thesis by (cases d) (auto simp: strtoul_def)
  next
    case True
    obtain ds r where scan: "scan_digits 16 d = (ds, r)" by force
    from True prefix have "ds \<noteq> []"
      using scan by (cases d) (auto simp: isxdigit_digit_of split: option.splits prod.splits)
    then have int: "scan_int 16 ?s = Some (False, digits_value 16 ds, r)"
      using True unfolding scan_int_def start by (simp add: scan)
    show ?thesis
    proof (cases "list_all isxdigit d")
      case False
      with scan scan_hex_digits(1) [of d] have "r \<noteq> []" by simp
      with int False show ?thesis by (simp add: strtoul_def)
    next
      case all: True
      have "hex_value 0 d < 16 ^ length d" using hex_value_bound [OF all, of 0] by simp
      also have "\<dots> \<le> 16 ^ 8" using assms by (rule power_increasing) simp
      finally have "hex_value 0 d < 2 ^ 64" by simp
      with int all scan scan_hex_digits(2) [OF all] True prefix show ?thesis
        by (auto simp: strtoul_def digits_value_nibbles)
    qed
  qed
qed

text \<open>
  On a field with the \<^verbatim>\<open>0x\<close> prefix, \<^verbatim>\<open>parse_hex_u32\<close> accepts exactly 1 to 8 characters that
  \<^verbatim>\<open>strtoul\<close> would consume completely, with the same value: no digit is dropped by the 32-bit
  accumulator and no sign, blank or second prefix slips through.
\<close>

theorem parse_hex_u32_strtoul:
  "parse_hex_u32 (CHR ''0'' # CHR ''x'' # d) = Some v \<longleftrightarrow>
     1 \<le> length d \<and> length d \<le> 8 \<and> strtoul 16 (CHR ''0'' # CHR ''x'' # d) = Some (unat v, [])"
  by (cases "length d \<le> 8") (auto simp: parse_hex_u32_value strtoul_hex Suc_le_eq)

text \<open>The printed form of a 16-bit index parses back.\<close>

lemma hex_char_xdigit: "isxdigit (hex_char d) \<and> nibble (hex_char d) = d mod 16"
proof -
  have "\<forall>i\<in>{..<16}. isxdigit (''0123456789ABCDEF'' ! i) \<and> nibble (''0123456789ABCDEF'' ! i) = i"
    by (simp add: lessThan_nat_numeral lessThan_Suc ctype_defs digit_of_def nibble_def)
  then show ?thesis by (simp add: hex_char_def)
qed

lemma hex_value_append: "hex_value v (a @ b) = hex_value (hex_value v a) b"
  by (simp add: hex_value_def)

lemma hex_chars_value: "list_all isxdigit (hex_chars n) \<and> hex_value 0 (hex_chars n) = n"
  by (induction n rule: hex_chars.induct)
    (subst (1 2) hex_chars.simps, auto simp: hex_char_xdigit hex_value_append, auto simp: hex_value_def hex_char_xdigit)

lemma hex_chars_length: "0 < k \<Longrightarrow> n < 16 ^ k \<Longrightarrow> 0 < length (hex_chars n) \<and> length (hex_chars n) \<le> k"
proof (induction n arbitrary: k rule: hex_chars.induct)
  case (1 n)
  show ?case
  proof (cases "n < 16")
    case True
    with "1.prems" show ?thesis by (subst (1 2) hex_chars.simps) simp
  next
    case False
    with "1.prems" obtain j where k: "k = Suc j" "0 < j" by (cases k rule: nat.exhaust; cases "k - 1") auto
    with "1.prems" have "n div 16 < 16 ^ j" by (simp add: less_mult_imp_div_less mult.commute)
    with "1.IH" [OF False, of j] k False show ?thesis by (subst (1 2) hex_chars.simps) simp
  qed
qed

lemma hex_value_zeros: "hex_value 0 (replicate k CHR ''0'' @ s) = hex_value 0 s"
  by (induction k) (simp_all add: hex_value_def nibble_def digit_of_def isdigit_def)

lemma fmt_hex_parses:
  assumes "n < 65536"
  shows "parse_hex_u32 (''0x'' @ fmt_hex 4 n) = Some (of_nat n)" and "length (fmt_hex 4 n) = 4"
proof -
  have len: "0 < length (hex_chars n)" "length (hex_chars n) \<le> 4"
    using hex_chars_length [of 4 n] assms by simp_all
  have "list_all isxdigit (replicate (4 - length (hex_chars n)) CHR ''0'')"
    by (simp add: list_all_length ctype_defs)
  with len assms hex_chars_value [of n]
  show "parse_hex_u32 (''0x'' @ fmt_hex 4 n) = Some (of_nat n)" and "length (fmt_hex 4 n) = 4"
    by (simp_all add: parse_hex_u32_value fmt_hex_def Let_def hex_value_zeros unat_of_nat)
qed

end
