(* ===== verification/Config_Parse.thy ===== *)
theory Config_Parse
  imports Config
begin

text \<open>
  The section parsers of \<^verbatim>\<open>src/config.c\<close>: from a JSON tree to the records of a configuration, or
  to the error code the code returns. Every \<^verbatim>\<open>calloc\<close> of these functions is sized from one JSON
  node; the parameter \<open>mem\<close> says for which nodes it succeeds. Structures that a failing parse has
  half filled are released by the caller and are not part of the result. Log messages are left
  out, and so are the guards against NULL arguments that no caller passes.
\<close>

section \<open>Master and diagnostics\<close>

definition ecat_config_init_defaults :: ecat_config where
  "ecat_config_init_defaults =
     \<lparr>c_master = \<lparr>interface = ''eth0'', cycle_time_us = 1000, receive_timeout_us = 2000,
                  watchdog_timeout_cycles = 3, log_level = ''info'', task_priority = 90,
                  safe_close = True\<rparr>,
      c_slaves = [],
      c_diagnostics = \<lparr>log_connections = True, log_data_access = False, log_errors = True,
                       max_log_entries = 10000, status_update_interval_ms = 500\<rparr>\<rparr>"

definition parse_master_section :: "json option \<Rightarrow> ecat_master_config \<Rightarrow> ecat_master_config" where
  "parse_master_section master config =
     (let config = config\<lparr>safe_close := True\<rparr>
      in if master = None then config
         else config\<lparr>interface := safe_strcpy (get_string master ''interface'' (Some ''eth0'')) ECAT_IFNAME_MAX,
                     cycle_time_us := get_int master ''cycle_time_us'' 1000,
                     receive_timeout_us := get_int master ''receive_timeout_us'' 2000,
                     watchdog_timeout_cycles := get_int master ''watchdog_timeout_cycles'' 3,
                     log_level := safe_strcpy (get_string master ''log_level'' (Some ''info'')) 8,
                     task_priority := get_int master ''task_priority'' 90,
                     safe_close := get_bool master ''safe_close'' True\<rparr>)"

definition parse_diagnostics_section ::
  "json option \<Rightarrow> ecat_diagnostics_config \<Rightarrow> ecat_diagnostics_config" where
  "parse_diagnostics_section diag config =
     (if diag = None then config
      else config\<lparr>log_connections := get_bool diag ''log_connections'' True,
                  log_data_access := get_bool diag ''log_data_access'' False,
                  log_errors := get_bool diag ''log_errors'' True,
                  max_log_entries := get_int diag ''max_log_entries'' 10000,
                  status_update_interval_ms := get_int diag ''status_update_interval_ms'' 500\<rparr>)"

section \<open>PDOs\<close>

text \<open>The loop shared by the array fields: allocate for the elements, then parse them in order.\<close>

definition parse_elements ::
  "(json \<Rightarrow> bool) \<Rightarrow> (json \<Rightarrow> 'a parsed) \<Rightarrow> json option \<Rightarrow> 'a list parsed" where
  "parse_elements mem f arr =
     (case arr of
        Some (J_arr xs) \<Rightarrow>
          if xs = [] then Inr []
          else if \<not> mem (J_arr xs) then Inl ERR_MEMORY
          else map_result f xs
      | _ \<Rightarrow> Inr [])"

definition parse_pdo_entry :: "json \<Rightarrow> ecat_pdo_entry parsed" where
  "parse_pdo_entry entry_json =
     (let j = Some entry_json;
          index = safe_strcpy (get_string j ''index'' (Some ''0x0000'')) 12
      in case parse_hex_u32 index of
           None \<Rightarrow> Inl ERR_INVALID
         | Some idx \<Rightarrow>
             if idx > 0xFFFF then Inl ERR_INVALID
             else Inr \<lparr>pe_index = index,
                       pe_subindex = of_int (get_int j ''subindex'' 0),
                       pe_bit_length = of_int (get_int j ''bit_length'' 0),
                       pe_name = safe_strcpy (get_string j ''name'' (Some [])) ECAT_MAX_NAME_LEN,
                       pe_type = ecat_parse_data_type (get_str j ''data_type'' [])\<rparr>)"

definition parse_pdo :: "(json \<Rightarrow> bool) \<Rightarrow> json \<Rightarrow> ecat_pdo parsed" where
  "parse_pdo mem pdo_json =
     (let j = Some pdo_json;
          index = safe_strcpy (get_string j ''index'' (Some ''0x0000'')) 12
      in case parse_hex_u32 index of
           None \<Rightarrow> Inl ERR_INVALID
         | Some idx \<Rightarrow>
             if idx = 0 \<or> idx > 0xFFFF then Inl ERR_INVALID
             else bind_result (parse_elements mem parse_pdo_entry (get_object_item j ''entries'')) (\<lambda>es.
                  Inr \<lparr>pdo_index = index,
                       pdo_name = safe_strcpy (get_string j ''name'' (Some [])) ECAT_MAX_NAME_LEN,
                       pdo_entries = es,
                       pdo_fixed = get_bool j ''fixed'' False\<rparr>))"

definition parse_pdo_array :: "(json \<Rightarrow> bool) \<Rightarrow> json option \<Rightarrow> ecat_pdo list parsed" where
  "parse_pdo_array mem pdo_array = parse_elements mem (parse_pdo mem) pdo_array"

section \<open>SDOs\<close>

definition FLT_MAX :: int where "FLT_MAX = (2 ^ 24 - 1) * 2 ^ 104"

fun d_finite :: "cdouble \<Rightarrow> bool" where
  "d_finite (D_fin s m e) = True"
| "d_finite _ = False"

definition d_between :: "int \<Rightarrow> cdouble \<Rightarrow> int \<Rightarrow> bool" where
  "d_between lo v hi \<longleftrightarrow> d_ge v lo \<and> d_le v hi"

text \<open>
  The bounds of the 64-bit types are the doubles nearest to the literals \<^verbatim>\<open>9.223372036854776e18\<close>
  and \<^verbatim>\<open>1.844674407370955e19\<close>.
\<close>

definition sdo_value_in_range :: "ecat_data_type \<Rightarrow> cdouble \<Rightarrow> bool" where
  "sdo_value_in_range dt v =
     (if \<not> d_finite v then False
      else case dt of
        ECAT_DTYPE_BOOL \<Rightarrow> d_between 0 v 0 \<or> d_between 1 v 1
      | ECAT_DTYPE_INT8 \<Rightarrow> d_between (- 128) v 127
      | ECAT_DTYPE_UINT8 \<Rightarrow> d_between 0 v 255
      | ECAT_DTYPE_INT16 \<Rightarrow> d_between (- 32768) v 32767
      | ECAT_DTYPE_UINT16 \<Rightarrow> d_between 0 v 65535
      | ECAT_DTYPE_INT32 \<Rightarrow> d_between (- 2147483648) v 2147483647
      | ECAT_DTYPE_UINT32 \<Rightarrow> d_between 0 v 4294967295
      | ECAT_DTYPE_INT64 \<Rightarrow> d_between (- (2 ^ 63)) v (2 ^ 63)
      | ECAT_DTYPE_UINT64 \<Rightarrow> d_between 0 v (2 ^ 64 - 2048)
      | ECAT_DTYPE_REAL32 \<Rightarrow> d_between (- FLT_MAX) v FLT_MAX
      | ECAT_DTYPE_REAL64 \<Rightarrow> True
      | ECAT_DTYPE_UNKNOWN \<Rightarrow> False
      | ECAT_DTYPE_PAD \<Rightarrow> False
      | ECAT_DTYPE_BYTESTRING \<Rightarrow> False)"

fun parse_hex_pairs :: "string \<Rightarrow> bytes option" where
  "parse_hex_pairs (a # b # s) =
     (let v = (if isxdigit a \<and> isxdigit b
               then (case strtol 16 [a, b] of Some (x, _) \<Rightarrow> x | None \<Rightarrow> 0) else - 1)
      in if v < 0 \<or> v > 0xFF then None
         else (case parse_hex_pairs s of None \<Rightarrow> None | Some bs \<Rightarrow> Some (of_int v # bs)))"
| "parse_hex_pairs _ = Some []"

definition parse_value_bytes :: "(json \<Rightarrow> bool) \<Rightarrow> string \<Rightarrow> bytes parsed" where
  "parse_value_bytes mem s =
     (if starts_with ''0x'' s \<or> starts_with ''0X'' s then
        (let hexlen = length s - 2
         in if hexlen = 0 \<or> hexlen mod 2 \<noteq> 0 then Inl ERR_INVALID
            else if \<not> mem (J_str s) then Inl ERR_MEMORY
            else (case parse_hex_pairs (drop 2 s) of None \<Rightarrow> Inl ERR_INVALID | Some bs \<Rightarrow> Inr bs))
      else if \<not> mem (J_str s) then Inl ERR_MEMORY
      else Inr (map (\<lambda>c. of_nat (code_of c)) s))"

definition parse_sdo_index :: "json \<Rightarrow> string parsed" where
  "parse_sdo_index sdo_json =
     (case get_string (Some sdo_json) ''index'' None of
        None \<Rightarrow> Inl ERR_MISSING
      | Some idx_str \<Rightarrow>
          if idx_str = [] then Inl ERR_MISSING
          else (case strtoul 0 idx_str of
                  Some (idx, []) \<Rightarrow>
                    if idx = 0 \<or> idx > 0xFFFF then Inl ERR_INVALID
                    else Inr (c_copy 12 (''0x'' @ fmt_hex 4 idx))
                | _ \<Rightarrow> Inl ERR_INVALID))"

definition parse_sdo_subindex :: "json \<Rightarrow> u8 parsed" where
  "parse_sdo_subindex sdo_json =
     (case get_object_item (Some sdo_json) ''subindex'' of
        None \<Rightarrow> Inr 0
      | Some (J_num n) \<Rightarrow>
          if valueint n \<ge> 0 \<and> valueint n \<le> 255 then Inr (of_int (valueint n)) else Inl ERR_INVALID
      | Some _ \<Rightarrow> Inl ERR_INVALID)"

definition parse_sdo :: "(json \<Rightarrow> bool) \<Rightarrow> json \<Rightarrow> ecat_sdo_config parsed" where
  "parse_sdo mem sdo_json =
     bind_result (parse_sdo_index sdo_json) (\<lambda>index.
     bind_result (parse_sdo_subindex sdo_json) (\<lambda>subindex.
       let j = Some sdo_json;
           ptype = ecat_parse_data_type (get_str j ''data_type'' []);
           vbytes = get_string j ''value_bytes'' None;
           sdo = \<lparr>sdo_index = index, sdo_subindex = subindex, sdo_value = D_fin False 0 (- 1074),
                  sdo_value_bytes = None, sdo_type = ptype,
                  sdo_complete_access = get_bool j ''complete_access'' False,
                  sdo_name = safe_strcpy (get_string j ''name'' (Some [])) ECAT_MAX_NAME_LEN\<rparr>
       in if ptype = ECAT_DTYPE_UNKNOWN \<or> ptype = ECAT_DTYPE_PAD then Inl ERR_INVALID
          else if vbytes \<noteq> None \<and> ptype \<noteq> ECAT_DTYPE_BYTESTRING then Inl ERR_INVALID
          else if ptype = ECAT_DTYPE_BYTESTRING \<and> vbytes = None then Inl ERR_INVALID
          else (case vbytes of
                  Some s \<Rightarrow>
                    bind_result (parse_value_bytes mem s) (\<lambda>bs. Inr (sdo\<lparr>sdo_value_bytes := Some bs\<rparr>))
                | None \<Rightarrow>
                    let v = get_numeric_value j ''value'' (D_fin False 0 (- 1074))
                    in if sdo_value_in_range ptype v then Inr (sdo\<lparr>sdo_value := v\<rparr>)
                       else Inl ERR_INVALID)))"

section \<open>Slaves\<close>

definition parse_channel :: "json \<Rightarrow> ecat_channel parsed" where
  "parse_channel ch_json =
     (let j = Some ch_json
      in Inr \<lparr>ch_index = get_int j ''index'' 0,
              ch_name = safe_strcpy (get_string j ''name'' (Some [])) ECAT_MAX_NAME_LEN,
              ch_type = safe_strcpy (get_string j ''type'' (Some [])) 20,
              ch_bit_length = of_int (get_int j ''bit_length'' 0),
              ch_pdo_index = safe_strcpy (get_string j ''pdo_index'' (Some [])) 12,
              ch_pdo_entry_index = safe_strcpy (get_string j ''pdo_entry_index'' (Some [])) 12,
              ch_pdo_entry_subindex = of_int (get_int j ''pdo_entry_subindex'' 0)\<rparr>)"

definition parse_mandatory_pdos :: "(json \<Rightarrow> bool) \<Rightarrow> json \<Rightarrow> string list parsed" where
  "parse_mandatory_pdos mem slave_json =
     (case get_object_item (Some slave_json) ''mandatory_pdos'' of
        None \<Rightarrow> Inr []
      | Some (J_arr items) \<Rightarrow>
          if items = [] then Inr []
          else if \<not> mem (J_arr items) then Inl ERR_MEMORY
          else map_result (\<lambda>item.
                 case item of
                   J_str s \<Rightarrow>
                     (case parse_hex_u32 s of
                        None \<Rightarrow> Inl ERR_INVALID
                      | Some idx \<Rightarrow>
                          if idx > 0xFFFF then Inl ERR_INVALID
                          else Inr (c_copy 12 (''0x'' @ fmt_hex 4 (unat idx))))
                 | _ \<Rightarrow> Inl ERR_INVALID) items
      | Some _ \<Rightarrow> Inl ERR_INVALID)"

definition parse_slot_def :: "(json \<Rightarrow> bool) \<Rightarrow> json \<Rightarrow> ecat_slot_def parsed" where
  "parse_slot_def mem json =
     (let j = Some json;
          mn = get_int j ''min_instances'' 0;
          mx = get_int j ''max_instances'' 0
      in if mn < 0 \<or> mx < 1 \<or> mn > mx then Inl ERR_INVALID
         else
           bind_result (parse_elements mem (\<lambda>c. case c of J_str s \<Rightarrow> Inr (safe_strcpy (Some s) ECAT_MAX_NAME_LEN)
                                                      | _ \<Rightarrow> Inl ERR_INVALID)
                          (get_object_item j ''module_classes'')) (\<lambda>classes.
           bind_result (parse_elements mem (\<lambda>i. case i of J_str s \<Rightarrow>
                                                 (case parse_hex_u32 s of None \<Rightarrow> Inl ERR_INVALID
                                                                        | Some v \<Rightarrow> Inr v)
                                                      | _ \<Rightarrow> Inl ERR_INVALID)
                          (get_object_item j ''module_idents'')) (\<lambda>idents.
           Inr \<lparr>min_instances = mn, max_instances = mx, sl_classes = classes, sl_idents = idents\<rparr>)))"

definition parse_module :: "json \<Rightarrow> ecat_module parsed" where
  "parse_module mj =
     (let slot = get_int (Some mj) ''slot'' 0
      in if slot < 1 then Inl ERR_INVALID
         else (case get_hex_u32 (Some mj) ''ident'' 0xFFFFFFFF of
                 None \<Rightarrow> Inl ERR_INVALID
               | Some ident \<Rightarrow>
                   Inr \<lparr>mod_slot = slot, mod_ident = ident,
                        mod_class_name = safe_strcpy (get_string (Some mj) ''class'' (Some [])) ECAT_MAX_NAME_LEN\<rparr>))"

definition no_modular :: ecat_modular where
  "no_modular = \<lparr>m_present = False, slot_index_increment = 0, m_slots = [], m_modules = []\<rparr>"

definition parse_modular :: "(json \<Rightarrow> bool) \<Rightarrow> json option \<Rightarrow> ecat_modular parsed" where
  "parse_modular mem json =
     (if json = None then Inr no_modular
      else if \<not> cJSON_IsObject json then Inl ERR_INVALID
      else let inc = get_int json ''slot_index_increment'' 0
           in if inc < 0 \<or> inc > 0x0FFF then Inl ERR_INVALID
              else
                bind_result (parse_elements mem (parse_slot_def mem) (get_object_item json ''slots'')) (\<lambda>slots.
                bind_result (parse_elements mem parse_module (get_object_item json ''modules'')) (\<lambda>modules.
                Inr \<lparr>m_present = True, slot_index_increment = inc, m_slots = slots, m_modules = modules\<rparr>)))"

text \<open>The optional \<^verbatim>\<open>config\<close> object of a slave: each sub-object overrides the defaults when present.\<close>

definition default_slave_config :: "ecat_slave \<Rightarrow> ecat_slave" where
  "default_slave_config slave =
     slave\<lparr>startup_checks := \<lparr>check_vendor_id = True, check_product_code = True\<rparr>,
           ethercat_address := 0,
           timeouts := \<lparr>sdo_timeout_ms = 1000, init_to_preop_timeout_ms = 3000,
                        safeop_to_op_timeout_ms = 10000\<rparr>,
           watchdog := \<lparr>sm_watchdog_enabled = True, sm_watchdog_ms = 100,
                        pdi_watchdog_enabled = False, pdi_watchdog_ms = 100\<rparr>,
           dc := \<lparr>dc_enabled = False, sync_unit_cycle_us = 0, sync0_enabled = False,
                  sync0_cycle_us = 0, sync0_shift_us = 0, sync1_enabled = False,
                  sync1_cycle_us = 0, sync1_shift_us = 0\<rparr>,
           strict_sdo := True\<rparr>"

definition positive_or :: "int \<Rightarrow> int \<Rightarrow> int" where
  "positive_or val d = (if val > 0 then val else d)"

definition parse_startup_checks :: "json option \<Rightarrow> ecat_slave \<Rightarrow> ecat_slave" where
  "parse_startup_checks sc slave =
     (if \<not> cJSON_IsObject sc then slave
      else slave\<lparr>startup_checks :=
        \<lparr>check_vendor_id = get_bool sc ''check_vendor_id'' True,
         check_product_code = get_bool sc ''check_product_code'' True\<rparr>\<rparr>)"

definition parse_addressing :: "json option \<Rightarrow> ecat_slave \<Rightarrow> ecat_slave" where
  "parse_addressing addr slave =
     (if \<not> cJSON_IsObject addr then slave
      else slave\<lparr>ethercat_address := of_int (get_int addr ''ethercat_address'' 0)\<rparr>)"

definition parse_timeouts :: "json option \<Rightarrow> ecat_slave \<Rightarrow> ecat_slave" where
  "parse_timeouts to slave =
     (let old = timeouts slave
      in if \<not> cJSON_IsObject to then slave
         else slave\<lparr>timeouts :=
           \<lparr>sdo_timeout_ms = positive_or (get_int to ''sdo_timeout_ms'' 1000) (sdo_timeout_ms old),
            init_to_preop_timeout_ms =
              positive_or (get_int to ''init_to_preop_timeout_ms'' 3000) (init_to_preop_timeout_ms old),
            safeop_to_op_timeout_ms =
              positive_or (get_int to ''safeop_to_op_timeout_ms'' 10000) (safeop_to_op_timeout_ms old)\<rparr>\<rparr>)"

definition parse_watchdog :: "json option \<Rightarrow> ecat_slave \<Rightarrow> ecat_slave" where
  "parse_watchdog wd slave =
     (let old = watchdog slave
      in if \<not> cJSON_IsObject wd then slave
         else slave\<lparr>watchdog :=
           \<lparr>sm_watchdog_enabled = get_bool wd ''sm_watchdog_enabled'' True,
            sm_watchdog_ms = positive_or (get_int wd ''sm_watchdog_ms'' 100) (sm_watchdog_ms old),
            pdi_watchdog_enabled = get_bool wd ''pdi_watchdog_enabled'' False,
            pdi_watchdog_ms = positive_or (get_int wd ''pdi_watchdog_ms'' 100) (pdi_watchdog_ms old)\<rparr>\<rparr>)"

definition parse_dc :: "json option \<Rightarrow> ecat_slave \<Rightarrow> ecat_slave" where
  "parse_dc d slave =
     (if \<not> cJSON_IsObject d then slave
      else slave\<lparr>dc :=
        \<lparr>dc_enabled = get_bool d ''enabled'' False,
         sync_unit_cycle_us = get_int d ''sync_unit_cycle_us'' 0,
         sync0_enabled = get_bool d ''sync0_enabled'' False,
         sync0_cycle_us = get_int d ''sync0_cycle_us'' 0,
         sync0_shift_us = get_int d ''sync0_shift_us'' 0,
         sync1_enabled = get_bool d ''sync1_enabled'' False,
         sync1_cycle_us = get_int d ''sync1_cycle_us'' 0,
         sync1_shift_us = get_int d ''sync1_shift_us'' 0\<rparr>\<rparr>)"

definition parse_slave_config :: "json option \<Rightarrow> ecat_slave \<Rightarrow> ecat_slave" where
  "parse_slave_config cfg slave =
     (if \<not> cJSON_IsObject cfg then slave
      else parse_dc (get_object_item cfg ''distributed_clocks'')
             (parse_watchdog (get_object_item cfg ''watchdog'')
               (parse_timeouts (get_object_item cfg ''timeouts'')
                 (parse_addressing (get_object_item cfg ''addressing'')
                   (parse_startup_checks (get_object_item cfg ''startup_checks'')
                     (slave\<lparr>strict_sdo := get_bool cfg ''strict_sdo'' True\<rparr>))))))"

definition parse_revision :: "json \<Rightarrow> u32 parsed" where
  "parse_revision slave_json =
     (if get_object_item (Some slave_json) ''revision'' = None then Inr 0
      else case get_hex_u32 (Some slave_json) ''revision'' 0xFFFFFFFF of
             None \<Rightarrow> Inl ERR_INVALID | Some r \<Rightarrow> Inr r)"

definition zero_slave :: ecat_slave where
  "zero_slave =
     \<lparr>position = 0, sv_name = [], sv_type = [], vendor_id = 0, product_code = 0, revision = 0,
      channels = [], sdo_configs = [], rx_pdos = [], tx_pdos = [],
      startup_checks = \<lparr>check_vendor_id = False, check_product_code = False\<rparr>,
      ethercat_address = 0,
      timeouts = \<lparr>sdo_timeout_ms = 0, init_to_preop_timeout_ms = 0, safeop_to_op_timeout_ms = 0\<rparr>,
      watchdog = \<lparr>sm_watchdog_enabled = False, sm_watchdog_ms = 0, pdi_watchdog_enabled = False,
                  pdi_watchdog_ms = 0\<rparr>,
      dc = \<lparr>dc_enabled = False, sync_unit_cycle_us = 0, sync0_enabled = False, sync0_cycle_us = 0,
            sync0_shift_us = 0, sync1_enabled = False, sync1_cycle_us = 0, sync1_shift_us = 0\<rparr>,
      strict_sdo = False, mandatory_pdos = [], modular = no_modular\<rparr>"

definition parse_slave :: "(json \<Rightarrow> bool) \<Rightarrow> json \<Rightarrow> ecat_slave parsed" where
  "parse_slave mem slave_json =
     (let j = Some slave_json
      in case (get_hex_u32 j ''vendor_id'' 0xFFFFFFFF, get_hex_u32 j ''product_code'' 0xFFFFFFFF) of
           (Some vendor, Some product) \<Rightarrow>
             bind_result (parse_revision slave_json) (\<lambda>rev.
             bind_result (parse_elements mem parse_channel (get_object_item j ''channels'')) (\<lambda>chans.
             bind_result (parse_elements mem (parse_sdo mem) (get_object_item j ''sdo_configurations'')) (\<lambda>sdos.
             bind_result (parse_pdo_array mem (get_object_item j ''rx_pdos'')) (\<lambda>rx.
             bind_result (parse_pdo_array mem (get_object_item j ''tx_pdos'')) (\<lambda>tx.
             bind_result (parse_mandatory_pdos mem slave_json) (\<lambda>mand.
             bind_result (parse_modular mem (get_object_item j ''modular'')) (\<lambda>md.
             Inr (parse_slave_config (get_object_item j ''config'')
                   (default_slave_config
                     (zero_slave\<lparr>position := get_int j ''position'' 0,
                       sv_name := safe_strcpy (get_string j ''name'' (Some [])) ECAT_MAX_NAME_LEN,
                       sv_type := safe_strcpy (get_string j ''type'' (Some ''coupler'')) 20,
                       vendor_id := vendor, product_code := product, revision := rev,
                       channels := chans, sdo_configs := sdos, rx_pdos := rx, tx_pdos := tx,
                       mandatory_pdos := mand, modular := md\<rparr>))))))))))
         | _ \<Rightarrow> Inl ERR_INVALID)"

definition parse_slaves_section :: "(json \<Rightarrow> bool) \<Rightarrow> json option \<Rightarrow> ecat_slave list parsed" where
  "parse_slaves_section mem slaves = parse_elements mem (parse_slave mem) slaves"

end
