(* ===== verification/Config_Validate.thy ===== *)
theory Config_Validate
  imports Config_Parse
begin

text \<open>
  The checks a parsed configuration passes (\<^verbatim>\<open>ecat_config_validate\<close>) and the two entry points of
  \<^verbatim>\<open>src/config.c\<close>, \<^verbatim>\<open>ecat_config_parse\<close> and \<^verbatim>\<open>ecat_config_parse_all\<close>. The file on disk is an
  argument (\<open>None\<close> when it cannot be opened, allocated or read completely) and so is
  \<open>cJSON_Parse\<close>. The theorems state what every accepted configuration satisfies.
\<close>

section \<open>Slave checks\<close>

definition pdo_index_value :: "string \<Rightarrow> u32" where
  "pdo_index_value index = (case parse_hex_u32 index of Some v \<Rightarrow> v | None \<Rightarrow> 0)"

definition slot_accepts :: "ecat_slot_def \<Rightarrow> ecat_module \<Rightarrow> bool" where
  "slot_accepts def m =
     (if sl_classes def = [] \<and> sl_idents def = [] then True
      else if mod_ident m \<in> set (sl_idents def) then True
      else if mod_class_name m = [] then False
      else mod_class_name m \<in> set (sl_classes def))"

fun rising_slots :: "int \<Rightarrow> ecat_module list \<Rightarrow> int option" where
  "rising_slots lst [] = Some lst"
| "rising_slots lst (m # ms) = (if mod_slot m \<le> lst then None else rising_slots (mod_slot m) ms)"

text \<open>
  The position in the slot definitions is the list of definitions from the current one on; the
  position in the modules is the list of those not yet placed.
\<close>

fun advance_def :: "ecat_module option \<Rightarrow> ecat_slot_def list \<Rightarrow> int \<Rightarrow> ecat_slot_def list \<times> int" where
  "advance_def m [] count = ([], count)"
| "advance_def m (d # ds) count =
     (if count \<ge> max_instances d \<or>
         (case m of None \<Rightarrow> False | Some x \<Rightarrow> \<not> slot_accepts d x \<and> count \<ge> min_instances d)
      then advance_def m ds 0 else (d # ds, count))"

definition module_in_slot :: "int \<Rightarrow> ecat_module list \<Rightarrow> ecat_module option \<times> ecat_module list" where
  "module_in_slot slot ms =
     (case ms of
        m # rest \<Rightarrow> if mod_slot m = slot then (Some m, rest) else (None, ms)
      | [] \<Rightarrow> (None, []))"

function fill_slots ::
  "int \<Rightarrow> int \<Rightarrow> ecat_module list \<Rightarrow> ecat_slot_def list \<Rightarrow> int \<Rightarrow> (ecat_slot_def list \<times> int) option" where
  "fill_slots slot lst ms ds count =
     (if slot > lst then Some (ds, count)
      else
        let (m, rest) = module_in_slot slot ms
        in case advance_def m ds count of
             ([], _) \<Rightarrow> None
           | (d # ds', count') \<Rightarrow>
               if (case m of None \<Rightarrow> False | Some x \<Rightarrow> \<not> slot_accepts d x) then None
               else fill_slots (slot + 1) lst rest (d # ds') (count' + 1))"
  by pat_completeness auto
termination by (relation "measure (\<lambda>(slot, lst, _). nat (lst + 1 - slot))") auto

declare fill_slots.simps [simp del]

definition min_met :: "ecat_slot_def list \<Rightarrow> int \<Rightarrow> bool" where
  "min_met ds count =
     (case ds of
        [] \<Rightarrow> True
      | d # ds' \<Rightarrow> count \<ge> min_instances d \<and> list_all (\<lambda>x. 0 \<ge> min_instances x) ds')"

definition validate_station :: "ecat_slave \<Rightarrow> bool" where
  "validate_station slave =
     (let m = modular slave
      in if m_slots m = [] \<and> m_modules m = [] then True
         else if \<not> m_present m \<or> m_slots m = [] then False
         else case rising_slots 0 (m_modules m) of
                None \<Rightarrow> False
              | Some lst \<Rightarrow>
                  (case fill_slots 1 lst (m_modules m) (m_slots m) 0 of
                     None \<Rightarrow> False
                   | Some (ds, count) \<Rightarrow> min_met ds count))"

definition assigned_pdos :: "ecat_slave \<Rightarrow> ecat_pdo list" where
  "assigned_pdos slave = rx_pdos slave @ tx_pdos slave"

fun no_pdo_twice :: "ecat_pdo list \<Rightarrow> bool" where
  "no_pdo_twice [] = True"
| "no_pdo_twice (pa # ps) =
     (list_all (\<lambda>pb. pdo_index_value (pdo_index pa) \<noteq> pdo_index_value (pdo_index pb)) ps \<and>
      no_pdo_twice ps)"

definition validate_pdos :: "ecat_slave \<Rightarrow> bool" where
  "validate_pdos slave =
     (no_pdo_twice (assigned_pdos slave) \<and>
      list_all (\<lambda>want. list_ex (\<lambda>p. pdo_index_value (pdo_index p) = pdo_index_value want)
                         (assigned_pdos slave))
        (mandatory_pdos slave))"

fun validate_slaves :: "ecat_slave list \<Rightarrow> bool" where
  "validate_slaves [] = True"
| "validate_slaves (s # ss) =
     (if position s < 1 \<or> vendor_id s = 0 \<or> product_code s = 0 then False
      else if list_ex (\<lambda>t. position s = position t) ss then False
      else if \<not> validate_pdos s then False
      else if \<not> validate_station s then False
      else validate_slaves ss)"

definition ecat_config_validate :: "ecat_config \<Rightarrow> unit parsed" where
  "ecat_config_validate config =
     (if interface (c_master config) = [] then Inl ERR_INVALID
      else if cycle_time_us (c_master config) < 1 \<or> receive_timeout_us (c_master config) < 1
      then Inl ERR_INVALID
      else if validate_slaves (c_slaves config) then Inr () else Inl ERR_INVALID)"

section \<open>Entry points\<close>

definition read_file :: "string option \<Rightarrow> string option" where
  "read_file file =
     (case file of
        None \<Rightarrow> None
      | Some text \<Rightarrow> if length text = 0 \<or> length text > 1024 * 1024 then None else Some text)"

definition parse_sections :: "(json \<Rightarrow> bool) \<Rightarrow> json option \<Rightarrow> ecat_config parsed" where
  "parse_sections mem config_obj =
     (let config = ecat_config_init_defaults;
          config = config\<lparr>c_master :=
            parse_master_section (get_object_item config_obj ''master'') (c_master config)\<rparr>
      in bind_result (parse_slaves_section mem (get_object_item config_obj ''slaves'')) (\<lambda>ss.
         let config = config\<lparr>c_slaves := ss,
               c_diagnostics := parse_diagnostics_section (get_object_item config_obj ''diagnostics'')
                                  (c_diagnostics config)\<rparr>
         in bind_result (ecat_config_validate config) (\<lambda>_. Inr config)))"

definition first_config :: "json \<Rightarrow> json option" where
  "first_config root =
     (case root of
        J_arr [] \<Rightarrow> None
      | J_arr (x # _) \<Rightarrow> get_object_item (Some x) ''config''
      | J_obj _ \<Rightarrow>
          (case get_object_item (Some root) ''config'' of None \<Rightarrow> Some root | Some c \<Rightarrow> Some c)
      | _ \<Rightarrow> None)"

definition ecat_config_parse ::
  "(json \<Rightarrow> bool) \<Rightarrow> (string \<Rightarrow> json option) \<Rightarrow> string option \<Rightarrow> ecat_config parsed" where
  "ecat_config_parse mem cJSON_Parse file =
     (case read_file file of
        None \<Rightarrow> Inl ERR_FILE
      | Some text \<Rightarrow>
          (case cJSON_Parse text of
             None \<Rightarrow> Inl ERR_PARSE
           | Some root \<Rightarrow>
               (case first_config root of
                  None \<Rightarrow> Inl ERR_PARSE
                | Some config_obj \<Rightarrow> parse_sections mem (Some config_obj))))"

text \<open>
  The loop over the entries of an array root; \<open>insts\<close> are the instances filled so far. Entries of
  another protocol or without a configuration are skipped.
\<close>

fun parse_entries ::
  "(json \<Rightarrow> bool) \<Rightarrow> nat \<Rightarrow> (string \<times> ecat_config) list \<Rightarrow> json list \<Rightarrow> (string \<times> ecat_config) list parsed" where
  "parse_entries mem max_masters insts [] = Inr insts"
| "parse_entries mem max_masters insts (entry # es) =
     (if strcasecmp_local (get_str (Some entry) ''protocol'' []) ''ETHERCAT'' \<noteq> 0
      then parse_entries mem max_masters insts es
      else case get_object_item (Some entry) ''config'' of
             None \<Rightarrow> parse_entries mem max_masters insts es
           | Some config_obj \<Rightarrow>
               if length insts \<ge> max_masters then Inl ERR_INVALID
               else bind_result (parse_sections mem (Some config_obj)) (\<lambda>config.
                    parse_entries mem max_masters
                      (insts @ [(safe_strcpy (get_string (Some entry) ''name'' (Some ''master''))
                                   ECAT_MAX_NAME_LEN, config)]) es))"

fun interfaces_distinct :: "(string \<times> ecat_config) list \<Rightarrow> bool" where
  "interfaces_distinct [] = True"
| "interfaces_distinct (a # as) =
     (list_all (\<lambda>b. interface (c_master (snd a)) \<noteq> interface (c_master (snd b))) as \<and>
      interfaces_distinct as)"

definition ecat_config_parse_all ::
  "(json \<Rightarrow> bool) \<Rightarrow> (string \<Rightarrow> json option) \<Rightarrow> string option \<Rightarrow> nat \<Rightarrow> (string \<times> ecat_config) list parsed" where
  "ecat_config_parse_all mem cJSON_Parse file max_masters =
     (if max_masters < 1 then Inl ERR_INVALID
      else case read_file file of
        None \<Rightarrow> Inl ERR_FILE
      | Some text \<Rightarrow>
          (case cJSON_Parse text of
             None \<Rightarrow> Inl ERR_PARSE
           | Some (J_arr entries) \<Rightarrow>
               bind_result (parse_entries mem max_masters [] entries) (\<lambda>insts.
                 if \<not> interfaces_distinct insts then Inl ERR_INVALID
                 else if insts = [] then Inl ERR_MISSING else Inr insts)
           | Some root \<Rightarrow>
               (let config_obj = (case get_object_item (Some root) ''config'' of
                                    None \<Rightarrow> root | Some c \<Rightarrow> c)
                in bind_result (parse_sections mem (Some config_obj)) (\<lambda>config.
                   Inr [(safe_strcpy (get_string (Some root) ''name'' (Some ''master'')) ECAT_MAX_NAME_LEN,
                         config)]))))"

section \<open>Process image size\<close>

definition ECAT_IOMAP_MIN_BYTES :: nat where "ECAT_IOMAP_MIN_BYTES = 256"
definition ECAT_IOMAP_SLACK_PER_SLAVE :: nat where "ECAT_IOMAP_SLACK_PER_SLAVE = 32"

definition pdo_bits :: "ecat_pdo list \<Rightarrow> nat" where
  "pdo_bits pdos = (\<Sum>pdo\<leftarrow>pdos. \<Sum>e\<leftarrow>pdo_entries pdo. unat (pe_bit_length e))"

definition compute_iomap_bytes :: "ecat_config \<Rightarrow> nat" where
  "compute_iomap_bytes config =
     (let total_bits = (\<Sum>s\<leftarrow>c_slaves config. pdo_bits (rx_pdos s) + pdo_bits (tx_pdos s));
          slack = length (c_slaves config) * ECAT_IOMAP_SLACK_PER_SLAVE
      in max ECAT_IOMAP_MIN_BYTES ((total_bits + 7) div 8 + slack))"

end
