(* ===== verification/Config_Sound.thy ===== *)
theory Config_Sound
  imports Config_Validate
begin

text \<open>
  What an accepted configuration satisfies. \<open>slave_wf\<close> and \<open>config_wf\<close> collect, as one predicate,
  the facts the rest of the program relies on without checking them again; the station of a
  modular coupler is described by the blocks of physical slots its slot definitions take.
\<close>

section \<open>Stations\<close>

definition fits :: "ecat_slot_def \<Rightarrow> ecat_module option list \<Rightarrow> bool" where
  "fits d b \<longleftrightarrow>
     min_instances d \<le> int (length b) \<and> int (length b) \<le> max_instances d \<and>
     (\<forall>m. Some m \<in> set b \<longrightarrow> slot_accepts d m)"

definition slot_content :: "ecat_module list \<Rightarrow> int \<Rightarrow> ecat_module option" where
  "slot_content ms k = find (\<lambda>m. mod_slot m = k) ms"

definition last_slot :: "ecat_module list \<Rightarrow> int" where
  "last_slot ms = (if ms = [] then 0 else mod_slot (last ms))"

text \<open>The physical slots \<open>1..last\<close> split, in order, into one block for each slot definition.\<close>

definition station_fits :: "ecat_modular \<Rightarrow> bool" where
  "station_fits m \<longleftrightarrow>
     (\<exists>blocks. concat blocks = map (slot_content (m_modules m)) [1..last_slot (m_modules m)] \<and>
        list_all2 fits (m_slots m) blocks)"

fun fits_from :: "int \<Rightarrow> ecat_slot_def list \<Rightarrow> ecat_module option list list \<Rightarrow> bool" where
  "fits_from c (d # ds) (b # bs) \<longleftrightarrow>
     min_instances d \<le> c + int (length b) \<and> c + int (length b) \<le> max_instances d \<and>
     (\<forall>m. Some m \<in> set b \<longrightarrow> slot_accepts d m) \<and> list_all2 fits ds bs"
| "fits_from c [] [] \<longleftrightarrow> True"
| "fits_from c _ _ \<longleftrightarrow> False"

definition slot_def_wf :: "ecat_slot_def \<Rightarrow> bool" where
  "slot_def_wf d \<longleftrightarrow> 0 \<le> min_instances d \<and> min_instances d \<le> max_instances d \<and> 1 \<le> max_instances d"

definition room :: "int \<Rightarrow> ecat_slot_def list \<Rightarrow> bool" where
  "room c ds \<longleftrightarrow> 0 \<le> c \<and> (ds \<noteq> [] \<longrightarrow> c \<le> max_instances (hd ds))"

lemma fits_from_0: "fits_from 0 ds bs \<longleftrightarrow> list_all2 fits ds bs"
  by (cases ds; cases bs) (auto simp: fits_def)

lemma min_met_fits:
  "min_met ds c \<Longrightarrow> room c ds \<Longrightarrow> list_all slot_def_wf ds \<Longrightarrow>
   fits_from c ds (replicate (length ds) [])"
  by (cases ds)
    (auto simp: min_met_def room_def list_all2_conv_all_nth list_all_length fits_def slot_def_wf_def)

lemma advance_def_fits:
  assumes "advance_def m ds c = (ds', c')" and "ds' \<noteq> []" and "fits_from c' ds' bs"
    and "room c ds" and "list_all slot_def_wf ds"
  shows "\<exists>k. fits_from c ds (replicate k [] @ bs)"
  using assms
proof (induction m ds c rule: advance_def.induct)
  case (2 m d ds c)
  let ?skip = "c \<ge> max_instances d \<or>
    (case m of None \<Rightarrow> False | Some x \<Rightarrow> \<not> slot_accepts d x \<and> c \<ge> min_instances d)"
  show ?case
  proof (cases ?skip)
    case False
    with 2 show ?thesis by (auto intro: exI [of _ 0])
  next
    case True
    have "room 0 ds" using "2.prems"(5) by (cases ds) (auto simp: room_def slot_def_wf_def)
    with True "2.IH" [OF True] "2.prems" obtain k where "fits_from 0 ds (replicate k [] @ bs)" by auto
    moreover have "min_instances d \<le> c" "c \<le> max_instances d"
      using True "2.prems"(4,5) by (auto simp: room_def slot_def_wf_def split: option.splits)
    ultimately have "fits_from c (d # ds) (replicate (Suc k) [] @ bs)" by (simp add: fits_from_0)
    then show ?thesis by blast
  qed
qed simp

lemma advance_def_room:
  assumes "advance_def m ds c = (d # ds', c')" and "room c ds" and "list_all slot_def_wf ds"
  shows "0 \<le> c' \<and> c' < max_instances d \<and> list_all slot_def_wf (d # ds')"
  using assms
proof (induction m ds c rule: advance_def.induct)
  case (2 m x ds c)
  have "room 0 ds" using "2.prems"(3) by (cases ds) (auto simp: room_def slot_def_wf_def)
  with 2 show ?case by (auto simp: room_def split: if_splits)
qed simp

text \<open>The contents seen by the loop: the module whose slot comes next, if it is this one.\<close>

definition ascending :: "int \<Rightarrow> ecat_module list \<Rightarrow> bool" where
  "ascending lst ms \<longleftrightarrow> sorted_wrt (<) (lst # map mod_slot ms)"

lemma rising_slots_ascending: "rising_slots lst ms = Some l \<Longrightarrow> ascending lst ms"
  by (induction lst ms rule: rising_slots.induct)
    (auto simp: ascending_def split: if_splits dest: order.strict_trans)

lemma rising_slots_last: "rising_slots lst ms = Some l \<Longrightarrow> l = (if ms = [] then lst else mod_slot (last ms))"
  by (induction lst ms rule: rising_slots.induct) (auto split: if_splits)

lemma module_in_slot_content:
  assumes "ascending (slot - 1) ms" and "module_in_slot slot ms = (m, rest)"
  shows "m = slot_content ms slot" and "ascending slot rest"
    and "\<And>k. k > slot \<Longrightarrow> slot_content ms k = slot_content rest k"
proof -
  have none: "find (\<lambda>m. mod_slot m = slot) xs = None" if "\<forall>x\<in>set xs. slot < mod_slot x" for xs
    using that by (induction xs) auto
  show "m = slot_content ms slot" and "ascending slot rest"
    and "\<And>k. k > slot \<Longrightarrow> slot_content ms k = slot_content rest k"
    using assms none [of ms]
    by (cases ms; force simp: module_in_slot_def slot_content_def ascending_def split: if_splits)+
qed

lemma fill_slots_fits:
  assumes "fill_slots slot lst ms ds c = Some (ds', c')" and "min_met ds' c'"
    and "ascending (slot - 1) ms" and "room c ds" and "list_all slot_def_wf ds"
  shows "\<exists>bs. concat bs = map (slot_content ms) [slot..lst] \<and> fits_from c ds bs"
  using assms
proof (induction slot lst ms ds c rule: fill_slots.induct)
  case (1 slot lst ms ds c)
  show ?case
  proof (cases "slot > lst")
    case True
    with 1 have "fits_from c ds (replicate (length ds) [])"
      by (auto simp: fill_slots.simps intro: min_met_fits)
    with True show ?thesis by (intro exI [of _ "replicate (length ds) []"]) simp
  next
    case False
    obtain m rest where m: "module_in_slot slot ms = (m, rest)" by force
    obtain d es k where adv: "advance_def m ds c = (d # es, k)"
      using "1.prems"(1) False m
      by (auto simp: fill_slots.simps [of slot] split: prod.splits list.splits)
    have acc: "\<And>x. m = Some x \<Longrightarrow> slot_accepts d x"
      and rec: "fill_slots (slot + 1) lst rest (d # es) (k + 1) = Some (ds', c')"
      using "1.prems"(1) False m adv
      by (auto simp: fill_slots.simps [of slot] split: option.splits if_splits)
    note content = module_in_slot_content [OF "1.prems"(3) m]
    note rm = advance_def_room [OF adv "1.prems"(4,5)]
    have "\<not> (case m of None \<Rightarrow> False | Some x \<Rightarrow> \<not> slot_accepts d x)"
      using acc by (auto split: option.splits)
    from "1.IH" [OF False m [symmetric] refl adv [symmetric] refl this rec "1.prems"(2)] content(2) rm
    obtain bs where bs: "concat bs = map (slot_content rest) [slot + 1..lst]"
      "fits_from (k + 1) (d # es) bs" by (auto simp: room_def)
    then obtain b bs' where split: "bs = b # bs'" by (cases bs) auto
    have "fits_from k (d # es) ((m # b) # bs')" using bs(2) acc by (auto simp: split)
    with advance_def_fits [OF adv _ _ "1.prems"(4,5)]
    obtain n where "fits_from c ds (replicate n [] @ (m # b) # bs')" by blast
    moreover have "concat (replicate n [] @ (m # b) # bs') = map (slot_content ms) [slot..lst]"
    proof -
      have "map (slot_content rest) [slot + 1..lst] = map (slot_content ms) [slot + 1..lst]"
        using content(3) by simp
      moreover have "[slot..lst] = slot # [slot + 1..lst]" using False by (simp add: upto_rec1)
      ultimately show ?thesis using bs(1) by (simp add: split content(1))
    qed
    ultimately show ?thesis by blast
  qed
qed

lemma validate_station_fits:
  assumes "validate_station s" and "list_all slot_def_wf (m_slots (modular s))"
  shows "station_fits (modular s)"
proof (cases "m_slots (modular s) = []")
  case True
  with assms(1) have "m_modules (modular s) = []" by (auto simp: validate_station_def Let_def split: if_splits)
  with True show ?thesis by (simp add: station_fits_def last_slot_def)
next
  case False
  with assms(1) obtain lst ds c where
    rise: "rising_slots 0 (m_modules (modular s)) = Some lst" and
    fill: "fill_slots 1 lst (m_modules (modular s)) (m_slots (modular s)) 0 = Some (ds, c)" "min_met ds c"
    by (auto simp: validate_station_def Let_def split: if_splits option.splits)
  have "room 0 (m_slots (modular s))"
    using assms(2) False by (cases "m_slots (modular s)") (auto simp: room_def slot_def_wf_def)
  with fill_slots_fits [OF fill] rising_slots_ascending [OF rise] assms(2)
    rising_slots_last [OF rise] show ?thesis
    by (auto simp: station_fits_def fits_from_0 last_slot_def)
qed

section \<open>Parsed slaves\<close>

definition pdo_entry_wf :: "ecat_pdo_entry \<Rightarrow> bool" where
  "pdo_entry_wf e \<longleftrightarrow>
     (\<exists>v. parse_hex_u32 (pe_index e) = Some v \<and> v \<le> 0xFFFF) \<and> length (pe_name e) < ECAT_MAX_NAME_LEN"

definition pdo_wf :: "ecat_pdo \<Rightarrow> bool" where
  "pdo_wf p \<longleftrightarrow>
     0 < pdo_index_value (pdo_index p) \<and> pdo_index_value (pdo_index p) \<le> 0xFFFF \<and>
     length (pdo_name p) < ECAT_MAX_NAME_LEN \<and> list_all pdo_entry_wf (pdo_entries p)"

definition sdo_wf :: "ecat_sdo_config \<Rightarrow> bool" where
  "sdo_wf s \<longleftrightarrow>
     (\<exists>i. 0 < i \<and> i < 65536 \<and> sdo_index s = ''0x'' @ fmt_hex 4 i) \<and>
     (if sdo_type s = ECAT_DTYPE_BYTESTRING then sdo_value_bytes s \<noteq> None
      else sdo_value_bytes s = None \<and> sdo_value_in_range (sdo_type s) (sdo_value s)) \<and>
     length (sdo_name s) < ECAT_MAX_NAME_LEN"

definition modular_wf :: "ecat_modular \<Rightarrow> bool" where
  "modular_wf m \<longleftrightarrow>
     0 \<le> slot_index_increment m \<and> slot_index_increment m \<le> 0x0FFF \<and>
     list_all slot_def_wf (m_slots m) \<and> list_all (\<lambda>x. 1 \<le> mod_slot x) (m_modules m)"

definition slave_times_wf :: "ecat_slave \<Rightarrow> bool" where
  "slave_times_wf s \<longleftrightarrow>
     0 < sdo_timeout_ms (timeouts s) \<and> 0 < init_to_preop_timeout_ms (timeouts s) \<and>
     0 < safeop_to_op_timeout_ms (timeouts s) \<and> 0 < sm_watchdog_ms (watchdog s) \<and>
     0 < pdi_watchdog_ms (watchdog s)"

definition parsed_slave_wf :: "ecat_slave \<Rightarrow> bool" where
  "parsed_slave_wf s \<longleftrightarrow>
     length (sv_name s) < ECAT_MAX_NAME_LEN \<and>
     list_all pdo_wf (assigned_pdos s) \<and> list_all sdo_wf (sdo_configs s) \<and>
     modular_wf (modular s) \<and> slave_times_wf s"

lemma safe_strcpy_length [simp]: "0 < n \<Longrightarrow> length (safe_strcpy s n) < n"
  by (auto simp: safe_strcpy_def c_copy_length split: option.splits)

lemma name_len_pos [simp]: "0 < ECAT_MAX_NAME_LEN"
  by (simp add: ECAT_MAX_NAME_LEN_def)

lemma parse_elements_all:
  assumes "parse_elements mem f arr = Inr ys" and "\<And>x y. f x = Inr y \<Longrightarrow> P y"
  shows "list_all P ys"
  using assms by (auto simp: parse_elements_def list_all_iff elim!: map_result_set
      split: option.splits json.splits if_splits)

lemma parse_pdo_entry_wf: "parse_pdo_entry j = Inr e \<Longrightarrow> pdo_entry_wf e"
  by (auto simp: parse_pdo_entry_def Let_def pdo_entry_wf_def split: option.splits if_splits)

lemma parse_pdo_wf: "parse_pdo mem j = Inr p \<Longrightarrow> pdo_wf p"
  by (auto simp: parse_pdo_def Let_def pdo_wf_def pdo_index_value_def word_gt_0
      split: option.splits if_splits intro: parse_elements_all parse_pdo_entry_wf)

lemma parse_sdo_index_form:
  assumes "parse_sdo_index j = Inr s"
  shows "\<exists>i. 0 < i \<and> i < 65536 \<and> s = ''0x'' @ fmt_hex 4 i"
proof -
  from assms obtain i where "0 < i" "i < 65536" "s = c_copy 12 (''0x'' @ fmt_hex 4 i)"
    by (auto simp: parse_sdo_index_def split: option.splits if_splits list.splits prod.splits)
  then show ?thesis by (auto simp: c_copy_short fmt_hex_parses(2) intro!: exI [of _ i])
qed

lemma parse_sdo_wf:
  assumes "parse_sdo mem j = Inr s"
  shows "sdo_wf s"
proof -
  from assms obtain i where "parse_sdo_index j = Inr i" "sdo_index s = i"
    by (force simp: parse_sdo_def Let_def split: option.split_asm if_split_asm)
  with parse_sdo_index_form [of j i] have "\<exists>i. 0 < i \<and> i < 65536 \<and> sdo_index s = ''0x'' @ fmt_hex 4 i"
    by simp
  then show ?thesis
    using assms unfolding sdo_wf_def
    by (force simp: parse_sdo_def Let_def split: option.split_asm if_split_asm)
qed

lemma parse_slot_def_wf: "parse_slot_def mem j = Inr d \<Longrightarrow> slot_def_wf d"
  by (auto simp: parse_slot_def_def Let_def slot_def_wf_def split: if_splits)

lemma parse_module_wf: "parse_module j = Inr m \<Longrightarrow> 1 \<le> mod_slot m"
  by (auto simp: parse_module_def Let_def split: if_splits option.splits)

lemma parse_modular_wf: "parse_modular mem j = Inr m \<Longrightarrow> modular_wf m"
  by (auto simp: parse_modular_def Let_def modular_wf_def no_modular_def split: if_splits
      intro: parse_elements_all parse_slot_def_wf parse_module_wf)

lemmas slave_config_defs = parse_slave_config_def parse_startup_checks_def parse_addressing_def
  parse_timeouts_def parse_watchdog_def parse_dc_def

lemma parse_slave_config_other [simp]:
  "position (parse_slave_config c s) = position s"
  "sv_name (parse_slave_config c s) = sv_name s"
  "vendor_id (parse_slave_config c s) = vendor_id s"
  "product_code (parse_slave_config c s) = product_code s"
  "rx_pdos (parse_slave_config c s) = rx_pdos s"
  "tx_pdos (parse_slave_config c s) = tx_pdos s"
  "sdo_configs (parse_slave_config c s) = sdo_configs s"
  "mandatory_pdos (parse_slave_config c s) = mandatory_pdos s"
  "modular (parse_slave_config c s) = modular s"
  by (simp_all add: slave_config_defs Let_def)

lemma slave_times_wf_parts:
  "slave_times_wf s \<Longrightarrow> slave_times_wf (parse_dc j s)"
  "slave_times_wf s \<Longrightarrow> slave_times_wf (parse_watchdog j s)"
  "slave_times_wf s \<Longrightarrow> slave_times_wf (parse_timeouts j s)"
  "slave_times_wf s \<Longrightarrow> slave_times_wf (parse_addressing j s)"
  "slave_times_wf s \<Longrightarrow> slave_times_wf (parse_startup_checks j s)"
  "slave_times_wf s \<Longrightarrow> slave_times_wf (s\<lparr>strict_sdo := b\<rparr>)"
  by (simp_all add: slave_config_defs Let_def slave_times_wf_def positive_or_def)

lemma parse_slave_config_times: "slave_times_wf s \<Longrightarrow> slave_times_wf (parse_slave_config c s)"
  by (simp add: parse_slave_config_def slave_times_wf_parts)

lemma parse_slave_wf:
  assumes "parse_slave mem j = Inr s"
  shows "parsed_slave_wf s"
proof -
  have "slave_times_wf (default_slave_config z)" for z
    by (simp add: slave_times_wf_def default_slave_config_def)
  with assms show ?thesis
    unfolding parsed_slave_wf_def assigned_pdos_def parse_slave_def
    by (auto simp: Let_def default_slave_config_def parse_pdo_array_def split: option.splits
        intro!: parse_slave_config_times
        intro: parse_elements_all parse_pdo_wf parse_sdo_wf parse_modular_wf)
qed

section \<open>Accepted configurations\<close>

definition slave_wf :: "ecat_slave \<Rightarrow> bool" where
  "slave_wf s \<longleftrightarrow>
     parsed_slave_wf s \<and> 1 \<le> position s \<and> vendor_id s \<noteq> 0 \<and> product_code s \<noteq> 0 \<and>
     distinct (map (pdo_index_value \<circ> pdo_index) (assigned_pdos s)) \<and>
     (\<forall>want\<in>set (mandatory_pdos s).
        pdo_index_value want \<in> (pdo_index_value \<circ> pdo_index) ` set (assigned_pdos s)) \<and>
     station_fits (modular s)"

definition master_wf :: "ecat_master_config \<Rightarrow> bool" where
  "master_wf m \<longleftrightarrow>
     interface m \<noteq> [] \<and> length (interface m) < ECAT_IFNAME_MAX \<and>
     1 \<le> cycle_time_us m \<and> 1 \<le> receive_timeout_us m"

definition config_wf :: "ecat_config \<Rightarrow> bool" where
  "config_wf c \<longleftrightarrow>
     master_wf (c_master c) \<and> distinct (map position (c_slaves c)) \<and> list_all slave_wf (c_slaves c)"

lemma no_pdo_twice_distinct: "no_pdo_twice ps \<longleftrightarrow> distinct (map (pdo_index_value \<circ> pdo_index) ps)"
  by (induction ps) (auto simp: list_all_iff)

lemma validate_slaves_wf:
  "validate_slaves ss \<Longrightarrow> list_all parsed_slave_wf ss \<Longrightarrow>
   distinct (map position ss) \<and> list_all slave_wf ss"
proof (induction ss)
  case (Cons s ss)
  then have "validate_pdos s" "validate_station s" "1 \<le> position s" "vendor_id s \<noteq> 0"
    "product_code s \<noteq> 0" "position s \<notin> position ` set ss"
    by (auto split: if_splits simp: list_ex_iff)
  moreover have "list_all slot_def_wf (m_slots (modular s))"
    using Cons.prems(2) by (simp add: parsed_slave_wf_def modular_wf_def)
  ultimately have "slave_wf s"
    using Cons.prems(2) validate_station_fits [of s]
    unfolding slave_wf_def validate_pdos_def no_pdo_twice_distinct
    by (force simp: list_all_iff list_ex_iff)
  with Cons \<open>position s \<notin> position ` set ss\<close> show ?case by (auto split: if_splits)
qed simp

lemma parse_sections_wf:
  assumes "parse_sections mem obj = Inr c"
  shows "config_wf c"
proof -
  let ?m = "parse_master_section (get_object_item obj ''master'') (c_master ecat_config_init_defaults)"
  from assms obtain ss where ss: "parse_slaves_section mem (get_object_item obj ''slaves'') = Inr ss"
    and c: "c_master c = ?m" "c_slaves c = ss" and v: "ecat_config_validate c = Inr ()"
    by (auto simp: parse_sections_def Let_def)
  from ss have "list_all parsed_slave_wf ss"
    by (auto simp: parse_slaves_section_def intro: parse_elements_all parse_slave_wf)
  moreover have "length (interface ?m) < ECAT_IFNAME_MAX"
    by (auto simp: parse_master_section_def Let_def ecat_config_init_defaults_def ECAT_IFNAME_MAX_def)
  ultimately show ?thesis
    using v validate_slaves_wf [of ss] c
    by (auto simp: config_wf_def master_wf_def ecat_config_validate_def split: if_splits)
qed

lemma parse_entries_wf:
  assumes "parse_entries mem mx insts es = Inr out"
    and "length insts \<le> mx" and "list_all (\<lambda>(n, c). length n < ECAT_MAX_NAME_LEN \<and> config_wf c) insts"
  shows "length out \<le> mx \<and> list_all (\<lambda>(n, c). length n < ECAT_MAX_NAME_LEN \<and> config_wf c) out"
  using assms
  by (induction mem mx insts es rule: parse_entries.induct)
    (auto split: if_splits option.splits dest: parse_sections_wf)

lemma interfaces_distinct_iff:
  "interfaces_distinct xs \<longleftrightarrow> distinct (map (\<lambda>(_, c). interface (c_master c)) xs)"
  by (induction xs) (auto simp: list_all_iff)

lemma parse_all_wf:
  assumes "ecat_config_parse_all mem cJSON_Parse file mx = Inr insts"
  shows "1 \<le> length insts \<and> length insts \<le> mx \<and>
     distinct (map (\<lambda>(_, c). interface (c_master c)) insts) \<and>
     list_all (\<lambda>(n, c). length n < ECAT_MAX_NAME_LEN \<and> config_wf c) insts"
  using assms
  by (auto simp: ecat_config_parse_all_def interfaces_distinct_iff Let_def Suc_le_eq
      split: option.splits if_splits json.splits
      dest: parse_sections_wf dest!: parse_entries_wf)

text \<open>An example file: one coupler with one output PDO.\<close>

definition example_root :: json where
  "example_root =
     J_arr [J_obj [(''protocol'', J_str ''EtherCAT''), (''name'', J_str ''line''),
       (''config'', J_obj
         [(''master'', J_obj [(''interface'', J_str ''eth1'')]),
          (''slaves'', J_arr
             [J_obj [(''position'', J_num (D_fin False 1 0)), (''vendor_id'', J_str ''0x2''),
                     (''product_code'', J_str ''0x44C''),
                     (''rx_pdos'', J_arr [J_obj [(''index'', J_str ''0x1600'')]])]])])]]"

lemma example_slave:
  "\<exists>s. parse_slave (\<lambda>_. True)
     (J_obj [(''position'', J_num (D_fin False 1 0)), (''vendor_id'', J_str ''0x2''),
             (''product_code'', J_str ''0x44C''),
             (''rx_pdos'', J_arr [J_obj [(''index'', J_str ''0x1600'')]])]) = Inr s \<and>
     validate_slaves [s]"
  by (simp add: parse_slave_def get_hex_u32_def get_object_item_def parse_hex_u32_def hex_nibble_def
      ctype_defs Let_def parse_revision_def parse_elements_def parse_pdo_array_def parse_pdo_def
      get_string_def safe_strcpy_def c_copy_def parse_mandatory_pdos_def parse_modular_def
      default_slave_config_def zero_slave_def parse_slave_config_def cJSON_IsObject_def
      validate_pdos_def validate_station_def assigned_pdos_def get_int_def valueint_def no_modular_def)

lemma example_parses:
  "\<exists>insts. ecat_config_parse_all (\<lambda>_. True) (\<lambda>_. Some example_root) (Some ''[]'') 4 = Inr insts"
proof -
  obtain s where "parse_slave (\<lambda>_. True)
     (J_obj [(''position'', J_num (D_fin False 1 0)), (''vendor_id'', J_str ''0x2''),
             (''product_code'', J_str ''0x44C''),
             (''rx_pdos'', J_arr [J_obj [(''index'', J_str ''0x1600'')]])]) = Inr s" "validate_slaves [s]"
    using example_slave by blast
  then show ?thesis
    by (simp add: ecat_config_parse_all_def read_file_def example_root_def get_string_def
        get_object_item_def tolower_def parse_sections_def Let_def parse_slaves_section_def
        parse_elements_def ecat_config_validate_def parse_master_section_def safe_strcpy_def c_copy_def
        ecat_config_init_defaults_def get_int_def ECAT_IFNAME_MAX_def del: validate_slaves.simps)
qed

section \<open>Properties\<close>

text \<open>
  C8: a configuration file that \<^verbatim>\<open>ecat_config_parse_all\<close> accepts holds between one and
  \<^verbatim>\<open>max_masters\<close> masters on pairwise different interfaces, and each of them is well formed: names
  and interface fit their buffers, times are positive, slave positions are distinct and start at
  1, identities are not zero, no PDO is assigned twice, every mandatory PDO is assigned, every
  startup SDO has a value that fits its type, and every modular station fits its slot rules.
\<close>

theorem parse_all_accepts_only_wf:
  "ecat_config_parse_all mem cJSON_Parse file max_masters = Inr insts \<Longrightarrow>
   1 \<le> length insts \<and> length insts \<le> max_masters \<and>
   distinct (map (\<lambda>(_, c). interface (c_master c)) insts) \<and>
   list_all (\<lambda>(n, c). length n < ECAT_MAX_NAME_LEN \<and> config_wf c) insts"
  by (rule parse_all_wf)

theorem parse_all_accepts_only_wf_witness:
  "\<exists>insts. ecat_config_parse_all (\<lambda>_. True) (\<lambda>_. Some example_root) (Some ''[]'') 4 = Inr insts \<and>
     1 \<le> length insts \<and> length insts \<le> 4"
  using example_parses parse_all_accepts_only_wf [of "\<lambda>_. True" "\<lambda>_. Some example_root" "Some ''[]''" 4]
  by blast

lemma list_ex_image:
  "list_ex (\<lambda>p. pdo_index_value (pdo_index p) = v) ps \<longleftrightarrow> v \<in> (pdo_index_value \<circ> pdo_index) ` set ps"
  by (induction ps) auto

lemma validate_slaves_iff:
  "validate_slaves ss \<longleftrightarrow>
     distinct (map position ss) \<and>
     list_all (\<lambda>s. 1 \<le> position s \<and> vendor_id s \<noteq> 0 \<and> product_code s \<noteq> 0 \<and>
       validate_pdos s \<and> validate_station s) ss"
  by (induction ss) (auto simp: list_ex_iff)

text \<open>
  C37: \<^verbatim>\<open>ecat_config_validate\<close> accepts a configuration exactly when the interface is named, the
  times are positive and each slave is identified, alone on its position, free of duplicated
  PDOs, complete in its mandatory PDOs and accepted as a station.
\<close>

theorem config_validate_iff:
  "ecat_config_validate c = Inr () \<longleftrightarrow>
     interface (c_master c) \<noteq> [] \<and> 1 \<le> cycle_time_us (c_master c) \<and>
     1 \<le> receive_timeout_us (c_master c) \<and> distinct (map position (c_slaves c)) \<and>
     list_all (\<lambda>s. 1 \<le> position s \<and> vendor_id s \<noteq> 0 \<and> product_code s \<noteq> 0 \<and>
       distinct (map (pdo_index_value \<circ> pdo_index) (rx_pdos s @ tx_pdos s)) \<and>
       pdo_index_value ` set (mandatory_pdos s) \<subseteq>
         (pdo_index_value \<circ> pdo_index) ` set (rx_pdos s @ tx_pdos s) \<and>
       validate_station s) (c_slaves c)"
proof -
  have "validate_pdos s \<longleftrightarrow>
      distinct (map (pdo_index_value \<circ> pdo_index) (rx_pdos s @ tx_pdos s)) \<and>
      pdo_index_value ` set (mandatory_pdos s) \<subseteq>
         (pdo_index_value \<circ> pdo_index) ` set (rx_pdos s @ tx_pdos s)" for s
    unfolding validate_pdos_def no_pdo_twice_distinct assigned_pdos_def list_ex_image
    by (simp add: list_all_iff image_subset_iff)
  then show ?thesis
    by (simp add: ecat_config_validate_def validate_slaves_iff linorder_not_less)
qed

text \<open>
  A station that \<^verbatim>\<open>validate_station\<close> accepts splits its physical slots 1 to the last
  occupied one, in order, into one block for each slot definition of the coupler; every block has
  between the minimal and the maximal number of slots of its definition, and every module in it
  is one the definition accepts. The slot definitions are any the parser lets through.
\<close>

theorem validate_station_sound:
  assumes "validate_station s"
    and "list_all (\<lambda>d. 0 \<le> min_instances d \<and> min_instances d \<le> max_instances d \<and> 1 \<le> max_instances d)
           (m_slots (modular s))"
  shows "\<exists>blocks.
     concat blocks = map (slot_content (m_modules (modular s))) [1..last_slot (m_modules (modular s))] \<and>
     list_all2 fits (m_slots (modular s)) blocks"
  using validate_station_fits [OF assms(1)] assms(2)
  by (simp add: slot_def_wf_def [abs_def] station_fits_def)

definition example_station :: ecat_slave where
  "example_station = zero_slave\<lparr>modular :=
     \<lparr>m_present = True, slot_index_increment = 16,
      m_slots = [\<lparr>min_instances = 0, max_instances = 2, sl_classes = [''IO''], sl_idents = []\<rparr>,
                 \<lparr>min_instances = 1, max_instances = 1, sl_classes = [], sl_idents = [7]\<rparr>],
      m_modules = [\<lparr>mod_slot = 1, mod_ident = 3, mod_class_name = ''IO''\<rparr>,
                   \<lparr>mod_slot = 2, mod_ident = 7, mod_class_name = []\<rparr>]\<rparr>\<rparr>"

theorem validate_station_sound_witness:
  "\<exists>blocks.
     concat blocks = map (slot_content (m_modules (modular example_station)))
       [1..last_slot (m_modules (modular example_station))] \<and>
     list_all2 fits (m_slots (modular example_station)) blocks"
proof (rule validate_station_sound)
  show "validate_station example_station"
    by (simp add: example_station_def validate_station_def fill_slots.simps module_in_slot_def
        slot_accepts_def min_met_def)
  show "list_all (\<lambda>d. 0 \<le> min_instances d \<and> min_instances d \<le> max_instances d \<and> 1 \<le> max_instances d)
      (m_slots (modular example_station))"
    by (simp add: example_station_def)
qed

end
