(* ===== verification/Soem.thy ===== *)
theory Soem
  imports Config_Validate
begin

text \<open>
  What the program sees of SOEM, the EtherCAT master library it links (a git submodule, not part
  of the sources). The fields of SOEM's context that the program reads or writes are records; the
  state of the library, the network and the slaves behind them is the type parameter \<open>'d\<close>. The
  library's functions are the fields of \<open>soem\<close>, an argument of every definition that calls them.
  A pointer into the I/O map is its byte offset in the map, NULL is \<open>None\<close>.
\<close>

section \<open>Context\<close>

text \<open>AL states, mailbox protocols and CoE details as the EtherCAT standard numbers them.\<close>

definition EC_STATE_NONE :: u16 where "EC_STATE_NONE = 0x00"
definition EC_STATE_INIT :: u16 where "EC_STATE_INIT = 0x01"
definition EC_STATE_PRE_OP :: u16 where "EC_STATE_PRE_OP = 0x02"
definition EC_STATE_SAFE_OP :: u16 where "EC_STATE_SAFE_OP = 0x04"
definition EC_STATE_OPERATIONAL :: u16 where "EC_STATE_OPERATIONAL = 0x08"
definition EC_STATE_ERROR :: u16 where "EC_STATE_ERROR = 0x10"
definition EC_STATE_ACK :: u16 where "EC_STATE_ACK = 0x10"

definition ECT_MBXPROT_COE :: u16 where "ECT_MBXPROT_COE = 0x04"
definition ECT_MBXPROT_SOE :: u16 where "ECT_MBXPROT_SOE = 0x10"
definition ECT_COEDET_SDOCA :: u8 where "ECT_COEDET_SDOCA = 0x20"

lemmas ec_state_defs = EC_STATE_NONE_def EC_STATE_INIT_def EC_STATE_PRE_OP_def EC_STATE_SAFE_OP_def
  EC_STATE_OPERATIONAL_def EC_STATE_ERROR_def EC_STATE_ACK_def

record ec_slave =
  es_state :: u16
  es_ALstatuscode :: u16
  es_configadr :: u16
  es_eep_man :: u32
  es_eep_id :: u32
  es_eep_rev :: u32
  es_eep_ser :: u32
  es_mbx_proto :: u16
  es_CoEdetails :: u8
  es_Obits :: u32
  es_Ibits :: u32
  es_outputs :: "nat option"
  es_Ostartbit :: u8
  es_inputs :: "nat option"
  es_Istartbit :: u8
  es_hasdc :: bool
  es_islost :: bool
  es_name :: string

record ec_group =
  eg_Obytes :: u32
  eg_Ibytes :: u32
  eg_outputs :: "nat option"
  eg_inputs :: "nat option"
  eg_outputsWKC :: u16
  eg_inputsWKC :: u16

text \<open>Element 0 of \<open>slavelist\<close> stands for all slaves, as in SOEM; slave \<open>p\<close> is element \<open>p\<close>.\<close>

record 'd ecx_context =
  slavecount :: nat
  slavelist :: "nat \<Rightarrow> ec_slave"
  group0 :: ec_group
  hidden :: 'd

definition set_slave :: "nat \<Rightarrow> (ec_slave \<Rightarrow> ec_slave) \<Rightarrow> 'd ecx_context \<Rightarrow> 'd ecx_context" where
  "set_slave i f ctx = ctx\<lparr>slavelist := (slavelist ctx)(i := f (slavelist ctx i))\<rparr>"

lemma set_slave_simps [simp]:
  "slavecount (set_slave i f ctx) = slavecount ctx"
  "group0 (set_slave i f ctx) = group0 ctx"
  "hidden (set_slave i f ctx) = hidden ctx"
  "slavelist (set_slave i f ctx) j = (if j = i then f (slavelist ctx i) else slavelist ctx j)"
  by (simp_all add: set_slave_def)

section \<open>Library functions\<close>

text \<open>
  Each function takes the context last and returns it updated. Process data is exchanged over
  the I/O map: sending reads it, receiving returns the working counter and the map with new
  inputs. A mailbox read returns the working counter and the bytes received.
\<close>

record 'd soem =
  EC_TIMEOUTRET :: int
  EC_TIMEOUTSTATE :: int
  EC_TIMEOUTRXM :: int
  ecx_init :: "string \<Rightarrow> 'd ecx_context \<Rightarrow> bool \<times> 'd ecx_context"
  ecx_close :: "'d ecx_context \<Rightarrow> 'd ecx_context"
  ecx_config_init :: "'d ecx_context \<Rightarrow> int \<times> 'd ecx_context"
  ecx_config_map_group :: "'d ecx_context \<Rightarrow> int \<times> 'd ecx_context"
  ecx_statecheck :: "nat \<Rightarrow> u16 \<Rightarrow> int \<Rightarrow> 'd ecx_context \<Rightarrow> 'd ecx_context"
  ecx_readstate :: "'d ecx_context \<Rightarrow> 'd ecx_context"
  ecx_writestate :: "nat \<Rightarrow> 'd ecx_context \<Rightarrow> int \<times> 'd ecx_context"
  ecx_send_processdata :: "bytes \<Rightarrow> 'd ecx_context \<Rightarrow> 'd ecx_context"
  ecx_receive_processdata :: "int \<Rightarrow> bytes \<Rightarrow> 'd ecx_context \<Rightarrow> int \<times> bytes \<times> 'd ecx_context"
  ecx_SDOwrite :: "nat \<Rightarrow> u16 \<Rightarrow> u8 \<Rightarrow> bool \<Rightarrow> bytes \<Rightarrow> int \<Rightarrow> 'd ecx_context \<Rightarrow> int \<times> 'd ecx_context"
  ecx_SDOread :: "nat \<Rightarrow> u16 \<Rightarrow> u8 \<Rightarrow> bool \<Rightarrow> nat \<Rightarrow> int \<Rightarrow> 'd ecx_context \<Rightarrow> int \<times> bytes \<times> 'd ecx_context"
  ecx_FPWR :: "u16 \<Rightarrow> u16 \<Rightarrow> u16 \<Rightarrow> int \<Rightarrow> 'd ecx_context \<Rightarrow> int \<times> 'd ecx_context"
  ecx_configdc :: "'d ecx_context \<Rightarrow> 'd ecx_context"
  ecx_dcsync0 :: "nat \<Rightarrow> u32 \<Rightarrow> int \<Rightarrow> 'd ecx_context \<Rightarrow> 'd ecx_context"
  ecx_dcsync01 :: "nat \<Rightarrow> u32 \<Rightarrow> u32 \<Rightarrow> int \<Rightarrow> 'd ecx_context \<Rightarrow> 'd ecx_context"
  ecx_readPDOmapCA :: "nat \<Rightarrow> 'd ecx_context \<Rightarrow> bool \<times> u32 \<times> u32 \<times> 'd ecx_context"
  ecx_readPDOmap :: "nat \<Rightarrow> 'd ecx_context \<Rightarrow> u32 \<times> u32 \<times> 'd ecx_context"
  ecx_readIDNmap :: "nat \<Rightarrow> 'd ecx_context \<Rightarrow> u32 \<times> u32 \<times> 'd ecx_context"
  ecx_siiPDO :: "nat \<Rightarrow> bool \<Rightarrow> 'd ecx_context \<Rightarrow> u32 \<times> 'd ecx_context"
  ecx_reconfig_slave :: "nat \<Rightarrow> int \<Rightarrow> 'd ecx_context \<Rightarrow> bool \<times> 'd ecx_context"
  ecx_recover_slave :: "nat \<Rightarrow> int \<Rightarrow> 'd ecx_context \<Rightarrow> bool \<times> 'd ecx_context"
  ecx_outframe_red :: "'d ecx_context \<Rightarrow> int \<times> nat \<times> 'd ecx_context"
  ecx_inframe :: "nat \<Rightarrow> 'd ecx_context \<Rightarrow> int \<times> u16 \<times> 'd ecx_context"
  ecx_mbxhandler :: "'d ecx_context \<Rightarrow> 'd ecx_context"
  EC_MAXELIST :: nat
  ecx_poperror :: "'d ecx_context \<Rightarrow> bool \<times> 'd ecx_context"
  ecx_zero_context :: "'d ecx_context"

end
