(* ===== verification/Instance.thy ===== *)
theory Instance
  imports Soem
begin

text \<open>
  The state of one master (\<^verbatim>\<open>ecat_master_instance_t\<close> of \<^verbatim>\<open>src/config.h\<close>) and the allocators and
  destructors of \<^verbatim>\<open>src/config.c\<close> that own its buffers. Heap buffers are options over byte lists;
  mutexes and thread handles carry no data and are left out, whether a lock was obtained is an
  argument of the operations that only try it.
\<close>

section \<open>Records\<close>

record ecat_slave_status =
  ss_position :: int
  ss_name :: string
  ss_al_state :: u16
  ss_al_status_code :: u16
  ss_error_count :: u32

record ecat_cycle_diag =
  cycle_count :: u64
  wkc_error_count :: u64
  noframe_count :: u64
  bus_cycle_ns :: u64
  max_bus_cycle_ns :: u64
  min_bus_cycle_ns :: u64
  avg_bus_cycle_ns_sum :: int
  period_ns :: u64
  max_period_ns :: u64
  min_period_ns :: u64
  avg_period_ns_sum :: int
  latency_ns :: int
  max_latency_ns :: int
  min_latency_ns :: int
  avg_latency_ns_sum :: int

record ecat_layout_entry =
  le_slave_position :: int
  le_pdo_index :: string
  le_entry_index :: string
  le_entry_subindex :: u8
  le_is_output :: bool
  le_bit_offset :: u32
  le_bit_length :: u8
  le_data_type :: ecat_data_type
  le_name :: string

record ecat_layout =
  output_bytes :: u32
  input_bytes :: u32
  ly_entries :: "ecat_layout_entry list"
  entry_capacity :: nat

text \<open>A socket address: a bound or unbound local socket, an IPv4 endpoint, or any other family.\<close>

datatype sockaddr = SA_UNIX string | SA_UNIX_UNBOUND | SA_INET u32 u16 | SA_OTHER nat

record ecat_data_session =
  d_open :: bool
  d_fd :: int
  d_peer :: sockaddr
  d_local_path :: string
  d_session :: u64
  d_tx_seq :: u32
  d_rx_last_seq :: u32
  d_rx_seen :: bool
  d_cycles_since_output :: u32
  d_outputs_zeroed :: bool
  d_rx_buf :: "bytes option"
  d_rx_buf_size :: nat
  d_rx_latest :: "bytes option"
  d_tx_buf :: "bytes option"
  d_tx_buf_size :: nat
  d_frames_rx :: u64
  d_frames_tx :: u64
  d_frames_dropped :: u64
  d_watchdog_trips :: u64

record ecat_iface_state =
  if_iface :: string
  coalescing_saved :: bool
  rx_usecs :: int
  tx_usecs :: int
  offloads_saved :: bool
  if_gro :: bool
  if_gso :: bool
  if_tso :: bool

record 'd ecat_master_instance =
  i_name :: string
  i_config :: ecat_config
  i_ctx :: "'d ecx_context"
  i_iomap :: "bytes option"
  i_iomap_capacity :: nat
  i_soem_initialized :: bool
  i_iomap_used_size :: nat
  i_layout :: ecat_layout
  i_data :: ecat_data_session
  i_bus_state :: ecat_bus_state
  i_expected_wkc :: int
  i_receive_timeout_us :: int
  i_diag :: ecat_cycle_diag
  i_consecutive_wkc_errors :: int
  i_recovery_attempts :: int
  i_recovery_writestate_failures :: u32
  i_cycle_counter :: u64
  i_overruns :: u64
  i_consecutive_al_faults :: int
  i_al_status :: u16
  i_al_wkc :: int
  i_al_replies :: u64
  i_al_misses :: u64
  i_al_faults :: u64
  i_recovery_al_trigger :: u32
  i_slaves_snapshot :: "ecat_slave_status list option"
  i_slaves_snapshot_count :: nat
  i_slaves_snapshot_capacity :: nat
  i_monitor_running :: bool
  i_bus_running :: bool
  i_avg_window :: int
  i_iface_state :: ecat_iface_state

section \<open>Allocation\<close>

text \<open>An instance as \<^verbatim>\<open>calloc\<close> leaves it.\<close>

definition zero_ec_slave :: ec_slave where
  "zero_ec_slave =
     \<lparr>es_state = 0, es_ALstatuscode = 0, es_configadr = 0, es_eep_man = 0, es_eep_id = 0,
      es_eep_rev = 0, es_eep_ser = 0, es_mbx_proto = 0, es_CoEdetails = 0, es_Obits = 0, es_Ibits = 0,
      es_outputs = None, es_Ostartbit = 0, es_inputs = None, es_Istartbit = 0, es_hasdc = False,
      es_islost = False, es_name = []\<rparr>"

definition zero_context :: "'d \<Rightarrow> 'd ecx_context" where
  "zero_context h =
     \<lparr>slavecount = 0, slavelist = (\<lambda>_. zero_ec_slave),
      group0 = \<lparr>eg_Obytes = 0, eg_Ibytes = 0, eg_outputs = None, eg_inputs = None,
                eg_outputsWKC = 0, eg_inputsWKC = 0\<rparr>,
      hidden = h\<rparr>"

definition zero_config :: ecat_config where
  "zero_config =
     \<lparr>c_master = \<lparr>interface = [], cycle_time_us = 0, receive_timeout_us = 0,
                  watchdog_timeout_cycles = 0, log_level = [], task_priority = 0, safe_close = False\<rparr>,
      c_slaves = [],
      c_diagnostics = \<lparr>log_connections = False, log_data_access = False, log_errors = False,
                       max_log_entries = 0, status_update_interval_ms = 0\<rparr>\<rparr>"

definition zero_session :: ecat_data_session where
  "zero_session =
     \<lparr>d_open = False, d_fd = 0, d_peer = SA_OTHER 0, d_local_path = [], d_session = 0, d_tx_seq = 0,
      d_rx_last_seq = 0, d_rx_seen = False, d_cycles_since_output = 0, d_outputs_zeroed = False,
      d_rx_buf = None, d_rx_buf_size = 0, d_rx_latest = None, d_tx_buf = None, d_tx_buf_size = 0,
      d_frames_rx = 0, d_frames_tx = 0, d_frames_dropped = 0, d_watchdog_trips = 0\<rparr>"

definition zero_diag :: ecat_cycle_diag where
  "zero_diag =
     \<lparr>cycle_count = 0, wkc_error_count = 0, noframe_count = 0, bus_cycle_ns = 0,
      max_bus_cycle_ns = 0, min_bus_cycle_ns = 0, avg_bus_cycle_ns_sum = 0, period_ns = 0,
      max_period_ns = 0, min_period_ns = 0, avg_period_ns_sum = 0, latency_ns = 0,
      max_latency_ns = 0, min_latency_ns = 0, avg_latency_ns_sum = 0\<rparr>"

definition zero_instance :: "'d \<Rightarrow> 'd ecat_master_instance" where
  "zero_instance h =
     \<lparr>i_name = [], i_config = zero_config, i_ctx = zero_context h, i_iomap = None,
      i_iomap_capacity = 0, i_soem_initialized = False, i_iomap_used_size = 0,
      i_layout = \<lparr>output_bytes = 0, input_bytes = 0, ly_entries = [], entry_capacity = 0\<rparr>,
      i_data = zero_session, i_bus_state = ECAT_STATE_IDLE, i_expected_wkc = 0,
      i_receive_timeout_us = 0, i_diag = zero_diag, i_consecutive_wkc_errors = 0,
      i_recovery_attempts = 0, i_recovery_writestate_failures = 0, i_cycle_counter = 0,
      i_overruns = 0, i_consecutive_al_faults = 0, i_al_status = 0, i_al_wkc = 0, i_al_replies = 0,
      i_al_misses = 0, i_al_faults = 0, i_recovery_al_trigger = 0, i_slaves_snapshot = None,
      i_slaves_snapshot_count = 0, i_slaves_snapshot_capacity = 0, i_monitor_running = False,
      i_bus_running = False, i_avg_window = 0,
      i_iface_state = \<lparr>if_iface = [], coalescing_saved = False, rx_usecs = 0, tx_usecs = 0,
                       offloads_saved = False, if_gro = False, if_gso = False, if_tso = False\<rparr>\<rparr>"

lemmas zero_defs = zero_instance_def zero_session_def zero_diag_def zero_config_def zero_context_def
  zero_ec_slave_def

definition zero_bytes :: "nat \<Rightarrow> bytes" where
  "zero_bytes n = replicate n 0"

lemma length_zero_bytes [simp]: "length (zero_bytes n) = n"
  by (simp add: zero_bytes_def)

definition zero_status :: ecat_slave_status where
  "zero_status = \<lparr>ss_position = 0, ss_name = [], ss_al_state = 0, ss_al_status_code = 0, ss_error_count = 0\<rparr>"

definition ecat_layout_destroy :: ecat_layout where
  "ecat_layout_destroy = \<lparr>output_bytes = 0, input_bytes = 0, ly_entries = [], entry_capacity = 0\<rparr>"

text \<open>\<open>mem n\<close>: whether an allocation of \<open>n\<close> units succeeds; \<open>None\<close> is the error return.\<close>

definition ecat_layout_init :: "(nat \<Rightarrow> bool) \<Rightarrow> nat \<Rightarrow> bool \<times> ecat_layout" where
  "ecat_layout_init mem capacity =
     (let layout = ecat_layout_destroy
      in if capacity = 0 then (True, layout)
         else if \<not> mem capacity then (False, layout)
         else (True, layout\<lparr>entry_capacity := capacity\<rparr>))"

definition ecat_master_instance_alloc_iomap ::
  "(nat \<Rightarrow> bool) \<Rightarrow> 'd ecat_master_instance \<Rightarrow> bool \<times> 'd ecat_master_instance" where
  "ecat_master_instance_alloc_iomap mem inst =
     (if i_iomap inst \<noteq> None then (False, inst)
      else let bytes = compute_iomap_bytes (i_config inst)
           in if \<not> mem bytes then (False, inst)
              else (True, inst\<lparr>i_iomap := Some (zero_bytes bytes), i_iomap_capacity := bytes,
                               i_iomap_used_size := 0\<rparr>))"

definition ecat_master_instance_grow_iomap ::
  "(nat \<Rightarrow> bool) \<Rightarrow> nat \<Rightarrow> 'd ecat_master_instance \<Rightarrow> bool \<times> 'd ecat_master_instance" where
  "ecat_master_instance_grow_iomap mem bytes inst =
     (if i_iomap inst \<noteq> None \<and> i_iomap_capacity inst \<ge> bytes then (True, inst)
      else if \<not> mem bytes then (False, inst)
      else (True, inst\<lparr>i_iomap := Some (zero_bytes bytes), i_iomap_capacity := bytes,
                       i_iomap_used_size := 0\<rparr>))"

definition ecat_master_instance_alloc_snapshot ::
  "(nat \<Rightarrow> bool) \<Rightarrow> 'd ecat_master_instance \<Rightarrow> bool \<times> 'd ecat_master_instance" where
  "ecat_master_instance_alloc_snapshot mem inst =
     (if i_slaves_snapshot inst \<noteq> None then (False, inst)
      else let n = (if length (c_slaves (i_config inst)) = 0 then 1 else length (c_slaves (i_config inst)))
           in if \<not> mem n then (False, inst)
              else (True, inst\<lparr>i_slaves_snapshot := Some (replicate n zero_status),
                               i_slaves_snapshot_capacity := n, i_slaves_snapshot_count := 0\<rparr>))"

definition release_buffers :: "'d ecat_master_instance \<Rightarrow> 'd ecat_master_instance" where
  "release_buffers inst =
     inst\<lparr>i_iomap := None, i_iomap_capacity := 0, i_iomap_used_size := 0,
          i_slaves_snapshot := None, i_slaves_snapshot_count := 0, i_slaves_snapshot_capacity := 0\<rparr>"

definition ecat_config_destroy :: "ecat_config \<Rightarrow> ecat_config" where
  "ecat_config_destroy config = config\<lparr>c_slaves := []\<rparr>"

definition ecat_master_instance_destroy :: "'d ecat_master_instance \<Rightarrow> 'd ecat_master_instance" where
  "ecat_master_instance_destroy inst =
     (release_buffers inst)\<lparr>i_layout := ecat_layout_destroy,
                            i_config := ecat_config_destroy (i_config inst)\<rparr>"

text \<open>
  The ownership invariant of the I/O map and the snapshot: a buffer has the capacity recorded for
  it, and the used part lies inside. Allocation, growth and release keep it.
\<close>

definition buffers_wf :: "'d ecat_master_instance \<Rightarrow> bool" where
  "buffers_wf inst \<longleftrightarrow>
     (case i_iomap inst of None \<Rightarrow> i_iomap_capacity inst = 0
                         | Some m \<Rightarrow> length m = i_iomap_capacity inst) \<and>
     i_iomap_used_size inst \<le> i_iomap_capacity inst \<and>
     (case i_slaves_snapshot inst of None \<Rightarrow> i_slaves_snapshot_capacity inst = 0
                                   | Some s \<Rightarrow> length s = i_slaves_snapshot_capacity inst) \<and>
     i_slaves_snapshot_count inst \<le> i_slaves_snapshot_capacity inst"

lemma buffers_wf_alloc:
  "buffers_wf inst \<Longrightarrow> buffers_wf (snd (ecat_master_instance_alloc_iomap mem inst))"
  "buffers_wf inst \<Longrightarrow> buffers_wf (snd (ecat_master_instance_grow_iomap mem n inst))"
  "buffers_wf inst \<Longrightarrow> buffers_wf (snd (ecat_master_instance_alloc_snapshot mem inst))"
  "buffers_wf (release_buffers inst)"
  by (auto simp: buffers_wf_def ecat_master_instance_alloc_iomap_def
      ecat_master_instance_grow_iomap_def ecat_master_instance_alloc_snapshot_def
      release_buffers_def Let_def split: option.splits)

section \<open>Accessors of \<^verbatim>\<open>src/master.c\<close> and \<^verbatim>\<open>src/layout.c\<close>\<close>

definition ecat_master_get_slave :: "'d ecat_master_instance \<Rightarrow> int \<Rightarrow> ec_slave option" where
  "ecat_master_get_slave inst pos =
     (if pos < 1 \<or> pos > int (slavecount (i_ctx inst)) then None
      else Some (slavelist (i_ctx inst) (nat pos)))"

definition ecat_master_get_slave_state :: "'d ecat_master_instance \<Rightarrow> int \<Rightarrow> u16" where
  "ecat_master_get_slave_state inst pos =
     (if pos < 1 \<or> pos > int (slavecount (i_ctx inst)) then 0
      else es_state (slavelist (i_ctx inst) (nat pos)))"

definition ecat_master_get_slave_count :: "'d ecat_master_instance \<Rightarrow> nat" where
  "ecat_master_get_slave_count inst =
     (if \<not> i_soem_initialized inst then 0 else slavecount (i_ctx inst))"

definition ecat_master_get_expected_wkc :: "'d ecat_master_instance \<Rightarrow> int" where
  "ecat_master_get_expected_wkc inst =
     (let grp = group0 (i_ctx inst)
      in uint (eg_outputsWKC grp) * 2 + uint (eg_inputsWKC grp))"

definition ecat_layout_output_region :: "'d ecat_master_instance \<Rightarrow> nat option" where
  "ecat_layout_output_region inst =
     (if \<not> i_soem_initialized inst then None else eg_outputs (group0 (i_ctx inst)))"

definition ecat_layout_input_region :: "'d ecat_master_instance \<Rightarrow> nat option" where
  "ecat_layout_input_region inst =
     (if \<not> i_soem_initialized inst then None else eg_inputs (group0 (i_ctx inst)))"

end
