(* ===== verification/Dgram.thy ===== *)
theory Dgram
  imports Instance
begin

text \<open>
  Datagram endpoints (\<^verbatim>\<open>src/dgram.c\<close>): the endpoint strings a client may name, the sender check,
  and one receive into a fixed buffer. Opening and closing the socket is in
  \<^verbatim>\<open>Dgram_Open\<close>. The endpoint parser is the one of the Linux build.
\<close>

section \<open>Address text\<close>

definition sun_path_size :: nat where "sun_path_size = 108"

fun split_at_char :: "char \<Rightarrow> string \<Rightarrow> string list" where
  "split_at_char c [] = [[]]"
| "split_at_char c (x # xs) =
     (if x = c then [] # split_at_char c xs
      else (case split_at_char c xs of [] \<Rightarrow> [[x]] | w # ws \<Rightarrow> (x # w) # ws))"

text \<open>\<^verbatim>\<open>inet_pton (AF_INET, \<dots>)\<close>: four decimal octets, at most three digits, no leading zero.\<close>

definition inet_octet :: "string \<Rightarrow> nat option" where
  "inet_octet s =
     (if s = [] \<or> length s > 3 \<or> \<not> list_all isdigit s \<or> (length s > 1 \<and> hd s = CHR ''0'') then None
      else let v = digits_value 10 (map (\<lambda>c. code_of c - 48) s)
           in if v > 255 then None else Some v)"

definition inet_pton :: "string \<Rightarrow> u32 option" where
  "inet_pton host =
     (case map inet_octet (split_at_char CHR ''.'' host) of
        [Some a, Some b, Some c, Some d] \<Rightarrow>
          Some (of_nat (a * 2 ^ 24 + b * 2 ^ 16 + c * 2 ^ 8 + d))
      | _ \<Rightarrow> None)"

text \<open>\<^verbatim>\<open>strrchr\<close>: the text before and after the last occurrence.\<close>

definition split_last :: "char \<Rightarrow> string \<Rightarrow> (string \<times> string) option" where
  "split_last c s =
     (case dropWhile (\<lambda>x. x \<noteq> c) (rev s) of
        [] \<Rightarrow> None
      | _ # r \<Rightarrow> Some (rev r, rev (takeWhile (\<lambda>x. x \<noteq> c) (rev s))))"

section \<open>Operations\<close>

definition is_loopback :: "u32 \<Rightarrow> bool" where
  "is_loopback a \<longleftrightarrow> drop_bit 24 a = 127"

definition edog_dgram_parse :: "string \<Rightarrow> sockaddr option" where
  "edog_dgram_parse spec =
     (if starts_with ''unix:'' spec then
        (let path = drop 5 spec
         in if path = [] \<or> length path \<ge> sun_path_size then None else Some (SA_UNIX path))
      else if starts_with ''udp:'' spec then
        (case split_last CHR '':'' (drop 4 spec) of
           None \<Rightarrow> None
         | Some (host, port_text) \<Rightarrow>
             if length host \<ge> 64 then None
             else (case strtol 10 port_text of
                     Some (port, []) \<Rightarrow>
                       if port \<le> 0 \<or> port > 65535 then None
                       else (case inet_pton host of
                               None \<Rightarrow> None
                             | Some a \<Rightarrow> if is_loopback a then Some (SA_INET a (of_int port)) else None)
                   | _ \<Rightarrow> None))
      else None)"

definition same_peer :: "sockaddr \<Rightarrow> sockaddr \<Rightarrow> bool" where
  "same_peer peer src =
     (case (src, peer) of
        (SA_INET a p, SA_INET b q) \<Rightarrow> p = q \<and> a = b
      | (SA_UNIX s, SA_UNIX t) \<Rightarrow> take sun_path_size s = take sun_path_size t
      | _ \<Rightarrow> False)"

text \<open>A datagram longer than the buffer is cut to it; the byte count says so.\<close>

definition edog_dgram_recv ::
  "bytes \<Rightarrow> nat \<Rightarrow> sockaddr \<Rightarrow> bytes \<times> sockaddr \<Rightarrow> bytes \<times> nat \<times> bool" where
  "edog_dgram_recv buf bufsize peer dgram =
     (case dgram of
        (dg, src) \<Rightarrow> (mem_write buf 0 (take bufsize dg), min bufsize (length dg), same_peer peer src))"

section \<open>Properties\<close>

text \<open>
  An endpoint the program accepts never leaves the host: it is a local socket path that fits
  \<^verbatim>\<open>sun_path\<close>, or a loopback address with a port between 1 and 65535.
\<close>

theorem dgram_parse_local:
  assumes "edog_dgram_parse spec = Some peer"
  shows "(\<exists>path. peer = SA_UNIX path \<and> path \<noteq> [] \<and> length path < sun_path_size) \<or>
     (\<exists>a p. peer = SA_INET a p \<and> drop_bit 24 a = 127 \<and> p \<noteq> 0)"
proof (cases "starts_with ''unix:'' spec")
  case True
  with assms show ?thesis by (auto simp: edog_dgram_parse_def Let_def split: if_splits)
next
  case False
  with assms obtain a port where "peer = SA_INET a (of_int port)" "is_loopback a"
    "0 < port" "port \<le> 65535"
    by (auto simp: edog_dgram_parse_def split: if_splits option.splits prod.splits list.splits)
  moreover from this have "(of_int port :: u16) \<noteq> 0"
    by (auto simp: word_of_int_eq_0_iff dest: zdvd_imp_le)
  ultimately show ?thesis by (auto simp: is_loopback_def)
qed

theorem dgram_parse_local_witness:
  "edog_dgram_parse ''udp:127.0.0.1:5000'' = Some (SA_INET 0x7F000001 5000) \<and>
   drop_bit 24 (0x7F000001 :: u32) = 127 \<and> (5000 :: u16) \<noteq> 0"
proof -
  have p: "edog_dgram_parse ''udp:127.0.0.1:5000'' = Some (SA_INET 0x7F000001 5000)"
    by (simp add: edog_dgram_parse_def starts_with_def split_last_def strtol_def scan_int_def
        skip_sign_def isspace_def digit_of_def isdigit_def digits_value_def inet_pton_def
        inet_octet_def is_loopback_def)
  with dgram_parse_local [OF p] show ?thesis by simp
qed

end
