(* ===== verification/Protocol.thy ===== *)
theory Protocol
  imports Prelude
begin

text \<open>
  The cyclic data frame of \<^verbatim>\<open>include/etherdog_protocol.h\<close>: a 24-byte little-endian header, the
  helpers that store and load its fields at an offset of a byte buffer, the header encoder and
  decoder, and the wrap-around order on sequence numbers. A \<^verbatim>\<open>uint8_t *\<close> argument is a byte list
  and an offset into it; the decoder returns \<open>None\<close> where the C function returns false.
\<close>

section \<open>Constants and header\<close>

definition EDOG_PROTOCOL_VERSION :: u8 where "EDOG_PROTOCOL_VERSION = 1"
definition EDOG_FRAME_HEADER_SIZE :: nat where "EDOG_FRAME_HEADER_SIZE = 24"
definition EDOG_FRAME_MAX_PAYLOAD :: nat where
  "EDOG_FRAME_MAX_PAYLOAD = 65507 - EDOG_FRAME_HEADER_SIZE"
definition EDOG_FRAME_OUTPUTS :: u8 where "EDOG_FRAME_OUTPUTS = 1"
definition EDOG_FRAME_INPUTS :: u8 where "EDOG_FRAME_INPUTS = 2"
definition EDOG_FLAG_VALID :: u8 where "EDOG_FLAG_VALID = 1"
definition EDOG_FLAG_WKC_OK :: u8 where "EDOG_FLAG_WKC_OK = 2"

lemmas edog_const_defs =
  EDOG_PROTOCOL_VERSION_def EDOG_FRAME_HEADER_SIZE_def EDOG_FRAME_MAX_PAYLOAD_def
  EDOG_FRAME_OUTPUTS_def EDOG_FRAME_INPUTS_def EDOG_FLAG_VALID_def EDOG_FLAG_WKC_OK_def

record edog_frame_header =
  h_version :: u8
  h_kind :: u8
  h_master :: u8
  h_flags :: u8
  h_session :: u64
  h_sequence :: u32
  h_payload_len :: u16
  h_wkc :: u16

section \<open>Field access\<close>

definition edog_put_u16 :: "bytes \<Rightarrow> nat \<Rightarrow> u16 \<Rightarrow> bytes" where
  "edog_put_u16 p off v = p[off := ucast v, off + 1 := ucast (drop_bit 8 v)]"

definition edog_put_u32 :: "bytes \<Rightarrow> nat \<Rightarrow> u32 \<Rightarrow> bytes" where
  "edog_put_u32 p off v = fold (\<lambda>i q. q[off + i := ucast (drop_bit (8 * i) v)]) [0..<4] p"

definition edog_put_u64 :: "bytes \<Rightarrow> nat \<Rightarrow> u64 \<Rightarrow> bytes" where
  "edog_put_u64 p off v = fold (\<lambda>i q. q[off + i := ucast (drop_bit (8 * i) v)]) [0..<8] p"

definition edog_get_u16 :: "bytes \<Rightarrow> nat \<Rightarrow> u16" where
  "edog_get_u16 p off = ucast (p ! off) OR push_bit 8 (ucast (p ! (off + 1)))"

definition edog_get_u32 :: "bytes \<Rightarrow> nat \<Rightarrow> u32" where
  "edog_get_u32 p off = fold (\<lambda>i v. push_bit 8 v OR ucast (p ! (off + i))) (rev [0..<4]) 0"

definition edog_get_u64 :: "bytes \<Rightarrow> nat \<Rightarrow> u64" where
  "edog_get_u64 p off = fold (\<lambda>i v. push_bit 8 v OR ucast (p ! (off + i))) (rev [0..<8]) 0"

text \<open>The loops are the generic little-endian store and load at the field's width.\<close>

lemma edog_put_le:
  "edog_put_u16 = le_store 2" "edog_put_u32 = le_store 4" "edog_put_u64 = le_store 8"
  by (auto simp: fun_eq_iff le_store_def edog_put_u16_def edog_put_u32_def edog_put_u64_def
      numeral_2_eq_2)

lemma edog_get_le:
  "edog_get_u16 = le_load 2" "edog_get_u32 = le_load 4" "edog_get_u64 = le_load 8"
  by (auto simp: fun_eq_iff le_load_def edog_get_u16_def edog_get_u32_def edog_get_u64_def
      numeral_2_eq_2 or.commute)

interpretation c16: byte_codec 2 edog_put_u16 edog_get_u16
  by unfold_locales (auto simp: edog_put_le edog_get_le le_load_store le_store_load
      nth_le_store_other intro: le_load_cong)

interpretation c32: byte_codec 4 edog_put_u32 edog_get_u32
  by unfold_locales (auto simp: edog_put_le edog_get_le le_load_store le_store_load
      nth_le_store_other intro: le_load_cong)

interpretation c64: byte_codec 8 edog_put_u64 edog_get_u64
  by unfold_locales (auto simp: edog_put_le edog_get_le le_load_store le_store_load
      nth_le_store_other intro: le_load_cong)

section \<open>Header encoder and decoder\<close>

definition edog_frame_encode_header :: "bytes \<Rightarrow> edog_frame_header \<Rightarrow> bytes" where
  "edog_frame_encode_header out h =
     (let out = out[0 := 0x45, 1 := 0x44, 2 := 0x4F, 3 := 0x47];
          out = out[4 := h_version h, 5 := h_kind h, 6 := h_master h, 7 := h_flags h];
          out = edog_put_u64 out 8 (h_session h);
          out = edog_put_u32 out 16 (h_sequence h);
          out = edog_put_u16 out 20 (h_payload_len h)
      in edog_put_u16 out 22 (h_wkc h))"

definition edog_frame_decode_header :: "bytes \<Rightarrow> nat \<Rightarrow> edog_frame_header option" where
  "edog_frame_decode_header inp len =
     (if len < EDOG_FRAME_HEADER_SIZE then None
      else if inp ! 0 \<noteq> 0x45 \<or> inp ! 1 \<noteq> 0x44 \<or> inp ! 2 \<noteq> 0x4F \<or> inp ! 3 \<noteq> 0x47 then None
      else
        let h = \<lparr>h_version = inp ! 4, h_kind = inp ! 5, h_master = inp ! 6, h_flags = inp ! 7,
                 h_session = edog_get_u64 inp 8, h_sequence = edog_get_u32 inp 16,
                 h_payload_len = edog_get_u16 inp 20, h_wkc = edog_get_u16 inp 22\<rparr>
        in if h_version h \<noteq> EDOG_PROTOCOL_VERSION then None
           else if unat (h_payload_len h) > EDOG_FRAME_MAX_PAYLOAD then None
           else if len = EDOG_FRAME_HEADER_SIZE + unat (h_payload_len h) then Some h else None)"

definition edog_seq_newer :: "u32 \<Rightarrow> u32 \<Rightarrow> bool" where
  "edog_seq_newer seq lst \<longleftrightarrow> sint (seq - lst) > 0"

lemma edog_frame_encode_length [simp]: "length (edog_frame_encode_header out h) = length out"
  by (simp add: edog_frame_encode_header_def c16.put_length c32.put_length c64.put_length Let_def)

lemma edog_frame_encode_payload [wire_simps]:
  "24 \<le> i \<Longrightarrow> edog_frame_encode_header out h ! i = out ! i"
  by (simp add: edog_frame_encode_header_def c16.put_other c32.put_other c64.put_other Let_def)

lemma edog_frame_encode_drop [simp]:
  "drop EDOG_FRAME_HEADER_SIZE (edog_frame_encode_header out h) = drop EDOG_FRAME_HEADER_SIZE out"
  by (rule nth_equalityI) (auto simp: edog_const_defs edog_frame_encode_payload)

lemmas codec_length = c16.put_length c32.put_length c64.put_length
lemmas codec_other = c16.put_other c32.put_other c64.put_other

text \<open>What a reader of each header field finds after the encoder.\<close>

lemma edog_frame_encode_bytes [wire_simps]:
  assumes "EDOG_FRAME_HEADER_SIZE \<le> length out"
  shows "edog_frame_encode_header out h ! 0 = 0x45" "edog_frame_encode_header out h ! 1 = 0x44"
    "edog_frame_encode_header out h ! 2 = 0x4F" "edog_frame_encode_header out h ! 3 = 0x47"
    "edog_frame_encode_header out h ! 4 = h_version h" "edog_frame_encode_header out h ! 5 = h_kind h"
    "edog_frame_encode_header out h ! 6 = h_master h" "edog_frame_encode_header out h ! 7 = h_flags h"
proof -
  from assms have "out \<noteq> []" by (auto simp: edog_const_defs)
  with assms show "edog_frame_encode_header out h ! 0 = 0x45" "edog_frame_encode_header out h ! 1 = 0x44"
    "edog_frame_encode_header out h ! 2 = 0x4F" "edog_frame_encode_header out h ! 3 = 0x47"
    "edog_frame_encode_header out h ! 4 = h_version h" "edog_frame_encode_header out h ! 5 = h_kind h"
    "edog_frame_encode_header out h ! 6 = h_master h" "edog_frame_encode_header out h ! 7 = h_flags h"
    by (simp_all add: edog_frame_encode_header_def codec_other edog_const_defs Let_def
        nth_list_update)
qed

lemma edog_frame_encode_fields [wire_simps]:
  assumes "EDOG_FRAME_HEADER_SIZE \<le> length out"
  shows "edog_get_u64 (edog_frame_encode_header out h) 8 = h_session h"
    "edog_get_u32 (edog_frame_encode_header out h) 16 = h_sequence h"
    "edog_get_u16 (edog_frame_encode_header out h) 20 = h_payload_len h"
    "edog_get_u16 (edog_frame_encode_header out h) 22 = h_wkc h"
proof -
  define a where "a = out[0 := 0x45, 1 := 0x44, 2 := 0x4F, 3 := 0x47, 4 := h_version h,
    5 := h_kind h, 6 := h_master h, 7 := h_flags h]"
  define b where "b = edog_put_u64 a 8 (h_session h)"
  define c where "c = edog_put_u32 b 16 (h_sequence h)"
  define d where "d = edog_put_u16 c 20 (h_payload_len h)"
  have e: "edog_frame_encode_header out h = edog_put_u16 d 22 (h_wkc h)"
    by (simp add: edog_frame_encode_header_def a_def b_def c_def d_def Let_def)
  have len: "24 \<le> length a" "24 \<le> length b" "24 \<le> length c" "24 \<le> length d"
    using assms by (simp_all add: a_def b_def c_def d_def codec_length edog_const_defs)
  have "edog_get_u64 (edog_put_u16 d 22 (h_wkc h)) 8 = edog_get_u64 b 8"
    by (rule c64.get_other) (simp add: c_def d_def codec_other)
  then show "edog_get_u64 (edog_frame_encode_header out h) 8 = h_session h"
    using len by (simp add: e b_def c64.get_put)
  have "edog_get_u32 (edog_put_u16 d 22 (h_wkc h)) 16 = edog_get_u32 c 16"
    by (rule c32.get_other) (simp add: d_def codec_other)
  then show "edog_get_u32 (edog_frame_encode_header out h) 16 = h_sequence h"
    using len by (simp add: e c_def c32.get_put)
  have "edog_get_u16 (edog_put_u16 d 22 (h_wkc h)) 20 = edog_get_u16 d 20"
    by (rule c16.get_other) (simp add: codec_other)
  then show "edog_get_u16 (edog_frame_encode_header out h) 20 = h_payload_len h"
    using len by (simp add: e d_def c16.get_put)
  show "edog_get_u16 (edog_frame_encode_header out h) 22 = h_wkc h"
    using len by (simp add: e c16.get_put)
qed

text \<open>
  Encoding the fields already present in a buffer changes nothing: together with the magic bytes
  the eight fields determine the header.
\<close>

lemma edog_frame_encode_same:
  assumes "EDOG_FRAME_HEADER_SIZE \<le> length inp"
    and "inp ! 0 = 0x45" "inp ! 1 = 0x44" "inp ! 2 = 0x4F" "inp ! 3 = 0x47"
  shows "edog_frame_encode_header inp
     \<lparr>h_version = inp ! 4, h_kind = inp ! 5, h_master = inp ! 6, h_flags = inp ! 7,
      h_session = edog_get_u64 inp 8, h_sequence = edog_get_u32 inp 16,
      h_payload_len = edog_get_u16 inp 20, h_wkc = edog_get_u16 inp 22\<rparr> = inp"
proof -
  have "inp[0 := 0x45, 1 := 0x44, 2 := 0x4F, 3 := 0x47,
            4 := inp ! 4, 5 := inp ! 5, 6 := inp ! 6, 7 := inp ! 7] = inp"
    using assms(2-5) [symmetric] by (simp only: list_update_id)
  then show ?thesis
    using assms(1) by (simp add: edog_frame_encode_header_def Let_def edog_const_defs
        c16.put_get c32.put_get c64.put_get)
qed

lemma encode_decodes:
  assumes "h_version h = EDOG_PROTOCOL_VERSION"
    and "unat (h_payload_len h) \<le> EDOG_FRAME_MAX_PAYLOAD"
    and "EDOG_FRAME_HEADER_SIZE \<le> length out" "n = EDOG_FRAME_HEADER_SIZE + unat (h_payload_len h)"
  shows "edog_frame_decode_header (edog_frame_encode_header out h) n = Some h"
  using assms
  by (simp add: edog_frame_decode_header_def edog_frame_encode_bytes edog_frame_encode_fields Let_def
      del: One_nat_def)

section \<open>Properties of the frame format\<close>

text \<open>
  The header round trip. Whatever was in the transmit buffer before, a header of this
  protocol version whose payload fits a datagram is decoded field by field from a datagram that
  carries exactly the announced number of payload bytes.
\<close>

theorem frame_header_roundtrip:
  assumes "h_version h = EDOG_PROTOCOL_VERSION"
    and "unat (h_payload_len h) \<le> EDOG_FRAME_MAX_PAYLOAD"
    and "length out = EDOG_FRAME_HEADER_SIZE + unat (h_payload_len h)"
  shows "edog_frame_decode_header (edog_frame_encode_header out h) (length out) = Some h"
  using assms by (intro encode_decodes) simp_all

theorem frame_header_roundtrip_witness:
  "edog_frame_decode_header (edog_frame_encode_header (replicate 26 0)
     \<lparr>h_version = 1, h_kind = 2, h_master = 3, h_flags = 3, h_session = 0x0102030405060708,
      h_sequence = 0xFFFFFFFF, h_payload_len = 2, h_wkc = 9\<rparr>) 26
   = Some \<lparr>h_version = 1, h_kind = 2, h_master = 3, h_flags = 3, h_session = 0x0102030405060708,
      h_sequence = 0xFFFFFFFF, h_payload_len = 2, h_wkc = 9\<rparr>"
  using frame_header_roundtrip [of "\<lparr>h_version = 1, h_kind = 2, h_master = 3, h_flags = 3,
      h_session = 0x0102030405060708, h_sequence = 0xFFFFFFFF, h_payload_len = 2, h_wkc = 9\<rparr>"
      "replicate 26 0"]
  by (simp add: edog_const_defs)

text \<open>
  C22: the decoder accepts nothing but what the encoder writes. A datagram it accepts has the
  current version, announces exactly the payload it carries, which fits a UDP datagram, and is
  byte for byte the encoding of the decoded header in front of that payload.
\<close>

theorem frame_decode_sound:
  assumes "edog_frame_decode_header inp (length inp) = Some h"
  shows "length inp = EDOG_FRAME_HEADER_SIZE + unat (h_payload_len h)
    \<and> unat (h_payload_len h) \<le> EDOG_FRAME_MAX_PAYLOAD
    \<and> h_version h = EDOG_PROTOCOL_VERSION
    \<and> edog_frame_encode_header inp h = inp"
  using assms edog_frame_encode_same [of inp]
  by (auto simp: edog_frame_decode_header_def Let_def split: if_splits)

theorem frame_decode_sound_witness:
  "edog_frame_encode_header
     [0x45, 0x44, 0x4F, 0x47, 1, 1, 0, 1, 8, 7, 6, 5, 4, 3, 2, 1, 5, 0, 0, 0, 1, 0, 0, 0, 0xAB]
     \<lparr>h_version = 1, h_kind = 1, h_master = 0, h_flags = 1, h_session = 0x0102030405060708,
      h_sequence = 5, h_payload_len = 1, h_wkc = 0\<rparr>
   = [0x45, 0x44, 0x4F, 0x47, 1, 1, 0, 1, 8, 7, 6, 5, 4, 3, 2, 1, 5, 0, 0, 0, 1, 0, 0, 0, 0xAB]"
  (is "edog_frame_encode_header ?l ?h = _")
proof -
  have "edog_frame_decode_header ?l (length ?l) = Some ?h"
    by (simp add: edog_frame_decode_header_def edog_get_u16_def edog_get_u32_def edog_get_u64_def
        edog_const_defs Let_def upt_rec)
  from frame_decode_sound [OF this] show ?thesis by blast
qed

text \<open>
  Sequence numbers are compared in wrap-around order. A frame \<open>k\<close> increments after the last
  applied one is newer exactly when \<open>k\<close> is between 1 and \<open>2 ^ 31 - 1\<close>, wherever in the 32-bit
  range the counter stands: a repeated or an older frame never is, and neither order holds
  between two numbers half the range apart.
\<close>

theorem seq_newer_iff:
  "edog_seq_newer (lst + k) lst \<longleftrightarrow> 0 < unat k \<and> unat k < 2 ^ 31"
proof -
  have "sint k > 0 \<longleftrightarrow> 0 < uint k \<and> uint k < 2 ^ 31"
  proof -
    have b: "0 \<le> uint k" "uint k < 2 ^ 32" using uint_bounded [of k] by auto
    then have "uint k div 2 ^ 31 = (if uint k < 2 ^ 31 then 0 else 1)"
      by (auto simp: div_pos_geq)
    then have "bit (uint k) 31 \<longleftrightarrow> \<not> uint k < 2 ^ 31"
      by (simp add: bit_iff_odd)
    moreover have "take_bit 32 (uint k) = uint k"
      using b by (simp add: take_bit_int_eq_self)
    ultimately have "sint k = (if uint k < 2 ^ 31 then uint k else uint k - 2 ^ 32)"
      by (simp add: sint_uint signed_take_bit_eq_take_bit_minus)
    with b show ?thesis by auto
  qed
  moreover have "0 < uint k \<longleftrightarrow> 0 < unat k"
    by (simp only: uint_nat of_nat_0_less_iff)
  moreover have "uint k < 2 ^ 31 \<longleftrightarrow> unat k < 2 ^ 31"
    by (simp only: uint_nat of_nat_less_numeral_power_cancel_iff)
  ultimately have "sint k > 0 \<longleftrightarrow> 0 < unat k \<and> unat k < 2 ^ 31" by blast
  then show ?thesis by (simp only: edog_seq_newer_def add_diff_cancel_left')
qed

end
