(* ===== verification/Layout.thy ===== *)
theory Layout
  imports Instance Protocol
begin

text \<open>
  The published process-data layout (\<^verbatim>\<open>src/layout.c\<close>): where each configured PDO entry sits in
  the output and input regions of the I/O map. The theorems compare the loops with a reference
  description of the rows, show that the table allocated up front is always large enough, and
  that the rows of one slave and direction never overlap.
\<close>

section \<open>Operations\<close>

definition is_padding :: "ecat_pdo_entry \<Rightarrow> bool" where
  "is_padding entry \<longleftrightarrow>
     pe_type entry = ECAT_DTYPE_PAD \<or> pe_index entry = ''0x0000'' \<or> pe_index entry = ''0x0''"

definition layout_row :: "int \<Rightarrow> bool \<Rightarrow> string \<Rightarrow> ecat_pdo_entry \<Rightarrow> u32 \<Rightarrow> ecat_layout_entry" where
  "layout_row pos is_output pdo_idx entry at =
     \<lparr>le_slave_position = pos, le_pdo_index = pdo_idx, le_entry_index = pe_index entry,
      le_entry_subindex = pe_subindex entry, le_is_output = is_output, le_bit_offset = at,
      le_bit_length = pe_bit_length entry, le_data_type = pe_type entry, le_name = pe_name entry\<rparr>"

text \<open>The inner loop over the entries of one PDO and the outer one over the PDOs.\<close>

fun add_entries ::
  "int \<Rightarrow> bool \<Rightarrow> string \<Rightarrow> ecat_pdo_entry list \<Rightarrow> u32 \<Rightarrow> ecat_layout \<Rightarrow> bool \<times> u32 \<times> ecat_layout" where
  "add_entries pos is_output idx [] at layout = (True, at, layout)"
| "add_entries pos is_output idx (entry # es) at layout =
     (if \<not> is_padding entry then
        (if length (ly_entries layout) \<ge> entry_capacity layout then (False, at, layout)
         else add_entries pos is_output idx es (at + ucast (pe_bit_length entry))
                (layout\<lparr>ly_entries := ly_entries layout @ [layout_row pos is_output idx entry at]\<rparr>))
      else add_entries pos is_output idx es (at + ucast (pe_bit_length entry)) layout)"

fun add_pdos ::
  "int \<Rightarrow> bool \<Rightarrow> ecat_pdo list \<Rightarrow> u32 \<Rightarrow> ecat_layout \<Rightarrow> bool \<times> ecat_layout" where
  "add_pdos pos is_output [] at layout = (True, layout)"
| "add_pdos pos is_output (pdo # ps) at layout =
     (case add_entries pos is_output (pdo_index pdo) (pdo_entries pdo) at layout of
        (ok, at', layout') \<Rightarrow> if ok then add_pdos pos is_output ps at' layout' else (False, layout'))"

definition add_direction ::
  "'d ecat_master_instance \<Rightarrow> ecat_slave \<Rightarrow> ec_slave \<Rightarrow> bool \<Rightarrow> ecat_layout \<Rightarrow> bool \<times> ecat_layout" where
  "add_direction inst cfg soem is_output layout =
     (let pdos = (if is_output then rx_pdos cfg else tx_pdos cfg);
          slave_base = (if is_output then es_outputs soem else es_inputs soem);
          region = (if is_output then ecat_layout_output_region inst else ecat_layout_input_region inst);
          start_bit = (if is_output then es_Ostartbit soem else es_Istartbit soem)
      in if pdos = [] then (True, layout)
         else case (slave_base, region) of
                (Some b, Some r) \<Rightarrow>
                  add_pdos (position cfg) is_output pdos
                    (of_int ((int b - int r) * 8) + ucast start_bit) layout
              | _ \<Rightarrow> (True, layout))"

definition count_layout_max :: "ecat_config \<Rightarrow> nat" where
  "count_layout_max cfg =
     (\<Sum>sv\<leftarrow>c_slaves cfg. (\<Sum>p\<leftarrow>rx_pdos sv. length (pdo_entries p)) + (\<Sum>p\<leftarrow>tx_pdos sv. length (pdo_entries p)))"

fun add_slaves :: "'d ecat_master_instance \<Rightarrow> ecat_slave list \<Rightarrow> ecat_layout \<Rightarrow> bool \<times> ecat_layout" where
  "add_slaves inst [] layout = (True, layout)"
| "add_slaves inst (cfg # cs) layout =
     (case ecat_master_get_slave inst (position cfg) of
        None \<Rightarrow> (False, layout)
      | Some soem \<Rightarrow>
          (case add_direction inst cfg soem True layout of
             (False, l1) \<Rightarrow> (False, l1)
           | (True, l1) \<Rightarrow>
               (case add_direction inst cfg soem False l1 of
                  (False, l2) \<Rightarrow> (False, l2)
                | (True, l2) \<Rightarrow> add_slaves inst cs l2)))"

definition ecat_layout_build ::
  "(nat \<Rightarrow> bool) \<Rightarrow> 'd ecat_master_instance \<Rightarrow> bool \<times> 'd ecat_master_instance" where
  "ecat_layout_build mem inst =
     (case ecat_layout_init mem (count_layout_max (i_config inst)) of
        (False, ly) \<Rightarrow> (False, inst\<lparr>i_layout := ly\<rparr>)
      | (True, ly) \<Rightarrow>
          if \<not> i_soem_initialized inst then (False, inst\<lparr>i_layout := ly\<rparr>)
          else
            let grp = group0 (i_ctx inst);
                ly = ly\<lparr>output_bytes := eg_Obytes grp, input_bytes := eg_Ibytes grp\<rparr>
            in if unat (output_bytes ly) > EDOG_FRAME_MAX_PAYLOAD \<or>
                  unat (input_bytes ly) > EDOG_FRAME_MAX_PAYLOAD
               then (False, inst\<lparr>i_layout := ly\<rparr>)
               else (case add_slaves inst (c_slaves (i_config inst)) ly of
                       (ok, ly') \<Rightarrow> (ok, inst\<lparr>i_layout := ly'\<rparr>)))"

section \<open>Reference description\<close>

text \<open>The entries of a list of PDOs with the index of their PDO, and the rows they give.\<close>

definition flat_entries :: "ecat_pdo list \<Rightarrow> (string \<times> ecat_pdo_entry) list" where
  "flat_entries pdos = concat (map (\<lambda>p. map (Pair (pdo_index p)) (pdo_entries p)) pdos)"

definition bits_of :: "(string \<times> ecat_pdo_entry) list \<Rightarrow> nat" where
  "bits_of xs = (\<Sum>(_, e)\<leftarrow>xs. unat (pe_bit_length e))"

text \<open>Each entry sits behind the bits of all entries before it; padding leaves a gap.\<close>

definition rows_of :: "int \<Rightarrow> bool \<Rightarrow> u32 \<Rightarrow> (string \<times> ecat_pdo_entry) list \<Rightarrow> ecat_layout_entry list" where
  "rows_of pos is_output at xs =
     [layout_row pos is_output (fst (xs ! k)) (snd (xs ! k)) (at + of_nat (bits_of (take k xs))).
        k \<leftarrow> [0..<length xs], \<not> is_padding (snd (xs ! k))]"

definition direction_rows :: "'d ecat_master_instance \<Rightarrow> ecat_slave \<Rightarrow> ec_slave \<Rightarrow> bool \<Rightarrow> ecat_layout_entry list" where
  "direction_rows inst cfg soem is_output =
     (case (if is_output then es_outputs soem else es_inputs soem,
            if is_output then ecat_layout_output_region inst else ecat_layout_input_region inst) of
        (Some b, Some r) \<Rightarrow>
          rows_of (position cfg) is_output
            (of_int ((int b - int r) * 8) + ucast (if is_output then es_Ostartbit soem else es_Istartbit soem))
            (flat_entries (if is_output then rx_pdos cfg else tx_pdos cfg))
      | _ \<Rightarrow> [])"

definition slave_rows :: "'d ecat_master_instance \<Rightarrow> ecat_slave \<Rightarrow> ecat_layout_entry list" where
  "slave_rows inst cfg =
     (let soem = slavelist (i_ctx inst) (nat (position cfg))
      in direction_rows inst cfg soem True @ direction_rows inst cfg soem False)"

lemma bits_of_simps [simp]:
  "bits_of [] = 0" "bits_of (x # xs) = unat (pe_bit_length (snd x)) + bits_of xs"
  by (simp_all add: bits_of_def case_prod_beta)

lemma rows_of_Nil [simp]: "rows_of pos out at [] = []"
  by (simp add: rows_of_def)

lemma rows_of_Cons:
  "rows_of pos out at (x # xs) =
     (if is_padding (snd x) then [] else [layout_row pos out (fst x) (snd x) at]) @
     rows_of pos out (at + ucast (pe_bit_length (snd x))) xs"
proof -
  have "[0..<length (x # xs)] = 0 # map Suc [0..<length xs]"
    by (simp add: upt_conv_Cons map_Suc_upt del: upt_Suc)
  then show ?thesis
    by (auto simp: rows_of_def comp_def add.assoc intro!: arg_cong [where f = concat])
qed

lemma rows_of_length: "length (rows_of pos out at xs) \<le> length xs"
  by (induction xs arbitrary: at) (auto simp: rows_of_Cons intro: le_SucI)

lemma flat_entries_simps [simp]:
  "flat_entries [] = []"
  "flat_entries (p # ps) = map (Pair (pdo_index p)) (pdo_entries p) @ flat_entries ps"
  by (simp_all add: flat_entries_def)

lemma flat_entries_length: "length (flat_entries ps) = (\<Sum>p\<leftarrow>ps. length (pdo_entries p))"
  by (induction ps) simp_all

lemma rows_of_append:
  "rows_of pos out at (xs @ ys) = rows_of pos out at xs @ rows_of pos out (at + of_nat (bits_of xs)) ys"
  by (induction xs arbitrary: at) (simp_all add: rows_of_Cons add.assoc)

section \<open>The loops compute the reference rows\<close>

definition fits_table :: "ecat_layout \<Rightarrow> nat \<Rightarrow> bool" where
  "fits_table layout n \<longleftrightarrow> length (ly_entries layout) + n \<le> entry_capacity layout"

lemma add_entries_rows:
  "fits_table layout (length es) \<Longrightarrow>
   add_entries pos out idx es at layout =
     (True, at + of_nat (bits_of (map (Pair idx) es)),
      layout\<lparr>ly_entries := ly_entries layout @ rows_of pos out at (map (Pair idx) es)\<rparr>)"
  by (induction pos out idx es at layout rule: add_entries.induct)
    (auto simp: fits_table_def rows_of_Cons add.assoc)

lemma fits_table_rows:
  "fits_table layout (length xs + n) \<Longrightarrow>
   fits_table (layout\<lparr>ly_entries := ly_entries layout @ rows_of pos out at xs\<rparr>) n"
  using rows_of_length [of pos out at xs] by (simp add: fits_table_def)

lemma add_pdos_rows:
  "fits_table layout (length (flat_entries ps)) \<Longrightarrow>
   add_pdos pos out ps at layout =
     (True, layout\<lparr>ly_entries := ly_entries layout @ rows_of pos out at (flat_entries ps)\<rparr>)"
proof (induction pos out ps at layout rule: add_pdos.induct)
  case (2 pos out p ps at layout)
  let ?es = "map (Pair (pdo_index p)) (pdo_entries p)"
  let ?l = "layout\<lparr>ly_entries := ly_entries layout @ rows_of pos out at ?es\<rparr>"
  have "fits_table layout (length (pdo_entries p))" using "2.prems" by (simp add: fits_table_def)
  then have step: "add_entries pos out (pdo_index p) (pdo_entries p) at layout =
      (True, at + of_nat (bits_of ?es), ?l)" by (rule add_entries_rows)
  have "fits_table ?l (length (flat_entries ps))"
    using "2.prems" by (intro fits_table_rows) simp
  with "2.IH" [OF step [symmetric] refl] show ?case
    by (simp add: step rows_of_append)
qed simp

definition direction_entries :: "ecat_slave \<Rightarrow> bool \<Rightarrow> nat" where
  "direction_entries cfg out = length (flat_entries (if out then rx_pdos cfg else tx_pdos cfg))"

lemma add_direction_rows:
  "fits_table layout (direction_entries cfg out + n) \<Longrightarrow>
   \<exists>layout'. add_direction inst cfg soem out layout = (True, layout') \<and>
     layout' = layout\<lparr>ly_entries := ly_entries layout @ direction_rows inst cfg soem out\<rparr> \<and>
     fits_table layout' n"
proof -
  assume fit: "fits_table layout (direction_entries cfg out + n)"
  then have room: "fits_table layout (direction_entries cfg out)" "fits_table layout n"
    by (simp_all add: fits_table_def)
  have "fits_table (layout\<lparr>ly_entries := ly_entries layout @ direction_rows inst cfg soem out\<rparr>) n"
    using fit room(2) fits_table_rows [of layout "flat_entries (if out then rx_pdos cfg else tx_pdos cfg)" n]
    by (auto simp: direction_rows_def direction_entries_def split: option.splits)
  with room show ?thesis
    by (auto simp: add_direction_def direction_rows_def Let_def add_pdos_rows direction_entries_def
        split: option.splits)
qed

definition slaves_found :: "'d ecat_master_instance \<Rightarrow> bool" where
  "slaves_found inst \<longleftrightarrow>
     list_all (\<lambda>s. 1 \<le> position s \<and> position s \<le> int (slavecount (i_ctx inst))) (c_slaves (i_config inst))"

lemma get_slave_eq:
  "ecat_master_get_slave inst pos =
     (if 1 \<le> pos \<and> pos \<le> int (slavecount (i_ctx inst)) then Some (slavelist (i_ctx inst) (nat pos)) else None)"
  by (auto simp: ecat_master_get_slave_def)

lemma add_slaves_rows:
  assumes "fits_table layout (\<Sum>s\<leftarrow>cs. direction_entries s True + direction_entries s False)"
  shows "fst (add_slaves inst cs layout) \<longleftrightarrow>
       list_all (\<lambda>s. 1 \<le> position s \<and> position s \<le> int (slavecount (i_ctx inst))) cs"
    and "fst (add_slaves inst cs layout) \<Longrightarrow>
       snd (add_slaves inst cs layout) =
         layout\<lparr>ly_entries := ly_entries layout @ concat (map (slave_rows inst) cs)\<rparr>"
proof -
  have "(fst (add_slaves inst cs layout) \<longleftrightarrow>
       list_all (\<lambda>s. 1 \<le> position s \<and> position s \<le> int (slavecount (i_ctx inst))) cs) \<and>
     (fst (add_slaves inst cs layout) \<longrightarrow>
       snd (add_slaves inst cs layout) =
         layout\<lparr>ly_entries := ly_entries layout @ concat (map (slave_rows inst) cs)\<rparr>)"
    using assms
  proof (induction cs arbitrary: layout)
    case (Cons c cs)
    let ?s = "slavelist (i_ctx inst) (nat (position c))"
    let ?rest = "\<Sum>s\<leftarrow>cs. direction_entries s True + direction_entries s False"
    obtain l1 where l1: "add_direction inst c ?s True layout = (True, l1)"
      "l1 = layout\<lparr>ly_entries := ly_entries layout @ direction_rows inst c ?s True\<rparr>"
      "fits_table l1 (direction_entries c False + ?rest)"
      using add_direction_rows [of layout c True "direction_entries c False + ?rest"] Cons.prems
      by (auto simp: add.assoc)
    obtain l2 where l2: "add_direction inst c ?s False l1 = (True, l2)"
      "l2 = l1\<lparr>ly_entries := ly_entries l1 @ direction_rows inst c ?s False\<rparr>" "fits_table l2 ?rest"
      using add_direction_rows [OF l1(3)] by blast
    show ?case
      using Cons.IH [OF l2(3)] l1(1) l2(1)
      by (auto simp: get_slave_eq slave_rows_def Let_def l1(2) l2(2))
  qed simp
  then show "fst (add_slaves inst cs layout) \<longleftrightarrow>
       list_all (\<lambda>s. 1 \<le> position s \<and> position s \<le> int (slavecount (i_ctx inst))) cs"
    and "fst (add_slaves inst cs layout) \<Longrightarrow>
       snd (add_slaves inst cs layout) =
         layout\<lparr>ly_entries := ly_entries layout @ concat (map (slave_rows inst) cs)\<rparr>"
    by blast+
qed

lemma count_layout_max_eq:
  "count_layout_max cfg = (\<Sum>s\<leftarrow>c_slaves cfg. direction_entries s True + direction_entries s False)"
  by (simp add: count_layout_max_def direction_entries_def flat_entries_length)

lemma layout_init_table:
  "n = 0 \<or> mem n \<Longrightarrow> ecat_layout_init mem n =
     (True, \<lparr>output_bytes = 0, input_bytes = 0, ly_entries = [], entry_capacity = n\<rparr>)"
  "\<not> (n = 0 \<or> mem n) \<Longrightarrow> ecat_layout_init mem n = (False, ecat_layout_destroy)"
  by (auto simp: ecat_layout_init_def ecat_layout_destroy_def Let_def)

definition built_layout :: "'d ecat_master_instance \<Rightarrow> ecat_layout" where
  "built_layout inst =
     \<lparr>output_bytes = eg_Obytes (group0 (i_ctx inst)), input_bytes = eg_Ibytes (group0 (i_ctx inst)),
      ly_entries = concat (map (slave_rows inst) (c_slaves (i_config inst))),
      entry_capacity = count_layout_max (i_config inst)\<rparr>"

lemma layout_build_cases:
  "fst (ecat_layout_build mem inst) \<longleftrightarrow>
     (count_layout_max (i_config inst) = 0 \<or> mem (count_layout_max (i_config inst))) \<and>
     i_soem_initialized inst \<and>
     unat (eg_Obytes (group0 (i_ctx inst))) \<le> EDOG_FRAME_MAX_PAYLOAD \<and>
     unat (eg_Ibytes (group0 (i_ctx inst))) \<le> EDOG_FRAME_MAX_PAYLOAD \<and>
     slaves_found inst"
  "fst (ecat_layout_build mem inst) \<Longrightarrow> snd (ecat_layout_build mem inst) = inst\<lparr>i_layout := built_layout inst\<rparr>"
proof -
  let ?n = "count_layout_max (i_config inst)"
  let ?ly = "\<lparr>output_bytes = eg_Obytes (group0 (i_ctx inst)), input_bytes = eg_Ibytes (group0 (i_ctx inst)),
    ly_entries = [], entry_capacity = ?n\<rparr>"
  have "fits_table ?ly (\<Sum>s\<leftarrow>c_slaves (i_config inst). direction_entries s True + direction_entries s False)"
    by (simp add: fits_table_def count_layout_max_eq)
  note rows = add_slaves_rows [OF this, of inst]
  obtain ok ly' where add: "add_slaves inst (c_slaves (i_config inst)) ?ly = (ok, ly')" by force
  let ?pre = "(?n = 0 \<or> mem ?n) \<and> i_soem_initialized inst \<and>
     unat (eg_Obytes (group0 (i_ctx inst))) \<le> EDOG_FRAME_MAX_PAYLOAD \<and>
     unat (eg_Ibytes (group0 (i_ctx inst))) \<le> EDOG_FRAME_MAX_PAYLOAD"
  have build: "ecat_layout_build mem inst = (ok, inst\<lparr>i_layout := ly'\<rparr>)" if ?pre
    using that add by (simp add: ecat_layout_build_def layout_init_table Let_def not_less [symmetric])
  have fail: "\<not> fst (ecat_layout_build mem inst)" if "\<not> ?pre"
    using that by (cases "?n = 0 \<or> mem ?n") (auto simp: ecat_layout_build_def layout_init_table Let_def)
  show "fst (ecat_layout_build mem inst) \<longleftrightarrow>
     (?n = 0 \<or> mem ?n) \<and> i_soem_initialized inst \<and>
     unat (eg_Obytes (group0 (i_ctx inst))) \<le> EDOG_FRAME_MAX_PAYLOAD \<and>
     unat (eg_Ibytes (group0 (i_ctx inst))) \<le> EDOG_FRAME_MAX_PAYLOAD \<and> slaves_found inst"
  proof (cases ?pre)
    case True
    with build rows(1) add show ?thesis by (simp add: slaves_found_def)
  next
    case False
    with fail show ?thesis by blast
  qed
  show "snd (ecat_layout_build mem inst) = inst\<lparr>i_layout := built_layout inst\<rparr>"
    if "fst (ecat_layout_build mem inst)"
  proof -
    from that fail have pre: ?pre by blast
    with that build add rows(2) show ?thesis by (simp add: built_layout_def)
  qed
qed

section \<open>Rows do not overlap\<close>

definition row_before :: "ecat_layout_entry \<Rightarrow> ecat_layout_entry \<Rightarrow> bool" where
  "row_before a b \<longleftrightarrow>
     unat (le_bit_offset a) + unat (le_bit_length a) \<le> unat (le_bit_offset b)"

definition row_inside :: "nat \<Rightarrow> nat \<Rightarrow> ecat_layout_entry \<Rightarrow> bool" where
  "row_inside lo hi r \<longleftrightarrow>
     lo \<le> unat (le_bit_offset r) \<and> unat (le_bit_offset r) + unat (le_bit_length r) \<le> hi"

lemma unat_plus_length:
  fixes at :: u32 and n :: u8
  shows "unat at + unat n < 2 ^ 32 \<Longrightarrow> unat (at + ucast n) = unat at + unat n"
proof -
  assume less: "unat at + unat n < 2 ^ 32"
  have n8: "unat n < 256" using unsigned_less [of n] by simp
  have "unat (ucast n :: u32) = unat n" 
    using n8 by (simp add: unsigned_ucast_eq take_bit_eq_mod)
  with less show ?thesis by (simp add: unat_word_ariths)
qed

lemma rows_of_disjoint:
  assumes "unat at + bits_of xs < 2 ^ 32"
  shows "sorted_wrt row_before (rows_of pos out at xs) \<and>
     (\<forall>r\<in>set (rows_of pos out at xs). row_inside (unat at) (unat at + bits_of xs) r \<and>
        le_slave_position r = pos \<and> le_is_output r = out)"
  using assms
proof (induction xs arbitrary: at)
  case (Cons x xs)
  let ?n = "unat (pe_bit_length (snd x))"
  have next_at: "unat (at + ucast (pe_bit_length (snd x))) = unat at + ?n"
    using Cons.prems by (intro unat_plus_length) simp
  then have "unat (at + ucast (pe_bit_length (snd x))) + bits_of xs < 2 ^ 32" using Cons.prems by simp
  from Cons.IH [OF this] next_at show ?case
    by (auto simp: rows_of_Cons row_before_def row_inside_def layout_row_def)
qed simp

text \<open>
  SOEM's mapping, as the head of \<^verbatim>\<open>src/layout.c\<close> documents it: the slice of a slave starts at its pointer into the
  region of its direction, plus a start bit. Nothing is asked of the lengths that the configuration gives.
\<close>

definition slice_in_region :: "'d ecat_master_instance \<Rightarrow> ecat_slave \<Rightarrow> bool \<Rightarrow> bool" where
  "slice_in_region inst cfg out \<longleftrightarrow>
     (let soem = slavelist (i_ctx inst) (nat (position cfg)); grp = group0 (i_ctx inst)
      in case (if out then es_outputs soem else es_inputs soem,
               if out then ecat_layout_output_region inst else ecat_layout_input_region inst) of
           (Some b, Some r) \<Rightarrow> r \<le> b \<and> b - r \<le> unat (if out then eg_Obytes grp else eg_Ibytes grp)
         | _ \<Rightarrow> True)"

definition slice_start :: "'d ecat_master_instance \<Rightarrow> ecat_slave \<Rightarrow> bool \<Rightarrow> nat" where
  "slice_start inst cfg out =
     (let soem = slavelist (i_ctx inst) (nat (position cfg))
      in case (if out then es_outputs soem else es_inputs soem,
               if out then ecat_layout_output_region inst else ecat_layout_input_region inst) of
           (Some b, Some r) \<Rightarrow> (b - r) * 8 + unat (if out then es_Ostartbit soem else es_Istartbit soem)
         | _ \<Rightarrow> 0)"

definition configured_bits :: "ecat_slave \<Rightarrow> bool \<Rightarrow> nat" where
  "configured_bits cfg out = bits_of (flat_entries (if out then rx_pdos cfg else tx_pdos cfg))"

lemma bits_of_le: "bits_of xs \<le> 255 * length xs"
proof (induction xs)
  case (Cons x xs)
  have "unat (pe_bit_length (snd x)) < 256" using unsigned_less [of "pe_bit_length (snd x)"] by simp
  then show ?case using Cons by simp
qed simp

text \<open>What a layout that was built leaves of room below \<open>2 ^ 32\<close> bits.\<close>

definition rows_fit :: "'d ecat_master_instance \<Rightarrow> ecat_slave \<Rightarrow> bool \<Rightarrow> bool" where
  "rows_fit inst cfg out \<longleftrightarrow> slice_in_region inst cfg out \<and> slice_start inst cfg out + configured_bits cfg out < 2 ^ 32"

lemma direction_rows_disjoint:
  assumes "rows_fit inst cfg out"
  shows "sorted_wrt row_before (direction_rows inst cfg (slavelist (i_ctx inst) (nat (position cfg))) out)"
    and "\<forall>r\<in>set (direction_rows inst cfg (slavelist (i_ctx inst) (nat (position cfg))) out).
       row_inside (slice_start inst cfg out) (slice_start inst cfg out + configured_bits cfg out) r \<and>
       le_slave_position r = position cfg \<and> le_is_output r = out"
proof -
  let ?soem = "slavelist (i_ctx inst) (nat (position cfg))"
  let ?xs = "flat_entries (if out then rx_pdos cfg else tx_pdos cfg)"
  let ?good = "\<lambda>r. row_inside (slice_start inst cfg out) (slice_start inst cfg out + configured_bits cfg out) r \<and>
       le_slave_position r = position cfg \<and> le_is_output r = out"
  have "sorted_wrt row_before (direction_rows inst cfg ?soem out) \<and>
    (\<forall>r\<in>set (direction_rows inst cfg ?soem out). ?good r)"
  proof (cases "(if out then es_outputs ?soem else es_inputs ?soem) = None \<or>
      (if out then ecat_layout_output_region inst else ecat_layout_input_region inst) = None")
    case True
    then show ?thesis by (auto simp: direction_rows_def split: option.splits)
  next
    case False
    then obtain b r where b: "(if out then es_outputs ?soem else es_inputs ?soem) = Some b"
        and r: "(if out then ecat_layout_output_region inst else ecat_layout_input_region inst) = Some r"
      by (cases out) auto
    define sb where "sb = (if out then es_Ostartbit ?soem else es_Istartbit ?soem)"
    define at :: u32 where "at = of_int ((int b - int r) * 8) + ucast sb"
    have start: "slice_start inst cfg out = (b - r) * 8 + unat sb"
      unfolding slice_start_def Let_def b r by (simp add: sb_def)
    have inside: "r \<le> b" "slice_start inst cfg out + bits_of ?xs < 2 ^ 32"
      using assms b r by (auto simp: rows_fit_def slice_in_region_def configured_bits_def Let_def)
    have "(int b - int r) * 8 = int ((b - r) * 8)" using inside(1) by (simp add: of_nat_diff)
    then have "at = of_nat ((b - r) * 8) + ucast sb" by (simp only: at_def of_int_of_nat_eq)
    then have "at = of_nat ((b - r) * 8 + unat sb)" by simp
    then have "unat at = ((b - r) * 8 + unat sb) mod 2 ^ 32" by (simp only: unat_of_nat) simp
    then have at: "unat at = slice_start inst cfg out" using inside(2) start by simp
    have rows: "direction_rows inst cfg ?soem out = rows_of (position cfg) out at ?xs"
      unfolding direction_rows_def b r by (simp add: at_def sb_def)
    have "unat at + bits_of ?xs < 2 ^ 32" using at inside(2) by simp
    from rows_of_disjoint [OF this, of "position cfg" out] at show ?thesis
      unfolding rows configured_bits_def by simp
  qed
  then show "sorted_wrt row_before (direction_rows inst cfg ?soem out)"
    and "\<forall>r\<in>set (direction_rows inst cfg ?soem out). ?good r"
    by blast+
qed

lemma filter_slave_rows:
  assumes "\<And>q. rows_fit inst c q"
  shows "filter (\<lambda>r. le_slave_position r = p \<and> le_is_output r = out) (slave_rows inst c) =
    (if position c = p then direction_rows inst c (slavelist (i_ctx inst) (nat (position c))) out else [])"
proof -
  let ?d = "\<lambda>q. direction_rows inst c (slavelist (i_ctx inst) (nat (position c))) q"
  have "filter (\<lambda>r. le_slave_position r = p \<and> le_is_output r = out) (?d q) =
      (if position c = p \<and> q = out then ?d q else [])" for q
    using direction_rows_disjoint(2) [OF assms, of q] by (auto simp: filter_id_conv filter_empty_conv)
  then show ?thesis by (cases out) (auto simp: slave_rows_def Let_def)
qed

lemma filter_all_rows:
  assumes "distinct (map position cs)" and "\<And>c q. c \<in> set cs \<Longrightarrow> rows_fit inst c q"
  shows "filter (\<lambda>r. le_slave_position r = p \<and> le_is_output r = out) (concat (map (slave_rows inst) cs)) =
    (case find (\<lambda>c. position c = p) cs of
       None \<Rightarrow> []
     | Some c \<Rightarrow> direction_rows inst c (slavelist (i_ctx inst) (nat (position c))) out)"
  using assms
proof (induction cs)
  case (Cons c cs)
  have "find (\<lambda>d. position d = p) cs = None" if "position c = p"
    using that Cons.prems(1) by (simp add: find_None_iff image_iff) metis
  moreover have "filter (\<lambda>r. le_slave_position r = p \<and> le_is_output r = out) (slave_rows inst c) =
      (if position c = p then direction_rows inst c (slavelist (i_ctx inst) (nat (position c))) out else [])"
    using Cons.prems(2) by (intro filter_slave_rows) auto
  ultimately show ?case using Cons by auto
qed simp

lemma find_key_distinct: "distinct (map f xs) \<Longrightarrow> x \<in> set xs \<Longrightarrow> find (\<lambda>y. f y = f x) xs = Some x"
  by (induction xs) (auto simp: image_iff)

text \<open>
  The frame limit that the build checks bounds the start of a slice, and fewer than \<open>2 ^ 24\<close> entries of at
  most 255 bits follow it, so the 32-bit offset does not wrap around.
\<close>

lemma direction_entries_le:
  assumes "c \<in> set (c_slaves cfg)"
  shows "direction_entries c out \<le> count_layout_max cfg"
proof -
  have "direction_entries c True + direction_entries c False \<le>
      (\<Sum>s\<leftarrow>c_slaves cfg. direction_entries s True + direction_entries s False)"
    by (rule member_le_sum_list) (use assms in auto)
  then show ?thesis unfolding count_layout_max_eq by (cases out) auto
qed

lemma built_rows_fit:
  assumes "fst (ecat_layout_build mem inst)" and "count_layout_max (i_config inst) < 2 ^ 24"
    and "c \<in> set (c_slaves (i_config inst))" and "slice_in_region inst c q"
  shows "rows_fit inst c q"
proof -
  have region: "unat (eg_Obytes (group0 (i_ctx inst))) \<le> 65536" "unat (eg_Ibytes (group0 (i_ctx inst))) \<le> 65536"
    using layout_build_cases(1) [of mem inst] assms(1)
    by (auto simp: EDOG_FRAME_MAX_PAYLOAD_def EDOG_FRAME_HEADER_SIZE_def)
  have len: "(b - r) * 8 + unat (x :: u8) \<le> 524543" if "b - r \<le> 65536" for b r :: nat and x
  proof -
    have "unat x < 256" using unsigned_less [of x] by simp
    then show ?thesis using that by linarith
  qed
  have "slice_start inst c q \<le> 524543"
  proof (cases q)
    case True
    then show ?thesis using assms(4) region(1)
      by (auto simp: slice_start_def slice_in_region_def Let_def split: option.splits intro!: len)
  next
    case False
    then show ?thesis using assms(4) region(2)
      by (auto simp: slice_start_def slice_in_region_def Let_def split: option.splits intro!: len)
  qed
  moreover have "configured_bits c q \<le> 255 * (2 ^ 24 - 1)"
    using bits_of_le [of "flat_entries (if q then rx_pdos c else tx_pdos c)"]
      direction_entries_le [OF assms(3), of q] assms(2)
    unfolding configured_bits_def direction_entries_def by simp
  ultimately show ?thesis using assms(4) by (simp add: rows_fit_def)
qed

section \<open>Properties\<close>

text \<open>
  Building the layout succeeds exactly when the table can be allocated, the process data is
  mapped, both regions fit a frame and every configured slave is on the bus. The table sized from
  the configuration is never too small, so the overflow branch of the code is unreachable.
\<close>

theorem layout_build_succeeds_iff:
  "fst (ecat_layout_build mem inst) \<longleftrightarrow>
     (count_layout_max (i_config inst) = 0 \<or> mem (count_layout_max (i_config inst))) \<and>
     i_soem_initialized inst \<and>
     unat (eg_Obytes (group0 (i_ctx inst))) \<le> EDOG_FRAME_MAX_PAYLOAD \<and>
     unat (eg_Ibytes (group0 (i_ctx inst))) \<le> EDOG_FRAME_MAX_PAYLOAD \<and>
     list_all (\<lambda>s. 1 \<le> position s \<and> position s \<le> int (slavecount (i_ctx inst)))
       (c_slaves (i_config inst))"
  using layout_build_cases(1) [of mem inst] by (simp only: slaves_found_def)

text \<open>An example: one slave with two output entries around a padding of four bits.\<close>

definition example_layout_slave :: ecat_slave where
  "example_layout_slave = zero_slave\<lparr>position := 1,
     rx_pdos := [\<lparr>pdo_index = ''0x1600'', pdo_name = [],
       pdo_entries =
         [\<lparr>pe_index = ''0x7000'', pe_subindex = 1, pe_bit_length = 4, pe_name = ''a'', pe_type = ECAT_DTYPE_UINT8\<rparr>,
          \<lparr>pe_index = ''0x0000'', pe_subindex = 0, pe_bit_length = 4, pe_name = [], pe_type = ECAT_DTYPE_UNKNOWN\<rparr>,
          \<lparr>pe_index = ''0x7000'', pe_subindex = 2, pe_bit_length = 8, pe_name = ''b'', pe_type = ECAT_DTYPE_UINT8\<rparr>],
       pdo_fixed = False\<rparr>]\<rparr>"

definition example_layout_inst :: "unit ecat_master_instance" where
  "example_layout_inst = (zero_instance ())\<lparr>i_soem_initialized := True,
     i_config := zero_config\<lparr>c_slaves := [example_layout_slave]\<rparr>,
     i_ctx := (zero_context ())\<lparr>slavecount := 1,
       slavelist := (\<lambda>_. zero_ec_slave)(1 := zero_ec_slave\<lparr>es_outputs := Some 0\<rparr>),
       group0 := \<lparr>eg_Obytes = 2, eg_Ibytes = 0, eg_outputs = Some 0, eg_inputs = None,
                 eg_outputsWKC = 1, eg_inputsWKC = 0\<rparr>\<rparr>\<rparr>"

lemmas example_layout_defs = example_layout_inst_def example_layout_slave_def zero_defs zero_slave_def

lemma example_layout_built: "fst (ecat_layout_build (\<lambda>_. True) example_layout_inst)"
  by (simp add: layout_build_cases slaves_found_def example_layout_defs EDOG_FRAME_MAX_PAYLOAD_def
      EDOG_FRAME_HEADER_SIZE_def)

text \<open>
  C23: a layout that was built has the sizes SOEM mapped and, slave by slave, outputs before
  inputs, exactly one row for each entry that is not padding, at the slave's start bit plus the
  lengths of all entries before it.
\<close>

theorem layout_build_rows:
  "fst (ecat_layout_build mem inst) \<Longrightarrow>
   snd (ecat_layout_build mem inst) =
     inst\<lparr>i_layout := \<lparr>output_bytes = eg_Obytes (group0 (i_ctx inst)),
                       input_bytes = eg_Ibytes (group0 (i_ctx inst)),
                       ly_entries = concat (map (slave_rows inst) (c_slaves (i_config inst))),
                       entry_capacity = count_layout_max (i_config inst)\<rparr>\<rparr>"
  using layout_build_cases(2) [of mem inst] by (simp only: built_layout_def)

theorem layout_build_rows_witness:
  "map le_bit_offset (ly_entries (i_layout (snd (ecat_layout_build (\<lambda>_. True) example_layout_inst)))) = [0, 8]"
  unfolding layout_build_rows [OF example_layout_built]
  by (simp add: example_layout_defs slave_rows_def direction_rows_def ecat_layout_output_region_def
      ecat_layout_input_region_def rows_of_Cons is_padding_def layout_row_def)

text \<open>
  C24: in a layout that was built for slaves on distinct positions, the rows of one slave and direction appear in
  rising order and none overlaps another, and together they stay between the start of the slave's slice and its
  end after the configured bits. Assumed is what SOEM documents, that the pointers of its slaves lie in the
  region of their direction, and that the configuration has fewer than \<open>2 ^ 24\<close> entries. That the configured bits
  are those that SOEM mapped is not assumed, and not promised: the code does not compare the two.
\<close>

theorem layout_rows_disjoint:
  assumes "fst (ecat_layout_build mem inst)"
    and "distinct (map position (c_slaves (i_config inst)))"
    and "count_layout_max (i_config inst) < 2 ^ 24"
    and "\<forall>s\<in>set (c_slaves (i_config inst)). slice_in_region inst s True \<and> slice_in_region inst s False"
    and "c \<in> set (c_slaves (i_config inst))"
    and "rows = filter (\<lambda>r. le_slave_position r = position c \<and> le_is_output r = out)
       (ly_entries (i_layout (snd (ecat_layout_build mem inst))))"
  shows "sorted_wrt row_before rows \<and>
     (\<forall>r\<in>set rows. row_inside (slice_start inst c out) (slice_start inst c out + configured_bits c out) r)"
proof -
  have fit: "rows_fit inst d q" if "d \<in> set (c_slaves (i_config inst))" for d q
    by (rule built_rows_fit [OF assms(1,3) that]) (use assms(4) that in \<open>cases q; auto\<close>)
  have "ly_entries (i_layout (snd (ecat_layout_build mem inst))) =
      concat (map (slave_rows inst) (c_slaves (i_config inst)))"
    using layout_build_cases(2) [OF assms(1)] by (simp add: built_layout_def)
  moreover have "find (\<lambda>d. position d = position c) (c_slaves (i_config inst)) = Some c"
    by (rule find_key_distinct [OF assms(2,5)])
  ultimately have "rows = direction_rows inst c (slavelist (i_ctx inst) (nat (position c))) out"
    using filter_all_rows [OF assms(2) fit, of "position c" out] assms(6) by simp
  then show ?thesis using direction_rows_disjoint [OF fit [OF assms(5)], of out] by simp
qed

theorem layout_rows_disjoint_witness:
  "sorted_wrt row_before
     (filter (\<lambda>r. le_slave_position r = position example_layout_slave \<and> le_is_output r = True)
        (ly_entries (i_layout (snd (ecat_layout_build (\<lambda>_. True) example_layout_inst)))))"
proof -
  have "distinct (map position (c_slaves (i_config example_layout_inst)))"
    "count_layout_max (i_config example_layout_inst) < 2 ^ 24"
    "example_layout_slave \<in> set (c_slaves (i_config example_layout_inst))"
    by (simp_all add: example_layout_defs count_layout_max_def)
  moreover have "\<forall>s\<in>set (c_slaves (i_config example_layout_inst)).
      slice_in_region example_layout_inst s True \<and> slice_in_region example_layout_inst s False"
    by (simp add: example_layout_defs slice_in_region_def ecat_layout_output_region_def
        ecat_layout_input_region_def)
  ultimately show ?thesis using layout_rows_disjoint [OF example_layout_built _ _ _ _ refl] by blast
qed

end
