(* ===== verification/Data.thy ===== *)
theory Data
  imports Dgram Layout
begin

text \<open>
  The cyclic data session (\<^verbatim>\<open>src/data.c\<close>): one client sends output frames and receives input
  frames. The datagrams waiting in the socket, the outcome of a try-lock, of the socket calls and
  of the random source are arguments. The output region is a slice of the I/O map. The theorems
  say which frames reach the outputs, when the outputs are zeroed, and what is published.
\<close>

section \<open>Buffers\<close>

definition ecat_data_init :: "'d ecat_master_instance \<Rightarrow> 'd ecat_master_instance" where
  "ecat_data_init inst = inst\<lparr>i_data := zero_session\<lparr>d_fd := - 1\<rparr>\<rparr>"

definition ecat_data_alloc_buffers ::
  "(nat \<Rightarrow> bool) \<Rightarrow> 'd ecat_master_instance \<Rightarrow> bool \<times> 'd ecat_master_instance" where
  "ecat_data_alloc_buffers mem inst =
     (let out_bytes = unat (output_bytes (i_layout inst));
          in_bytes = unat (input_bytes (i_layout inst))
      in if out_bytes > EDOG_FRAME_MAX_PAYLOAD \<or> in_bytes > EDOG_FRAME_MAX_PAYLOAD then (False, inst)
         else
           let rx_size = EDOG_FRAME_HEADER_SIZE + out_bytes + 1;
               latest_size = (if out_bytes > 0 then out_bytes else 1);
               tx_size = EDOG_FRAME_HEADER_SIZE + in_bytes
           in if \<not> mem rx_size \<or> \<not> mem latest_size \<or> \<not> mem tx_size then (False, inst)
              else (True, inst\<lparr>i_data := (i_data inst)
                     \<lparr>d_rx_buf := Some (zero_bytes rx_size), d_rx_buf_size := rx_size,
                      d_rx_latest := Some (zero_bytes latest_size),
                      d_tx_buf := Some (zero_bytes tx_size), d_tx_buf_size := tx_size\<rparr>\<rparr>))"

definition ecat_data_free_buffers :: "'d ecat_master_instance \<Rightarrow> 'd ecat_master_instance" where
  "ecat_data_free_buffers inst =
     inst\<lparr>i_data := (i_data inst)\<lparr>d_rx_buf := None, d_rx_latest := None, d_tx_buf := None,
                                  d_rx_buf_size := 0, d_tx_buf_size := 0\<rparr>\<rparr>"

section \<open>Opening and closing\<close>

text \<open>\<open>urandom\<close> is what eight bytes of \<^verbatim>\<open>/dev/urandom\<close> gave, \<open>None\<close> when they could not be read.\<close>

definition random_session :: "u64 option \<Rightarrow> u64 \<Rightarrow> u64 \<Rightarrow> u64 \<Rightarrow> u64" where
  "random_session urandom sec nsec pid =
     (let fallback = (let v = push_bit 32 sec XOR nsec XOR push_bit 16 pid in if v \<noteq> 0 then v else 1)
      in case urandom of Some v \<Rightarrow> if v \<noteq> 0 then v else fallback | None \<Rightarrow> fallback)"

definition close_locked :: "ecat_data_session \<Rightarrow> ecat_data_session" where
  "close_locked d =
     d\<lparr>d_fd := - 1, d_local_path := [], d_open := False, d_session := 0, d_rx_seen := False\<rparr>"

definition ecat_data_close :: "'d ecat_master_instance \<Rightarrow> 'd ecat_master_instance" where
  "ecat_data_close inst = inst\<lparr>i_data := close_locked (i_data inst)\<rparr>"

definition ecat_data_destroy :: "'d ecat_master_instance \<Rightarrow> 'd ecat_master_instance" where
  "ecat_data_destroy inst = ecat_data_free_buffers (ecat_data_close inst)"

text \<open>\<open>sock\<close> is the descriptor and bound path \<^verbatim>\<open>edog_dgram_open\<close> returned, \<open>None\<close> on failure.\<close>

definition ecat_data_open ::
  "string \<Rightarrow> (int \<times> string) option \<Rightarrow> u64 \<Rightarrow> 'd ecat_master_instance \<Rightarrow> u64 option \<times> 'd ecat_master_instance" where
  "ecat_data_open client_endpoint sock fresh inst =
     (case edog_dgram_parse client_endpoint of
        None \<Rightarrow> (None, inst)
      | Some peer \<Rightarrow>
          let d = close_locked (i_data inst)
          in if d_rx_buf d = None \<or> d_tx_buf d = None then (None, inst\<lparr>i_data := d\<rparr>)
             else case sock of
                    None \<Rightarrow> (None, inst\<lparr>i_data := d\<rparr>)
                  | Some (fd, path) \<Rightarrow>
                      (Some fresh,
                       inst\<lparr>i_data := d\<lparr>d_fd := fd, d_local_path := path, d_peer := peer,
                              d_session := fresh, d_tx_seq := 0, d_rx_last_seq := 0,
                              d_rx_seen := False, d_cycles_since_output := 0,
                              d_outputs_zeroed := False, d_open := True\<rparr>\<rparr>))"

section \<open>Outputs\<close>

definition ECAT_DATA_TIMEOUT_MS :: int where "ECAT_DATA_TIMEOUT_MS = 100"

definition timeout_cycles :: "'d ecat_master_instance \<Rightarrow> u32" where
  "timeout_cycles inst =
     (let cycle_us = (if cycle_time_us (c_master (i_config inst)) > 0
                      then cycle_time_us (c_master (i_config inst)) else 1000);
          cycles = (of_int ((ECAT_DATA_TIMEOUT_MS * 1000) div cycle_us) :: u32)
      in if cycles < 3 then 3 else cycles)"

definition buffer_of :: "bytes option \<Rightarrow> bytes" where
  "buffer_of b = (case b of Some bs \<Rightarrow> bs | None \<Rightarrow> [])"

text \<open>The receive loop of \<^verbatim>\<open>ecat_data_apply_outputs\<close>, over the datagrams the socket holds.\<close>

fun drain ::
  "u8 \<Rightarrow> nat \<Rightarrow> (bytes \<times> sockaddr) list \<Rightarrow> ecat_data_session \<Rightarrow> bool \<Rightarrow> bool \<Rightarrow>
   ecat_data_session \<times> bool \<times> bool" where
  "drain master_index out_bytes [] d have_new latest_valid = (d, have_new, latest_valid)"
| "drain master_index out_bytes (dgram # rest) d have_new latest_valid =
     (case edog_dgram_recv (buffer_of (d_rx_buf d)) (d_rx_buf_size d) (d_peer d) dgram of
        (buf, n, from_peer) \<Rightarrow>
          let d = d\<lparr>d_rx_buf := Some buf\<rparr>;
              dropped = d\<lparr>d_frames_dropped := d_frames_dropped d + 1\<rparr>
          in case edog_frame_decode_header buf n of
               None \<Rightarrow> drain master_index out_bytes rest dropped have_new latest_valid
             | Some h \<Rightarrow>
                 if h_kind h \<noteq> EDOG_FRAME_OUTPUTS \<or> h_master h \<noteq> master_index \<or>
                    h_session h \<noteq> d_session d \<or> unat (h_payload_len h) \<noteq> out_bytes \<or> \<not> from_peer \<or>
                    (d_rx_seen d \<and> \<not> edog_seq_newer (h_sequence h) (d_rx_last_seq d))
                 then drain master_index out_bytes rest dropped have_new latest_valid
                 else
                   let valid = (h_flags h AND EDOG_FLAG_VALID \<noteq> 0);
                       latest = (if valid
                                 then Some (mem_write (buffer_of (d_rx_latest d)) 0
                                              (take out_bytes (drop EDOG_FRAME_HEADER_SIZE buf)))
                                 else d_rx_latest d)
                   in drain master_index out_bytes rest
                        (d\<lparr>d_rx_seen := True, d_rx_last_seq := h_sequence h, d_rx_latest := latest,
                           d_frames_rx := d_frames_rx d + 1\<rparr>) True valid)"

definition set_region :: "nat \<Rightarrow> bytes \<Rightarrow> 'd ecat_master_instance \<Rightarrow> 'd ecat_master_instance" where
  "set_region off bs inst =
     inst\<lparr>i_iomap := Some (mem_write (buffer_of (i_iomap inst)) off bs)\<rparr>"

definition out_size :: "'d ecat_master_instance \<Rightarrow> nat" where
  "out_size inst = unat (output_bytes (i_layout inst))"

definition zero_outputs :: "nat \<Rightarrow> 'd ecat_master_instance \<Rightarrow> 'd ecat_master_instance" where
  "zero_outputs off inst =
     (let inst = set_region off (zero_bytes (out_size inst)) inst
      in inst\<lparr>i_data := (i_data inst)\<lparr>d_outputs_zeroed := True\<rparr>\<rparr>)"

definition after_drain ::
  "nat \<Rightarrow> bool \<Rightarrow> bool \<Rightarrow> 'd ecat_master_instance \<Rightarrow> 'd ecat_master_instance" where
  "after_drain off have_new latest_valid inst =
     (let d = i_data inst
      in if have_new then
           (let inst = (if latest_valid
                        then (set_region off (take (out_size inst) (buffer_of (d_rx_latest d))) inst)
                               \<lparr>i_data := d\<lparr>d_outputs_zeroed := False\<rparr>\<rparr>
                        else zero_outputs off inst)
            in inst\<lparr>i_data := (i_data inst)\<lparr>d_cycles_since_output := 0\<rparr>\<rparr>)
         else
           let c = d_cycles_since_output d + 1;
               inst = inst\<lparr>i_data := d\<lparr>d_cycles_since_output := c\<rparr>\<rparr>
           in if c > timeout_cycles inst \<and> \<not> d_outputs_zeroed d then
                (let inst = zero_outputs off inst
                 in inst\<lparr>i_data := (i_data inst)\<lparr>d_watchdog_trips := d_watchdog_trips d + 1\<rparr>\<rparr>)
              else inst)"

definition ecat_data_apply_outputs ::
  "bool \<Rightarrow> (bytes \<times> sockaddr) list \<Rightarrow> u8 \<Rightarrow> 'd ecat_master_instance \<Rightarrow> 'd ecat_master_instance" where
  "ecat_data_apply_outputs locked dgrams master_index inst =
     (case ecat_layout_output_region inst of
        None \<Rightarrow> inst
      | Some off \<Rightarrow>
          if \<not> locked then inst
          else if \<not> d_open (i_data inst) then
            (if \<not> d_outputs_zeroed (i_data inst) then zero_outputs off inst else inst)
          else
            (case drain master_index (out_size inst) dgrams (i_data inst) False False of
               (d, have_new, latest_valid) \<Rightarrow>
                 after_drain off have_new latest_valid (inst\<lparr>i_data := d\<rparr>)))"

section \<open>Inputs\<close>

definition in_size :: "'d ecat_master_instance \<Rightarrow> nat" where
  "in_size inst = unat (input_bytes (i_layout inst))"

definition inputs_header :: "u8 \<Rightarrow> int \<Rightarrow> bool \<Rightarrow> bool \<Rightarrow> 'd ecat_master_instance \<Rightarrow> edog_frame_header" where
  "inputs_header master_index wkc operational wkc_ok inst =
     \<lparr>h_version = EDOG_PROTOCOL_VERSION, h_kind = EDOG_FRAME_INPUTS, h_master = master_index,
      h_flags = (if operational then EDOG_FLAG_VALID else 0) OR (if wkc_ok then EDOG_FLAG_WKC_OK else 0),
      h_session = d_session (i_data inst), h_sequence = d_tx_seq (i_data inst) + 1,
      h_payload_len = of_nat (in_size inst), h_wkc = of_int (if wkc < 0 then 0 else wkc)\<rparr>"

definition fill_tx_buf :: "edog_frame_header \<Rightarrow> 'd ecat_master_instance \<Rightarrow> bytes" where
  "fill_tx_buf h inst =
     (let buf = edog_frame_encode_header (buffer_of (d_tx_buf (i_data inst))) h
      in case ecat_layout_input_region inst of
           Some off \<Rightarrow>
             if in_size inst > 0
             then mem_write buf EDOG_FRAME_HEADER_SIZE
                    (take (in_size inst) (drop off (buffer_of (i_iomap inst))))
             else buf
         | None \<Rightarrow> buf)"

text \<open>The frame sent, or \<open>None\<close> when nothing is sent; \<open>sent\<close> is whether the socket took it.\<close>

definition ecat_data_publish_inputs ::
  "bool \<Rightarrow> bool \<Rightarrow> u8 \<Rightarrow> int \<Rightarrow> bool \<Rightarrow> bool \<Rightarrow> 'd ecat_master_instance \<Rightarrow>
   bytes option \<times> 'd ecat_master_instance" where
  "ecat_data_publish_inputs locked sent master_index wkc operational wkc_ok inst =
     (let d = i_data inst; in_bytes = in_size inst
      in if \<not> locked then (None, inst)
         else if \<not> d_open d \<or> d_fd d < 0 \<or> d_tx_buf d = None \<or>
                 d_tx_buf_size d < EDOG_FRAME_HEADER_SIZE + in_bytes
         then (None, inst)
         else
           let h = inputs_header master_index wkc operational wkc_ok inst;
               buf = fill_tx_buf h inst;
               d = d\<lparr>d_tx_buf := Some buf, d_tx_seq := d_tx_seq d + 1\<rparr>;
               d = (if sent then d\<lparr>d_frames_tx := d_frames_tx d + 1\<rparr>
                    else d\<lparr>d_frames_dropped := d_frames_dropped d + 1\<rparr>)
           in (Some (take (EDOG_FRAME_HEADER_SIZE + in_bytes) buf), inst\<lparr>i_data := d\<rparr>))"

end
