(* ===== verification/Data_Session.thy ===== *)
theory Data_Session
  imports Data
begin

text \<open>
  Correctness of the data session. The receive loop refines a specification that knows nothing of
  buffers: the accepted frames are the well-addressed ones of the datagrams, in order, each newer
  than the one before. The session keeps an invariant under every sequence of operations, and
  the properties of a bus cycle follow from it.
\<close>

section \<open>Specification of the receive loop\<close>

text \<open>A datagram as a frame for this session, whatever its sequence number.\<close>

definition output_frame ::
  "u8 \<Rightarrow> nat \<Rightarrow> u64 \<Rightarrow> sockaddr \<Rightarrow> bytes \<times> sockaddr \<Rightarrow> (edog_frame_header \<times> bytes) option" where
  "output_frame m out session peer dgram =
     (case edog_frame_decode_header (fst dgram) (length (fst dgram)) of
        None \<Rightarrow> None
      | Some h \<Rightarrow>
          if h_kind h = EDOG_FRAME_OUTPUTS \<and> h_master h = m \<and> h_session h = session \<and>
             unat (h_payload_len h) = out \<and> same_peer peer (snd dgram)
          then Some (h, drop EDOG_FRAME_HEADER_SIZE (fst dgram)) else None)"

definition is_newer :: "u32 \<Rightarrow> u32 option \<Rightarrow> bool" where
  "is_newer s lst = (case lst of None \<Rightarrow> True | Some l \<Rightarrow> edog_seq_newer s l)"

fun accepted :: "u32 option \<Rightarrow> (edog_frame_header \<times> bytes) option list \<Rightarrow> (edog_frame_header \<times> bytes) list" where
  "accepted lst [] = []"
| "accepted lst (None # fs) = accepted lst fs"
| "accepted lst (Some (h, p) # fs) =
     (if is_newer (h_sequence h) lst then (h, p) # accepted (Some (h_sequence h)) fs
      else accepted lst fs)"

definition frames_of ::
  "u8 \<Rightarrow> nat \<Rightarrow> (bytes \<times> sockaddr) list \<Rightarrow> ecat_data_session \<Rightarrow> (edog_frame_header \<times> bytes) list" where
  "frames_of m out dgrams d =
     accepted (if d_rx_seen d then Some (d_rx_last_seq d) else None)
       (map (output_frame m out (d_session d) (d_peer d)) dgrams)"

definition frame_valid :: "edog_frame_header \<times> bytes \<Rightarrow> bool" where
  "frame_valid f \<longleftrightarrow> h_flags (fst f) AND EDOG_FLAG_VALID \<noteq> 0"

section \<open>One datagram\<close>

lemma decode_prefix:
  assumes "\<And>i. i < EDOG_FRAME_HEADER_SIZE \<Longrightarrow> a ! i = b ! i"
  shows "edog_frame_decode_header a n = edog_frame_decode_header b n"
proof -
  have i: "\<And>i. i < 24 \<Longrightarrow> a ! i = b ! i" using assms by (simp add: edog_const_defs)
  have "edog_get_u64 a 8 = edog_get_u64 b 8" "edog_get_u32 a 16 = edog_get_u32 b 16"
    "edog_get_u16 a 20 = edog_get_u16 b 20" "edog_get_u16 a 22 = edog_get_u16 b 22"
    by (rule c64.get_local c32.get_local c16.get_local; simp add: i)+
  then show ?thesis by (simp add: edog_frame_decode_header_def i)
qed

lemma decode_length: "edog_frame_decode_header a n = Some h \<Longrightarrow> n = EDOG_FRAME_HEADER_SIZE + unat (h_payload_len h)"
  by (auto simp: edog_frame_decode_header_def Let_def split: if_splits)

lemma recv_frame:
  assumes buf: "length buf = sz" "sz = EDOG_FRAME_HEADER_SIZE + out + 1"
    and recv: "edog_dgram_recv buf sz peer (dg, src) = (buf', n, fp)"
  shows "length buf' = sz" and "fp = same_peer peer src"
    and "(edog_frame_decode_header buf' n = Some h \<and> unat (h_payload_len h) = out) \<longleftrightarrow>
         (edog_frame_decode_header dg (length dg) = Some h \<and> unat (h_payload_len h) = out)"
    and "edog_frame_decode_header dg (length dg) = Some h \<Longrightarrow> unat (h_payload_len h) = out \<Longrightarrow>
         take out (drop EDOG_FRAME_HEADER_SIZE buf') = drop EDOG_FRAME_HEADER_SIZE dg"
proof -
  have eqs: "buf' = take sz dg @ drop (min sz (length dg)) buf" "n = min sz (length dg)"
    "fp = same_peer peer src"
    using recv by (auto simp: edog_dgram_recv_def mem_write_def min.commute)
  show "length buf' = sz" using buf(1) by (auto simp: eqs)
  show "fp = same_peer peer src" by (rule eqs)
  have prefix: "buf' ! i = dg ! i" if "i < n" for i
    using that by (auto simp: eqs nth_append)
  show dec: "(edog_frame_decode_header buf' n = Some h \<and> unat (h_payload_len h) = out) \<longleftrightarrow>
      (edog_frame_decode_header dg (length dg) = Some h \<and> unat (h_payload_len h) = out)"
  proof (cases "length dg \<le> sz")
    case False
    then show ?thesis using buf(2) by (auto simp: eqs dest!: decode_length)
  next
    case True
    then have n: "n = length dg" by (simp add: eqs)
    show ?thesis
    proof (cases "n < EDOG_FRAME_HEADER_SIZE")
      case True
      then show ?thesis by (simp add: n edog_frame_decode_header_def)
    next
      case False
      then have "edog_frame_decode_header buf' n = edog_frame_decode_header dg n"
        by (intro decode_prefix prefix) simp
      then show ?thesis by (simp add: n)
    qed
  qed
  show "take out (drop EDOG_FRAME_HEADER_SIZE buf') = drop EDOG_FRAME_HEADER_SIZE dg"
    if "edog_frame_decode_header dg (length dg) = Some h" "unat (h_payload_len h) = out"
  proof -
    have "length dg = EDOG_FRAME_HEADER_SIZE + out" using that decode_length by blast
    then show ?thesis using buf(2) by (simp add: eqs)
  qed
qed

section \<open>The receive loop refines the specification\<close>

definition rx_buffers :: "nat \<Rightarrow> ecat_data_session \<Rightarrow> bool" where
  "rx_buffers out d \<longleftrightarrow>
     (\<exists>buf latest. d_rx_buf d = Some buf \<and> d_rx_latest d = Some latest \<and>
        length buf = d_rx_buf_size d \<and> d_rx_buf_size d = EDOG_FRAME_HEADER_SIZE + out + 1 \<and>
        out \<le> length latest)"

text \<open>What receiving one datagram does to the session, in the terms of the specification.\<close>

definition take_frame :: "(edog_frame_header \<times> bytes) \<Rightarrow> bytes \<Rightarrow> ecat_data_session \<Rightarrow> ecat_data_session" where
  "take_frame f buf d =
     d\<lparr>d_rx_buf := Some buf, d_rx_seen := True, d_rx_last_seq := h_sequence (fst f),
       d_rx_latest := (if frame_valid f then Some (mem_write (buffer_of (d_rx_latest d)) 0 (snd f))
                       else d_rx_latest d),
       d_frames_rx := d_frames_rx d + 1\<rparr>"

definition drop_frame :: "bytes \<Rightarrow> ecat_data_session \<Rightarrow> ecat_data_session" where
  "drop_frame buf d = d\<lparr>d_rx_buf := Some buf, d_frames_dropped := d_frames_dropped d + 1\<rparr>"

definition next_frame :: "u8 \<Rightarrow> nat \<Rightarrow> bytes \<times> sockaddr \<Rightarrow> ecat_data_session \<Rightarrow> (edog_frame_header \<times> bytes) option" where
  "next_frame m out dgram d =
     (case output_frame m out (d_session d) (d_peer d) dgram of
        Some f \<Rightarrow> if is_newer (h_sequence (fst f)) (if d_rx_seen d then Some (d_rx_last_seq d) else None)
                  then Some f else None
      | None \<Rightarrow> None)"

lemma drain_Cons:
  assumes "rx_buffers out d"
  shows "\<exists>buf. length buf = d_rx_buf_size d \<and>
     drain m out (dgram # rest) d hn lv =
       (case next_frame m out dgram d of
          None \<Rightarrow> drain m out rest (drop_frame buf d) hn lv
        | Some f \<Rightarrow> drain m out rest (take_frame f buf d) True (frame_valid f))"
proof -
  obtain dg src where dgram: "dgram = (dg, src)" by force
  obtain b latest where d: "d_rx_buf d = Some b" "length b = d_rx_buf_size d"
    "d_rx_buf_size d = EDOG_FRAME_HEADER_SIZE + out + 1" "d_rx_latest d = Some latest"
    using assms by (auto simp: rx_buffers_def)
  obtain buf n fp where recv: "edog_dgram_recv b (d_rx_buf_size d) (d_peer d) (dg, src) = (buf, n, fp)"
    by (metis prod_cases3)
  note f = recv_frame [OF d(2,3) recv]
  have "drain m out (dgram # rest) d hn lv =
       (case next_frame m out dgram d of
          None \<Rightarrow> drain m out rest (drop_frame buf d) hn lv
        | Some f \<Rightarrow> drain m out rest (take_frame f buf d) True (frame_valid f))"
  proof (cases "\<exists>h. edog_frame_decode_header dg (length dg) = Some h \<and> unat (h_payload_len h) = out")
    case True
    then obtain h where h: "edog_frame_decode_header dg (length dg) = Some h" "unat (h_payload_len h) = out"
      by blast
    with f(3) [of h] have buf: "edog_frame_decode_header buf n = Some h" by blast
    have unfolded: "drain m out ((dg, src) # rest) d hn lv =
       (if h_kind h \<noteq> EDOG_FRAME_OUTPUTS \<or> h_master h \<noteq> m \<or> h_session h \<noteq> d_session d \<or>
           \<not> same_peer (d_peer d) src \<or> (d_rx_seen d \<and> \<not> edog_seq_newer (h_sequence h) (d_rx_last_seq d))
        then drain m out rest (drop_frame buf d) hn lv
        else drain m out rest (take_frame (h, drop EDOG_FRAME_HEADER_SIZE dg) buf d) True
               (frame_valid (h, drop EDOG_FRAME_HEADER_SIZE dg)))"
      by (simp add: recv [folded f(2)] d(1) buffer_of_def buf h(2) f(2) f(4) [OF h] Let_def
          take_frame_def drop_frame_def frame_valid_def)
    have "next_frame m out (dg, src) d =
       (if h_kind h \<noteq> EDOG_FRAME_OUTPUTS \<or> h_master h \<noteq> m \<or> h_session h \<noteq> d_session d \<or>
           \<not> same_peer (d_peer d) src \<or> (d_rx_seen d \<and> \<not> edog_seq_newer (h_sequence h) (d_rx_last_seq d))
        then None else Some (h, drop EDOG_FRAME_HEADER_SIZE dg))"
      by (simp add: next_frame_def output_frame_def h is_newer_def)
    with unfolded show ?thesis by (simp add: dgram del: drain.simps)
  next
    case False
    then have "output_frame m out s p dgram = None" for s p
      by (auto simp: output_frame_def dgram split: option.splits)
    moreover have "edog_frame_decode_header buf n = None \<or>
        (\<exists>h. edog_frame_decode_header buf n = Some h \<and> unat (h_payload_len h) \<noteq> out)"
      using False f(3) by (cases "edog_frame_decode_header buf n") auto
    ultimately show ?thesis
      by (auto simp: dgram recv d(1) buffer_of_def next_frame_def drop_frame_def Let_def)
  qed
  with f(1) show ?thesis by blast
qed

text \<open>The fields the loop leaves alone.\<close>

definition untouched :: "ecat_data_session \<Rightarrow> ecat_data_session" where
  "untouched d = d\<lparr>d_rx_buf := None, d_rx_latest := None, d_rx_seen := False, d_rx_last_seq := 0,
                   d_frames_rx := 0, d_frames_dropped := 0\<rparr>"

lemma untouched_step [simp]:
  "untouched (drop_frame buf d) = untouched d" "untouched (take_frame f buf d) = untouched d"
  by (simp_all add: untouched_def drop_frame_def take_frame_def)

lemma frame_step_fields [simp]:
  "d_rx_seen (drop_frame buf d) = d_rx_seen d" "d_rx_last_seq (drop_frame buf d) = d_rx_last_seq d"
  "d_frames_rx (drop_frame buf d) = d_frames_rx d"
  "d_frames_dropped (drop_frame buf d) = d_frames_dropped d + 1"
  "d_rx_latest (drop_frame buf d) = d_rx_latest d"
  "d_rx_seen (take_frame f buf d) = True" "d_rx_last_seq (take_frame f buf d) = h_sequence (fst f)"
  "d_frames_rx (take_frame f buf d) = d_frames_rx d + 1"
  "d_frames_dropped (take_frame f buf d) = d_frames_dropped d"
  by (simp_all add: drop_frame_def take_frame_def)

lemma untouched_fields:
  assumes "untouched a = untouched b"
  shows "d_open a = d_open b" "d_fd a = d_fd b" "d_peer a = d_peer b" "d_session a = d_session b"
    "d_tx_seq a = d_tx_seq b" "d_cycles_since_output a = d_cycles_since_output b"
    "d_outputs_zeroed a = d_outputs_zeroed b" "d_rx_buf_size a = d_rx_buf_size b"
    "d_tx_buf a = d_tx_buf b" "d_tx_buf_size a = d_tx_buf_size b"
    "d_watchdog_trips a = d_watchdog_trips b" "d_frames_tx a = d_frames_tx b"
  using assms by (cases a; cases b; simp add: untouched_def)+

lemma next_frame_length: "next_frame m out dgram d = Some f \<Longrightarrow> length (snd f) = out"
  by (auto simp: next_frame_def output_frame_def split: option.splits if_splits dest: decode_length)

lemma frames_of_Cons:
  "frames_of m out (dgram # rest) d =
     (case next_frame m out dgram d of
        None \<Rightarrow> frames_of m out rest (drop_frame buf d)
      | Some f \<Rightarrow> f # frames_of m out rest (take_frame f buf d))"
  by (auto simp: frames_of_def next_frame_def drop_frame_def take_frame_def split: option.splits)

lemma take_mem_write: "length p = n \<Longrightarrow> n \<le> length l \<Longrightarrow> take n (mem_write l 0 p) = p"
  by (simp add: mem_write_def)

lemma rx_buffers_step:
  assumes "rx_buffers out d" and "length buf = d_rx_buf_size d"
  shows "rx_buffers out (drop_frame buf d)"
    and "length (snd f) = out \<Longrightarrow> rx_buffers out (take_frame f buf d)"
    and "length (snd f) = out \<Longrightarrow> frame_valid f \<Longrightarrow>
         take out (buffer_of (d_rx_latest (take_frame f buf d))) = snd f"
  using assms
  by (auto simp: rx_buffers_def drop_frame_def take_frame_def buffer_of_def take_mem_write)

definition drained ::
  "nat \<Rightarrow> nat \<Rightarrow> (edog_frame_header \<times> bytes) list \<Rightarrow> ecat_data_session \<Rightarrow> ecat_data_session \<Rightarrow> bool" where
  "drained out n acc d d' \<longleftrightarrow>
     rx_buffers out d' \<and> untouched d' = untouched d \<and>
     d_rx_seen d' = (d_rx_seen d \<or> acc \<noteq> []) \<and>
     d_rx_last_seq d' = (if acc = [] then d_rx_last_seq d else h_sequence (fst (last acc))) \<and>
     d_frames_rx d' = d_frames_rx d + of_nat (length acc) \<and>
     d_frames_dropped d' = d_frames_dropped d + of_nat (n - length acc) \<and> length acc \<le> n \<and>
     (acc = [] \<longrightarrow> d_rx_latest d' = d_rx_latest d) \<and>
     (acc \<noteq> [] \<longrightarrow> frame_valid (last acc) \<longrightarrow> take out (buffer_of (d_rx_latest d')) = snd (last acc))"

lemma drain_refines:
  assumes "rx_buffers out d"
  shows "\<exists>d'. drain m out dgrams d hn lv =
       (d', hn \<or> frames_of m out dgrams d \<noteq> [],
        if frames_of m out dgrams d = [] then lv else frame_valid (last (frames_of m out dgrams d))) \<and>
     drained out (length dgrams) (frames_of m out dgrams d) d d'"
  using assms
proof (induction dgrams arbitrary: d hn lv)
  case Nil
  then show ?case by (auto simp: frames_of_def drained_def)
next
  case (Cons dgram rest)
  obtain buf where buf: "length buf = d_rx_buf_size d" and
    step: "drain m out (dgram # rest) d hn lv =
       (case next_frame m out dgram d of
          None \<Rightarrow> drain m out rest (drop_frame buf d) hn lv
        | Some f \<Rightarrow> drain m out rest (take_frame f buf d) True (frame_valid f))"
    using drain_Cons [OF Cons.prems] by blast
  note rx = rx_buffers_step [OF Cons.prems buf]
  show ?case
  proof (cases "next_frame m out dgram d")
    case None
    from Cons.IH [OF rx(1), of hn lv] obtain d' where
      "drain m out rest (drop_frame buf d) hn lv =
         (d', hn \<or> frames_of m out rest (drop_frame buf d) \<noteq> [],
          if frames_of m out rest (drop_frame buf d) = [] then lv
          else frame_valid (last (frames_of m out rest (drop_frame buf d))))"
      "drained out (length rest) (frames_of m out rest (drop_frame buf d)) (drop_frame buf d) d'" by blast
    then show ?thesis
      by (simp add: step None frames_of_Cons [of m out dgram rest d buf] del: drain.simps)
        (auto simp: drained_def Suc_diff_le)
  next
    case (Some f)
    note len = next_frame_length [OF Some]
    let ?acc = "frames_of m out rest (take_frame f buf d)"
    from Cons.IH [OF rx(2) [OF len], of True "frame_valid f"] obtain d' where
      d': "drain m out rest (take_frame f buf d) True (frame_valid f) =
         (d', True, if ?acc = [] then frame_valid f else frame_valid (last ?acc))"
      "drained out (length rest) ?acc (take_frame f buf d) d'" by auto
    have "drained out (Suc (length rest)) (f # ?acc) d d'"
      using d'(2) rx(3) [OF len] by (auto simp: drained_def)
    with d'(1) show ?thesis
      by (simp add: step Some frames_of_Cons [of m out dgram rest d buf] del: drain.simps)
  qed
qed

section \<open>Invariant\<close>

definition out_region :: "'d ecat_master_instance \<Rightarrow> bytes" where
  "out_region inst =
     (case ecat_layout_output_region inst of
        Some off \<Rightarrow> take (out_size inst) (drop off (buffer_of (i_iomap inst)))
      | None \<Rightarrow> [])"

definition region_inside :: "nat option \<Rightarrow> nat \<Rightarrow> 'd ecat_master_instance \<Rightarrow> bool" where
  "region_inside r n inst =
     (case r of None \<Rightarrow> True | Some off \<Rightarrow> off + n \<le> length (buffer_of (i_iomap inst)))"

definition session_inv :: "'d ecat_master_instance \<Rightarrow> bool" where
  "session_inv inst \<longleftrightarrow>
     (let d = i_data inst
      in region_inside (ecat_layout_output_region inst) (out_size inst) inst \<and>
         region_inside (ecat_layout_input_region inst) (in_size inst) inst \<and>
         in_size inst \<le> EDOG_FRAME_MAX_PAYLOAD \<and>
         (ecat_layout_output_region inst \<noteq> None \<longrightarrow> d_outputs_zeroed d \<longrightarrow>
            out_region inst = zero_bytes (out_size inst)) \<and>
         (d_open d \<longrightarrow> d_rx_buf d \<noteq> None \<and> d_tx_buf d \<noteq> None) \<and>
         (d_rx_buf d \<noteq> None \<longrightarrow> rx_buffers (out_size inst) d) \<and>
         (d_tx_buf d \<noteq> None \<longrightarrow> length (buffer_of (d_tx_buf d)) = EDOG_FRAME_HEADER_SIZE + in_size inst \<and>
            d_tx_buf_size d = EDOG_FRAME_HEADER_SIZE + in_size inst))"

text \<open>Geometry: sizes and regions depend on fields no session operation writes.\<close>

definition geometry :: "'d ecat_master_instance \<Rightarrow> ecat_layout \<times> bool \<times> nat option \<times> nat option \<times> int" where
  "geometry inst =
     (i_layout inst, i_soem_initialized inst, eg_outputs (group0 (i_ctx inst)),
      eg_inputs (group0 (i_ctx inst)), cycle_time_us (c_master (i_config inst)))"

lemma geometry_sizes:
  assumes "geometry a = geometry b"
  shows "out_size a = out_size b" "in_size a = in_size b"
    "ecat_layout_output_region a = ecat_layout_output_region b"
    "ecat_layout_input_region a = ecat_layout_input_region b" "timeout_cycles a = timeout_cycles b"
  using assms
  by (simp_all add: geometry_def out_size_def in_size_def ecat_layout_output_region_def
      ecat_layout_input_region_def timeout_cycles_def)

lemma geometry_updates [simp]:
  "geometry (inst\<lparr>i_data := d\<rparr>) = geometry inst"
  "geometry (inst\<lparr>i_iomap := m\<rparr>) = geometry inst"
  "geometry (set_region off bs inst) = geometry inst"
  "geometry (zero_outputs off inst) = geometry inst"
  by (simp_all add: geometry_def set_region_def zero_outputs_def Let_def)

lemma geometry_apply [simp]: "geometry (ecat_data_apply_outputs l ds m inst) = geometry inst"
  by (simp add: ecat_data_apply_outputs_def after_drain_def Let_def split: option.splits prod.splits)

lemma geometry_publish [simp]:
  "geometry (snd (ecat_data_publish_inputs l s m w op ok inst)) = geometry inst"
  by (simp add: ecat_data_publish_inputs_def Let_def)

lemma geometry_open_close [simp]:
  "geometry (snd (ecat_data_open ep sock fresh inst)) = geometry inst"
  "geometry (ecat_data_close inst) = geometry inst"
  by (simp_all add: ecat_data_open_def ecat_data_close_def Let_def split: option.splits prod.splits)

lemma mem_write_region:
  assumes "off + length bs \<le> length m"
  shows "take (length bs) (drop off (mem_write m off bs)) = bs"
    and "length (mem_write m off bs) = length m"
  using assms by (simp_all add: mem_write_def)

lemma set_region_region:
  assumes "ecat_layout_output_region inst = Some off" and "length bs = out_size inst"
    and "off + out_size inst \<le> length (buffer_of (i_iomap inst))"
  shows "out_region (set_region off bs inst) = bs"
    and "length (buffer_of (i_iomap (set_region off bs inst))) = length (buffer_of (i_iomap inst))"
proof -
  have "geometry (set_region off bs inst) = geometry inst" by simp
  note g = geometry_sizes [OF this]
  have map: "i_iomap (set_region off bs inst) = Some (mem_write (buffer_of (i_iomap inst)) off bs)"
    by (simp add: set_region_def)
  show "out_region (set_region off bs inst) = bs"
    using assms mem_write_region(1) [of off bs "buffer_of (i_iomap inst)"]
    unfolding out_region_def g map by (simp add: buffer_of_def)
  show "length (buffer_of (i_iomap (set_region off bs inst))) = length (buffer_of (i_iomap inst))"
    using assms mem_write_region(2) [of off bs "buffer_of (i_iomap inst)"]
    unfolding map by (simp add: buffer_of_def)
qed

text \<open>A step that keeps the geometry, the buffers and the map length keeps the invariant.\<close>

lemma session_inv_step:
  assumes "session_inv inst" and "geometry inst' = geometry inst"
    and "length (buffer_of (i_iomap inst')) = length (buffer_of (i_iomap inst))"
    and "ecat_layout_output_region inst \<noteq> None \<Longrightarrow> d_outputs_zeroed (i_data inst') \<Longrightarrow>
         out_region inst' = zero_bytes (out_size inst)"
    and "d_open (i_data inst') \<Longrightarrow> d_rx_buf (i_data inst') \<noteq> None \<and> d_tx_buf (i_data inst') \<noteq> None"
    and "d_rx_buf (i_data inst') \<noteq> None \<Longrightarrow> rx_buffers (out_size inst) (i_data inst')"
    and "d_tx_buf (i_data inst') \<noteq> None \<Longrightarrow>
         length (buffer_of (d_tx_buf (i_data inst'))) = EDOG_FRAME_HEADER_SIZE + in_size inst \<and>
         d_tx_buf_size (i_data inst') = EDOG_FRAME_HEADER_SIZE + in_size inst"
  shows "session_inv inst'"
  using assms(1,3-) unfolding session_inv_def Let_def region_inside_def geometry_sizes [OF assms(2)]
  by (auto split: option.splits)

section \<open>One bus cycle\<close>

lemma accepted_from: "f \<in> set (accepted lst fs) \<Longrightarrow> Some f \<in> set fs"
  by (induction lst fs rule: accepted.induct) (auto split: if_splits)

lemma frames_of_from:
  "f \<in> set (frames_of m out dgrams d) \<Longrightarrow>
   \<exists>dgram\<in>set dgrams. output_frame m out (d_session d) (d_peer d) dgram = Some f"
  by (auto simp: frames_of_def image_iff dest!: accepted_from) metis+

lemma frames_of_length: "f \<in> set (frames_of m out dgrams d) \<Longrightarrow> length (snd f) = out"
  by (auto simp: output_frame_def split: option.splits if_splits dest!: frames_of_from decode_length)

text \<open>What the outputs hold after a cycle of an open session.\<close>

definition spec_outputs :: "u8 \<Rightarrow> (bytes \<times> sockaddr) list \<Rightarrow> 'd ecat_master_instance \<Rightarrow> bytes" where
  "spec_outputs m dgrams inst =
     (let d = i_data inst; acc = frames_of m (out_size inst) dgrams d
      in if acc \<noteq> [] then (if frame_valid (last acc) then snd (last acc) else zero_bytes (out_size inst))
         else if d_cycles_since_output d + 1 > timeout_cycles inst then zero_bytes (out_size inst)
         else out_region inst)"

lemma out_region_data [simp]: "out_region (inst\<lparr>i_data := d\<rparr>) = out_region inst"
  by (simp add: out_region_def ecat_layout_output_region_def out_size_def split: option.split)

lemma size_data [simp]:
  "out_size (inst\<lparr>i_data := d\<rparr>) = out_size inst" "in_size (inst\<lparr>i_data := d\<rparr>) = in_size inst"
  "timeout_cycles (inst\<lparr>i_data := d\<rparr>) = timeout_cycles inst"
  "ecat_layout_output_region (inst\<lparr>i_data := d\<rparr>) = ecat_layout_output_region inst"
  "ecat_layout_input_region (inst\<lparr>i_data := d\<rparr>) = ecat_layout_input_region inst"
  by (simp_all add: out_size_def in_size_def timeout_cycles_def ecat_layout_output_region_def
      ecat_layout_input_region_def)

lemma zero_outputs_region:
  assumes "ecat_layout_output_region inst = Some off"
    and "off + out_size inst \<le> length (buffer_of (i_iomap inst))"
  shows "out_region (zero_outputs off inst) = zero_bytes (out_size inst)"
    and "length (buffer_of (i_iomap (zero_outputs off inst))) = length (buffer_of (i_iomap inst))"
    and "i_data (zero_outputs off inst) = (i_data inst)\<lparr>d_outputs_zeroed := True\<rparr>"
  using set_region_region [OF assms(1) _ assms(2), of "zero_bytes (out_size inst)"]
  by (simp_all add: zero_outputs_def Let_def set_region_def)

lemma session_inv_region:
  "session_inv inst \<Longrightarrow> ecat_layout_output_region inst = Some off \<Longrightarrow>
   off + out_size inst \<le> length (buffer_of (i_iomap inst))"
  "session_inv inst \<Longrightarrow> d_open (i_data inst) \<Longrightarrow> rx_buffers (out_size inst) (i_data inst)"
  "session_inv inst \<Longrightarrow> ecat_layout_output_region inst = Some off \<Longrightarrow> d_outputs_zeroed (i_data inst) \<Longrightarrow>
   out_region inst = zero_bytes (out_size inst)"
  by (auto simp: session_inv_def Let_def region_inside_def)

text \<open>The decision after the receive loop, for a map of the right length.\<close>

lemma after_drain_result:
  fixes inst :: "'d ecat_master_instance"
  assumes reg: "ecat_layout_output_region inst = Some off"
    and room: "off + out_size inst \<le> length (buffer_of (i_iomap inst))"
    and latest: "hn \<Longrightarrow> lv \<Longrightarrow> take (out_size inst) (buffer_of (d_rx_latest (i_data inst))) = p"
    and p: "length p = out_size inst"
    and zeroed: "d_outputs_zeroed (i_data inst) \<Longrightarrow> out_region inst = zero_bytes (out_size inst)"
  defines "inst' \<equiv> after_drain off hn lv inst"
  shows "out_region inst' =
      (if hn then (if lv then p else zero_bytes (out_size inst))
       else if d_cycles_since_output (i_data inst) + 1 > timeout_cycles inst then zero_bytes (out_size inst)
       else out_region inst)"
    and "length (buffer_of (i_iomap inst')) = length (buffer_of (i_iomap inst))"
    and "geometry inst' = geometry inst"
    and "d_outputs_zeroed (i_data inst') \<Longrightarrow> out_region inst' = zero_bytes (out_size inst)"
    and "d_cycles_since_output (i_data inst') = (if hn then 0 else d_cycles_since_output (i_data inst) + 1)"
    and "\<exists>z c w. i_data inst' = (i_data inst)\<lparr>d_outputs_zeroed := z, d_cycles_since_output := c, d_watchdog_trips := w\<rparr>"
proof -
  note z = zero_outputs_region [OF reg room]
  let ?d1 = "(i_data inst)\<lparr>d_cycles_since_output := d_cycles_since_output (i_data inst) + 1\<rparr>"
  let ?i1 = "inst\<lparr>i_data := ?d1\<rparr>"
  have reg1: "ecat_layout_output_region ?i1 = Some off" using reg by simp
  have room1: "off + out_size ?i1 \<le> length (buffer_of (i_iomap ?i1))" using room by simp
  note z1 = zero_outputs_region [OF reg1 room1]
  note s = set_region_region [OF reg p room]
  have data_set: "i_data (set_region off p inst) = i_data inst" by (simp add: set_region_def)
  have cases: "inst' =
    (if hn then
       (if lv then (set_region off p inst)\<lparr>i_data := (i_data inst)\<lparr>d_outputs_zeroed := False, d_cycles_since_output := 0\<rparr>\<rparr>
        else (zero_outputs off inst)\<lparr>i_data := (i_data inst)\<lparr>d_outputs_zeroed := True, d_cycles_since_output := 0\<rparr>\<rparr>)
     else if d_cycles_since_output (i_data inst) + 1 > timeout_cycles inst \<and> \<not> d_outputs_zeroed (i_data inst) then
       (zero_outputs off ?i1)\<lparr>i_data := ?d1\<lparr>d_outputs_zeroed := True,
          d_watchdog_trips := d_watchdog_trips (i_data inst) + 1\<rparr>\<rparr>
     else ?i1)"
    using latest by (simp add: inst'_def after_drain_def Let_def z(3) z1(3))
  show "out_region inst' =
      (if hn then (if lv then p else zero_bytes (out_size inst))
       else if d_cycles_since_output (i_data inst) + 1 > timeout_cycles inst then zero_bytes (out_size inst)
       else out_region inst)"
    using zeroed by (simp add: cases z(1) z1(1) s(1))
  show "length (buffer_of (i_iomap inst')) = length (buffer_of (i_iomap inst))"
    using z(2) z1(2) s(2) by (simp add: cases)
  show "geometry inst' = geometry inst" by (simp add: cases)
  show "out_region inst' = zero_bytes (out_size inst)" if "d_outputs_zeroed (i_data inst')"
    using that zeroed by (simp add: cases z(1) z1(1) split: if_splits)
  show "d_cycles_since_output (i_data inst') = (if hn then 0 else d_cycles_since_output (i_data inst) + 1)"
    by (simp add: cases)
  show "\<exists>z c w. i_data inst' = (i_data inst)\<lparr>d_outputs_zeroed := z, d_cycles_since_output := c, d_watchdog_trips := w\<rparr>"
    by (rule exI [of _ "d_outputs_zeroed (i_data inst')"], rule exI [of _ "d_cycles_since_output (i_data inst')"],
        rule exI [of _ "d_watchdog_trips (i_data inst')"]) (cases "i_data inst", simp add: cases)
qed

lemma last_frame_length:
  "frames_of m out dgrams d \<noteq> [] \<Longrightarrow> length (snd (last (frames_of m out dgrams d))) = out"
  by (intro frames_of_length [of _ m out dgrams d] last_in_set)

lemma apply_open:
  fixes inst :: "'d ecat_master_instance" and m :: u8 and dgrams :: "(bytes \<times> sockaddr) list"
  assumes inv: "session_inv inst" and reg: "ecat_layout_output_region inst = Some off"
    and opn: "d_open (i_data inst)"
  defines "inst' \<equiv> ecat_data_apply_outputs True dgrams m inst"
    and "acc \<equiv> frames_of m (out_size inst) dgrams (i_data inst)"
  shows "out_region inst' = spec_outputs m dgrams inst"
    and "session_inv inst'"
    and "d_cycles_since_output (i_data inst') =
           (if acc \<noteq> [] then 0 else d_cycles_since_output (i_data inst) + 1)"
    and "d_rx_seen (i_data inst') = (d_rx_seen (i_data inst) \<or> acc \<noteq> [])"
    and "d_rx_last_seq (i_data inst') =
           (if acc = [] then d_rx_last_seq (i_data inst) else h_sequence (fst (last acc)))"
    and "d_frames_rx (i_data inst') = d_frames_rx (i_data inst) + of_nat (length acc)"
    and "d_frames_dropped (i_data inst') =
           d_frames_dropped (i_data inst) + of_nat (length dgrams - length acc)"
    and "length acc \<le> length dgrams"
    and "d_open (i_data inst')" and "d_session (i_data inst') = d_session (i_data inst)"
    and "d_peer (i_data inst') = d_peer (i_data inst)"
proof -
  note room = session_inv_region(1) [OF inv reg] and rx = session_inv_region(2) [OF inv opn]
  let ?hn = "acc \<noteq> []" and ?lv = "if acc = [] then False else frame_valid (last acc)"
  obtain d' where drain: "drain m (out_size inst) dgrams (i_data inst) False False = (d', ?hn, ?lv)"
    and dr: "drained (out_size inst) (length dgrams) acc (i_data inst) d'"
    using drain_refines [OF rx, of m dgrams False False] by (auto simp: acc_def)
  have inst': "inst' = after_drain off ?hn ?lv (inst\<lparr>i_data := d'\<rparr>)"
    by (simp add: inst'_def ecat_data_apply_outputs_def reg opn drain)
  have same: "untouched d' = untouched (i_data inst)" using dr by (simp add: drained_def)
  note u = untouched_fields [OF same]
  define p where "p = (if acc = [] then zero_bytes (out_size inst) else snd (last acc))"
  have p: "length p = out_size inst" using last_frame_length by (simp add: p_def acc_def)
  have latest: "?hn \<Longrightarrow> ?lv \<Longrightarrow> take (out_size inst) (buffer_of (d_rx_latest d')) = p"
    using dr by (auto simp: drained_def p_def)
  have zeroed: "d_outputs_zeroed d' \<Longrightarrow> out_region inst = zero_bytes (out_size inst)"
    using session_inv_region(3) [OF inv reg] u by simp
  note r = after_drain_result [of "inst\<lparr>i_data := d'\<rparr>" off ?hn ?lv p, folded inst', simplified,
      OF reg room latest p zeroed]
  obtain z c w where data: "i_data inst' =
      d'\<lparr>d_outputs_zeroed := z, d_cycles_since_output := c, d_watchdog_trips := w\<rparr>"
    using r(6) by auto
  show "out_region inst' = spec_outputs m dgrams inst"
    using r(1) u by (simp add: spec_outputs_def Let_def p_def flip: acc_def)
  have rx': "rx_buffers (out_size inst) d'" using dr by (simp add: drained_def)
  show "session_inv inst'"
  proof (rule session_inv_step [OF inv])
    show "d_open (i_data inst') \<Longrightarrow> d_rx_buf (i_data inst') \<noteq> None \<and> d_tx_buf (i_data inst') \<noteq> None"
      using inv opn rx' u by (auto simp: data session_inv_def Let_def rx_buffers_def)
    show "rx_buffers (out_size inst) (i_data inst')"
      using rx' by (simp add: data rx_buffers_def)
    show "d_tx_buf (i_data inst') \<noteq> None \<Longrightarrow>
        length (buffer_of (d_tx_buf (i_data inst'))) = EDOG_FRAME_HEADER_SIZE + in_size inst \<and>
        d_tx_buf_size (i_data inst') = EDOG_FRAME_HEADER_SIZE + in_size inst"
      using inv u by (auto simp: data session_inv_def Let_def)
  qed (use r in auto)
  show "d_cycles_since_output (i_data inst') =
      (if acc \<noteq> [] then 0 else d_cycles_since_output (i_data inst) + 1)"
    using r(5) u by simp
  show "d_rx_seen (i_data inst') = (d_rx_seen (i_data inst) \<or> acc \<noteq> [])"
    "d_rx_last_seq (i_data inst') =
           (if acc = [] then d_rx_last_seq (i_data inst) else h_sequence (fst (last acc)))"
    "d_frames_rx (i_data inst') = d_frames_rx (i_data inst) + of_nat (length acc)"
    "d_frames_dropped (i_data inst') =
           d_frames_dropped (i_data inst) + of_nat (length dgrams - length acc)"
    "length acc \<le> length dgrams" "d_open (i_data inst')"
    "d_session (i_data inst') = d_session (i_data inst)" "d_peer (i_data inst') = d_peer (i_data inst)"
    using dr u opn by (auto simp: data drained_def)
qed

section \<open>The session as a machine\<close>

datatype data_event =
    Data_open string "(int \<times> string) option" u64
  | Data_close
  | Data_apply bool "(bytes \<times> sockaddr) list"
  | Data_publish bool bool int bool bool

fun data_step :: "u8 \<Rightarrow> data_event \<Rightarrow> 'd ecat_master_instance \<Rightarrow> 'd ecat_master_instance" where
  "data_step m (Data_open ep sock fresh) inst = snd (ecat_data_open ep sock fresh inst)"
| "data_step m Data_close inst = ecat_data_close inst"
| "data_step m (Data_apply locked dgrams) inst = ecat_data_apply_outputs locked dgrams m inst"
| "data_step m (Data_publish locked sent wkc op ok) inst =
     snd (ecat_data_publish_inputs locked sent m wkc op ok inst)"

text \<open>A master whose buffers were just allocated for a layout mapped inside its I/O map.\<close>

definition freshly_started :: "'d ecat_master_instance \<Rightarrow> bool" where
  "freshly_started inst \<longleftrightarrow>
     region_inside (ecat_layout_output_region inst) (out_size inst) inst \<and>
     region_inside (ecat_layout_input_region inst) (in_size inst) inst \<and>
     (\<exists>mem before. ecat_data_alloc_buffers mem before = (True, inst) \<and>
        \<not> d_open (i_data before) \<and> \<not> d_outputs_zeroed (i_data before))"

lemma freshly_started_inv: "freshly_started inst \<Longrightarrow> session_inv inst"
  by (auto simp: freshly_started_def session_inv_def ecat_data_alloc_buffers_def Let_def
      rx_buffers_def out_size_def in_size_def buffer_of_def split: if_splits)

lemma session_inv_data:
  assumes "session_inv inst" and "d_outputs_zeroed d \<Longrightarrow> d_outputs_zeroed (i_data inst)"
    and "d_open d \<Longrightarrow> d_rx_buf d \<noteq> None \<and> d_tx_buf d \<noteq> None"
    and "d_rx_buf d = d_rx_buf (i_data inst)" "d_rx_latest d = d_rx_latest (i_data inst)"
    "d_rx_buf_size d = d_rx_buf_size (i_data inst)"
    and "d_tx_buf d \<noteq> None \<Longrightarrow>
         length (buffer_of (d_tx_buf d)) = EDOG_FRAME_HEADER_SIZE + in_size inst \<and>
         d_tx_buf_size d = EDOG_FRAME_HEADER_SIZE + in_size inst"
  shows "session_inv (inst\<lparr>i_data := d\<rparr>)"
proof (rule session_inv_step [OF assms(1)])
  show "rx_buffers (out_size inst) (i_data (inst\<lparr>i_data := d\<rparr>))"
    if "d_rx_buf (i_data (inst\<lparr>i_data := d\<rparr>)) \<noteq> None"
    using that assms(1,4,5,6) by (auto simp: session_inv_def Let_def rx_buffers_def)
  show "out_region (inst\<lparr>i_data := d\<rparr>) = zero_bytes (out_size inst)"
    if "ecat_layout_output_region inst \<noteq> None" "d_outputs_zeroed (i_data (inst\<lparr>i_data := d\<rparr>))"
    using that assms(1,2) session_inv_region(3) [OF assms(1)] by auto
qed (use assms in simp_all)

lemma session_inv_tx:
  "session_inv inst \<Longrightarrow> d_tx_buf (i_data inst) \<noteq> None \<Longrightarrow>
   length (buffer_of (d_tx_buf (i_data inst))) = EDOG_FRAME_HEADER_SIZE + in_size inst \<and>
   d_tx_buf_size (i_data inst) = EDOG_FRAME_HEADER_SIZE + in_size inst"
  by (auto simp: session_inv_def Let_def)

lemma inv_close:
  assumes "session_inv inst"
  shows "session_inv (inst\<lparr>i_data := close_locked (i_data inst)\<rparr>)"
  by (rule session_inv_data [OF assms])
    (use session_inv_tx [OF assms] in \<open>auto simp: close_locked_def\<close>)

lemma inv_open: "session_inv inst \<Longrightarrow> session_inv (snd (ecat_data_open ep sock fresh inst))"
  using session_inv_tx [of inst] inv_close [of inst]
  by (auto simp: ecat_data_open_def Let_def split: option.splits intro!: session_inv_data
      simp: close_locked_def)

lemma apply_closed:
  assumes "session_inv inst" and "ecat_layout_output_region inst = Some off" and "\<not> d_open (i_data inst)"
  shows "out_region (ecat_data_apply_outputs True dgrams m inst) = zero_bytes (out_size inst)"
    and "session_inv (ecat_data_apply_outputs True dgrams m inst)"
proof -
  note z = zero_outputs_region [OF assms(2) session_inv_region(1) [OF assms(1,2)]]
  show "out_region (ecat_data_apply_outputs True dgrams m inst) = zero_bytes (out_size inst)"
    using assms z(1) session_inv_region(3) [OF assms(1,2)] by (simp add: ecat_data_apply_outputs_def)
  have "session_inv (zero_outputs off inst)"
    by (rule session_inv_step [OF assms(1)])
      (use z assms(1,3) in \<open>auto simp: session_inv_def Let_def rx_buffers_def\<close>)
  with assms show "session_inv (ecat_data_apply_outputs True dgrams m inst)"
    by (simp add: ecat_data_apply_outputs_def)
qed

lemma inv_apply: "session_inv inst \<Longrightarrow> session_inv (ecat_data_apply_outputs locked dgrams m inst)"
proof (cases "ecat_layout_output_region inst")
  case None
  then show "session_inv inst \<Longrightarrow> ?thesis" by (simp add: ecat_data_apply_outputs_def)
next
  case (Some off)
  assume "session_inv inst"
  show ?thesis
  proof (cases locked)
    case True
    with apply_open(2) [OF \<open>session_inv inst\<close> Some] apply_closed(2) [OF \<open>session_inv inst\<close> Some]
    show ?thesis by (cases "d_open (i_data inst)") simp_all
  next
    case False
    with \<open>session_inv inst\<close> Some show ?thesis by (simp add: ecat_data_apply_outputs_def)
  qed
qed

definition in_region :: "'d ecat_master_instance \<Rightarrow> bytes" where
  "in_region inst =
     (case ecat_layout_input_region inst of
        Some off \<Rightarrow> take (in_size inst) (drop off (buffer_of (i_iomap inst)))
      | None \<Rightarrow> [])"

lemma fill_tx_length:
  assumes "session_inv inst" and "d_tx_buf (i_data inst) \<noteq> None"
  shows "length (fill_tx_buf h inst) = EDOG_FRAME_HEADER_SIZE + in_size inst"
  using session_inv_tx [OF assms] by (auto simp: fill_tx_buf_def Let_def split: option.splits)

lemma inv_publish: "session_inv inst \<Longrightarrow> session_inv (snd (ecat_data_publish_inputs l s m w op ok inst))"
  using session_inv_tx [of inst] fill_tx_length [of inst]
  by (auto simp: ecat_data_publish_inputs_def Let_def buffer_of_def intro!: session_inv_data)
    (auto simp: session_inv_def Let_def)

lemma data_step_inv: "session_inv inst \<Longrightarrow> session_inv (data_step m ev inst)"
  by (cases ev) (simp_all add: inv_open inv_apply inv_publish ecat_data_close_def inv_close)

interpretation session: invariant_machine freshly_started "data_step m" session_inv for m
  by unfold_locales (auto intro: freshly_started_inv data_step_inv)

section \<open>Silence and the output watchdog\<close>

lemma timeout_cycles_bounds: "3 \<le> unat (timeout_cycles inst) \<and> unat (timeout_cycles inst) \<le> 100000"
proof -
  define c where "c = (if cycle_time_us (c_master (i_config inst)) > 0
    then cycle_time_us (c_master (i_config inst)) else 1000)"
  have c: "0 < c" by (simp add: c_def)
  have q: "0 \<le> 100000 div c" "100000 div c \<le> 100000"
    using c int_div_less [OF c, of 100000 100001] by (simp_all add: pos_imp_zdiv_nonneg_iff)
  have "timeout_cycles inst = (let k = (of_int (100000 div c) :: u32) in if k < 3 then 3 else k)"
    by (simp add: timeout_cycles_def c_def ECAT_DATA_TIMEOUT_MS_def)
  moreover have "unat (of_int (100000 div c) :: u32) = nat (100000 div c)"
    using q by (simp add: unsigned_of_int take_bit_int_eq_self)
  ultimately show ?thesis
    using q by (auto simp: Let_def word_less_nat_alt)
qed

lemma timeout_cycles_value:
  assumes "0 < c" and "c = cycle_time_us (c_master (i_config inst))"
  shows "unat (timeout_cycles inst) = (if 100000 div c < 3 then 3 else nat (100000 div c))"
proof -
  have q: "0 \<le> 100000 div c" "100000 div c \<le> 100000"
    using assms(1) int_div_less [OF assms(1), of 100000 100001] by (simp_all add: pos_imp_zdiv_nonneg_iff)
  then have "unat (of_int (100000 div c) :: u32) = nat (100000 div c)"
    by (simp add: unsigned_of_int take_bit_int_eq_self)
  with q assms show ?thesis
    by (auto simp: timeout_cycles_def ECAT_DATA_TIMEOUT_MS_def Let_def word_less_nat_alt)
qed

text \<open>A cycle in which nothing is accepted, whatever arrived.\<close>

definition silent :: "u8 \<Rightarrow> (bytes \<times> sockaddr) list \<Rightarrow> 'd ecat_master_instance \<Rightarrow> bool" where
  "silent m dgrams inst \<longleftrightarrow> frames_of m (out_size inst) dgrams (i_data inst) = []"

lemma apply_silent:
  assumes "session_inv inst" and "ecat_layout_output_region inst = Some off" and "d_open (i_data inst)"
    and "silent m dgrams inst"
  defines "inst' \<equiv> ecat_data_apply_outputs True dgrams m inst"
  shows "session_inv inst'" and "ecat_layout_output_region inst' = Some off" and "d_open (i_data inst')"
    and "silent m ds inst' = silent m ds inst" and "out_size inst' = out_size inst"
    and "timeout_cycles inst' = timeout_cycles inst"
    and "d_cycles_since_output (i_data inst') = d_cycles_since_output (i_data inst) + 1"
    and "out_region inst' =
      (if d_cycles_since_output (i_data inst) + 1 > timeout_cycles inst then zero_bytes (out_size inst)
       else out_region inst)"
proof -
  have "geometry inst' = geometry inst" by (simp add: inst'_def)
  note g = geometry_sizes [OF this]
  note a = apply_open [OF assms(1-3), where m = m and dgrams = dgrams, folded inst'_def]
  have none: "frames_of m (out_size inst) dgrams (i_data inst) = []"
    using assms(4) by (simp add: silent_def)
  show "session_inv inst'" "d_open (i_data inst')" by (rule a)+
  show "ecat_layout_output_region inst' = Some off" "out_size inst' = out_size inst"
    "timeout_cycles inst' = timeout_cycles inst" using g assms(2) by simp_all
  show "silent m ds inst' = silent m ds inst"
  proof -
    have "d_rx_seen (i_data inst') = d_rx_seen (i_data inst)"
      "d_rx_last_seq (i_data inst') = d_rx_last_seq (i_data inst)"
      using a(4,5) by (simp_all add: none)
    with a(10,11) show ?thesis by (simp add: silent_def g frames_of_def)
  qed
  show "d_cycles_since_output (i_data inst') = d_cycles_since_output (i_data inst) + 1"
    using a(3) by (simp add: none)
  show "out_region inst' =
      (if d_cycles_since_output (i_data inst) + 1 > timeout_cycles inst then zero_bytes (out_size inst)
       else out_region inst)"
    using a(1) by (simp add: spec_outputs_def none)
qed

lemma silence_zeroes:
  assumes "session_inv inst" and "ecat_layout_output_region inst = Some off" and "d_open (i_data inst)"
    and "\<forall>ds\<in>set dss. silent m ds inst"
    and "out_region inst = zero_bytes (out_size inst) \<or>
      unat (d_cycles_since_output (i_data inst)) \<le> unat (timeout_cycles inst) \<and>
      unat (timeout_cycles inst) < unat (d_cycles_since_output (i_data inst)) + length dss"
  shows "out_region (fold (\<lambda>ds. ecat_data_apply_outputs True ds m) dss inst) = zero_bytes (out_size inst)"
  using assms
proof (induction dss arbitrary: inst)
  case Nil
  then show ?case by auto
next
  case (Cons ds dss)
  let ?i = "ecat_data_apply_outputs True ds m inst"
  note a = apply_silent [OF Cons.prems(1-3), of m ds]
  have sil: "silent m ds inst" using Cons.prems(4) by simp
  note a = a [OF sil]
  let ?c = "d_cycles_since_output (i_data inst)" and ?t = "timeout_cycles inst"
  have "out_region ?i = zero_bytes (out_size ?i) \<or>
      unat (d_cycles_since_output (i_data ?i)) \<le> unat (timeout_cycles ?i) \<and>
      unat (timeout_cycles ?i) < unat (d_cycles_since_output (i_data ?i)) + length dss"
  proof (cases "out_region inst = zero_bytes (out_size inst)")
    case True
    then show ?thesis using a(5,8) by simp
  next
    case False
    with Cons.prems(5) have c: "unat ?c \<le> unat ?t" "unat ?t < unat ?c + Suc (length dss)" by auto
    have "unat ?c < 100001" using c(1) timeout_cycles_bounds [of inst] by simp
    then have "unat (?c + 1) = unat ?c + 1" by (simp add: unat_word_ariths)
    with c show ?thesis using a(5-8) by (auto simp: word_less_nat_alt)
  qed
  with Cons.IH [of ?i] a Cons.prems(4) show ?case by simp
qed

lemma output_frame_Some:
  "output_frame m out s p (dg, src) = Some f \<Longrightarrow>
   same_peer p src \<and> edog_frame_decode_header dg (length dg) = Some (fst f) \<and>
   h_kind (fst f) = EDOG_FRAME_OUTPUTS \<and> h_master (fst f) = m \<and> h_session (fst f) = s \<and>
   unat (h_payload_len (fst f)) = out \<and> snd f = drop EDOG_FRAME_HEADER_SIZE dg"
  by (auto simp: output_frame_def split: option.splits if_splits)

text \<open>The frame a cycle applies is newer than the one that was accepted before it, in this cycle or an earlier one.\<close>

definition last_seq :: "u32 option \<Rightarrow> (edog_frame_header \<times> bytes) list \<Rightarrow> u32 option" where
  "last_seq lst acc = (if acc = [] then lst else Some (h_sequence (fst (last acc))))"

lemma accepted_snoc:
  "accepted lst (fs @ [x]) =
     accepted lst fs @ (case x of Some f \<Rightarrow> if is_newer (h_sequence (fst f)) (last_seq lst (accepted lst fs)) then [f] else []
                        | None \<Rightarrow> [])"
proof (induction lst fs rule: accepted.induct)
  case (1 lst)
  then show ?case by (cases x) (auto simp: last_seq_def)
next
  case (2 lst fs)
  then show ?case by (cases x) simp_all
next
  case (3 lst h p fs)
  have "last_seq lst ((h, p) # acc) = last_seq (Some (h_sequence h)) acc" for acc by (simp add: last_seq_def)
  then show ?case using 3 by (cases "is_newer (h_sequence h) lst") (simp_all split: option.split)
qed

lemma accepted_last:
  assumes "accepted lst fs \<noteq> []"
  shows "\<exists>pre l post. l = last (accepted lst fs) \<and> fs = pre @ Some l # post \<and>
    is_newer (h_sequence (fst l)) (last_seq lst (accepted lst pre))"
  using assms
proof (induction fs rule: rev_induct)
  case (snoc x fs)
  show ?case
  proof (cases "\<exists>f. x = Some f \<and> is_newer (h_sequence (fst f)) (last_seq lst (accepted lst fs))")
    case True
    then obtain f where f: "x = Some f" "is_newer (h_sequence (fst f)) (last_seq lst (accepted lst fs))" by blast
    then show ?thesis by (intro exI [of _ fs] exI [of _ f] exI [of _ "[]"]) (simp add: accepted_snoc)
  next
    case False
    then have same: "accepted lst (fs @ [x]) = accepted lst fs" by (auto simp: accepted_snoc split: option.split)
    then have "accepted lst fs \<noteq> []" using snoc.prems by simp
    from snoc.IH [OF this] obtain pre l post where l: "l = last (accepted lst fs)" "fs = pre @ Some l # post"
      "is_newer (h_sequence (fst l)) (last_seq lst (accepted lst pre))" by blast
    have "fs @ [x] = pre @ Some l # (post @ [x])" by (subst l(2)) simp
    then show ?thesis using l(1,3) same by metis
  qed
qed simp

lemma map_split: "map f xs = ys @ z # zs \<Longrightarrow> \<exists>as x bs. xs = as @ x # bs \<and> map f as = ys \<and> f x = z"
  by (auto simp: map_eq_append_conv map_eq_Cons_conv)

lemma frames_of_last:
  assumes "rx_buffers out d" and "frames_of m out dgrams d \<noteq> []"
  shows "\<exists>pre dg src post l. l = last (frames_of m out dgrams d) \<and> dgrams = pre @ (dg, src) # post \<and>
    output_frame m out (d_session d) (d_peer d) (dg, src) = Some l \<and>
    (let d' = fst (drain m out pre d False False)
     in d_rx_seen d' \<longrightarrow> edog_seq_newer (h_sequence (fst l)) (d_rx_last_seq d'))"
proof -
  let ?f = "output_frame m out (d_session d) (d_peer d)" and ?lst = "if d_rx_seen d then Some (d_rx_last_seq d) else None"
  obtain fpre l fpost where f: "l = last (frames_of m out dgrams d)" "map ?f dgrams = fpre @ Some l # fpost"
      "is_newer (h_sequence (fst l)) (last_seq ?lst (accepted ?lst fpre))"
    using accepted_last [of ?lst "map ?f dgrams"] assms(2) unfolding frames_of_def by blast
  obtain pre dgram post where split: "dgrams = pre @ dgram # post" "map ?f pre = fpre" "?f dgram = Some l"
    using map_split [OF f(2)] by blast
  obtain d' where d': "fst (drain m out pre d False False) = d'" "drained out (length pre) (frames_of m out pre d) d d'"
    using drain_refines [OF assms(1), of m pre False False] by (metis fst_conv)
  have "frames_of m out pre d = accepted ?lst fpre" by (simp add: frames_of_def split(2))
  then have "d_rx_seen d' \<longrightarrow> edog_seq_newer (h_sequence (fst l)) (d_rx_last_seq d')"
    using f(3) d'(2) by (auto simp: drained_def last_seq_def is_newer_def split: if_splits)
  moreover obtain dg src where "dgram = (dg, src)" by force
  ultimately show ?thesis using split(1,3) d'(1) f(1) unfolding Let_def by blast
qed

section \<open>An example session\<close>

text \<open>One output byte holding 255, one input byte, a cycle of 50 ms and a client on a local socket.\<close>

definition example_before :: "unit ecat_master_instance" where
  "example_before = (zero_instance ())\<lparr>i_soem_initialized := True,
     i_config := zero_config\<lparr>c_master := (c_master zero_config)\<lparr>cycle_time_us := 50000\<rparr>\<rparr>,
     i_ctx := (zero_context ())\<lparr>group0 := \<lparr>eg_Obytes = 1, eg_Ibytes = 1, eg_outputs = Some 0,
       eg_inputs = Some 1, eg_outputsWKC = 1, eg_inputsWKC = 1\<rparr>\<rparr>,
     i_layout := \<lparr>output_bytes = 1, input_bytes = 1, ly_entries = [], entry_capacity = 0\<rparr>,
     i_iomap := Some [255, 7], i_data := zero_session\<lparr>d_fd := - 1\<rparr>\<rparr>"

definition example_started :: "unit ecat_master_instance" where
  "example_started = snd (ecat_data_alloc_buffers (\<lambda>_. True) example_before)"

definition example_open :: "unit ecat_master_instance" where
  "example_open = snd (ecat_data_open ''unix:/a'' (Some (5, ''/s'')) 0x1234 example_started)"

lemma example_started_eq:
  "ecat_data_alloc_buffers (\<lambda>_. True) example_before = (True, example_started)"
  "example_started = example_before\<lparr>i_data := (zero_session\<lparr>d_fd := - 1\<rparr>)
     \<lparr>d_rx_buf := Some (zero_bytes 26), d_rx_buf_size := 26, d_rx_latest := Some (zero_bytes 1),
      d_tx_buf := Some (zero_bytes 25), d_tx_buf_size := 25\<rparr>\<rparr>"
  by (simp_all add: example_started_def ecat_data_alloc_buffers_def Let_def example_before_def
      edog_const_defs)

lemma example_started_fresh: "freshly_started example_started"
  unfolding freshly_started_def
proof (intro conjI exI)
  show "ecat_data_alloc_buffers (\<lambda>_. True) example_before = (True, example_started)"
    by (rule example_started_eq)
qed (simp_all add: example_started_eq(2) example_before_def region_inside_def zero_defs out_size_def
    in_size_def ecat_layout_output_region_def ecat_layout_input_region_def buffer_of_def)

lemma example_open_eq:
  "example_open = example_started\<lparr>i_data := (i_data example_started)
     \<lparr>d_fd := 5, d_local_path := ''/s'', d_open := True, d_session := 0x1234, d_rx_seen := False,
      d_peer := SA_UNIX ''/a'', d_tx_seq := 0, d_rx_last_seq := 0, d_cycles_since_output := 0,
      d_outputs_zeroed := False\<rparr>\<rparr>"
  by (simp add: example_open_def ecat_data_open_def edog_dgram_parse_def starts_with_def
      sun_path_size_def close_locked_def Let_def example_started_eq(2))

lemma example_open_facts:
  "session_inv example_open"
  "ecat_layout_output_region example_open = Some 0" "ecat_layout_input_region example_open = Some 1"
  "d_open (i_data example_open)" "d_fd (i_data example_open) = 5" "out_size example_open = 1"
  "in_size example_open = 1" "out_region example_open = [255]" "timeout_cycles example_open = 3"
  "d_cycles_since_output (i_data example_open) = 0" "d_session (i_data example_open) = 0x1234"
  "d_peer (i_data example_open) = SA_UNIX ''/a''" "d_rx_seen (i_data example_open) = False"
  "i_iomap example_open = Some [255, 7]"
proof -
  show "session_inv example_open"
    unfolding example_open_def by (intro inv_open freshly_started_inv example_started_fresh)
qed (simp_all add: example_open_eq example_started_eq(2) example_before_def zero_defs
    ecat_layout_output_region_def ecat_layout_input_region_def out_size_def in_size_def
    out_region_def buffer_of_def timeout_cycles_def ECAT_DATA_TIMEOUT_MS_def)

definition example_frame :: bytes where
  "example_frame = [0x45, 0x44, 0x4F, 0x47, 1, 1, 0, 1, 0x34, 0x12, 0, 0, 0, 0, 0, 0, 1, 0, 0, 0, 1, 0, 0, 0, 0xAB]"

lemma example_frame_decodes:
  "edog_frame_decode_header example_frame (length example_frame) =
     Some \<lparr>h_version = 1, h_kind = 1, h_master = 0, h_flags = 1, h_session = 0x1234, h_sequence = 1,
           h_payload_len = 1, h_wkc = 0\<rparr>"
  by (simp add: edog_frame_decode_header_def example_frame_def edog_const_defs edog_get_u64_def
      edog_get_u32_def edog_get_u16_def Let_def upt_rec)

lemma example_accepts:
  "spec_outputs 0 [(example_frame, SA_UNIX ''/a'')] example_open = [0xAB]"
proof -
  have "frames_of 0 1 [(example_frame, SA_UNIX ''/a'')] (i_data example_open) =
      [(\<lparr>h_version = 1, h_kind = 1, h_master = 0, h_flags = 1, h_session = 0x1234, h_sequence = 1,
         h_payload_len = 1, h_wkc = 0\<rparr>, [0xAB])]"
    by (simp add: frames_of_def output_frame_def example_frame_decodes example_open_facts
        EDOG_FRAME_OUTPUTS_def same_peer_def is_newer_def)
      (simp add: example_frame_def EDOG_FRAME_HEADER_SIZE_def)
  then show ?thesis
    by (simp add: spec_outputs_def example_open_facts frame_valid_def EDOG_FLAG_VALID_def)
qed

section \<open>Properties\<close>



text \<open>
  C1: one bus cycle of an open session leaves in the output region exactly what the
  specification of the session says: the payload of the last accepted frame, zeros if that frame
  is not marked valid, zeros once nothing was accepted for longer than the timeout, and otherwise
  what was there before. The accepted frames are those addressed to this master and session, of
  the exact size and from the client, each newer than the one accepted before it.
\<close>

theorem apply_outputs_refines:
  "session_inv inst \<Longrightarrow> ecat_layout_output_region inst = Some off \<Longrightarrow> d_open (i_data inst) \<Longrightarrow>
   out_region (ecat_data_apply_outputs True dgrams m inst) = spec_outputs m dgrams inst"
  by (rule apply_open(1))

theorem apply_outputs_refines_witness:
  "out_region (ecat_data_apply_outputs True [(example_frame, SA_UNIX ''/a'')] 0 example_open) = [0xAB]"
  using apply_outputs_refines [OF example_open_facts(1,2,4), of "[(example_frame, SA_UNIX ''/a'')]" 0]
  by (simp add: example_accepts)



text \<open>
  C3: the output watchdog. Once the client of an open session falls silent, whatever else
  arrives, the outputs are zero as soon as more cycles have passed than the timeout allows, and
  they stay zero.
\<close>

theorem watchdog_zeroes_outputs:
  assumes "session_inv inst" and "ecat_layout_output_region inst = Some off" and "d_open (i_data inst)"
    and "unat (d_cycles_since_output (i_data inst)) \<le> unat (timeout_cycles inst)"
    and "\<forall>ds\<in>set dss. silent m ds inst"
    and "unat (timeout_cycles inst) < unat (d_cycles_since_output (i_data inst)) + length dss"
  shows "out_region (fold (\<lambda>ds. ecat_data_apply_outputs True ds m) dss inst) = zero_bytes (out_size inst)"
  using assms by (intro silence_zeroes) auto

theorem watchdog_zeroes_outputs_witness:
  "out_region (fold (\<lambda>ds. ecat_data_apply_outputs True ds 0) (replicate 4 []) example_open) = [0]"
  using watchdog_zeroes_outputs [OF example_open_facts(1,2,4), of "replicate 4 []" 0]
  by (simp add: example_open_facts silent_def frames_of_def zero_bytes_def)

text \<open>
  The timeout is between 3 and 100000 cycles, and lasts at most 100 ms unless three cycles
  take longer than that.
\<close>

theorem timeout_cycles_range:
  "3 \<le> unat (timeout_cycles inst) \<and> unat (timeout_cycles inst) \<le> 100000 \<and>
   (0 < cycle_time_us (c_master (i_config inst)) \<longrightarrow>
      int (unat (timeout_cycles inst)) * cycle_time_us (c_master (i_config inst)) \<le> 100000 \<or>
      unat (timeout_cycles inst) = 3)"
proof -
  have "int (unat (timeout_cycles inst)) * c \<le> 100000 \<or> unat (timeout_cycles inst) = 3"
    if c: "0 < c" "c = cycle_time_us (c_master (i_config inst))" for c
  proof -
    have "100000 div c * c + 100000 mod c = 100000" by simp
    moreover have "0 \<le> 100000 mod c" using c(1) by simp
    ultimately have "100000 div c * c \<le> 100000" by linarith
    moreover have "0 \<le> 100000 div c" using c(1) by (simp add: pos_imp_zdiv_nonneg_iff)
    ultimately show ?thesis unfolding timeout_cycles_value [OF c] by simp
  qed
  with timeout_cycles_bounds [of inst] show ?thesis by blast
qed

theorem timeout_cycles_range_witness:
  "int (unat (timeout_cycles ((zero_instance ())\<lparr>i_config := zero_config\<lparr>c_master :=
     (c_master zero_config)\<lparr>cycle_time_us := 1000\<rparr>\<rparr>\<rparr>))) * 1000 \<le> 100000"
  (is "int (unat (timeout_cycles ?i)) * _ \<le> _")
proof -
  have "unat (timeout_cycles ?i) \<noteq> 3"
    by (simp add: timeout_cycles_def zero_defs ECAT_DATA_TIMEOUT_MS_def)
  with timeout_cycles_range [of ?i] show ?thesis by (simp add: zero_config_def)
qed

text \<open>
  Without an open session the outputs are zero after the next cycle that gets the lock.
\<close>

theorem closed_session_zeroes_outputs:
  "session_inv inst \<Longrightarrow> ecat_layout_output_region inst = Some off \<Longrightarrow> \<not> d_open (i_data inst) \<Longrightarrow>
   out_region (ecat_data_apply_outputs True dgrams m inst) = zero_bytes (out_size inst)"
  by (rule apply_closed(1))

theorem closed_session_zeroes_outputs_witness:
  "out_region (ecat_data_apply_outputs True [] 0 example_started) = [0]"
  using closed_session_zeroes_outputs [OF freshly_started_inv [OF example_started_fresh], of 0 "[]" 0]
  by (simp add: example_started_eq(2) example_before_def zero_defs ecat_layout_output_region_def
      out_size_def zero_bytes_def)

text \<open>
  Every datagram a cycle takes from the socket is counted exactly once, as applied or as
  dropped.
\<close>

theorem datagrams_counted:
  assumes "session_inv inst" and "ecat_layout_output_region inst = Some off" and "d_open (i_data inst)"
  shows "(d_frames_rx (i_data (ecat_data_apply_outputs True dgrams m inst)) - d_frames_rx (i_data inst)) +
     (d_frames_dropped (i_data (ecat_data_apply_outputs True dgrams m inst)) - d_frames_dropped (i_data inst)) =
     of_nat (length dgrams)"
  using apply_open(6-8) [OF assms, where m = m and dgrams = dgrams] by simp

theorem datagrams_counted_witness:
  "(d_frames_rx (i_data (ecat_data_apply_outputs True [([1], SA_OTHER 0)] 0 example_open)) -
      d_frames_rx (i_data example_open)) +
   (d_frames_dropped (i_data (ecat_data_apply_outputs True [([1], SA_OTHER 0)] 0 example_open)) -
      d_frames_dropped (i_data example_open)) = 1"
  using datagrams_counted [OF example_open_facts(1,2,4), of "[([1], SA_OTHER 0)]" 0] by simp

text \<open>
  What an open session publishes decodes, at the client, to an input frame of this master
  and session with the next sequence number, the cycle's flags and working counter, and the input
  region as payload.
\<close>

theorem published_frame_decodes:
  assumes "session_inv inst" and "d_open (i_data inst)" and "0 \<le> d_fd (i_data inst)"
    and "ecat_layout_input_region inst = Some off"
  shows "\<exists>frame.
     fst (ecat_data_publish_inputs True sent m wkc operational wkc_ok inst) = Some frame \<and>
     edog_frame_decode_header frame (length frame) = Some (inputs_header m wkc operational wkc_ok inst) \<and>
     drop EDOG_FRAME_HEADER_SIZE frame = take (in_size inst) (drop off (buffer_of (i_iomap inst)))"
proof -
  let ?h = "inputs_header m wkc operational wkc_ok inst"
  have tx: "d_tx_buf (i_data inst) \<noteq> None" using assms(1,2) by (auto simp: session_inv_def Let_def)
  note len = session_inv_tx [OF assms(1) tx] and fill = fill_tx_length [OF assms(1) tx, of ?h]
  have "fst (ecat_data_publish_inputs True sent m wkc operational wkc_ok inst) = Some (fill_tx_buf ?h inst)"
    using assms(2,3) tx len fill by (simp add: ecat_data_publish_inputs_def Let_def)
  moreover have "edog_frame_decode_header (fill_tx_buf ?h inst) (length (fill_tx_buf ?h inst)) = Some ?h"
  proof -
    let ?e = "edog_frame_encode_header (buffer_of (d_tx_buf (i_data inst))) ?h"
    have "edog_frame_decode_header ?e (EDOG_FRAME_HEADER_SIZE + in_size inst) = Some ?h"
    proof (rule encode_decodes)
      have "in_size inst \<le> EDOG_FRAME_MAX_PAYLOAD" using assms(1) by (simp add: session_inv_def Let_def)
      then have "unat (of_nat (in_size inst) :: u16) = in_size inst"
        by (simp add: unat_of_nat edog_const_defs)
      then show "unat (h_payload_len ?h) \<le> EDOG_FRAME_MAX_PAYLOAD"
        "EDOG_FRAME_HEADER_SIZE + in_size inst = EDOG_FRAME_HEADER_SIZE + unat (h_payload_len ?h)"
        using \<open>in_size inst \<le> EDOG_FRAME_MAX_PAYLOAD\<close> by (simp_all add: inputs_header_def)
    qed (use len in \<open>simp_all add: inputs_header_def\<close>)
    moreover have "fill_tx_buf ?h inst ! i = ?e ! i" if "i < EDOG_FRAME_HEADER_SIZE" for i
      using that len assms(4) by (simp add: fill_tx_buf_def Let_def mem_write_def nth_append)
    ultimately show ?thesis using decode_prefix [of "fill_tx_buf ?h inst" ?e] fill by simp
  qed
  moreover have "drop EDOG_FRAME_HEADER_SIZE (fill_tx_buf ?h inst) =
      take (in_size inst) (drop off (buffer_of (i_iomap inst)))"
    using len assms(1,4)
    by (auto simp: fill_tx_buf_def Let_def mem_write_def session_inv_def region_inside_def)
  ultimately show ?thesis by blast
qed

theorem published_frame_decodes_witness:
  "\<exists>frame. fst (ecat_data_publish_inputs True True 0 3 True True example_open) = Some frame \<and>
     drop EDOG_FRAME_HEADER_SIZE frame = [7]"
  using published_frame_decodes [OF example_open_facts(1,4), of 1 True 0 3 True True]
  by (auto simp: example_open_facts buffer_of_def)

end
