(* ===== verification/Iface_State.thy ===== *)
theory Iface_State
  imports Instance
begin

text \<open>
  NIC tuning around a run of the bus (\<^verbatim>\<open>src/iface_state.c\<close>, Linux build): the settings found are
  captured, saved to a state file, replaced, and restored at the end or, after a crash, at the
  next start. The file system is a map from paths to contents; running \<^verbatim>\<open>ethtool\<close>
  (\<^verbatim>\<open>ecat_run_argv\<close> of \<^verbatim>\<open>src/proc.c\<close>) is a parameter on the rest of the host: the output when
  the command succeeds and the host afterwards. Requesting promiscuous mode acts on the memberships
  of SOEM's raw socket, which the kernel drops with the socket.
\<close>

section \<open>Host\<close>

record 'w host =
  files :: "string \<Rightarrow> string option"
  nic :: 'w

type_synonym 'w run_argv = "string list \<Rightarrow> 'w \<Rightarrow> string option \<times> 'w"

definition run_host :: "'w run_argv \<Rightarrow> string list \<Rightarrow> 'w host \<Rightarrow> string option \<times> 'w host" where
  "run_host run argv h = (case run argv (nic h) of (out, w) \<Rightarrow> (out, h\<lparr>nic := w\<rparr>))"

section \<open>Reading \<^verbatim>\<open>ethtool\<close> output\<close>

fun strstr :: "string \<Rightarrow> string \<Rightarrow> string option" where
  "strstr key [] = (if key = [] then Some [] else None)"
| "strstr key (c # s) = (if starts_with key (c # s) then Some (c # s) else strstr key s)"

lemma strstr_length: "strstr key s = Some p \<Longrightarrow> length p \<le> length s"
  by (induction key s rule: strstr.induct) (auto split: if_splits)

definition key_ends :: "string \<Rightarrow> bool" where
  "key_ends s = (case s of c # _ \<Rightarrow> c = CHR '':'' \<or> c = CHR '' '' \<or> c = CHR 0x09 | [] \<Rightarrow> False)"

definition skip_key_sep :: "string \<Rightarrow> string" where
  "skip_key_sep s = dropWhile (\<lambda>c. c = CHR '':'' \<or> c = CHR '' '' \<or> c = CHR 0x09) s"

text \<open>The search loop; the keys of the program are never empty.\<close>

function find_key :: "string \<Rightarrow> string \<Rightarrow> string option" where
  "find_key key s =
     (if key = [] then None
      else case strstr key s of
             None \<Rightarrow> None
           | Some p \<Rightarrow>
               if key_ends (drop (length key) p) then Some (drop (length key) p)
               else if p = [] then None else find_key key (drop (length key) p))"
  by pat_completeness auto
termination
proof (relation "measure (\<lambda>(_, s). length s)")
  fix key s p :: string
  assume "key \<noteq> []" "strstr key s = Some p" "p \<noteq> []"
  then have "length p - length key < length p" "length p \<le> length s"
    by (auto dest: strstr_length)
  then show "((key, drop (length key) p), key, s) \<in> measure (\<lambda>(_, s). length s)" by simp
qed simp

declare find_key.simps [simp del]

definition parse_ethtool_int :: "string \<Rightarrow> string \<Rightarrow> int option" where
  "parse_ethtool_int output key =
     (case find_key key output of
        None \<Rightarrow> None
      | Some p \<Rightarrow>
          (case skip_key_sep p of
             [] \<Rightarrow> None
           | c # r \<Rightarrow> if c \<noteq> CHR ''-'' \<and> \<not> isdigit c then None else Some (atoi (c # r))))"

definition parse_ethtool_bool :: "string \<Rightarrow> string \<Rightarrow> bool option" where
  "parse_ethtool_bool output key =
     (case strstr key output of
        None \<Rightarrow> None
      | Some p \<Rightarrow> Some (starts_with ''on'' (skip_key_sep (drop (length key) p))))"

section \<open>Capture, apply, restore\<close>

definition zero_iface_state :: ecat_iface_state where
  "zero_iface_state =
     \<lparr>if_iface = [], coalescing_saved = False, rx_usecs = 0, tx_usecs = 0, offloads_saved = False,
      if_gro = False, if_gso = False, if_tso = False\<rparr>"

definition or_keep :: "'a option \<Rightarrow> 'a \<Rightarrow> 'a" where
  "or_keep v old = (case v of Some x \<Rightarrow> x | None \<Rightarrow> old)"

text \<open>\<^verbatim>\<open>ethtool\<close> output is read into a buffer of 2048 bytes.\<close>

definition capture_coalescing :: "string \<Rightarrow> ecat_iface_state \<Rightarrow> ecat_iface_state" where
  "capture_coalescing output s =
     (let rx = parse_ethtool_int output ''rx-usecs''; tx = parse_ethtool_int output ''tx-usecs'';
          s = s\<lparr>rx_usecs := or_keep rx (rx_usecs s), tx_usecs := or_keep tx (tx_usecs s)\<rparr>
      in if rx \<noteq> None \<or> tx \<noteq> None then s\<lparr>coalescing_saved := True\<rparr> else s)"

definition capture_offloads :: "string \<Rightarrow> ecat_iface_state \<Rightarrow> ecat_iface_state" where
  "capture_offloads output s =
     (let gro = parse_ethtool_bool output ''generic-receive-offload'';
          gso = parse_ethtool_bool output ''generic-segmentation-offload'';
          tso = parse_ethtool_bool output ''tcp-segmentation-offload''
      in if gro \<noteq> None \<or> gso \<noteq> None \<or> tso \<noteq> None
         then s\<lparr>offloads_saved := True, if_gro := or_keep gro False, if_gso := or_keep gso False,
                if_tso := or_keep tso False\<rparr>
         else s)"

definition capture_nic_settings ::
  "'w run_argv \<Rightarrow> ecat_iface_state \<Rightarrow> 'w host \<Rightarrow> ecat_iface_state \<times> 'w host" where
  "capture_nic_settings run s h =
     (case run_host run [''ethtool'', ''-c'', if_iface s] h of
        (out, h1) \<Rightarrow>
          let s1 = (case out of Some t \<Rightarrow> capture_coalescing (c_copy 2048 t) s | None \<Rightarrow> s)
          in case run_host run [''ethtool'', ''-k'', if_iface s1] h1 of
               (out2, h2) \<Rightarrow>
                 (case out2 of Some t \<Rightarrow> capture_offloads (c_copy 2048 t) s1 | None \<Rightarrow> s1, h2))"

definition apply_low_latency_nic :: "'w run_argv \<Rightarrow> string \<Rightarrow> 'w host \<Rightarrow> 'w host" where
  "apply_low_latency_nic run iface h =
     (let h1 = snd (run_host run [''ethtool'', ''-C'', iface, ''rx-usecs'', ''0'', ''tx-usecs'', ''0''] h)
      in snd (run_host run [''ethtool'', ''-K'', iface, ''gro'', ''off'', ''gso'', ''off'', ''tso'', ''off''] h1))"

definition on_off :: "bool \<Rightarrow> string" where
  "on_off b = (if b then ''on'' else ''off'')"

definition restore_nic_settings :: "'w run_argv \<Rightarrow> ecat_iface_state \<Rightarrow> 'w host \<Rightarrow> 'w host" where
  "restore_nic_settings run s h =
     (let h1 = (if coalescing_saved s
                then snd (run_host run [''ethtool'', ''-C'', if_iface s, ''rx-usecs'',
                       c_copy 16 (fmt_dec (rx_usecs s)), ''tx-usecs'', c_copy 16 (fmt_dec (tx_usecs s))] h)
                else h)
      in if offloads_saved s
         then snd (run_host run [''ethtool'', ''-K'', if_iface s, ''gro'', on_off (if_gro s), ''gso'',
                on_off (if_gso s), ''tso'', on_off (if_tso s)] h1)
         else h1)"

section \<open>State file\<close>

definition state_path :: "string \<Rightarrow> string \<Rightarrow> string" where
  "state_path dir iface = c_copy 512 (dir @ ''/ecat_iface_'' @ iface @ ''.state'')"

abbreviation newline :: string where "newline \<equiv> [CHR 0x0A]"

definition state_text :: "ecat_iface_state \<Rightarrow> string" where
  "state_text s =
     ''iface='' @ if_iface s @ newline @
     (if coalescing_saved s
      then ''rx_usecs='' @ fmt_dec (rx_usecs s) @ newline @ ''tx_usecs='' @ fmt_dec (tx_usecs s) @ newline
      else []) @
     (if offloads_saved s
      then ''gro='' @ on_off (if_gro s) @ newline @ ''gso='' @ on_off (if_gso s) @ newline @
           ''tso='' @ on_off (if_tso s) @ newline
      else [])"

text \<open>\<open>writable\<close>: whether directory, temporary file and rename all succeed.\<close>

definition persist_state :: "bool \<Rightarrow> string \<Rightarrow> ecat_iface_state \<Rightarrow> 'w host \<Rightarrow> 'w host" where
  "persist_state writable dir s h =
     (if writable then h\<lparr>files := (files h)(state_path dir (if_iface s) \<mapsto> state_text s)\<rparr> else h)"

definition remove_state_file :: "string \<Rightarrow> string \<Rightarrow> 'w host \<Rightarrow> 'w host" where
  "remove_state_file dir iface h = h\<lparr>files := (files h)(state_path dir iface := None)\<rparr>"

text \<open>\<^verbatim>\<open>fgets\<close> into a buffer of \<open>n + 1\<close> bytes, without the newline it may end with.\<close>

fun fgets_lines :: "nat \<Rightarrow> nat \<Rightarrow> string \<Rightarrow> string list" where
  "fgets_lines n left [] = []"
| "fgets_lines n left (c # s) =
     (if c = CHR 0x0A then [] # fgets_lines n n s
      else if left \<le> 1 then [c] # fgets_lines n n s
      else (case (s, fgets_lines n (left - 1) s) of
              ([], _) \<Rightarrow> [[c]]
            | (_, l # ls) \<Rightarrow> (c # l) # ls
            | (_, []) \<Rightarrow> [[c]]))"

definition split_eq :: "string \<Rightarrow> (string \<times> string) option" where
  "split_eq line =
     (case dropWhile (\<lambda>c. c \<noteq> CHR ''='') line of
        [] \<Rightarrow> None
      | _ # v \<Rightarrow> Some (takeWhile (\<lambda>c. c \<noteq> CHR ''='') line, v))"

definition load_line :: "string \<Rightarrow> ecat_iface_state \<Rightarrow> ecat_iface_state" where
  "load_line line s =
     (case split_eq line of
        None \<Rightarrow> s
      | Some (key, v) \<Rightarrow>
          if key = ''rx_usecs'' then s\<lparr>rx_usecs := atoi v, coalescing_saved := True\<rparr>
          else if key = ''tx_usecs'' then s\<lparr>tx_usecs := atoi v, coalescing_saved := True\<rparr>
          else if key = ''gro'' then s\<lparr>if_gro := (v = ''on''), offloads_saved := True\<rparr>
          else if key = ''gso'' then s\<lparr>if_gso := (v = ''on''), offloads_saved := True\<rparr>
          else if key = ''tso'' then s\<lparr>if_tso := (v = ''on''), offloads_saved := True\<rparr>
          else s)"

definition load_text :: "string \<Rightarrow> string \<Rightarrow> ecat_iface_state" where
  "load_text iface text =
     fold load_line (fgets_lines 127 127 text)
       (zero_iface_state\<lparr>if_iface := c_copy ECAT_IFNAME_MAX iface\<rparr>)"

definition load_state :: "string \<Rightarrow> string \<Rightarrow> 'w host \<Rightarrow> ecat_iface_state option" where
  "load_state dir iface h = map_option (load_text iface) (files h (state_path dir iface))"

definition recover_from_crash :: "'w run_argv \<Rightarrow> string \<Rightarrow> string \<Rightarrow> 'w host \<Rightarrow> 'w host" where
  "recover_from_crash run dir iface h =
     (case load_state dir iface h of
        None \<Rightarrow> h
      | Some prev \<Rightarrow> remove_state_file dir iface (restore_nic_settings run prev h))"

section \<open>Entry points\<close>

definition ecat_iface_state_apply ::
  "'w run_argv \<Rightarrow> bool \<Rightarrow> string \<Rightarrow> string \<Rightarrow> ecat_iface_state \<Rightarrow> 'w host \<Rightarrow> ecat_iface_state \<times> 'w host" where
  "ecat_iface_state_apply run writable dir iface state h =
     (if iface = [] then (state, h)
      else if \<not> ecat_iface_validate (Some iface) ECAT_IFACE_LINUX_STRICT then (zero_iface_state, h)
      else
        let s = zero_iface_state\<lparr>if_iface := c_copy ECAT_IFNAME_MAX iface\<rparr>;
            h1 = recover_from_crash run dir iface h
        in case capture_nic_settings run s h1 of
             (s2, h2) \<Rightarrow> (s2, persist_state writable dir s2 (apply_low_latency_nic run iface h2)))"

definition ecat_iface_state_revert ::
  "'w run_argv \<Rightarrow> string \<Rightarrow> ecat_iface_state \<Rightarrow> 'w host \<Rightarrow> ecat_iface_state \<times> 'w host" where
  "ecat_iface_state_revert run dir state h =
     (if if_iface state = [] then (state, h)
      else (state\<lparr>coalescing_saved := False, offloads_saved := False\<rparr>,
            remove_state_file dir (if_iface state) (restore_nic_settings run state h)))"

text \<open>
  The memberships of packet sockets are pairs of a socket and an interface index. What
  \<^verbatim>\<open>if_nametoindex\<close> and \<^verbatim>\<open>setsockopt\<close> answer are arguments; the callers ignore the result.
\<close>

definition ecat_iface_request_promisc ::
  "(string \<Rightarrow> nat) \<Rightarrow> bool \<Rightarrow> int option \<Rightarrow> string option \<Rightarrow> (int \<times> nat) list \<Rightarrow> bool \<times> (int \<times> nat) list" where
  "ecat_iface_request_promisc if_nametoindex setsockopt sockhandle iface members =
     (let sockfd = (case sockhandle of None \<Rightarrow> - 1 | Some s \<Rightarrow> s)
      in case iface of
           None \<Rightarrow> (False, members)
         | Some name \<Rightarrow>
             if sockfd < 0 then (False, members)
             else if if_nametoindex name = 0 then (False, members)
             else if \<not> setsockopt then (False, members)
             else (True, (sockfd, if_nametoindex name) # members))"

text \<open>Only the interface that was named becomes promiscuous, and only for the socket of the bus.\<close>

lemma promisc_only_named:
  assumes "ecat_iface_request_promisc idx ok sk iface members = (r, members')"
  shows "if r then \<exists>s name. sk = Some s \<and> 0 \<le> s \<and> iface = Some name \<and> idx name \<noteq> 0 \<and> members' = (s, idx name) # members
    else members' = members"
  using assms by (auto simp: ecat_iface_request_promisc_def Let_def split: option.splits if_splits)

section \<open>Round trip of the state file\<close>

lemma fgets_line:
  assumes "CHR 0x0A \<notin> set l" and "length l < left"
  shows "fgets_lines n left (l @ CHR 0x0A # rest) = l # fgets_lines n n rest"
  using assms
proof (induction l arbitrary: left)
  case (Cons c l)
  then show ?case by (cases "l @ CHR 0x0A # rest") auto
qed simp

lemma fmt_dec_no_newline: "CHR 0x0A \<notin> set (fmt_dec i)" "CHR ''='' \<notin> set (fmt_dec i)"
proof -
  have "CHR 0x0A \<notin> set (dec_chars k) \<and> CHR ''='' \<notin> set (dec_chars k)" for k
    using dec_chars_digits(1) [of k] by (auto simp: list_all_iff isdigit_def)
  then show "CHR 0x0A \<notin> set (fmt_dec i)" "CHR ''='' \<notin> set (fmt_dec i)"
    by (simp_all add: fmt_dec_def)
qed

definition int_range :: "int \<Rightarrow> bool" where
  "int_range i \<longleftrightarrow> - (2 ^ 31) \<le> i \<and> i < 2 ^ 31"

lemma fmt_dec_length: "int_range i \<Longrightarrow> length (fmt_dec i) \<le> 11"
  using dec_chars_length [of 10 "nat (- i)"] dec_chars_length [of 10 "nat i"]
  by (auto simp: fmt_dec_def int_range_def nat_less_iff)

text \<open>A captured state: fields that were not saved still have their initial values.\<close>

definition captured_wf :: "ecat_iface_state \<Rightarrow> bool" where
  "captured_wf s \<longleftrightarrow>
     ecat_iface_validate (Some (if_iface s)) ECAT_IFACE_LINUX_STRICT \<and>
     int_range (rx_usecs s) \<and> int_range (tx_usecs s) \<and>
     (\<not> coalescing_saved s \<longrightarrow> rx_usecs s = 0 \<and> tx_usecs s = 0) \<and>
     (\<not> offloads_saved s \<longrightarrow> \<not> if_gro s \<and> \<not> if_gso s \<and> \<not> if_tso s)"

lemma valid_iface_chars:
  assumes "ecat_iface_validate (Some i) ECAT_IFACE_LINUX_STRICT"
  shows "CHR 0x0A \<notin> set i" "CHR ''='' \<notin> set i" "length i < 16" "i \<noteq> []"
  using assms
  by (auto simp: ecat_iface_validate_def ECAT_LINUX_IFNAME_MAX_def list_all_iff ctype_defs split: if_splits)

lemma split_eq_key:
  "CHR ''='' \<notin> set key \<Longrightarrow> split_eq (key @ CHR ''='' # v) = Some (key, v)"
  by (induction key) (auto simp: split_eq_def split: list.splits)

lemma on_off_simps [simp]: "on_off b = ''on'' \<longleftrightarrow> b" "CHR 0x0A \<notin> set (on_off b)" "length (on_off b) = (if b then 2 else 3)"
  by (simp_all add: on_off_def)

definition state_lines :: "ecat_iface_state \<Rightarrow> (string \<times> string) list" where
  "state_lines s =
     [(''iface'', if_iface s)] @
     (if coalescing_saved s
      then [(''rx_usecs'', fmt_dec (rx_usecs s)), (''tx_usecs'', fmt_dec (tx_usecs s))] else []) @
     (if offloads_saved s
      then [(''gro'', on_off (if_gro s)), (''gso'', on_off (if_gso s)), (''tso'', on_off (if_tso s))] else [])"

lemma state_text_lines:
  "state_text s = concat (map (\<lambda>(k, v). k @ CHR ''='' # v @ newline) (state_lines s))"
  by (simp add: state_text_def state_lines_def)

lemma fgets_concat:
  assumes "\<And>k v. (k, v) \<in> set kvs \<Longrightarrow> CHR 0x0A \<notin> set k \<and> CHR 0x0A \<notin> set v \<and> length k + length v < n - 1"
  shows "fgets_lines n n (concat (map (\<lambda>(k, v). k @ CHR ''='' # v @ newline) kvs)) =
     map (\<lambda>(k, v). k @ CHR ''='' # v) kvs"
  using assms
proof (induction kvs)
  case (Cons kv kvs)
  obtain k v where kv: "kv = (k, v)" by force
  from Cons.prems [of k v] kv have "CHR 0x0A \<notin> set (k @ CHR ''='' # v)" "length (k @ CHR ''='' # v) < n"
    by auto
  note line = fgets_line [OF this, of n]
  have "fgets_lines n n (concat (map (\<lambda>(k, v). k @ CHR ''='' # v @ newline) kvs)) =
     map (\<lambda>(k, v). k @ CHR ''='' # v) kvs"
    by (rule Cons.IH) (use Cons.prems in auto)
  with line kv show ?case by simp
qed simp

lemma state_lines_short:
  assumes "captured_wf s" and "(k, v) \<in> set (state_lines s)"
  shows "CHR 0x0A \<notin> set k \<and> CHR 0x0A \<notin> set v \<and> length k + length v < 127 - 1"
proof -
  note i = valid_iface_chars [of "if_iface s"]
  have "length (fmt_dec (rx_usecs s)) \<le> 11" "length (fmt_dec (tx_usecs s)) \<le> 11"
    using assms(1) by (auto simp: captured_wf_def intro: fmt_dec_length)
  then show ?thesis
    using assms i by (auto simp: state_lines_def captured_wf_def fmt_dec_no_newline split: if_splits)
qed

lemma load_line_simps:
  "load_line (''iface'' @ CHR ''='' # v) s = s"
  "load_line (''rx_usecs'' @ CHR ''='' # v) s = s\<lparr>rx_usecs := atoi v, coalescing_saved := True\<rparr>"
  "load_line (''tx_usecs'' @ CHR ''='' # v) s = s\<lparr>tx_usecs := atoi v, coalescing_saved := True\<rparr>"
  "load_line (''gro'' @ CHR ''='' # v) s = s\<lparr>if_gro := (v = ''on''), offloads_saved := True\<rparr>"
  "load_line (''gso'' @ CHR ''='' # v) s = s\<lparr>if_gso := (v = ''on''), offloads_saved := True\<rparr>"
  "load_line (''tso'' @ CHR ''='' # v) s = s\<lparr>if_tso := (v = ''on''), offloads_saved := True\<rparr>"
  by (simp_all add: load_line_def split_eq_def)

lemma load_state_text:
  assumes "captured_wf s"
  shows "load_text (if_iface s) (state_text s) = s"
proof -
  have lines: "fgets_lines 127 127 (state_text s) = map (\<lambda>(k, v). k @ CHR ''='' # v) (state_lines s)"
    unfolding state_text_lines by (rule fgets_concat) (rule state_lines_short [OF assms])
  have num: "atoi (fmt_dec (rx_usecs s)) = rx_usecs s" "atoi (fmt_dec (tx_usecs s)) = tx_usecs s"
    using assms by (auto simp: captured_wf_def int_range_def intro!: atoi_fmt_dec)
  have iface: "c_copy ECAT_IFNAME_MAX (if_iface s) = if_iface s"
    using valid_iface_chars(3) [of "if_iface s"] assms
    by (intro c_copy_short) (simp add: captured_wf_def ECAT_IFNAME_MAX_def)
  show ?thesis
    using assms num iface unfolding load_text_def lines
    by (cases s) (simp add: state_lines_def load_line_simps [simplified] zero_iface_state_def captured_wf_def)
qed

section \<open>Crash recovery\<close>

lemma or_keep_range: "(\<And>x. v = Some x \<Longrightarrow> int_range x) \<Longrightarrow> int_range d \<Longrightarrow> int_range (or_keep v d)"
  by (auto simp: or_keep_def split: option.splits)

lemma atoi_range: "int_range (atoi s)"
proof -
  have "- (2 ^ 31) \<le> sint w \<and> sint w < 2 ^ 31" for w :: u32
    using sint_ge [of w] sint_lt [of w] by simp
  then show ?thesis by (auto simp: atoi_def int_range_def split: option.splits)
qed

lemma parse_ethtool_int_range: "parse_ethtool_int t k = Some x \<Longrightarrow> int_range x"
  by (auto simp: parse_ethtool_int_def atoi_range split: option.splits list.splits if_splits)

lemma capture_coalescing_wf: "captured_wf s \<Longrightarrow> captured_wf (capture_coalescing t s)"
  by (auto simp: capture_coalescing_def Let_def captured_wf_def or_keep_def parse_ethtool_int_range
      split: option.splits)

lemma capture_offloads_wf: "captured_wf s \<Longrightarrow> captured_wf (capture_offloads t s)"
  by (auto simp: capture_offloads_def Let_def captured_wf_def)

lemma capture_iface [simp]:
  "if_iface (capture_coalescing t s) = if_iface s" "if_iface (capture_offloads t s) = if_iface s"
  by (simp_all add: capture_coalescing_def capture_offloads_def Let_def)

lemma capture_nic_wf:
  assumes "capture_nic_settings run s h = (s', h')"
  shows "captured_wf s \<Longrightarrow> captured_wf s'" and "if_iface s' = if_iface s"
  using assms
  by (auto simp: capture_nic_settings_def Let_def capture_coalescing_wf capture_offloads_wf
      split: prod.splits option.splits)

lemma fresh_state_wf:
  assumes "ecat_iface_validate (Some iface) ECAT_IFACE_LINUX_STRICT"
  shows "captured_wf (zero_iface_state\<lparr>if_iface := c_copy ECAT_IFNAME_MAX iface\<rparr>)"
    and "c_copy ECAT_IFNAME_MAX iface = iface"
proof -
  show copy: "c_copy ECAT_IFNAME_MAX iface = iface"
    using valid_iface_chars(3) [OF assms] by (intro c_copy_short) (simp add: ECAT_IFNAME_MAX_def)
  show "captured_wf (zero_iface_state\<lparr>if_iface := c_copy ECAT_IFNAME_MAX iface\<rparr>)"
    using assms by (simp add: copy captured_wf_def zero_iface_state_def int_range_def)
qed

lemma apply_state:
  assumes "ecat_iface_validate (Some iface) ECAT_IFACE_LINUX_STRICT"
    and "ecat_iface_state_apply run w dir iface st h = (s, h')"
  shows "captured_wf s" and "if_iface s = iface"
    and "w \<Longrightarrow> files h' (state_path dir iface) = Some (state_text s)"
proof -
  let ?s = "zero_iface_state\<lparr>if_iface := c_copy ECAT_IFNAME_MAX iface\<rparr>"
  obtain h2 where cap: "capture_nic_settings run ?s (recover_from_crash run dir iface h) = (s, h2)"
    and h': "h' = persist_state w dir s (apply_low_latency_nic run iface h2)"
    using assms valid_iface_chars(4) [OF assms(1)]
    by (auto simp: ecat_iface_state_apply_def Let_def split: prod.splits)
  show "captured_wf s" "if_iface s = iface"
    using capture_nic_wf [OF cap] fresh_state_wf [OF assms(1)] by simp_all
  then show "w \<Longrightarrow> files h' (state_path dir iface) = Some (state_text s)"
    by (simp add: h' persist_state_def)
qed

text \<open>
  What is expected of a start and of its undoing, as the commands run one after the other. A command that
  puts a setting back is built from what \<^verbatim>\<open>ethtool\<close> printed about it before, receive to receive and transmit
  to transmit; what \<^verbatim>\<open>ethtool\<close> did not report is not put back, or is put back as 0 or off beside one it did.
\<close>

definition run_all :: "'w run_argv \<Rightarrow> string list list \<Rightarrow> 'w \<Rightarrow> 'w" where
  "run_all run argvs w = fold (\<lambda>argv w. snd (run argv w)) argvs w"

definition undo_coalescing :: "string \<Rightarrow> string option \<Rightarrow> string list list" where
  "undo_coalescing iface out =
     (case out of
        None \<Rightarrow> []
      | Some t \<Rightarrow>
          (case (parse_ethtool_int (c_copy 2048 t) ''rx-usecs'', parse_ethtool_int (c_copy 2048 t) ''tx-usecs'') of
             (None, None) \<Rightarrow> []
           | (rx, tx) \<Rightarrow> [[''ethtool'', ''-C'', iface, ''rx-usecs'', fmt_dec (or_keep rx 0),
                          ''tx-usecs'', fmt_dec (or_keep tx 0)]]))"

definition undo_offloads :: "string \<Rightarrow> string option \<Rightarrow> string list list" where
  "undo_offloads iface out =
     (case out of
        None \<Rightarrow> []
      | Some t \<Rightarrow>
          let reported = (\<lambda>key. parse_ethtool_bool (c_copy 2048 t) key)
          in if reported ''generic-receive-offload'' = None \<and> reported ''generic-segmentation-offload'' = None \<and>
                reported ''tcp-segmentation-offload'' = None then []
             else [[''ethtool'', ''-K'', iface,
                    ''gro'', on_off (reported ''generic-receive-offload'' = Some True),
                    ''gso'', on_off (reported ''generic-segmentation-offload'' = Some True),
                    ''tso'', on_off (reported ''tcp-segmentation-offload'' = Some True)]])"

definition queries :: "string \<Rightarrow> string list list" where
  "queries iface = [[''ethtool'', ''-c'', iface], [''ethtool'', ''-k'', iface]]"

definition tuning :: "string \<Rightarrow> string list list" where
  "tuning iface =
     [[''ethtool'', ''-C'', iface, ''rx-usecs'', ''0'', ''tx-usecs'', ''0''],
      [''ethtool'', ''-K'', iface, ''gro'', ''off'', ''gso'', ''off'', ''tso'', ''off'']]"

text \<open>The commands that undo a start which found the host in state \<open>w\<close>.\<close>

definition undo_start :: "'w run_argv \<Rightarrow> string \<Rightarrow> 'w \<Rightarrow> string list list" where
  "undo_start run iface w =
     (case run [''ethtool'', ''-c'', iface] w of
        (out, w2) \<Rightarrow> undo_coalescing iface out @ undo_offloads iface (fst (run [''ethtool'', ''-k'', iface] w2)))"

definition undo_state :: "ecat_iface_state \<Rightarrow> string list list" where
  "undo_state s =
     (if coalescing_saved s
      then [[''ethtool'', ''-C'', if_iface s, ''rx-usecs'', fmt_dec (rx_usecs s), ''tx-usecs'', fmt_dec (tx_usecs s)]]
      else []) @
     (if offloads_saved s
      then [[''ethtool'', ''-K'', if_iface s, ''gro'', on_off (if_gro s), ''gso'', on_off (if_gso s), ''tso'', on_off (if_tso s)]]
      else [])"

lemma restore_commands:
  assumes "captured_wf s"
  shows "nic (restore_nic_settings run s h) = run_all run (undo_state s) (nic h)"
    and "files (restore_nic_settings run s h) = files h"
proof -
  have "c_copy 16 (fmt_dec (rx_usecs s)) = fmt_dec (rx_usecs s)" "c_copy 16 (fmt_dec (tx_usecs s)) = fmt_dec (tx_usecs s)"
    using assms fmt_dec_length [of "rx_usecs s"] fmt_dec_length [of "tx_usecs s"]
    by (auto simp: captured_wf_def intro!: c_copy_short)
  then show "nic (restore_nic_settings run s h) = run_all run (undo_state s) (nic h)"
    and "files (restore_nic_settings run s h) = files h"
    by (auto simp: restore_nic_settings_def undo_state_def run_all_def run_host_def Let_def split: prod.splits)
qed

lemma capture_commands:
  assumes "capture_nic_settings run (zero_iface_state\<lparr>if_iface := iface\<rparr>) h = (s, h2)"
  shows "nic h2 = run_all run (queries iface) (nic h)" and "files h2 = files h"
    and "undo_state s = undo_start run iface (nic h)"
proof -
  obtain o1 w1 where r1: "run [''ethtool'', ''-c'', iface] (nic h) = (o1, w1)" by force
  obtain o2 w2 where r2: "run [''ethtool'', ''-k'', iface] w1 = (o2, w2)" by force
  define s1 where s1: "s1 = (case o1 of
      Some t \<Rightarrow> capture_coalescing (c_copy 2048 t) (zero_iface_state\<lparr>if_iface := iface\<rparr>)
    | None \<Rightarrow> zero_iface_state\<lparr>if_iface := iface\<rparr>)"
  have i1: "if_iface s1 = iface" by (cases o1) (simp_all add: s1)
  have s: "s = (case o2 of Some t \<Rightarrow> capture_offloads (c_copy 2048 t) s1 | None \<Rightarrow> s1)" "h2 = h\<lparr>nic := w2\<rparr>"
    using assms r1 r2 by (auto simp: capture_nic_settings_def run_host_def Let_def s1 split: option.splits prod.splits)
  show "nic h2 = run_all run (queries iface) (nic h)" "files h2 = files h"
    using r1 r2 by (simp_all add: s(2) run_all_def queries_def)
  have u1: "undo_state s1 = undo_coalescing iface o1" "\<not> offloads_saved s1" "\<not> if_gro s1" "\<not> if_gso s1" "\<not> if_tso s1"
    by (auto simp: s1 undo_state_def undo_coalescing_def capture_coalescing_def zero_iface_state_def or_keep_def Let_def
        split: option.splits)
  have "undo_state s = undo_state s1 @ undo_offloads iface o2"
    using u1(2-5) i1
    by (auto simp: s(1) undo_state_def undo_offloads_def capture_offloads_def or_keep_def Let_def split: option.splits)
  then show "undo_state s = undo_start run iface (nic h)" using u1(1) r1 r2 by (simp add: undo_start_def)
qed

lemma tune_commands: "nic (apply_low_latency_nic run iface h) = run_all run (tuning iface) (nic h)"
  "files (apply_low_latency_nic run iface h) = files h"
  by (auto simp: apply_low_latency_nic_def run_all_def tuning_def run_host_def Let_def split: prod.splits)

lemma run_all_append: "run_all run (a @ b) w = run_all run b (run_all run a w)"
  by (simp add: run_all_def)

lemma apply_commands:
  assumes "ecat_iface_validate (Some iface) ECAT_IFACE_LINUX_STRICT"
    and "ecat_iface_state_apply run w dir iface st h = (s, h')" and "h1 = recover_from_crash run dir iface h"
  shows "undo_state s = undo_start run iface (nic h1)"
    and "nic h' = run_all run (queries iface @ tuning iface) (nic h1)"
    and "files h' (state_path dir iface) = (if w then Some (state_text s) else files h1 (state_path dir iface))"
proof -
  have fresh: "c_copy ECAT_IFNAME_MAX iface = iface" by (rule fresh_state_wf(2) [OF assms(1)])
  obtain h2 where cap: "capture_nic_settings run (zero_iface_state\<lparr>if_iface := iface\<rparr>) h1 = (s, h2)"
    and h': "h' = persist_state w dir s (apply_low_latency_nic run iface h2)"
    using assms valid_iface_chars(4) [OF assms(1)]
    by (auto simp: ecat_iface_state_apply_def fresh Let_def split: prod.splits)
  note c = capture_commands [OF cap]
  have "if_iface s = iface" using capture_nic_wf(2) [OF cap] by simp
  then show "undo_state s = undo_start run iface (nic h1)"
    and "nic h' = run_all run (queries iface @ tuning iface) (nic h1)"
    and "files h' (state_path dir iface) = (if w then Some (state_text s) else files h1 (state_path dir iface))"
    using c tune_commands [of run iface h2] by (simp_all add: h' persist_state_def run_all_append)
qed

section \<open>Properties\<close>

text \<open>
  The state file round trip. Whatever \<^verbatim>\<open>ethtool\<close> reported, the settings captured for an
  interface and written to its state file are read back exactly.
\<close>

theorem iface_state_roundtrip:
  assumes "ecat_iface_validate (Some iface) ECAT_IFACE_LINUX_STRICT"
    and "ecat_iface_state_apply run True dir iface st h = (s, h')"
  shows "load_state dir iface h' = Some s"
  using apply_state [OF assms] load_state_text [of s] by (simp add: load_state_def)

text \<open>
  C38: crash recovery. A start that found the host in state \<open>w0\<close> tuned an interface and wrote its state file; then
  the process died, and its host is \<open>crashed\<close>, with that file. The next start runs exactly these
  commands, in this order: those that put back what \<^verbatim>\<open>ethtool\<close> had printed in \<open>w0\<close>, receive to receive and
  transmit to transmit, then the two queries, then the tuning. The settings it saves, for its own undoing, are those printed
  after the first were put back; and the stale file is gone, replaced by the new one where that can be written.
\<close>

theorem crash_recovery_restores:
  assumes "ecat_iface_validate (Some iface) ECAT_IFACE_LINUX_STRICT"
    and "w0 = nic (recover_from_crash run dir iface h)"
    and "ecat_iface_state_apply run True dir iface st h = (s, h')"
    and "files crashed (state_path dir iface) = files h' (state_path dir iface)"
    and "ecat_iface_state_apply run writable dir iface st2 crashed = (s2, h2)"
  shows "nic h2 = run_all run
      (undo_start run iface w0 @
       [[''ethtool'', ''-c'', iface], [''ethtool'', ''-k'', iface],
        [''ethtool'', ''-C'', iface, ''rx-usecs'', ''0'', ''tx-usecs'', ''0''],
        [''ethtool'', ''-K'', iface, ''gro'', ''off'', ''gso'', ''off'', ''tso'', ''off'']]) (nic crashed) \<and>
    nic (snd (ecat_iface_state_revert run dir s2 h2)) =
      run_all run (undo_start run iface (run_all run (undo_start run iface w0) (nic crashed))) (nic h2) \<and>
    files h2 (state_path dir iface) = (if writable then Some (state_text s2) else None)"
proof -
  note a = apply_state [OF assms(1,3)]
  note b = apply_state [OF assms(1,5)]
  define r where r: "r = recover_from_crash run dir iface crashed"
  have "load_state dir iface crashed = Some s"
    using assms(4) a load_state_text [OF a(1)] by (simp add: load_state_def)
  then have "r = remove_state_file dir iface (restore_nic_settings run s crashed)" by (simp add: r recover_from_crash_def)
  then have rw: "nic r = run_all run (undo_start run iface w0) (nic crashed)" "files r (state_path dir iface) = None"
    using restore_commands(1) [OF a(1), of run crashed] apply_commands(1) [OF assms(1,3) refl] assms(2)
    by (simp_all add: remove_state_file_def)
  note c = apply_commands [OF assms(1,5) r]
  have "nic (snd (ecat_iface_state_revert run dir s2 h2)) = run_all run (undo_state s2) (nic h2)"
    using restore_commands(1) [OF b(1), of run h2] b(2) valid_iface_chars(4) [OF assms(1)]
    by (simp add: ecat_iface_state_revert_def remove_state_file_def)
  then show ?thesis using c rw by (simp add: run_all_append queries_def tuning_def)
qed

text \<open>
  An example host: a NIC with its two coalescing times, that \<^verbatim>\<open>ethtool\<close> reports and sets in this way; its
  offloads are not reported.
\<close>

definition tunable_run :: "(int \<times> int) run_argv" where
  "tunable_run argv t =
     (if argv ! 1 = ''-c'' then
        (Some (''rx-usecs: '' @ fmt_dec (fst t) @ newline @ ''tx-usecs: '' @ fmt_dec (snd t) @ newline), t)
      else if argv ! 1 = ''-C'' then (Some [], (atoi (argv ! 4), atoi (argv ! 6)))
      else (None, t))"

definition tunable_host :: "(int \<times> int) host" where
  "tunable_host = \<lparr>files = Map.empty, nic = (3, 50)\<rparr>"

text \<open>Another, that reports two settings and counts the commands run on it.\<close>

definition example_run :: "nat run_argv" where
  "example_run argv n =
     (if argv ! 1 = ''-c'' then Some (''rx-usecs: 3'' @ newline @ ''tx-usecs: 50'' @ newline)
      else if argv ! 1 = ''-k'' then Some (''tcp-segmentation-offload: on'' @ newline) else None, n + 1)"

theorem iface_state_roundtrip_witness:
  "load_state ''/run'' ''eth0''
     (snd (ecat_iface_state_apply tunable_run True ''/run'' ''eth0'' zero_iface_state tunable_host)) =
   Some (fst (ecat_iface_state_apply tunable_run True ''/run'' ''eth0'' zero_iface_state tunable_host))"
  by (rule iface_state_roundtrip)
    (simp_all add: ecat_iface_validate_def ECAT_LINUX_IFNAME_MAX_def ctype_defs)

text \<open>
  The host after a crash and a second start: tuned again, and a clean stop from there finds the times
  of the beginning, 3 and 50.
\<close>

theorem crash_recovery_restores_witness:
  "let (s, h') = ecat_iface_state_apply tunable_run True ''/run'' ''eth0'' zero_iface_state tunable_host;
       (s2, h2) = ecat_iface_state_apply tunable_run True ''/run'' ''eth0'' zero_iface_state h'
   in nic h' = (0, 0) \<and> nic h2 = (0, 0) \<and>
      nic (snd (ecat_iface_state_revert tunable_run ''/run'' s2 h2)) = (3, 50)"
proof -
  have valid: "ecat_iface_validate (Some ''eth0'') ECAT_IFACE_LINUX_STRICT"
    by (simp add: ecat_iface_validate_def ECAT_LINUX_IFNAME_MAX_def ctype_defs)
  obtain s h' where a: "ecat_iface_state_apply tunable_run True ''/run'' ''eth0'' zero_iface_state tunable_host = (s, h')"
    by force
  obtain s2 h2 where b: "ecat_iface_state_apply tunable_run True ''/run'' ''eth0'' zero_iface_state h' = (s2, h2)" by force
  have w0: "nic (recover_from_crash tunable_run ''/run'' ''eth0'' tunable_host) = (3, 50)"
    by (simp add: recover_from_crash_def load_state_def tunable_host_def)
  have undo: "undo_start tunable_run ''eth0'' (3, 50) = [[''ethtool'', ''-C'', ''eth0'', ''rx-usecs'', ''3'', ''tx-usecs'', ''50'']]"
    by code_simp
  have put: "tunable_run [''ethtool'', ''-C'', ''eth0'', ''rx-usecs'', ''3'', ''tx-usecs'', ''50''] t = (Some [], (3, 50))"
      "tunable_run [''ethtool'', ''-C'', ''eth0'', ''rx-usecs'', ''0'', ''tx-usecs'', ''0''] t = (Some [], (0, 0))" for t
  proof -
    have "atoi ''3'' = 3" "atoi ''50'' = 50" "atoi ''0'' = 0" by code_simp+
    then show "tunable_run [''ethtool'', ''-C'', ''eth0'', ''rx-usecs'', ''3'', ''tx-usecs'', ''50''] t = (Some [], (3, 50))"
      "tunable_run [''ethtool'', ''-C'', ''eth0'', ''rx-usecs'', ''0'', ''tx-usecs'', ''0''] t = (Some [], (0, 0))"
      by (simp_all add: tunable_run_def)
  qed
  have idle: "snd (tunable_run [''ethtool'', ''-c'', ''eth0''] t) = t" "snd (tunable_run [''ethtool'', ''-k'', ''eth0''] t) = t"
      "snd (tunable_run [''ethtool'', ''-K'', ''eth0'', ''gro'', ''off'', ''gso'', ''off'', ''tso'', ''off''] t) = t" for t
    by (simp_all add: tunable_run_def)
  have "nic h' = (0, 0)" using apply_commands(2) [OF valid a refl] w0
    by (simp add: run_all_def queries_def tuning_def put idle)
  moreover have "nic h2 = (0, 0) \<and> nic (snd (ecat_iface_state_revert tunable_run ''/run'' s2 h2)) = (3, 50)"
    using crash_recovery_restores [OF valid w0 [symmetric] a refl b] by (simp add: run_all_def undo put idle)
  ultimately show ?thesis using a b by simp
qed

end
