(* ===== verification/Master.thy ===== *)
theory Master
  imports Iface_State Data
begin

text \<open>
  The master operations of \<^verbatim>\<open>src/master.c\<close> over SOEM: opening and scanning the bus, the startup
  SDOs, watchdogs, distributed clocks, process-data mapping, the transition to OPERATIONAL,
  closing, the recovery of one slave, the AL status poll and the checks of modules and fixed PDOs.
  A function that returns 0 or -1 returns a boolean here. Products of configured milliseconds with
  1000 are taken as mathematical integers. The value of the out-of-range conversion of a double to
  \<^verbatim>\<open>int64_t\<close>, which C leaves undefined, is the parameter \<open>ub\<close>.
\<close>

section \<open>Topology\<close>

definition slave_matches :: "'d ecx_context \<Rightarrow> ecat_slave \<Rightarrow> bool" where
  "slave_matches ctx expected =
     (let pos = position expected
      in if pos < 1 \<or> pos > int (slavecount ctx) then False
         else let found = slavelist ctx (nat pos)
              in if check_vendor_id (startup_checks expected) \<and> es_eep_man found \<noteq> vendor_id expected then False
                 else if check_product_code (startup_checks expected) \<and> es_eep_id found \<noteq> product_code expected
                 then False else True)"

definition ecat_master_validate_topology :: "'d ecat_master_instance \<Rightarrow> bool" where
  "ecat_master_validate_topology inst =
     (if slavecount (i_ctx inst) \<noteq> length (c_slaves (i_config inst)) then False
      else list_all (slave_matches (i_ctx inst)) (c_slaves (i_config inst)))"

section \<open>Open and scan\<close>

text \<open>The surroundings of a master: SOEM, allocation, the host commands and the state directory.\<close>

record ('d, 'w) env =
  e_soem :: "'d soem"
  e_mem :: "nat \<Rightarrow> bool"
  e_run :: "'w run_argv"
  e_writable :: bool
  e_dir :: string

definition longest_us :: "(ecat_slave \<Rightarrow> int) \<Rightarrow> ecat_slave list \<Rightarrow> int" where
  "longest_us ms slaves = fold (\<lambda>s m. let t_us = ms s * 1000 in if t_us > m then t_us else m) slaves 0"

definition all_preop :: "'d ecx_context \<Rightarrow> bool" where
  "all_preop ctx = list_all (\<lambda>i. \<not> es_state (slavelist ctx i) < EC_STATE_PRE_OP) [1..<slavecount ctx + 1]"

definition soem_closed :: "'d soem \<Rightarrow> 'd ecat_master_instance \<Rightarrow> 'd ecat_master_instance" where
  "soem_closed S inst = inst\<lparr>i_ctx := ecx_close S (i_ctx inst), i_soem_initialized := False\<rparr>"

definition wait_preop :: "'d soem \<Rightarrow> 'd ecat_master_instance \<Rightarrow> bool \<times> 'd ecat_master_instance" where
  "wait_preop S inst =
     (let t = longest_us (\<lambda>s. init_to_preop_timeout_ms (timeouts s)) (c_slaves (i_config inst));
          t = (if t = 0 then EC_TIMEOUTSTATE S * 4 else t);
          inst = inst\<lparr>i_ctx := ecx_readstate S (ecx_statecheck S 0 EC_STATE_PRE_OP t (i_ctx inst))\<rparr>
      in if \<not> all_preop (i_ctx inst) then (False, soem_closed S inst) else (True, inst))"

definition scan_bus :: "'d soem \<Rightarrow> (nat \<Rightarrow> bool) \<Rightarrow> 'd ecat_master_instance \<Rightarrow> bool \<times> 'd ecat_master_instance" where
  "scan_bus S mem inst =
     (case ecx_config_init S (i_ctx inst) of
        (found, ctx) \<Rightarrow>
          let inst = inst\<lparr>i_ctx := ctx\<rparr>
          in if found \<le> 0 then (False, soem_closed S inst)
             else case ecat_master_instance_alloc_iomap mem inst of
                    (False, inst) \<Rightarrow> (False, soem_closed S inst)
                  | (True, inst) \<Rightarrow>
                      (case ecat_master_instance_alloc_snapshot mem inst of
                         (False, inst) \<Rightarrow> (False, soem_closed S inst)
                       | (True, inst) \<Rightarrow>
                           if \<not> ecat_master_validate_topology inst then (False, soem_closed S inst)
                           else wait_preop S inst))"

definition ecat_master_open_and_scan ::
  "('d, 'w) env \<Rightarrow> 'w host \<Rightarrow> 'd ecat_master_instance \<Rightarrow> bool \<times> 'w host \<times> 'd ecat_master_instance" where
  "ecat_master_open_and_scan E h inst =
     (let S = e_soem E;
          inst = release_buffers (inst\<lparr>i_ctx := ecx_zero_context S\<rparr>);
          ifname = interface (c_master (i_config inst))
      in case ecat_iface_state_apply (e_run E) (e_writable E) (e_dir E) ifname (i_iface_state inst) h of
           (st, h) \<Rightarrow>
             let inst = inst\<lparr>i_iface_state := st\<rparr>
             in case ecx_init S ifname (i_ctx inst) of
                  (False, ctx) \<Rightarrow> (False, h, inst\<lparr>i_ctx := ctx\<rparr>)
                | (True, ctx) \<Rightarrow>
                    (case scan_bus S (e_mem E) (inst\<lparr>i_ctx := ctx, i_soem_initialized := True\<rparr>) of
                       (ok, inst) \<Rightarrow> (ok, h, inst)))"

section \<open>Startup SDOs\<close>

definition le_bytes :: "nat \<Rightarrow> u64 \<Rightarrow> bytes" where
  "le_bytes n v = map (\<lambda>k. ucast (drop_bit (8 * k) v)) [0..<n]"

definition int64_cast :: "(cdouble \<Rightarrow> int) \<Rightarrow> cdouble \<Rightarrow> int" where
  "int64_cast ub v = (case double_to_int64 v of Some i \<Rightarrow> i | None \<Rightarrow> ub v)"

definition encode_sdo_value :: "(cdouble \<Rightarrow> int) \<Rightarrow> ecat_data_type \<Rightarrow> cdouble \<Rightarrow> bytes" where
  "encode_sdo_value ub dt v =
     (let sz = ecat_data_type_size dt
      in if sz = 0 then []
         else if dt = ECAT_DTYPE_REAL32 then le_bytes 4 (ucast (float_bits (double_to_float v)))
         else if dt = ECAT_DTYPE_REAL64 then le_bytes 8 (double_bits v)
         else le_bytes sz (of_int (int64_cast ub v)))"

definition scan_index :: "string \<Rightarrow> u16" where
  "scan_index s = (case strtol 16 s of Some (v, _) \<Rightarrow> of_int v | None \<Rightarrow> 0)"

definition sdo_wire :: "(cdouble \<Rightarrow> int) \<Rightarrow> ecat_sdo_config \<Rightarrow> bytes option" where
  "sdo_wire ub sdo =
     (let bs = (case sdo_value_bytes sdo of Some b \<Rightarrow> b | None \<Rightarrow> [])
      in if bs \<noteq> [] then (if int (length bs) > 2147483647 then None else Some bs)
         else let enc = encode_sdo_value ub (sdo_type sdo) (sdo_value sdo)
              in if enc = [] then None else Some enc)"

fun write_each ::
  "(cdouble \<Rightarrow> int) \<Rightarrow> 'd soem \<Rightarrow> nat \<Rightarrow> int \<Rightarrow> ecat_sdo_config list \<Rightarrow> nat \<Rightarrow> 'd ecx_context \<Rightarrow> nat \<times> 'd ecx_context" where
  "write_each ub S pos timeout_us [] written ctx = (written, ctx)"
| "write_each ub S pos timeout_us (sdo # sdos) written ctx =
     (case sdo_wire ub sdo of
        None \<Rightarrow> write_each ub S pos timeout_us sdos written ctx
      | Some wire \<Rightarrow>
          (case ecx_SDOwrite S pos (scan_index (sdo_index sdo)) (sdo_subindex sdo)
                  (sdo_complete_access sdo) wire timeout_us ctx of
             (wkc, ctx') \<Rightarrow>
               write_each ub S pos timeout_us sdos (if wkc \<le> 0 then written else written + 1) ctx'))"

definition ecat_master_write_sdos ::
  "(cdouble \<Rightarrow> int) \<Rightarrow> 'd soem \<Rightarrow> int \<Rightarrow> ecat_sdo_config list \<Rightarrow> int \<Rightarrow> 'd ecat_master_instance \<Rightarrow>
   bool \<times> 'd ecat_master_instance" where
  "ecat_master_write_sdos ub S slave_pos sdos sdo_timeout inst =
     (if \<not> i_soem_initialized inst then (False, inst)
      else if slave_pos < 1 \<or> slave_pos > int (slavecount (i_ctx inst)) then (False, inst)
      else if sdos = [] then (True, inst)
      else if es_mbx_proto (slavelist (i_ctx inst) (nat slave_pos)) AND 0x04 = 0 then (False, inst)
      else
        case write_each ub S (nat slave_pos)
               (if sdo_timeout > 0 then sdo_timeout * 1000 else EC_TIMEOUTRXM S) sdos 0 (i_ctx inst) of
          (written, ctx) \<Rightarrow> (\<not> written < length sdos, inst\<lparr>i_ctx := ctx\<rparr>))"

section \<open>Watchdogs and clocks\<close>

definition max_watchdog_ms :: int where "max_watchdog_ms = 65535 div 16"

definition watchdog_ticks :: "int \<Rightarrow> u16" where
  "watchdog_ticks ms =
     (if ms > 0 then of_int ((if ms > max_watchdog_ms then max_watchdog_ms else ms) * 16) else 0)"

definition ecat_master_configure_watchdog ::
  "'d soem \<Rightarrow> nat \<Rightarrow> ecat_watchdog \<Rightarrow> bool \<Rightarrow> 'd ecx_context \<Rightarrow> bool \<times> 'd ecx_context" where
  "ecat_master_configure_watchdog S slave_pos wd strict ctx =
     (let adr = es_configadr (slavelist ctx slave_pos);
          pdi = (\<lambda>ctx. if pdi_watchdog_enabled wd
                       then snd (ecx_FPWR S adr 0x0402 (watchdog_ticks (pdi_watchdog_ms wd)) (EC_TIMEOUTRET S) ctx)
                       else ctx)
      in if sm_watchdog_enabled wd then
           (case ecx_FPWR S adr 0x0420 (watchdog_ticks (sm_watchdog_ms wd)) (EC_TIMEOUTRET S) ctx of
              (wkc, ctx) \<Rightarrow> if wkc \<le> 0 \<and> strict then (False, ctx) else (True, pdi ctx))
         else (True, pdi ctx))"

definition us_to_ns :: "int \<Rightarrow> u32" where
  "us_to_ns us = of_int (us * 1000)"

definition configure_slave_dc :: "'d soem \<Rightarrow> ecat_config \<Rightarrow> ecat_slave \<Rightarrow> 'd ecx_context \<Rightarrow> 'd ecx_context" where
  "configure_slave_dc S config slave ctx =
     (let pos = position slave; d = dc slave
      in if \<not> dc_enabled d then ctx
         else if pos < 1 \<or> pos > int (slavecount ctx) then ctx
         else if \<not> es_hasdc (slavelist ctx (nat pos)) then ctx
         else
           let cycle_ns = (if sync_unit_cycle_us d > 0 then us_to_ns (sync_unit_cycle_us d)
                           else us_to_ns (cycle_time_us (c_master config)));
               own = (\<lambda>us. if us > 0 then us_to_ns us else cycle_ns);
               shift = sint (us_to_ns (sync0_shift_us d))
           in if sync0_enabled d \<and> sync1_enabled d
              then ecx_dcsync01 S (nat pos) (own (sync0_cycle_us d)) (own (sync1_cycle_us d)) shift ctx
              else if sync0_enabled d
              then ecx_dcsync0 S (nat pos) (own (sync0_cycle_us d)) shift ctx
              else ctx)"

definition ecat_master_configure_dc :: "'d soem \<Rightarrow> ecat_config \<Rightarrow> 'd ecx_context \<Rightarrow> 'd ecx_context" where
  "ecat_master_configure_dc S config ctx =
     fold (configure_slave_dc S config) (c_slaves config) (ecx_configdc S ctx)"

section \<open>Process data mapping\<close>

definition coe_mapping :: "'d soem \<Rightarrow> nat \<Rightarrow> 'd ecx_context \<Rightarrow> u32 \<times> u32 \<times> 'd ecx_context" where
  "coe_mapping S slave ctx =
     (let sl = slavelist ctx slave
      in if es_mbx_proto sl AND ECT_MBXPROT_COE \<noteq> 0 then
           (if es_CoEdetails sl AND ECT_COEDET_SDOCA \<noteq> 0 then
              (case ecx_readPDOmapCA S slave ctx of
                 (True, o1, i1, ctx) \<Rightarrow> (o1, i1, ctx)
               | (False, _, _, ctx) \<Rightarrow> ecx_readPDOmap S slave ctx)
            else ecx_readPDOmap S slave ctx)
         else (0, 0, ctx))"

definition slave_mapped_bits :: "'d soem \<Rightarrow> nat \<Rightarrow> 'd ecx_context \<Rightarrow> u32 \<times> u32 \<times> 'd ecx_context" where
  "slave_mapped_bits S slave ctx =
     (case coe_mapping S slave ctx of
        (osize, isize, ctx) \<Rightarrow>
          (case (if osize = 0 \<and> isize = 0 \<and> es_mbx_proto (slavelist ctx slave) AND ECT_MBXPROT_SOE \<noteq> 0
                 then ecx_readIDNmap S slave ctx else (osize, isize, ctx)) of
             (osize, isize, ctx) \<Rightarrow>
               (case (if osize = 0 \<and> isize = 0
                      then (case ecx_siiPDO S slave False ctx of
                              (i1, ctx) \<Rightarrow> (case ecx_siiPDO S slave True ctx of (o1, ctx) \<Rightarrow> (o1, i1, ctx)))
                      else (osize, isize, ctx)) of
                  (osize, isize, ctx) \<Rightarrow>
                    let sl = slavelist ctx slave
                    in (if osize > es_Obits sl then osize else es_Obits sl,
                        if isize > es_Ibits sl then isize else es_Ibits sl, ctx))))"

fun sum_mapped :: "'d soem \<Rightarrow> nat list \<Rightarrow> nat \<Rightarrow> 'd ecx_context \<Rightarrow> nat \<times> 'd ecx_context" where
  "sum_mapped S [] bytes ctx = (bytes, ctx)"
| "sum_mapped S (i # is) bytes ctx =
     (case slave_mapped_bits S i ctx of
        (obits, ibits, ctx) \<Rightarrow>
          sum_mapped S is (bytes + unat ((obits + 7) div 8) + unat ((ibits + 7) div 8) +
                           ECAT_IOMAP_SLACK_PER_SLAVE) ctx)"

definition size_iomap_from_slaves ::
  "'d soem \<Rightarrow> (nat \<Rightarrow> bool) \<Rightarrow> 'd ecat_master_instance \<Rightarrow> bool \<times> 'd ecat_master_instance" where
  "size_iomap_from_slaves S mem inst =
     (case sum_mapped S [1..<slavecount (i_ctx inst) + 1] 0 (i_ctx inst) of
        (bytes, ctx) \<Rightarrow>
          ecat_master_instance_grow_iomap mem (max bytes ECAT_IOMAP_MIN_BYTES) (inst\<lparr>i_ctx := ctx\<rparr>))"

fun configure_watchdogs :: "'d soem \<Rightarrow> ecat_slave list \<Rightarrow> 'd ecx_context \<Rightarrow> bool \<times> 'd ecx_context" where
  "configure_watchdogs S [] ctx = (True, ctx)"
| "configure_watchdogs S (slave # ss) ctx =
     (if position slave < 1 \<or> position slave > int (slavecount ctx) then configure_watchdogs S ss ctx
      else case ecat_master_configure_watchdog S (nat (position slave)) (watchdog slave) (strict_sdo slave) ctx of
             (False, ctx) \<Rightarrow> (False, ctx)
           | (True, ctx) \<Rightarrow> configure_watchdogs S ss ctx)"

definition ecat_master_configure ::
  "'d soem \<Rightarrow> (nat \<Rightarrow> bool) \<Rightarrow> 'd ecat_master_instance \<Rightarrow> bool \<times> 'd ecat_master_instance" where
  "ecat_master_configure S mem inst =
     (if \<not> i_soem_initialized inst then (False, inst)
      else case size_iomap_from_slaves S mem inst of
        (False, inst) \<Rightarrow> (False, inst)
      | (True, inst) \<Rightarrow>
          (case ecx_config_map_group S (i_ctx inst) of
             (io_size, ctx) \<Rightarrow>
               let inst = inst\<lparr>i_ctx := ctx\<rparr>
               in if io_size \<le> 0 then (False, inst)
                  else if nat io_size > i_iomap_capacity inst then (False, inst)
                  else
                    let inst = inst\<lparr>i_iomap_used_size := nat io_size\<rparr>
                    in case configure_watchdogs S (c_slaves (i_config inst)) (i_ctx inst) of
                         (False, ctx) \<Rightarrow> (False, inst\<lparr>i_ctx := ctx\<rparr>)
                       | (True, ctx) \<Rightarrow>
                           (True, inst\<lparr>i_ctx := ecat_master_configure_dc S (i_config inst) ctx\<rparr>)))"

section \<open>Exchange and transition to OPERATIONAL\<close>

definition exchange :: "'d soem \<Rightarrow> int \<Rightarrow> 'd ecat_master_instance \<Rightarrow> int \<times> 'd ecat_master_instance" where
  "exchange S timeout_us inst =
     (let m = buffer_of (i_iomap inst)
      in case ecx_receive_processdata S timeout_us m (ecx_send_processdata S m (i_ctx inst)) of
           (wkc, m', ctx) \<Rightarrow>
             (wkc, inst\<lparr>i_ctx := ctx, i_iomap := map_option (\<lambda>_. m') (i_iomap inst)\<rparr>))"

definition ecat_master_exchange_processdata ::
  "'d soem \<Rightarrow> int \<Rightarrow> 'd ecat_master_instance \<Rightarrow> int \<times> 'd ecat_master_instance" where
  "ecat_master_exchange_processdata S timeout_us inst =
     exchange S (if timeout_us > 0 then timeout_us else EC_TIMEOUTRET S) inst"

definition ECAT_OP_POLL_RETRIES :: int where "ECAT_OP_POLL_RETRIES = 10"

definition min_sm_watchdog_us :: "ecat_slave list \<Rightarrow> int" where
  "min_sm_watchdog_us slaves =
     (let m = fold (\<lambda>s m. let wd = watchdog s
                          in if sm_watchdog_enabled wd \<and> sm_watchdog_ms wd > 0
                             then let wd_us = sm_watchdog_ms wd * 1000
                                  in if m = 0 \<or> wd_us < m then wd_us else m
                             else m) slaves 0
      in if m = 0 then 100 * 1000 else m)"

definition poll_timeout :: "int \<Rightarrow> ecat_slave list \<Rightarrow> int" where
  "poll_timeout timeout_ret slaves =
     (let t = min_sm_watchdog_us slaves div 4 in if t < timeout_ret then timeout_ret else t)"

definition poll_retries :: "int \<Rightarrow> int \<Rightarrow> int" where
  "poll_retries budget poll =
     (let r = budget div poll in if r < ECAT_OP_POLL_RETRIES then ECAT_OP_POLL_RETRIES else r)"

fun poll_operational :: "'d soem \<Rightarrow> int \<Rightarrow> nat \<Rightarrow> 'd ecat_master_instance \<Rightarrow> bool \<times> 'd ecat_master_instance" where
  "poll_operational S poll 0 inst = (False, inst)"
| "poll_operational S poll (Suc n) inst =
     (let inst = snd (exchange S (EC_TIMEOUTRET S) inst);
          inst = inst\<lparr>i_ctx := ecx_statecheck S 0 EC_STATE_OPERATIONAL poll (i_ctx inst)\<rparr>
      in if es_state (slavelist (i_ctx inst) 0) = EC_STATE_OPERATIONAL then (True, inst)
         else poll_operational S poll n inst)"

definition ecat_master_transition_to_op ::
  "'d soem \<Rightarrow> 'd ecat_master_instance \<Rightarrow> bool \<times> 'd ecat_master_instance" where
  "ecat_master_transition_to_op S inst =
     (if \<not> i_soem_initialized inst then (False, inst)
      else
        let slaves = c_slaves (i_config inst);
            t = longest_us (\<lambda>s. safeop_to_op_timeout_ms (timeouts s)) slaves;
            t = (if t = 0 then EC_TIMEOUTSTATE S * 4 else t);
            inst = inst\<lparr>i_ctx := ecx_readstate S (ecx_statecheck S 0 EC_STATE_SAFE_OP t (i_ctx inst))\<rparr>
        in if es_state (slavelist (i_ctx inst) 0) \<noteq> EC_STATE_SAFE_OP then (False, inst)
           else
             let inst = snd (exchange S (EC_TIMEOUTRET S) inst);
                 ctx = set_slave 0 (es_state_update (\<lambda>_. EC_STATE_OPERATIONAL)) (i_ctx inst);
                 inst = inst\<lparr>i_ctx := snd (ecx_writestate S 0 ctx)\<rparr>;
                 poll = poll_timeout (EC_TIMEOUTRET S) slaves
             in case poll_operational S poll (nat (poll_retries t poll)) inst of
                  (True, inst) \<Rightarrow> (True, inst)
                | (False, inst) \<Rightarrow> (False, inst\<lparr>i_ctx := ecx_readstate S (i_ctx inst)\<rparr>))"

section \<open>Close\<close>

definition ECAT_ZERO_OUTPUT_ATTEMPTS :: nat where "ECAT_ZERO_OUTPUT_ATTEMPTS = 3"

fun send_until_reply :: "'d soem \<Rightarrow> nat \<Rightarrow> 'd ecat_master_instance \<Rightarrow> int \<times> 'd ecat_master_instance" where
  "send_until_reply S 0 inst = (0, inst)"
| "send_until_reply S (Suc n) inst =
     (case exchange S (EC_TIMEOUTRET S) inst of
        (wkc, inst) \<Rightarrow> if wkc \<le> 0 then send_until_reply S n inst else (wkc, inst))"

definition zero_iomap :: "'d ecat_master_instance \<Rightarrow> 'd ecat_master_instance" where
  "zero_iomap inst =
     inst\<lparr>i_iomap := map_option (\<lambda>m. mem_write m 0 (zero_bytes (i_iomap_used_size inst))) (i_iomap inst)\<rparr>"

definition request_init :: "'d soem \<Rightarrow> 'd ecx_context \<Rightarrow> 'd ecx_context" where
  "request_init S ctx =
     (case ecx_writestate S 0 (set_slave 0 (es_state_update (\<lambda>_. EC_STATE_INIT)) ctx) of
        (wkc, ctx) \<Rightarrow>
          if wkc \<le> 0 then ctx
          else ecx_readstate S (ecx_statecheck S 0 EC_STATE_INIT (EC_TIMEOUTSTATE S) ctx))"

definition close_soem :: "'d soem \<Rightarrow> 'd ecat_master_instance \<Rightarrow> 'd ecat_master_instance" where
  "close_soem S inst =
     (let inst = (if i_iomap_used_size inst > 0
                  then snd (send_until_reply S ECAT_ZERO_OUTPUT_ATTEMPTS (zero_iomap inst)) else inst)
      in soem_closed S (inst\<lparr>i_ctx := request_init S (i_ctx inst)\<rparr>))"

definition ecat_master_close ::
  "('d, 'w) env \<Rightarrow> 'w host \<Rightarrow> 'd ecat_master_instance \<Rightarrow> 'w host \<times> 'd ecat_master_instance" where
  "ecat_master_close E h inst =
     (let inst = (if i_soem_initialized inst then close_soem (e_soem E) inst else inst)
      in case ecat_iface_state_revert (e_run E) (e_dir E) (i_iface_state inst) h of
           (st, h) \<Rightarrow> (h, release_buffers (inst\<lparr>i_iface_state := st\<rparr>)))"

section \<open>Slave recovery\<close>

definition writestate_with_check ::
  "'d soem \<Rightarrow> nat \<Rightarrow> u16 \<Rightarrow> 'd ecat_master_instance \<Rightarrow> int \<times> 'd ecat_master_instance" where
  "writestate_with_check S pos target inst =
     (case ecx_writestate S pos (set_slave pos (es_state_update (\<lambda>_. target)) (i_ctx inst)) of
        (wkc, ctx) \<Rightarrow>
          (wkc, inst\<lparr>i_ctx := ctx,
                     i_recovery_writestate_failures := i_recovery_writestate_failures inst +
                       (if wkc \<le> 0 then 1 else 0)\<rparr>))"

text \<open>1: the slave is operational, 0: not yet, -1: no such slave.\<close>

definition check_op :: "'d soem \<Rightarrow> nat \<Rightarrow> 'd ecat_master_instance \<Rightarrow> int \<times> 'd ecat_master_instance" where
  "check_op S pos inst =
     (let inst = inst\<lparr>i_ctx := ecx_statecheck S pos EC_STATE_OPERATIONAL (EC_TIMEOUTRET S) (i_ctx inst)\<rparr>
      in (if es_state (slavelist (i_ctx inst) pos) = EC_STATE_OPERATIONAL then 1 else 0, inst))"

definition set_lost :: "nat \<Rightarrow> bool \<Rightarrow> 'd ecat_master_instance \<Rightarrow> 'd ecat_master_instance" where
  "set_lost pos b inst = inst\<lparr>i_ctx := set_slave pos (es_islost_update (\<lambda>_. b)) (i_ctx inst)\<rparr>"

definition ecat_master_recover_slave ::
  "'d soem \<Rightarrow> int \<Rightarrow> 'd ecat_master_instance \<Rightarrow> int \<times> 'd ecat_master_instance" where
  "ecat_master_recover_slave S pos inst =
     (if pos < 1 \<or> pos > int (slavecount (i_ctx inst)) then (- 1, inst)
      else
        let p = nat pos; current = es_state (slavelist (i_ctx inst) p)
        in if current = EC_STATE_OPERATIONAL then (1, inst)
           else if current = EC_STATE_SAFE_OP + EC_STATE_ERROR then
             check_op S p
               (snd (writestate_with_check S p EC_STATE_OPERATIONAL
                 (snd (writestate_with_check S p (EC_STATE_SAFE_OP + EC_STATE_ACK) inst))))
           else if current = EC_STATE_SAFE_OP then
             check_op S p (snd (writestate_with_check S p EC_STATE_OPERATIONAL inst))
           else if current > EC_STATE_NONE then
             (case ecx_reconfig_slave S p (EC_TIMEOUTRET S) (i_ctx inst) of
                (True, ctx) \<Rightarrow> check_op S p (set_lost p False (inst\<lparr>i_ctx := ctx\<rparr>))
              | (False, ctx) \<Rightarrow> (0, inst\<lparr>i_ctx := ctx\<rparr>))
           else if \<not> es_islost (slavelist (i_ctx inst) p) then
             (let inst = snd (check_op S p inst)
              in (0, if es_state (slavelist (i_ctx inst) p) = EC_STATE_NONE
                     then set_lost p True inst else inst))
           else
             (case ecx_recover_slave S p (EC_TIMEOUTRET S) (i_ctx inst) of
                (True, ctx) \<Rightarrow> (1, set_lost p False (inst\<lparr>i_ctx := ctx\<rparr>))
              | (False, ctx) \<Rightarrow> (0, inst\<lparr>i_ctx := ctx\<rparr>)))"

definition ecat_master_read_states :: "'d soem \<Rightarrow> 'd ecat_master_instance \<Rightarrow> 'd ecat_master_instance" where
  "ecat_master_read_states S inst =
     (if i_soem_initialized inst then inst\<lparr>i_ctx := ecx_readstate S (i_ctx inst)\<rparr> else inst)"

definition mark_op :: "ec_slave \<Rightarrow> ec_slave" where
  "mark_op s = s\<lparr>es_state := EC_STATE_OPERATIONAL, es_ALstatuscode := 0\<rparr>"

definition ecat_master_mark_all_operational :: "'d ecat_master_instance \<Rightarrow> 'd ecat_master_instance" where
  "ecat_master_mark_all_operational inst =
     inst\<lparr>i_ctx := fold (\<lambda>i. set_slave i mark_op) [0..<slavecount (i_ctx inst) + 1] (i_ctx inst)\<rparr>"

section \<open>AL status poll\<close>

text \<open>The frame index of a poll sent, \<open>None\<close> when it was not; the reply's status and counter.\<close>

definition ecat_master_al_poll_send :: "'d soem \<Rightarrow> 'd ecat_master_instance \<Rightarrow> nat option \<times> 'd ecat_master_instance" where
  "ecat_master_al_poll_send S inst =
     (case ecx_outframe_red S (i_ctx inst) of
        (rc, idx, ctx) \<Rightarrow> (if rc \<le> 0 then None else Some idx, inst\<lparr>i_ctx := ctx\<rparr>))"

definition ecat_master_al_poll_collect ::
  "'d soem \<Rightarrow> nat \<Rightarrow> 'd ecat_master_instance \<Rightarrow> (u16 \<times> int) option \<times> 'd ecat_master_instance" where
  "ecat_master_al_poll_collect S idx inst =
     (case ecx_inframe S idx (i_ctx inst) of
        (rc, status, ctx) \<Rightarrow> (if rc \<ge> 0 then Some (status, rc) else None, inst\<lparr>i_ctx := ctx\<rparr>))"

section \<open>Modules and fixed PDOs\<close>

definition slave_has_coe :: "'d ecx_context \<Rightarrow> nat \<Rightarrow> bool" where
  "slave_has_coe ctx pos \<longleftrightarrow> es_mbx_proto (slavelist ctx pos) AND ECT_MBXPROT_COE \<noteq> 0"

definition le_value :: "bytes \<Rightarrow> nat" where
  "le_value bs = foldr (\<lambda>b v. unat b + 256 * v) bs 0"

fun read_idents :: "'d soem \<Rightarrow> nat \<Rightarrow> nat list \<Rightarrow> u32 list \<Rightarrow> 'd ecx_context \<Rightarrow> u32 list option \<times> 'd ecx_context" where
  "read_idents S pos [] acc ctx = (Some acc, ctx)"
| "read_idents S pos (i # is) acc ctx =
     (case ecx_SDOread S pos 0xF050 (of_nat i) False 4 (EC_TIMEOUTRXM S) ctx of
        (wkc, bs, ctx) \<Rightarrow>
          if wkc \<le> 0 \<or> length bs \<noteq> 4 then (None, ctx)
          else read_idents S pos is (acc @ [of_nat (le_value bs)]) ctx)"

definition ecat_read_module_idents ::
  "'d soem \<Rightarrow> (nat \<Rightarrow> bool) \<Rightarrow> int \<Rightarrow> 'd ecx_context \<Rightarrow> u32 list option \<times> 'd ecx_context" where
  "ecat_read_module_idents S mem slave_pos ctx =
     (if slave_pos < 1 \<or> slave_pos > int (slavecount ctx) then (None, ctx)
      else if \<not> slave_has_coe ctx (nat slave_pos) then (None, ctx)
      else case ecx_SDOread S (nat slave_pos) 0xF050 0 False 1 (EC_TIMEOUTRXM S) ctx of
             (wkc, bs, ctx) \<Rightarrow>
               if wkc \<le> 0 \<or> length bs \<noteq> 1 then (None, ctx)
               else let n = le_value bs
                    in if \<not> mem (if n > 0 then n else 1) then (None, ctx)
                       else read_idents S (nat slave_pos) [1..<n + 1] [] ctx)"

definition ecat_scan_modules_offline ::
  "'d soem \<Rightarrow> (nat \<Rightarrow> bool) \<Rightarrow> string \<Rightarrow> int \<Rightarrow> int \<Rightarrow> u32 list option \<times> 'd ecx_context" where
  "ecat_scan_modules_offline S mem ifname slave_pos preop_timeout_us =
     (case ecx_init S ifname (ecx_zero_context S) of
        (False, ctx) \<Rightarrow> (None, ctx)
      | (True, ctx) \<Rightarrow>
          (case (case ecx_config_init S ctx of
                   (found, ctx) \<Rightarrow>
                     if found \<le> 0 then (None, ctx)
                     else if slave_pos < 1 \<or> slave_pos > int (slavecount ctx) then (None, ctx)
                     else
                       let ctx = ecx_statecheck S (nat slave_pos) EC_STATE_PRE_OP
                                   (if preop_timeout_us > 0 then preop_timeout_us else EC_TIMEOUTSTATE S) ctx
                       in if es_state (slavelist ctx (nat slave_pos)) AND 0x0F < EC_STATE_PRE_OP then (None, ctx)
                          else ecat_read_module_idents S mem slave_pos ctx) of
             (r, ctx) \<Rightarrow>
               (r, ecx_close S (snd (ecx_writestate S 0
                     (set_slave 0 (es_state_update (\<lambda>_. EC_STATE_INIT)) ctx))))))"

definition entry_mapping :: "ecat_pdo_entry \<Rightarrow> u32" where
  "entry_mapping e =
     (push_bit 16 (of_nat (case strtoul 16 (pe_index e) of Some (v, _) \<Rightarrow> v | None \<Rightarrow> 0)) OR
      push_bit 8 (ucast (pe_subindex e)) OR ucast (pe_bit_length e))"

text \<open>\<open>None\<close>: the device contradicts the configuration; \<open>Some\<close>: equal or not readable.\<close>

fun verify_entries ::
  "'d soem \<Rightarrow> nat \<Rightarrow> u16 \<Rightarrow> int \<Rightarrow> nat \<Rightarrow> ecat_pdo_entry list \<Rightarrow> 'd ecx_context \<Rightarrow> bool \<times> 'd ecx_context" where
  "verify_entries S pos idx timeout k [] ctx = (True, ctx)"
| "verify_entries S pos idx timeout k (e # es) ctx =
     (case ecx_SDOread S pos idx (of_nat (k + 1)) False 4 timeout ctx of
        (wkc, bs, ctx) \<Rightarrow>
          if wkc \<le> 0 \<or> length bs \<noteq> 4 then (True, ctx)
          else if of_nat (le_value bs) \<noteq> entry_mapping e then (False, ctx)
          else verify_entries S pos idx timeout (k + 1) es ctx)"

fun verify_fixed_direction ::
  "'d soem \<Rightarrow> ecat_slave \<Rightarrow> ecat_pdo list \<Rightarrow> 'd ecx_context \<Rightarrow> bool \<times> 'd ecx_context" where
  "verify_fixed_direction S slave [] ctx = (True, ctx)"
| "verify_fixed_direction S slave (pdo # ps) ctx =
     (if \<not> pdo_fixed pdo then verify_fixed_direction S slave ps ctx
      else
        let timeout = (if sdo_timeout_ms (timeouts slave) > 0 then sdo_timeout_ms (timeouts slave) * 1000
                       else EC_TIMEOUTRXM S);
            pos = nat (position slave);
            idx = (case strtoul 16 (pdo_index pdo) of Some (v, _) \<Rightarrow> of_nat v | None \<Rightarrow> 0)
        in case ecx_SDOread S pos idx 0 False 1 timeout ctx of
             (wkc, bs, ctx) \<Rightarrow>
               if wkc \<le> 0 \<or> length bs \<noteq> 1 then verify_fixed_direction S slave ps ctx
               else if le_value bs \<noteq> length (pdo_entries pdo) then (False, ctx)
               else (case verify_entries S pos idx timeout 0 (pdo_entries pdo) ctx of
                       (False, ctx) \<Rightarrow> (False, ctx)
                     | (True, ctx) \<Rightarrow> verify_fixed_direction S slave ps ctx))"

fun verify_slaves :: "'d soem \<Rightarrow> ecat_slave list \<Rightarrow> 'd ecx_context \<Rightarrow> bool \<times> 'd ecx_context" where
  "verify_slaves S [] ctx = (True, ctx)"
| "verify_slaves S (slave # ss) ctx =
     (if m_present (modular slave) \<or> position slave < 1 \<or> position slave > int (slavecount ctx) \<or>
         \<not> slave_has_coe ctx (nat (position slave))
      then verify_slaves S ss ctx
      else case verify_fixed_direction S slave (rx_pdos slave) ctx of
             (False, ctx) \<Rightarrow> (False, ctx)
           | (True, ctx) \<Rightarrow>
               (case verify_fixed_direction S slave (tx_pdos slave) ctx of
                  (False, ctx) \<Rightarrow> (False, ctx)
                | (True, ctx) \<Rightarrow> verify_slaves S ss ctx))"

definition ecat_master_verify_fixed_pdos :: "'d soem \<Rightarrow> 'd ecat_master_instance \<Rightarrow> bool \<times> 'd ecat_master_instance" where
  "ecat_master_verify_fixed_pdos S inst =
     (case verify_slaves S (c_slaves (i_config inst)) (i_ctx inst) of
        (ok, ctx) \<Rightarrow> (ok, inst\<lparr>i_ctx := ctx\<rparr>))"

end
