(* ===== verification/Master_Sound.thy ===== *)
theory Master_Sound
  imports Master Config_Sound
begin

text \<open>
  What the master operations guarantee: the topology check, the bytes of a startup SDO, the
  watchdog registers, the pace of the OPERATIONAL poll, and the state of the instance after a
  successful or failed start and after a close.
\<close>

section \<open>Topology\<close>

lemma topology_iff:
  "ecat_master_validate_topology inst \<longleftrightarrow>
     slavecount (i_ctx inst) = length (c_slaves (i_config inst)) \<and>
     (\<forall>s\<in>set (c_slaves (i_config inst)).
        1 \<le> position s \<and> position s \<le> int (slavecount (i_ctx inst)) \<and>
        (check_vendor_id (startup_checks s) \<longrightarrow>
           es_eep_man (slavelist (i_ctx inst) (nat (position s))) = vendor_id s) \<and>
        (check_product_code (startup_checks s) \<longrightarrow>
           es_eep_id (slavelist (i_ctx inst) (nat (position s))) = product_code s))"
  by (auto simp: ecat_master_validate_topology_def list_all_iff slave_matches_def Let_def split: if_splits)

lemma positions_cover:
  assumes "distinct (map position ss)" and "\<forall>s\<in>set ss. 1 \<le> position s \<and> position s \<le> int (length ss)"
  shows "position ` set ss = {1..int (length ss)}"
proof (rule card_subset_eq)
  show "position ` set ss \<subseteq> {1..int (length ss)}" using assms(2) by auto
  show "card (position ` set ss) = card {1..int (length ss)}"
    using assms(1) by (simp add: distinct_card flip: set_map)
qed simp

section \<open>Startup SDOs\<close>

lemma le_value_map:
  "le_value (map (\<lambda>k. ucast (drop_bit (8 * k) (v :: u64)) :: u8) [j..<j + n]) =
     unat v div 2 ^ (8 * j) mod 2 ^ (8 * n)"
  unfolding le_value_def
proof (induction n arbitrary: j)
  case (Suc n)
  have "[j..<j + Suc n] = j # [Suc j..<Suc j + n]" by (simp add: upt_conv_Cons)
  moreover have "unat (ucast (drop_bit (8 * j) v) :: u8) = unat v div 2 ^ (8 * j) mod 256"
  proof -
    have "unat (drop_bit (8 * j) v) = unat v div 2 ^ (8 * j)"
      unfolding unat_drop_bit_eq by (rule drop_bit_eq_div)
    then show ?thesis by (simp add: unsigned_ucast_eq take_bit_eq_mod)
  qed
  moreover have "unat v div 2 ^ (8 * j) mod 256 + 256 * (unat v div 2 ^ (8 * Suc j) mod 2 ^ (8 * n)) =
     unat v div 2 ^ (8 * j) mod 2 ^ (8 * Suc n)"
  proof -
    define x where "x = unat v div 2 ^ (8 * j)"
    have "(2::nat) ^ (8 * Suc j) = 2 ^ (8 * j) * 256" by (simp add: power_add)
    then have "unat v div 2 ^ (8 * Suc j) = x div 256" by (simp only: x_def div_mult2_eq)
    moreover have "x mod (256 * 2 ^ (8 * n)) = 256 * (x div 256 mod 2 ^ (8 * n)) + x mod 256"
      by (rule mod_mult2_eq)
    ultimately show ?thesis by (simp add: power_add flip: x_def)
  qed
  ultimately show ?case using Suc.IH [of "Suc j"] by simp
qed simp

lemma le_value_le_bytes: "le_value (le_bytes n v) = unat v mod 2 ^ (8 * n)"
  using le_value_map [of v 0 n] by (simp add: le_bytes_def)

text \<open>The integer a CoE slave of this type reads from the wire.\<close>

definition signed_type :: "ecat_data_type \<Rightarrow> bool" where
  "signed_type dt \<longleftrightarrow> dt \<in> {ECAT_DTYPE_INT8, ECAT_DTYPE_INT16, ECAT_DTYPE_INT32, ECAT_DTYPE_INT64}"

definition integer_type :: "ecat_data_type \<Rightarrow> bool" where
  "integer_type dt \<longleftrightarrow>
     signed_type dt \<or>
     dt \<in> {ECAT_DTYPE_BOOL, ECAT_DTYPE_UINT8, ECAT_DTYPE_UINT16, ECAT_DTYPE_UINT32, ECAT_DTYPE_UINT64}"

definition wire_int :: "ecat_data_type \<Rightarrow> bytes \<Rightarrow> int" where
  "wire_int dt bs =
     (let u = int (le_value bs); n = 8 * length bs
      in if signed_type dt \<and> u \<ge> 2 ^ (n - 1) then u - 2 ^ n else u)"

lemma d_between_trunc:
  assumes "d_finite v" and "d_between lo v hi"
  shows "lo \<le> d_trunc v \<and> d_trunc v \<le> hi"
proof -
  obtain s m e where v: "v = D_fin s m e" using assms(1) by (cases v) auto
  show ?thesis
  proof (cases "0 \<le> e")
    case True
    with assms(2) v show ?thesis by (simp add: d_between_def split: if_splits)
  next
    case False
    define p where "p = (2::int) ^ nat (- e)"
    have p: "0 < p" by (simp add: p_def)
    have t: "d_trunc v = (if s then - (int m div p) else int m div p)"
      using False by (simp add: v p_def zdiv_int)
    have b: "lo * p \<le> (if s then - int m else int m)" "(if s then - int m else int m) \<le> hi * p"
      using assms(2) False by (simp_all add: v d_between_def p_def Let_def split: if_splits)
    have up: "x \<le> k * p \<Longrightarrow> x div p \<le> k" for x k using zdiv_mono1 [of x "k * p" p] p by simp
    have dn: "k * p \<le> x \<Longrightarrow> k \<le> x div p" for x k using zdiv_mono1 [of "k * p" x p] p by simp
    show ?thesis
    proof (cases s)
      case True
      then show ?thesis using b up [of "int m" "- lo"] dn [of "- hi" "int m"] by (simp add: t)
    next
      case False
      then show ?thesis using b up [of "int m" hi] dn [of lo "int m"] by (simp add: t)
    qed
  qed
qed

lemma mod_signed:
  fixes i :: int
  assumes "- (2 ^ (n - 1)) \<le> i" and "i < 2 ^ (n - 1)" and "0 < n"
  shows "(if i mod 2 ^ n \<ge> 2 ^ (n - 1) then i mod 2 ^ n - 2 ^ n else i mod 2 ^ n) = i"
proof -
  have n: "(2::int) ^ n = 2 * 2 ^ (n - 1)" using assms(3) by (cases n) simp_all
  show ?thesis
  proof (cases "0 \<le> i")
    case True
    with assms n show ?thesis by (simp add: mod_pos_pos_trivial)
  next
    case False
    have "i mod 2 ^ n = (i + 2 ^ n) mod 2 ^ n" by simp
    also have "\<dots> = i + 2 ^ n" using False assms n by (intro mod_pos_pos_trivial) linarith+
    finally show ?thesis using assms n by simp
  qed
qed

lemma le_value_int:
  assumes "n \<le> 8"
  shows "int (le_value (le_bytes n (of_int i))) = i mod 2 ^ (8 * n)"
proof -
  have "(2::int) ^ (8 * n) dvd 2 ^ 64" using assms by (intro le_imp_power_dvd) simp
  moreover have "int (unat (of_int i :: u64)) = i mod 2 ^ 64"
    by (simp add: unsigned_of_int take_bit_eq_mod)
  ultimately show ?thesis by (simp add: le_value_le_bytes zmod_int mod_mod_cancel)
qed

lemma encode_integer:
  assumes "integer_type dt" and "double_to_int64 v = Some i"
  shows "encode_sdo_value ub dt v = le_bytes (ecat_data_type_size dt) (of_int i)"
  using assms by (cases dt) (simp_all add: encode_sdo_value_def integer_type_def signed_type_def int64_cast_def)

lemma in_range_trunc:
  assumes "sdo_value_in_range dt v" and "integer_type dt"
  shows "if signed_type dt
    then - (2 ^ (8 * ecat_data_type_size dt - 1)) \<le> d_trunc v \<and>
         (dt \<noteq> ECAT_DTYPE_INT64 \<longrightarrow> d_trunc v < 2 ^ (8 * ecat_data_type_size dt - 1))
    else 0 \<le> d_trunc v \<and> d_trunc v < 2 ^ (8 * ecat_data_type_size dt)"
proof -
  have fin: "d_finite v" using assms(1) by (simp add: sdo_value_in_range_def split: if_splits)
  show ?thesis
    using assms fin d_between_trunc [OF fin]
    by (cases dt) (fastforce simp: sdo_value_in_range_def integer_type_def signed_type_def)+
qed

lemma le_bytes_length [simp]: "length (le_bytes n v) = n"
  by (simp add: le_bytes_def)

lemma encode_reads_back:
  assumes "sdo_value_in_range dt v" and "integer_type dt"
    and "dt \<in> {ECAT_DTYPE_INT64, ECAT_DTYPE_UINT64} \<Longrightarrow> d_trunc v < 2 ^ 63"
  shows "length (encode_sdo_value ub dt v) = ecat_data_type_size dt"
    and "wire_int dt (encode_sdo_value ub dt v) = d_trunc v"
proof -
  let ?n = "ecat_data_type_size dt" and ?i = "d_trunc v"
  note r = in_range_trunc [OF assms(1,2)]
  have n: "0 < ?n" "?n \<le> 8" using assms(2) by (cases dt; simp add: integer_type_def signed_type_def)+
  have small: "- (2 ^ 63) \<le> ?i \<and> ?i < 2 ^ 63"
    using r assms(2,3) by (cases dt) (auto simp: integer_type_def signed_type_def)
  moreover have "d_finite v" using assms(1) by (simp add: sdo_value_in_range_def split: if_splits)
  ultimately have "double_to_int64 v = Some ?i"
    by (cases v) (auto simp: double_to_int64_def Let_def)
  note enc = encode_integer [OF assms(2) this, of ub]
  show "length (encode_sdo_value ub dt v) = ?n" by (simp add: enc)
  have val: "int (le_value (encode_sdo_value ub dt v)) = ?i mod 2 ^ (8 * ?n)"
    unfolding enc by (rule le_value_int [OF n(2)])
  show "wire_int dt (encode_sdo_value ub dt v) = ?i"
  proof (cases "signed_type dt")
    case True
    have "?i < 2 ^ (8 * ?n - 1)"
      using r True small by (cases "dt = ECAT_DTYPE_INT64") auto
    with r True n have "(if ?i mod 2 ^ (8 * ?n) \<ge> 2 ^ (8 * ?n - 1) then ?i mod 2 ^ (8 * ?n) - 2 ^ (8 * ?n)
        else ?i mod 2 ^ (8 * ?n)) = ?i" by (intro mod_signed) auto
    with True val show ?thesis by (simp add: wire_int_def Let_def enc)
  next
    case False
    with r val show ?thesis by (simp add: wire_int_def)
  qed
qed

section \<open>Start and stop\<close>

lemma soem_closed_simps [simp]:
  "i_soem_initialized (soem_closed S inst) = False" "i_config (soem_closed S inst) = i_config inst"
  "buffers_wf (soem_closed S inst) = buffers_wf inst"
  by (simp_all add: soem_closed_def buffers_wf_def split: option.split)

lemma buffers_wf_other [simp]:
  "buffers_wf (inst\<lparr>i_ctx := c\<rparr>) = buffers_wf inst"
  "buffers_wf (inst\<lparr>i_soem_initialized := b\<rparr>) = buffers_wf inst"
  "buffers_wf (inst\<lparr>i_iface_state := st\<rparr>) = buffers_wf inst"
  "buffers_wf (inst\<lparr>i_data := d\<rparr>) = buffers_wf inst"
  by (simp_all add: buffers_wf_def split: option.split)

lemma alloc_config [simp]:
  "i_config (snd (ecat_master_instance_alloc_iomap mem inst)) = i_config inst"
  "i_config (snd (ecat_master_instance_alloc_snapshot mem inst)) = i_config inst"
  "i_config (snd (ecat_master_instance_grow_iomap mem n inst)) = i_config inst"
  "i_config (release_buffers inst) = i_config inst"
  by (simp_all add: ecat_master_instance_alloc_iomap_def ecat_master_instance_alloc_snapshot_def
      ecat_master_instance_grow_iomap_def release_buffers_def Let_def)

lemma alloc_soem [simp]:
  "i_soem_initialized (snd (ecat_master_instance_alloc_iomap mem inst)) = i_soem_initialized inst"
  "i_soem_initialized (snd (ecat_master_instance_alloc_snapshot mem inst)) = i_soem_initialized inst"
  "i_ctx (snd (ecat_master_instance_alloc_iomap mem inst)) = i_ctx inst"
  "i_ctx (snd (ecat_master_instance_alloc_snapshot mem inst)) = i_ctx inst"
  by (simp_all add: ecat_master_instance_alloc_iomap_def ecat_master_instance_alloc_snapshot_def Let_def)

lemma alloc_results:
  "fst (ecat_master_instance_alloc_iomap mem inst) \<Longrightarrow>
   i_iomap (snd (ecat_master_instance_alloc_iomap mem inst)) \<noteq> None"
  "i_iomap (snd (ecat_master_instance_alloc_snapshot mem inst)) = i_iomap inst"
  "fst (ecat_master_instance_alloc_snapshot mem inst) \<Longrightarrow>
   i_slaves_snapshot (snd (ecat_master_instance_alloc_snapshot mem inst)) \<noteq> None"
  by (auto simp: ecat_master_instance_alloc_iomap_def ecat_master_instance_alloc_snapshot_def Let_def
      split: if_splits)

definition scanned :: "'d ecat_master_instance \<Rightarrow> bool" where
  "scanned inst \<longleftrightarrow>
     i_soem_initialized inst \<and> i_iomap inst \<noteq> None \<and> i_slaves_snapshot inst \<noteq> None \<and>
     (\<forall>i\<in>{1..slavecount (i_ctx inst)}. EC_STATE_PRE_OP \<le> es_state (slavelist (i_ctx inst) i))"

lemma all_preop_iff:
  "all_preop ctx \<longleftrightarrow> (\<forall>i\<in>{1..slavecount ctx}. EC_STATE_PRE_OP \<le> es_state (slavelist ctx i))"
  by (auto simp: all_preop_def list_all_iff not_less)

lemma wait_preop_result:
  assumes "wait_preop S inst = (ok, inst')"
  shows "buffers_wf inst \<Longrightarrow> buffers_wf inst'" and "i_config inst' = i_config inst"
    and "\<not> ok \<Longrightarrow> \<not> i_soem_initialized inst'"
    and "ok \<Longrightarrow> i_soem_initialized inst \<Longrightarrow> i_iomap inst \<noteq> None \<Longrightarrow> i_slaves_snapshot inst \<noteq> None \<Longrightarrow>
         scanned inst'"
  using assms by (auto simp: wait_preop_def Let_def scanned_def all_preop_iff split: if_splits)

lemma scan_bus_result:
  assumes "scan_bus S mem inst = (ok, inst')" and "i_soem_initialized inst"
  shows "buffers_wf inst \<Longrightarrow> buffers_wf inst'" and "i_config inst' = i_config inst"
    and "\<not> ok \<Longrightarrow> \<not> i_soem_initialized inst'" and "ok \<Longrightarrow> scanned inst'"
proof -
  obtain found ctx where init: "ecx_config_init S (i_ctx inst) = (found, ctx)" by force
  let ?i = "inst\<lparr>i_ctx := ctx\<rparr>"
  obtain ok1 i1 where a1: "ecat_master_instance_alloc_iomap mem ?i = (ok1, i1)" by force
  obtain ok2 i2 where a2: "ecat_master_instance_alloc_snapshot mem i1 = (ok2, i2)" by force
  have f1: "i_config i1 = i_config inst" "i_soem_initialized i1 = i_soem_initialized inst"
    "buffers_wf inst \<Longrightarrow> buffers_wf i1" "ok1 \<Longrightarrow> i_iomap i1 \<noteq> None"
    using alloc_config(1) [of mem ?i] alloc_soem(1) [of mem ?i] buffers_wf_alloc(1) [of ?i mem]
      alloc_results(1) [of mem ?i] a1 by simp_all
  have f2: "i_config i2 = i_config inst" "i_soem_initialized i2 = i_soem_initialized inst"
    "buffers_wf inst \<Longrightarrow> buffers_wf i2" "ok1 \<Longrightarrow> i_iomap i2 \<noteq> None" "ok2 \<Longrightarrow> i_slaves_snapshot i2 \<noteq> None"
    using alloc_config(2) [of mem i1] alloc_soem(2) [of mem i1] buffers_wf_alloc(3) [of i1 mem]
      alloc_results(2,3) [of mem i1] a2 f1 by simp_all
  consider (closed) x where "inst' = soem_closed S x" "\<not> ok" "x \<in> {?i, i1, i2}"
    | (waits) "ok1" "ok2" "ecat_master_validate_topology i2" "wait_preop S i2 = (ok, inst')"
    using assms(1) by (auto simp: scan_bus_def init a1 a2 Let_def split: if_splits bool.splits)
  note cases = this
  show "buffers_wf inst'" if "buffers_wf inst"
    using cases by cases (use that f1 f2 in \<open>auto dest: wait_preop_result(1)\<close>)
  show "i_config inst' = i_config inst"
    using cases by cases (use f1 f2 in \<open>auto dest: wait_preop_result(2)\<close>)
  show "\<not> i_soem_initialized inst'" if "\<not> ok"
    using cases by cases (use that in \<open>auto dest: wait_preop_result(3)\<close>)
  show "scanned inst'" if "ok"
    using cases by cases (use that f2 assms(2) in \<open>auto intro: wait_preop_result(4)\<close>)
qed

lemma open_and_scan_result:
  assumes "ecat_master_open_and_scan E h inst = (ok, h', inst')"
  shows "buffers_wf inst'" and "i_config inst' = i_config inst"
    and "\<not> ok \<Longrightarrow> \<not> i_soem_initialized inst \<Longrightarrow> \<not> i_soem_initialized inst'" and "ok \<Longrightarrow> scanned inst'"
proof -
  let ?z = "release_buffers (inst\<lparr>i_ctx := ecx_zero_context (e_soem E)\<rparr>)"
  have z: "buffers_wf ?z" "i_config ?z = i_config inst" "i_soem_initialized ?z = i_soem_initialized inst"
    by (simp_all add: buffers_wf_alloc(4)) (simp add: release_buffers_def)
  obtain st h1 where app: "ecat_iface_state_apply (e_run E) (e_writable E) (e_dir E)
      (interface (c_master (i_config ?z))) (i_iface_state ?z) h = (st, h1)" by force
  let ?i = "?z\<lparr>i_iface_state := st\<rparr>"
  obtain b ctx where init: "ecx_init (e_soem E) (interface (c_master (i_config ?z))) (i_ctx ?i) = (b, ctx)" by force
  let ?o = "?i\<lparr>i_ctx := ctx, i_soem_initialized := True\<rparr>"
  have "inst' = ?i\<lparr>i_ctx := ctx\<rparr> \<and> \<not> ok \<or> scan_bus (e_soem E) (e_mem E) ?o = (ok, inst')"
    using assms(1) app init
    by (cases b) (auto simp: ecat_master_open_and_scan_def Let_def split: prod.splits)
  then show "buffers_wf inst'" "i_config inst' = i_config inst"
    "\<not> ok \<Longrightarrow> \<not> i_soem_initialized inst \<Longrightarrow> \<not> i_soem_initialized inst'" "ok \<Longrightarrow> scanned inst'"
    using z scan_bus_result [of "e_soem E" "e_mem E" ?o ok inst'] by auto
qed

section \<open>Process data mapping\<close>

lemma configure_buffers:
  assumes "ecat_master_configure S mem inst = (ok, inst')" and "buffers_wf inst"
  shows "buffers_wf inst'" and "ok \<Longrightarrow> 0 < i_iomap_used_size inst' \<and> i_iomap inst' \<noteq> None"
proof -
  have grown: "fst (ecat_master_instance_grow_iomap mem n x) \<Longrightarrow>
      i_iomap (snd (ecat_master_instance_grow_iomap mem n x)) \<noteq> None" for n and x :: "'a ecat_master_instance"
    by (auto simp: ecat_master_instance_grow_iomap_def split: if_splits)
  obtain bytes ctx where sum: "sum_mapped S [1..<slavecount (i_ctx inst) + 1] 0 (i_ctx inst) = (bytes, ctx)"
    by force
  obtain ok1 i1 where size: "size_iomap_from_slaves S mem inst = (ok1, i1)" by force
  have i1: "buffers_wf i1" "ok1 \<Longrightarrow> i_iomap i1 \<noteq> None"
    using size buffers_wf_alloc(2) [of "inst\<lparr>i_ctx := ctx\<rparr>" mem "max bytes ECAT_IOMAP_MIN_BYTES"] assms(2)
      grown [of "max bytes ECAT_IOMAP_MIN_BYTES" "inst\<lparr>i_ctx := ctx\<rparr>"]
    unfolding size_iomap_from_slaves_def sum by auto
  have used: "buffers_wf (i1\<lparr>i_iomap_used_size := n\<rparr>)" if "n \<le> i_iomap_capacity i1" for n
    using i1(1) that by (auto simp: buffers_wf_def split: option.splits)
  show "buffers_wf inst'" "ok \<Longrightarrow> 0 < i_iomap_used_size inst' \<and> i_iomap inst' \<noteq> None"
    using assms i1 size used
    by (auto simp: ecat_master_configure_def Let_def not_less split: if_splits prod.splits bool.splits)
qed

section \<open>Zeroed outputs at close\<close>

text \<open>
  A view of SOEM that records the calls that act on the bus, in order: the maps handed to
  \<^verbatim>\<open>ecx_send_processdata\<close>, the slave and the state of every \<^verbatim>\<open>ecx_writestate\<close>, and \<^verbatim>\<open>ecx_close\<close>. Receiving writes inputs
  only, behind the first \<open>n\<close> bytes.
\<close>

datatype soem_call = Call_send bytes | Call_writestate nat u16 | Call_close

definition records_calls :: "nat \<Rightarrow> soem_call list soem \<Rightarrow> bool" where
  "records_calls n S \<longleftrightarrow>
     (\<forall>m ctx. hidden (ecx_send_processdata S m ctx) = hidden ctx @ [Call_send m]) \<and>
     (\<forall>t m ctx. case ecx_receive_processdata S t m ctx of (_, m', ctx') \<Rightarrow>
        length m' = length m \<and> take n m' = take n m \<and> hidden ctx' = hidden ctx) \<and>
     (\<forall>i ctx. hidden (snd (ecx_writestate S i ctx)) = hidden ctx @ [Call_writestate i (es_state (slavelist ctx i))]) \<and>
     (\<forall>i st t ctx. hidden (ecx_statecheck S i st t ctx) = hidden ctx) \<and>
     (\<forall>ctx. hidden (ecx_readstate S ctx) = hidden ctx) \<and>
     (\<forall>ctx. hidden (ecx_close S ctx) = hidden ctx @ [Call_close])"

lemma exchange_records:
  assumes "records_calls n S" and "i_iomap inst = Some m"
  shows "\<exists>m' wkc inst'. exchange S t inst = (wkc, inst') \<and> i_iomap inst' = Some m' \<and>
     take n m' = take n m \<and> hidden (i_ctx inst') = hidden (i_ctx inst) @ [Call_send m]"
proof -
  obtain wkc m' ctx where
    "ecx_receive_processdata S t m (ecx_send_processdata S m (i_ctx inst)) = (wkc, m', ctx)"
    by (metis prod_cases3)
  moreover from this assms(1) have "take n m' = take n m" "hidden ctx = hidden (i_ctx inst) @ [Call_send m]"
    unfolding records_calls_def by (metis (mono_tags, lifting) case_prod_conv)+
  ultimately show ?thesis using assms(2) by (auto simp: exchange_def buffer_of_def)
qed

lemma send_until_reply_records:
  assumes "records_calls n S" and "i_iomap inst = Some m" and "take n m = zero_bytes n"
  shows "\<exists>ms. hidden (i_ctx (snd (send_until_reply S k inst))) = hidden (i_ctx inst) @ map Call_send ms \<and>
     length ms \<le> k \<and> (0 < k \<longrightarrow> ms \<noteq> []) \<and> (\<forall>x\<in>set ms. take n x = zero_bytes n)"
  using assms
proof (induction k arbitrary: inst m)
  case (Suc k)
  obtain m' wkc inst' where ex: "exchange S (EC_TIMEOUTRET S) inst = (wkc, inst')"
    "i_iomap inst' = Some m'" "take n m' = take n m" "hidden (i_ctx inst') = hidden (i_ctx inst) @ [Call_send m]"
    using exchange_records [OF Suc.prems(1,2)] by blast
  show ?case
  proof (cases "wkc \<le> 0")
    case False
    with ex Suc.prems show ?thesis by (auto intro!: exI [of _ "[m]"])
  next
    case True
    from Suc.IH [OF Suc.prems(1) ex(2)] ex(3) Suc.prems(3) obtain ms where
      "hidden (i_ctx (snd (send_until_reply S k inst'))) = hidden (i_ctx inst') @ map Call_send ms"
      "length ms \<le> k" "\<forall>x\<in>set ms. take n x = zero_bytes n" by auto
    with True ex Suc.prems(3) show ?thesis by (auto intro!: exI [of _ "m # ms"])
  qed
qed simp

lemma request_init_records:
  assumes "records_calls n S"
  shows "hidden (request_init S ctx) = hidden ctx @ [Call_writestate 0 EC_STATE_INIT]"
proof -
  let ?i = "set_slave 0 (es_state_update (\<lambda>_. EC_STATE_INIT)) ctx"
  obtain wkc c where w: "ecx_writestate S 0 ?i = (wkc, c)" by force
  have "hidden (snd (ecx_writestate S 0 ?i)) = hidden ?i @ [Call_writestate 0 (es_state (slavelist ?i 0))]"
    using assms unfolding records_calls_def by blast
  then have "hidden c = hidden ctx @ [Call_writestate 0 EC_STATE_INIT]" using w by simp
  then show ?thesis using assms w by (simp add: request_init_def records_calls_def)
qed

lemma close_records:
  fixes inst :: "soem_call list ecat_master_instance"
  assumes "records_calls n (e_soem E)" and "i_soem_initialized inst" and "i_iomap inst = Some m"
    and "n \<le> i_iomap_used_size inst" and "0 < i_iomap_used_size inst" and "i_iomap_used_size inst \<le> length m"
  shows "\<exists>ms. hidden (i_ctx (snd (ecat_master_close E h inst))) =
       hidden (i_ctx inst) @ map Call_send ms @ [Call_writestate 0 EC_STATE_INIT, Call_close] \<and>
     ms \<noteq> [] \<and> length ms \<le> ECAT_ZERO_OUTPUT_ATTEMPTS \<and> (\<forall>x\<in>set ms. take n x = zero_bytes n)"
proof -
  let ?S = "e_soem E" and ?z = "zero_iomap inst"
  define m0 where "m0 = mem_write m 0 (zero_bytes (i_iomap_used_size inst))"
  have "i_iomap ?z = Some m0" using assms(3) by (simp add: zero_iomap_def m0_def)
  moreover have "take n m0 = zero_bytes n"
    using assms(4) by (simp add: m0_def mem_write_def zero_bytes_def take_replicate min_def)
  ultimately obtain ms where ms:
    "hidden (i_ctx (snd (send_until_reply ?S ECAT_ZERO_OUTPUT_ATTEMPTS ?z))) = hidden (i_ctx ?z) @ map Call_send ms"
    "length ms \<le> ECAT_ZERO_OUTPUT_ATTEMPTS" "ms \<noteq> []" "\<forall>x\<in>set ms. take n x = zero_bytes n"
    using send_until_reply_records [OF assms(1), of ?z m0 ECAT_ZERO_OUTPUT_ATTEMPTS]
    by (auto simp: ECAT_ZERO_OUTPUT_ATTEMPTS_def)
  have close: "hidden (ecx_close ?S ctx) = hidden ctx @ [Call_close]" for ctx
    using assms(1) by (simp add: records_calls_def)
  have "hidden (i_ctx (snd (ecat_master_close E h inst))) = hidden (i_ctx (close_soem ?S inst))"
    using assms(2) by (simp add: ecat_master_close_def release_buffers_def Let_def case_prod_unfold)
  also have "\<dots> = hidden (i_ctx inst) @ map Call_send ms @ [Call_writestate 0 EC_STATE_INIT, Call_close]"
    using ms(1) assms(5) by (simp add: close_soem_def soem_closed_def request_init_records [OF assms(1)] close Let_def zero_iomap_def)
  finally show ?thesis using ms by blast
qed

section \<open>Transition to OPERATIONAL\<close>

lemma poll_operational_state:
  "poll_operational S poll n inst = (True, inst') \<Longrightarrow>
   es_state (slavelist (i_ctx inst') 0) = EC_STATE_OPERATIONAL"
  by (induction S poll n inst rule: poll_operational.induct) (auto simp: Let_def split: if_splits)

lemma transition_to_op_succeeds:
  assumes "i_soem_initialized inst"
    and "\<And>t ctx. es_state (slavelist (ecx_readstate S (ecx_statecheck S 0 EC_STATE_SAFE_OP t ctx)) 0) = EC_STATE_SAFE_OP"
    and "\<And>p n x. 0 < n \<Longrightarrow> fst (poll_operational S p n x)"
  shows "fst (ecat_master_transition_to_op S inst)"
proof -
  have "0 < nat (poll_retries t p)" for t p by (simp add: poll_retries_def Let_def ECAT_OP_POLL_RETRIES_def)
  then have ok: "\<exists>y. poll_operational S p (nat (poll_retries t p)) x = (True, y)" for t p x
    using assms(3) by (metis (full_types) prod.collapse)
  show ?thesis
    unfolding ecat_master_transition_to_op_def Let_def using assms(1,2) ok
    by (simp split: prod.split bool.split) (metis prod.inject)
qed

text \<open>The smallest positive watchdog bounds the running minimum of the loop.\<close>

lemma min_sm_watchdog_le:
  assumes "s \<in> set slaves" and "sm_watchdog_enabled (watchdog s)" and "0 < sm_watchdog_ms (watchdog s)"
  shows "min_sm_watchdog_us slaves \<le> sm_watchdog_ms (watchdog s) * 1000"
proof -
  define f where "f = (\<lambda>(s :: ecat_slave) (m :: int). let wd = watchdog s
      in if sm_watchdog_enabled wd \<and> sm_watchdog_ms wd > 0
         then let wd_us = sm_watchdog_ms wd * 1000 in if m = 0 \<or> wd_us < m then wd_us else m
         else m)"
  have keep: "0 < m \<Longrightarrow> 0 < fold f ss m \<and> fold f ss m \<le> m" for ss m
  proof (induction ss arbitrary: m)
    case (Cons t ss)
    have "0 < f t m \<and> f t m \<le> m" using Cons.prems by (auto simp: f_def Let_def)
    with Cons.IH [of "f t m"] show ?case by fastforce
  qed simp
  have "0 < fold f slaves m \<and> fold f slaves m \<le> sm_watchdog_ms (watchdog s) * 1000" if "0 \<le> m" for m
    using assms that
  proof (induction slaves arbitrary: m)
    case (Cons t ss)
    show ?case
    proof (cases "s = t")
      case True
      have "0 < f t m \<and> f t m \<le> sm_watchdog_ms (watchdog s) * 1000"
        using Cons.prems True by (auto simp: f_def Let_def)
      with keep [of "f t m" ss] show ?thesis by fastforce
    next
      case False
      have "0 \<le> f t m" using Cons.prems by (auto simp: f_def Let_def)
      with Cons False show ?thesis by simp
    qed
  qed simp
  from this [of 0] show ?thesis by (simp add: min_sm_watchdog_us_def f_def Let_def)
qed

section \<open>A recording library\<close>

text \<open>
  A concrete SOEM with one slave: every state request succeeds, the mapping has two output bytes,
  and each process-data frame sent is appended to the hidden state.
\<close>

definition recording_context :: "soem_call list \<Rightarrow> soem_call list ecx_context" where
  "recording_context log =
     (zero_context log)\<lparr>slavecount := 1,
        slavelist := (\<lambda>_. zero_ec_slave\<lparr>es_state := EC_STATE_PRE_OP, es_eep_man := 2, es_eep_id := 3\<rparr>)\<rparr>"

definition recording_soem :: "soem_call list soem" where
  "recording_soem =
     \<lparr>EC_TIMEOUTRET = 2000, EC_TIMEOUTSTATE = 2000000, EC_TIMEOUTRXM = 700000,
      ecx_init = (\<lambda>_ ctx. (True, ctx)), ecx_close = (\<lambda>ctx. ctx\<lparr>hidden := hidden ctx @ [Call_close]\<rparr>),
      ecx_config_init = (\<lambda>ctx. (1, recording_context (hidden ctx))),
      ecx_config_map_group = (\<lambda>ctx. (2, ctx)),
      ecx_statecheck = (\<lambda>i st _. set_slave i (es_state_update (\<lambda>_. st))),
      ecx_readstate = (\<lambda>ctx. ctx), ecx_writestate = (\<lambda>i ctx. (1, ctx\<lparr>hidden := hidden ctx @ [Call_writestate i (es_state (slavelist ctx i))]\<rparr>)),
      ecx_send_processdata = (\<lambda>m ctx. ctx\<lparr>hidden := hidden ctx @ [Call_send m]\<rparr>),
      ecx_receive_processdata = (\<lambda>_ m ctx. (1, m, ctx)),
      ecx_SDOwrite = (\<lambda>_ _ _ _ _ _ ctx. (1, ctx)), ecx_SDOread = (\<lambda>_ _ _ _ _ _ ctx. (0, [], ctx)),
      ecx_FPWR = (\<lambda>_ _ _ _ ctx. (1, ctx)), ecx_configdc = (\<lambda>ctx. ctx),
      ecx_dcsync0 = (\<lambda>_ _ _ ctx. ctx), ecx_dcsync01 = (\<lambda>_ _ _ _ ctx. ctx),
      ecx_readPDOmapCA = (\<lambda>_ ctx. (False, 0, 0, ctx)), ecx_readPDOmap = (\<lambda>_ ctx. (0, 0, ctx)),
      ecx_readIDNmap = (\<lambda>_ ctx. (0, 0, ctx)), ecx_siiPDO = (\<lambda>_ b ctx. (if b then 16 else 0, ctx)),
      ecx_reconfig_slave = (\<lambda>_ _ ctx. (True, ctx)), ecx_recover_slave = (\<lambda>_ _ ctx. (True, ctx)),
      ecx_outframe_red = (\<lambda>ctx. (1, 0, ctx)), ecx_inframe = (\<lambda>_ ctx. (1, 8, ctx)),
      ecx_mbxhandler = (\<lambda>ctx. ctx), EC_MAXELIST = 64, ecx_poperror = (\<lambda>ctx. (False, ctx)), ecx_zero_context = zero_context []\<rparr>"

definition recording_env :: "(soem_call list, nat) env" where
  "recording_env = \<lparr>e_soem = recording_soem, e_mem = (\<lambda>_. True), e_run = example_run,
                    e_writable = True, e_dir = ''/run''\<rparr>"

definition one_slave_config :: ecat_config where
  "one_slave_config =
     zero_config\<lparr>c_master := (c_master zero_config)\<lparr>interface := ''eth0'', cycle_time_us := 1000,
                                                  receive_timeout_us := 2000\<rparr>,
                 c_slaves := [zero_slave\<lparr>position := 1, vendor_id := 2, product_code := 3\<rparr>]\<rparr>"

definition one_slave_inst :: "soem_call list ecat_master_instance" where
  "one_slave_inst = (zero_instance [])\<lparr>i_config := one_slave_config\<rparr>"

lemmas recording_defs = recording_env_def recording_soem_def recording_context_def
  one_slave_inst_def one_slave_config_def zero_defs zero_slave_def ec_state_defs

lemma one_slave_config_valid: "ecat_config_validate one_slave_config = Inr ()"
  by (simp add: ecat_config_validate_def one_slave_config_def zero_defs zero_slave_def no_modular_def
      validate_pdos_def assigned_pdos_def validate_station_def)

lemma recording_soem_records: "records_calls n recording_soem"
  by (simp add: records_calls_def recording_soem_def)

section \<open>Properties\<close>

text \<open>
  When a validated configuration passes the topology check, every position of the bus belongs
  to exactly one configured slave, and that slave's vendor and product are the ones found there
  wherever its checks are enabled.
\<close>

theorem topology_matches_bus:
  assumes "ecat_config_validate (i_config inst) = Inr ()" and "ecat_master_validate_topology inst"
    and "1 \<le> p" and "p \<le> slavecount (i_ctx inst)"
  shows "\<exists>!s. s \<in> set (c_slaves (i_config inst)) \<and> position s = int p \<and>
    (check_vendor_id (startup_checks s) \<longrightarrow> es_eep_man (slavelist (i_ctx inst) p) = vendor_id s) \<and>
    (check_product_code (startup_checks s) \<longrightarrow> es_eep_id (slavelist (i_ctx inst) p) = product_code s)"
proof -
  let ?ss = "c_slaves (i_config inst)"
  have d: "distinct (map position ?ss)"
    using assms(1) by (simp add: ecat_config_validate_def validate_slaves_iff split: if_splits)
  note t = assms(2) [unfolded topology_iff]
  have "int p \<in> position ` set ?ss" using positions_cover [OF d] t assms(3,4) by auto
  then obtain s where s: "s \<in> set ?ss" "position s = int p" by auto
  moreover have "r = s" if "r \<in> set ?ss" "position r = int p" for r
    using d that s by (simp add: distinct_map inj_on_def)
  moreover have "nat (position s) = p" using s by simp
  ultimately show ?thesis using t by metis
qed

theorem topology_matches_bus_witness:
  "\<exists>!s. s \<in> set (c_slaves one_slave_config) \<and> position s = int 1 \<and>
    (check_vendor_id (startup_checks s) \<longrightarrow> es_eep_man (slavelist (recording_context []) 1) = vendor_id s) \<and>
    (check_product_code (startup_checks s) \<longrightarrow> es_eep_id (slavelist (recording_context []) 1) = product_code s)"
proof -
  let ?i = "one_slave_inst\<lparr>i_ctx := recording_context []\<rparr>"
  have "ecat_master_validate_topology ?i"
    by (simp add: ecat_master_validate_topology_def slave_matches_def recording_defs)
  then show ?thesis
    using topology_matches_bus [of ?i 1] one_slave_config_valid
    by (simp add: one_slave_inst_def recording_context_def)
qed

text \<open>
  A value in the range of its integer type, below \<open>2\<^sup>6\<^sup>3\<close>, is written in exactly the bytes of
  the type, and a slave that reads those bytes back as that type, little-endian and signed where
  the type is, obtains the value truncated towards zero.
\<close>

theorem sdo_value_on_the_wire:
  assumes "sdo_value_in_range dt v" and "integer_type dt"
    and "dt \<in> {ECAT_DTYPE_INT64, ECAT_DTYPE_UINT64} \<Longrightarrow> d_trunc v < 2 ^ 63"
  shows "length (encode_sdo_value ub dt v) = ecat_data_type_size dt \<and>
    wire_int dt (encode_sdo_value ub dt v) = d_trunc v"
  using encode_reads_back [OF assms] by simp

theorem sdo_value_on_the_wire_witness:
  "length (encode_sdo_value (\<lambda>_. 0) ECAT_DTYPE_INT16 (D_fin True 300 0)) = ecat_data_type_size ECAT_DTYPE_INT16 \<and>
   wire_int ECAT_DTYPE_INT16 (encode_sdo_value (\<lambda>_. 0) ECAT_DTYPE_INT16 (D_fin True 300 0)) = d_trunc (D_fin True 300 0)"
  by (rule sdo_value_on_the_wire)
    (simp_all add: sdo_value_in_range_def integer_type_def signed_type_def d_between_def)

text \<open>
  The range check lets the double \<open>2\<^sup>6\<^sup>3\<close> pass for both 64-bit types, although its conversion to
  \<^verbatim>\<open>int64_t\<close> is undefined: what is written is then whatever the platform's conversion gives.
\<close>

lemma sdo_int64_cast_undefined:
  "dt \<in> {ECAT_DTYPE_INT64, ECAT_DTYPE_UINT64} \<Longrightarrow>
   sdo_value_in_range dt (D_fin False 1 63) \<and> double_to_int64 (D_fin False 1 63) = None \<and>
   encode_sdo_value ub dt (D_fin False 1 63) = le_bytes 8 (of_int (ub (D_fin False 1 63)))"
  by (auto simp: sdo_value_in_range_def double_to_int64_def encode_sdo_value_def int64_cast_def d_between_def)

text \<open>
  The ticks written to a watchdog register are sixteen per configured millisecond, clamped to
  the longest time the register holds; the multiplication never wraps around.
\<close>

theorem watchdog_ticks_exact:
  "int (unat (watchdog_ticks ms)) = 16 * max 0 (min ms max_watchdog_ms) \<and>
   int (unat (watchdog_ticks ms)) \<le> 65535 \<and> (0 < ms \<longrightarrow> watchdog_ticks ms \<noteq> 0)"
proof -
  have "int (unat (of_int k :: u16)) = k" if "0 \<le> k" "k < 65536" for k
    using that by (simp add: unsigned_of_int take_bit_eq_mod)
  from this [of "16 * ms"] this [of "16 * max_watchdog_ms"]
  have "int (unat (watchdog_ticks ms)) = 16 * max 0 (min ms max_watchdog_ms)"
    by (auto simp: watchdog_ticks_def max_watchdog_ms_def mult.commute)
  moreover from this have "0 < ms \<longrightarrow> watchdog_ticks ms \<noteq> 0"
    by (auto simp: max_watchdog_ms_def)
  ultimately show ?thesis by (auto simp: max_watchdog_ms_def)
qed

theorem watchdog_ticks_exact_witness:
  "watchdog_ticks 100 = 1600 \<and> watchdog_ticks 100 \<noteq> 0"
  using watchdog_ticks_exact [of 100] by (simp add: watchdog_ticks_def max_watchdog_ms_def)

text \<open>
  Opening a closed master either succeeds with SOEM initialised, both buffers allocated and
  every slave reported in PRE-OP or above, or fails with SOEM closed again; the configuration is
  untouched and the buffers keep their recorded sizes in both cases.
\<close>

theorem open_and_scan_outcome:
  assumes "ecat_master_open_and_scan E h inst = (ok, h', inst')" and "\<not> i_soem_initialized inst"
  shows "buffers_wf inst' \<and> i_config inst' = i_config inst \<and>
    (if ok then scanned inst' else \<not> i_soem_initialized inst')"
  using open_and_scan_result [OF assms(1)] assms(2) by simp

theorem open_and_scan_outcome_witness:
  "\<exists>h' inst'. ecat_master_open_and_scan recording_env \<lparr>files = Map.empty, nic = 0\<rparr> one_slave_inst = (True, h', inst') \<and>
     buffers_wf inst' \<and> i_config inst' = i_config one_slave_inst \<and> (if True then scanned inst' else \<not> i_soem_initialized inst')"
proof -
  have "fst (ecat_master_open_and_scan recording_env \<lparr>files = Map.empty, nic = 0\<rparr> one_slave_inst)"
    by (simp add: ecat_master_open_and_scan_def Let_def case_prod_unfold scan_bus_def wait_preop_def
        ecat_master_instance_alloc_iomap_def ecat_master_instance_alloc_snapshot_def release_buffers_def
        ecat_master_validate_topology_def slave_matches_def all_preop_def longest_us_def recording_defs)
  then obtain h' inst' where r:
    "ecat_master_open_and_scan recording_env \<lparr>files = Map.empty, nic = 0\<rparr> one_slave_inst = (True, h', inst')"
    by (metis prod.collapse)
  moreover have "\<not> i_soem_initialized one_slave_inst" by (simp add: recording_defs)
  ultimately show ?thesis using open_and_scan_outcome by blast
qed

text \<open>
  Mapping process data keeps the buffers consistent on every path; when it succeeds, the map
  SOEM laid out is not empty and lies inside the buffer.
\<close>

theorem configure_within_buffer:
  assumes "ecat_master_configure S mem inst = (ok, inst')" and "buffers_wf inst"
  shows "buffers_wf inst' \<and>
    (ok \<longrightarrow> (\<exists>m. i_iomap inst' = Some m \<and> 0 < i_iomap_used_size inst' \<and> i_iomap_used_size inst' \<le> length m))"
  using configure_buffers [OF assms] by (auto simp: buffers_wf_def)

theorem configure_within_buffer_witness:
  "\<exists>inst' m. ecat_master_configure recording_soem (\<lambda>_. True)
       (one_slave_inst\<lparr>i_soem_initialized := True, i_ctx := recording_context []\<rparr>) = (True, inst') \<and>
     buffers_wf inst' \<and> i_iomap inst' = Some m \<and> 0 < i_iomap_used_size inst' \<and> i_iomap_used_size inst' \<le> length m"
proof -
  let ?i = "one_slave_inst\<lparr>i_soem_initialized := True, i_ctx := recording_context []\<rparr>"
  have "fst (ecat_master_configure recording_soem (\<lambda>_. True) ?i)"
    by (simp add: ecat_master_configure_def size_iomap_from_slaves_def ecat_master_instance_grow_iomap_def
        slave_mapped_bits_def coe_mapping_def ecat_master_configure_watchdog_def Let_def case_prod_unfold
        ECAT_IOMAP_MIN_BYTES_def recording_defs)
  then obtain inst' where "ecat_master_configure recording_soem (\<lambda>_. True) ?i = (True, inst')"
    by (metis prod.collapse)
  moreover have "buffers_wf ?i" by (simp add: buffers_wf_def recording_defs)
  ultimately show ?thesis using configure_within_buffer by blast
qed

text \<open>
  C20: closing a mapped master first sends at least one and at most three process-data frames, every one
  of them with all output bytes zero, then asks the slaves for INIT, and only then closes SOEM; these are all the
  calls it makes that act on the bus, in this order. Afterwards the map is released. The library is
  assumed to record its calls, to change inputs only when it receives, and not to send
  process data from its other calls.
\<close>

theorem close_sends_zero_outputs:
  fixes inst :: "soem_call list ecat_master_instance"
  assumes "records_calls n (e_soem E)" and "i_soem_initialized inst" and "i_iomap inst = Some m"
    and "n \<le> i_iomap_used_size inst" and "0 < i_iomap_used_size inst" and "i_iomap_used_size inst \<le> length m"
  shows "\<exists>ms. hidden (i_ctx (snd (ecat_master_close E h inst))) =
       hidden (i_ctx inst) @ map Call_send ms @ [Call_writestate 0 EC_STATE_INIT, Call_close] \<and>
     ms \<noteq> [] \<and> length ms \<le> 3 \<and> (\<forall>x\<in>set ms. take n x = zero_bytes n) \<and>
     \<not> i_soem_initialized (snd (ecat_master_close E h inst)) \<and>
     i_iomap (snd (ecat_master_close E h inst)) = None"
proof -
  have "\<not> i_soem_initialized (snd (ecat_master_close E h inst))"
    "i_iomap (snd (ecat_master_close E h inst)) = None"
    using assms(2) by (simp_all add: ecat_master_close_def release_buffers_def close_soem_def soem_closed_def
        Let_def case_prod_unfold)
  then show ?thesis
    using close_records [OF assms, of h] by (auto simp: ECAT_ZERO_OUTPUT_ATTEMPTS_def)
qed

theorem close_sends_zero_outputs_witness:
  "\<exists>ms. hidden (i_ctx (snd (ecat_master_close recording_env \<lparr>files = Map.empty, nic = 0\<rparr>
       (one_slave_inst\<lparr>i_soem_initialized := True, i_iomap := Some [7, 9, 1], i_iomap_used_size := 3\<rparr>)))) =
       map Call_send ms @ [Call_writestate 0 EC_STATE_INIT, Call_close] \<and>
     ms \<noteq> [] \<and> length ms \<le> 3 \<and> (\<forall>x\<in>set ms. take 2 x = [0, 0])"
proof -
  let ?i = "one_slave_inst\<lparr>i_soem_initialized := True, i_iomap := Some [7, 9, 1], i_iomap_used_size := 3\<rparr>"
  have h: "hidden (i_ctx ?i) = []" by (simp add: one_slave_inst_def zero_defs)
  have r: "records_calls 2 (e_soem recording_env)" by (simp add: recording_env_def recording_soem_records)
  have z: "zero_bytes 2 = [0, 0]" by (simp add: zero_bytes_def numeral_2_eq_2)
  have "\<exists>ms. hidden (i_ctx (snd (ecat_master_close recording_env \<lparr>files = Map.empty, nic = 0\<rparr> ?i))) =
       hidden (i_ctx ?i) @ map Call_send ms @ [Call_writestate 0 EC_STATE_INIT, Call_close] \<and>
     ms \<noteq> [] \<and> length ms \<le> 3 \<and> (\<forall>x\<in>set ms. take 2 x = zero_bytes 2) \<and>
     \<not> i_soem_initialized (snd (ecat_master_close recording_env \<lparr>files = Map.empty, nic = 0\<rparr> ?i)) \<and>
     i_iomap (snd (ecat_master_close recording_env \<lparr>files = Map.empty, nic = 0\<rparr> ?i)) = None"
    by (rule close_sends_zero_outputs [OF r, of ?i "[7, 9, 1]"]) simp_all
  then show ?thesis unfolding h z append_Nil by blast
qed

text \<open>
  The transition reports success only when the last state check found every slave
  OPERATIONAL, and the wait of one poll is never longer than a quarter of any enabled SM watchdog,
  unless SOEM's own reply timeout is longer, so process data keeps flowing during the transition.
\<close>

theorem transition_to_op_sound:
  assumes "ecat_master_transition_to_op S inst = (True, inst')"
  shows "i_soem_initialized inst \<and> es_state (slavelist (i_ctx inst') 0) = EC_STATE_OPERATIONAL \<and>
    (\<forall>s\<in>set (c_slaves (i_config inst)). sm_watchdog_enabled (watchdog s) \<and> 0 < sm_watchdog_ms (watchdog s) \<longrightarrow>
       poll_timeout (EC_TIMEOUTRET S) (c_slaves (i_config inst)) \<le>
         max (EC_TIMEOUTRET S) (sm_watchdog_ms (watchdog s) * 1000 div 4))"
proof -
  have "i_soem_initialized inst" "es_state (slavelist (i_ctx inst') 0) = EC_STATE_OPERATIONAL"
    using assms by (auto simp: ecat_master_transition_to_op_def Let_def poll_operational_state
        split: if_splits prod.splits bool.splits)
  moreover have "poll_timeout T ss \<le> max T (sm_watchdog_ms (watchdog s) * 1000 div 4)"
    if "s \<in> set ss" "sm_watchdog_enabled (watchdog s)" "0 < sm_watchdog_ms (watchdog s)" for T s ss
    using zdiv_mono1 [OF min_sm_watchdog_le [OF that], of 4]
    by (auto simp: poll_timeout_def Let_def max_def)
  ultimately show ?thesis by blast
qed

theorem transition_to_op_sound_witness:
  "\<exists>inst'. ecat_master_transition_to_op recording_soem (one_slave_inst\<lparr>i_soem_initialized := True\<rparr>) = (True, inst') \<and>
     es_state (slavelist (i_ctx inst') 0) = EC_STATE_OPERATIONAL"
proof -
  let ?i = "one_slave_inst\<lparr>i_soem_initialized := True\<rparr>"
  have "fst (poll_operational recording_soem p n x)" if "0 < n" for n p x
    using that by (cases n) (simp_all add: recording_soem_def Let_def)
  moreover have "es_state (slavelist (ecx_readstate recording_soem
      (ecx_statecheck recording_soem 0 EC_STATE_SAFE_OP t ctx)) 0) = EC_STATE_SAFE_OP" for t ctx
    by (simp add: recording_soem_def)
  ultimately have "fst (ecat_master_transition_to_op recording_soem ?i)"
    by (intro transition_to_op_succeeds) simp_all
  then obtain inst' where "ecat_master_transition_to_op recording_soem ?i = (True, inst')"
    by (metis prod.collapse)
  then show ?thesis using transition_to_op_sound by blast
qed

end
