(* ===== verification/Bus.thy ===== *)
theory Bus
  imports Master "HOL-Library.Signed_Division"
begin

text \<open>
  The masters of \<^verbatim>\<open>src/bus.c\<close>: starting and stopping one master, one cycle of its bus thread, one
  pass of its monitor thread, and the lifecycle of all masters. What a thread reads from its
  surroundings (clock readings, the datagrams waiting, whether a try-lock succeeded) is an argument
  of the step that reads it. The signed 64-bit diagnostic sums and the counters of consecutive
  errors are mathematical integers; the unsigned counters keep their width. Log output and
  scheduling parameters are left out.
\<close>

section \<open>Time\<close>

record timespec =
  tv_sec :: int
  tv_nsec :: int

definition timespec_to_ns :: "timespec \<Rightarrow> u64" where
  "timespec_to_ns ts = of_int (tv_sec ts) * 1000000000 + of_int (tv_nsec ts)"

definition elapsed_ns :: "timespec \<Rightarrow> timespec \<Rightarrow> u64" where
  "elapsed_ns t0 t1 =
     (let s = timespec_to_ns t0; e = timespec_to_ns t1 in if e > s then e - s else 0)"

definition ECAT_AVG_TARGET_WINDOW_NS :: int where "ECAT_AVG_TARGET_WINDOW_NS = 2000000000"

text \<open>One sample of an exponentially weighted average kept as a sum over \<open>window\<close> samples.\<close>

definition ewma :: "int \<Rightarrow> int \<Rightarrow> int \<Rightarrow> int" where
  "ewma window x acc = acc + (x - acc sdiv window)"

definition diag_reset :: ecat_cycle_diag where
  "diag_reset =
     zero_diag\<lparr>min_bus_cycle_ns := - 1, min_period_ns := - 1, min_latency_ns := 2 ^ 63 - 1\<rparr>"

section \<open>Names of AL states\<close>

definition EC_STATE_BOOT :: u16 where "EC_STATE_BOOT = 3"

definition al_state_to_string :: "u16 \<Rightarrow> string" where
  "al_state_to_string state =
     (let base = state AND 0x0F;
          name = (if base = EC_STATE_NONE then ''NONE''
                  else if base = EC_STATE_INIT then ''INIT''
                  else if base = EC_STATE_PRE_OP then ''PRE-OP''
                  else if base = EC_STATE_BOOT then ''BOOT''
                  else if base = EC_STATE_SAFE_OP then ''SAFE-OP''
                  else if base = EC_STATE_OPERATIONAL then ''OP''
                  else ''UNKNOWN'')
      in if state AND EC_STATE_ERROR = 0 then name
         else if base = EC_STATE_INIT then ''INIT+ERR''
         else if base = EC_STATE_PRE_OP then ''PRE-OP+ERR''
         else if base = EC_STATE_SAFE_OP then ''SAFE-OP+ERR''
         else ''UNKNOWN+ERR'')"

section \<open>Slaves snapshot\<close>

definition slave_status :: "'d ecat_master_instance \<Rightarrow> ecat_slave \<Rightarrow> ecat_slave_status" where
  "slave_status inst cfg =
     (let ss = zero_status\<lparr>ss_position := position cfg, ss_name := sv_name cfg\<rparr>
      in case ecat_master_get_slave inst (position cfg) of
           None \<Rightarrow> ss
         | Some soem \<Rightarrow> ss\<lparr>ss_al_state := es_state soem, ss_al_status_code := es_ALstatuscode soem\<rparr>)"

definition publish_slaves_snapshot ::
  "(nat \<Rightarrow> bool) \<Rightarrow> 'd ecat_master_instance \<Rightarrow> 'd ecat_master_instance" where
  "publish_slaves_snapshot mem inst =
     (case i_slaves_snapshot inst of
        None \<Rightarrow> inst
      | Some snap \<Rightarrow>
          if i_slaves_snapshot_capacity inst = 0 then inst
          else
            let n = min (length (c_slaves (i_config inst))) (i_slaves_snapshot_capacity inst)
            in if \<not> mem (if n > 0 then n else 1) then inst
               else
                 let local = map (slave_status inst) (take n (c_slaves (i_config inst)))
                 in inst\<lparr>i_slaves_snapshot := Some (local @ drop n snap), i_slaves_snapshot_count := n\<rparr>)"

section \<open>Recovery\<close>

definition ECAT_MAX_RECOVERY_ATTEMPTS :: int where "ECAT_MAX_RECOVERY_ATTEMPTS = 5"
definition ECAT_WKC_ERROR_THRESHOLD :: int where "ECAT_WKC_ERROR_THRESHOLD = 3"
definition ECAT_AL_FAULT_THRESHOLD :: int where "ECAT_AL_FAULT_THRESHOLD = 3"

lemmas threshold_defs = ECAT_MAX_RECOVERY_ATTEMPTS_def ECAT_WKC_ERROR_THRESHOLD_def
  ECAT_AL_FAULT_THRESHOLD_def

text \<open>The loop over the configured slaves; whether all of them were in OPERATIONAL.\<close>

fun recover_slaves ::
  "'d soem \<Rightarrow> ecat_slave list \<Rightarrow> bool \<Rightarrow> 'd ecat_master_instance \<Rightarrow> bool \<times> 'd ecat_master_instance" where
  "recover_slaves S [] all_ok inst = (all_ok, inst)"
| "recover_slaves S (slave # ss) all_ok inst =
     (if ecat_master_get_slave_state inst (position slave) \<noteq> EC_STATE_OPERATIONAL
      then recover_slaves S ss False (snd (ecat_master_recover_slave S (position slave) inst))
      else recover_slaves S ss all_ok inst)"

definition attempt_recovery :: "'d soem \<Rightarrow> 'd ecat_master_instance \<Rightarrow> int \<times> 'd ecat_master_instance" where
  "attempt_recovery S inst =
     (let inst = ecat_master_read_states S inst
      in case recover_slaves S (c_slaves (i_config inst)) True inst of
           (True, inst) \<Rightarrow>
             (1, inst\<lparr>i_recovery_attempts := 0, i_recovery_writestate_failures := 0,
                      i_consecutive_wkc_errors := 0\<rparr>)
         | (False, inst) \<Rightarrow>
             let attempts = i_recovery_attempts inst + 1;
                 inst = inst\<lparr>i_recovery_attempts := attempts\<rparr>
             in (if attempts \<ge> ECAT_MAX_RECOVERY_ATTEMPTS then - 1 else 0, inst))"

section \<open>Monitor thread\<close>

fun pop_errors :: "'d soem \<Rightarrow> nat \<Rightarrow> 'd ecx_context \<Rightarrow> 'd ecx_context" where
  "pop_errors S 0 ctx = ctx"
| "pop_errors S (Suc n) ctx =
     (case ecx_poperror S ctx of (got, ctx) \<Rightarrow> if got then pop_errors S n ctx else ctx)"

definition drain_mailbox_and_errors :: "'d soem \<Rightarrow> 'd ecat_master_instance \<Rightarrow> 'd ecat_master_instance" where
  "drain_mailbox_and_errors S inst =
     (if \<not> i_soem_initialized inst then inst
      else inst\<lparr>i_ctx := pop_errors S (EC_MAXELIST S) (ecx_mbxhandler S (i_ctx inst))\<rparr>)"

text \<open>What the monitor remembers between passes: replies and faults of the AL poll.\<close>

type_synonym mon_seen = "u64 \<times> u64"

text \<open>
  A pass reads the bus state once (\<open>state\<close>), works on it, stores a new state when recovery ended,
  and drains mailboxes in the state it then finds.
\<close>

definition monitor_work ::
  "'d soem \<Rightarrow> (nat \<Rightarrow> bool) \<Rightarrow> ecat_bus_state \<Rightarrow> mon_seen \<Rightarrow> 'd ecat_master_instance \<Rightarrow>
   int \<times> mon_seen \<times> 'd ecat_master_instance" where
  "monitor_work S mem state seen inst =
     (case state of
        ECAT_STATE_OPERATIONAL \<Rightarrow>
          let replies = i_al_replies inst; faults = i_al_faults inst;
              inst = (if replies \<noteq> fst seen \<and> faults = snd seen
                      then ecat_master_mark_all_operational inst else ecat_master_read_states S inst)
          in (0, (replies, faults), publish_slaves_snapshot mem inst)
      | ECAT_STATE_RECOVERING \<Rightarrow>
          (case attempt_recovery S inst of
             (result, inst) \<Rightarrow> (result, seen, publish_slaves_snapshot mem inst))
      | _ \<Rightarrow> (0, seen, inst))"

definition monitor_store :: "int \<Rightarrow> 'd ecat_master_instance \<Rightarrow> 'd ecat_master_instance" where
  "monitor_store result inst =
     (if result = 1 then inst\<lparr>i_bus_state := ECAT_STATE_OPERATIONAL\<rparr>
      else if result = - 1 then inst\<lparr>i_bus_state := ECAT_STATE_ERROR\<rparr>
      else inst)"

definition exchanging :: "ecat_bus_state \<Rightarrow> bool" where
  "exchanging st \<longleftrightarrow> st = ECAT_STATE_OPERATIONAL \<or> st = ECAT_STATE_RECOVERING"

definition monitor_mailbox :: "'d soem \<Rightarrow> 'd ecat_master_instance \<Rightarrow> 'd ecat_master_instance" where
  "monitor_mailbox S inst =
     (if exchanging (i_bus_state inst) then drain_mailbox_and_errors S inst else inst)"

definition monitor_pass ::
  "'d soem \<Rightarrow> (nat \<Rightarrow> bool) \<Rightarrow> mon_seen \<Rightarrow> 'd ecat_master_instance \<Rightarrow> mon_seen \<times> 'd ecat_master_instance" where
  "monitor_pass S mem seen inst =
     (case monitor_work S mem (i_bus_state inst) seen inst of
        (result, seen, inst) \<Rightarrow> (seen, monitor_mailbox S (monitor_store result inst)))"

section \<open>Starting a master\<close>

definition ECAT_MIN_RECEIVE_TIMEOUT_US :: int where "ECAT_MIN_RECEIVE_TIMEOUT_US = 200"

definition set_bus_state :: "ecat_bus_state \<Rightarrow> 'd ecat_master_instance \<Rightarrow> 'd ecat_master_instance" where
  "set_bus_state st inst = inst\<lparr>i_bus_state := st\<rparr>"

text \<open>The failure exits of \<^verbatim>\<open>start_single_master\<close>.\<close>

definition abort_start ::
  "('d, 'w) env \<Rightarrow> 'w host \<Rightarrow> 'd ecat_master_instance \<Rightarrow> bool \<times> 'w host \<times> 'd ecat_master_instance" where
  "abort_start E h inst =
     (case ecat_master_close E h inst of (h, inst) \<Rightarrow> (False, h, set_bus_state ECAT_STATE_ERROR inst))"

fun write_startup_sdos ::
  "(cdouble \<Rightarrow> int) \<Rightarrow> 'd soem \<Rightarrow> ecat_slave list \<Rightarrow> 'd ecat_master_instance \<Rightarrow> bool \<times> 'd ecat_master_instance" where
  "write_startup_sdos ub S [] inst = (True, inst)"
| "write_startup_sdos ub S (slave # ss) inst =
     (if sdo_configs slave = [] then write_startup_sdos ub S ss inst
      else case ecat_master_write_sdos ub S (position slave) (sdo_configs slave)
                  (sdo_timeout_ms (timeouts slave)) inst of
             (rc, inst) \<Rightarrow>
               if \<not> rc \<and> strict_sdo slave then (False, inst) else write_startup_sdos ub S ss inst)"

definition avg_window_of :: "ecat_config \<Rightarrow> int" where
  "avg_window_of config =
     (let cycle_ns = cycle_time_us (c_master config) * 1000;
          w = (if cycle_ns > 0 then ECAT_AVG_TARGET_WINDOW_NS div cycle_ns else 1)
      in if w < 1 then 1 else w)"

definition reset_counters :: "'d ecat_master_instance \<Rightarrow> 'd ecat_master_instance" where
  "reset_counters inst =
     inst\<lparr>i_consecutive_wkc_errors := 0, i_recovery_attempts := 0, i_recovery_writestate_failures := 0,
          i_cycle_counter := 0, i_diag := diag_reset, i_avg_window := avg_window_of (i_config inst),
          i_overruns := 0, i_consecutive_al_faults := 0, i_al_status := 0, i_al_wkc := 0,
          i_al_replies := 0, i_al_misses := 0, i_al_faults := 0, i_recovery_al_trigger := 0\<rparr>"

text \<open>The last phase before the threads: counters, OPERATIONAL, the first exchange and snapshot.\<close>

definition go_operational :: "('d, 'w) env \<Rightarrow> 'd ecat_master_instance \<Rightarrow> 'd ecat_master_instance" where
  "go_operational E inst =
     (let inst = set_bus_state ECAT_STATE_OPERATIONAL (reset_counters inst);
          inst = snd (ecat_master_exchange_processdata (e_soem E) (i_receive_timeout_us inst) inst)
      in publish_slaves_snapshot (e_mem E) inst)"

text \<open>
  The two threads, as \<^verbatim>\<open>pthread_create\<close> permits. A running flag is stored before its thread is created
  and taken back when that fails; in \<^verbatim>\<open>Bus_Threads\<close> each of these stores is a step of its own.
\<close>

definition launch_threads :: "bool \<Rightarrow> bool \<Rightarrow> 'd ecat_master_instance \<Rightarrow> bool \<times> 'd ecat_master_instance" where
  "launch_threads mon_ok bus_ok inst =
     (let inst = inst\<lparr>i_monitor_running := True\<rparr>
      in if \<not> mon_ok then (False, set_bus_state ECAT_STATE_ERROR (inst\<lparr>i_monitor_running := False\<rparr>))
         else
           let inst = inst\<lparr>i_bus_running := True\<rparr>
           in if \<not> bus_ok then (False, set_bus_state ECAT_STATE_ERROR (inst\<lparr>i_bus_running := False\<rparr>))
              else (True, inst))"

definition start_mapped ::
  "('d, 'w) env \<Rightarrow> 'w host \<Rightarrow> 'd ecat_master_instance \<Rightarrow> bool \<times> 'w host \<times> 'd ecat_master_instance" where
  "start_mapped E h inst =
     (let inst = inst\<lparr>i_expected_wkc := ecat_master_get_expected_wkc inst,
                      i_receive_timeout_us :=
                        max (receive_timeout_us (c_master (i_config inst))) ECAT_MIN_RECEIVE_TIMEOUT_US\<rparr>;
          inst = set_bus_state ECAT_STATE_TRANSITIONING inst
      in case ecat_master_transition_to_op (e_soem E) inst of
           (False, inst) \<Rightarrow> abort_start E h inst
         | (True, inst) \<Rightarrow> (True, h, go_operational E inst))"

definition configure_master ::
  "('d, 'w) env \<Rightarrow> (cdouble \<Rightarrow> int) \<Rightarrow> 'd ecat_master_instance \<Rightarrow> bool \<times> 'd ecat_master_instance" where
  "configure_master E ub inst =
     (case write_startup_sdos ub (e_soem E) (c_slaves (i_config inst)) inst of
        (False, inst) \<Rightarrow> (False, inst)
      | (True, inst) \<Rightarrow>
          (case ecat_master_verify_fixed_pdos (e_soem E) inst of
             (False, inst) \<Rightarrow> (False, inst)
           | (True, inst) \<Rightarrow>
               (case ecat_master_configure (e_soem E) (e_mem E) inst of
                  (False, inst) \<Rightarrow> (False, inst)
                | (True, inst) \<Rightarrow>
                    (case ecat_layout_build (e_mem E) inst of
                       (False, inst) \<Rightarrow> (False, inst\<lparr>i_layout := ecat_layout_destroy\<rparr>)
                     | (True, inst) \<Rightarrow>
                         (case ecat_data_alloc_buffers (e_mem E) inst of
                            (False, inst) \<Rightarrow> (False, inst\<lparr>i_layout := ecat_layout_destroy\<rparr>)
                          | (True, inst) \<Rightarrow> (True, inst))))))"

text \<open>Everything before the threads are created.\<close>

definition prepare_start ::
  "('d, 'w) env \<Rightarrow> (cdouble \<Rightarrow> int) \<Rightarrow> 'w host \<Rightarrow> 'd ecat_master_instance \<Rightarrow> bool \<times> 'w host \<times> 'd ecat_master_instance" where
  "prepare_start E ub h inst =
     (if c_slaves (i_config inst) = [] then (False, h, inst)
      else case ecat_master_open_and_scan E h (set_bus_state ECAT_STATE_SCANNING inst) of
             (False, h, inst) \<Rightarrow> abort_start E h inst
           | (True, h, inst) \<Rightarrow>
               (case configure_master E ub (set_bus_state ECAT_STATE_CONFIGURING inst) of
                  (False, inst) \<Rightarrow> abort_start E h inst
                | (True, inst) \<Rightarrow> start_mapped E h inst))"

definition start_single_master ::
  "('d, 'w) env \<Rightarrow> (cdouble \<Rightarrow> int) \<Rightarrow> bool \<Rightarrow> bool \<Rightarrow> 'w host \<Rightarrow> 'd ecat_master_instance \<Rightarrow>
   bool \<times> 'w host \<times> 'd ecat_master_instance" where
  "start_single_master E ub mon_ok bus_ok h inst =
     (case prepare_start E ub h inst of
        (False, h, inst) \<Rightarrow> (False, h, inst)
      | (True, h, inst) \<Rightarrow> (case launch_threads mon_ok bus_ok inst of (ok, inst) \<Rightarrow> (ok, h, inst)))"

section \<open>Stopping a master\<close>

text \<open>What a stop does once it has waited for the threads whose running flags were set.\<close>

definition close_stopped ::
  "('d, 'w) env \<Rightarrow> 'w host \<Rightarrow> 'd ecat_master_instance \<Rightarrow> 'w host \<times> 'd ecat_master_instance" where
  "close_stopped E h inst =
     (let inst = ecat_data_free_buffers (ecat_data_close inst);
          inst = inst\<lparr>i_layout := ecat_layout_destroy, i_consecutive_wkc_errors := 0,
                      i_recovery_attempts := 0, i_recovery_writestate_failures := 0,
                      i_expected_wkc := 0\<rparr>
      in case ecat_master_close E h inst of
           (h, inst) \<Rightarrow>
             (h, (set_bus_state ECAT_STATE_STOPPED inst)
                   \<lparr>i_slaves_snapshot := map_option (map (\<lambda>_. zero_status)) (i_slaves_snapshot inst),
                    i_slaves_snapshot_count := 0\<rparr>))"

definition stop_single_master ::
  "('d, 'w) env \<Rightarrow> 'w host \<Rightarrow> 'd ecat_master_instance \<Rightarrow> 'w host \<times> 'd ecat_master_instance" where
  "stop_single_master E h inst =
     (if i_bus_state inst = ECAT_STATE_STOPPED \<or> i_bus_state inst = ECAT_STATE_IDLE then (h, inst)
      else
        let inst = (if i_bus_running inst then inst\<lparr>i_bus_running := False\<rparr> else inst);
            inst = (if i_monitor_running inst then inst\<lparr>i_monitor_running := False\<rparr> else inst)
        in close_stopped E h inst)"

section \<open>One cycle of the bus thread\<close>

definition EC_NOFRAME :: int where "EC_NOFRAME = - 1"

definition ecat_al_poll_healthy :: "u16 \<Rightarrow> int \<Rightarrow> int \<Rightarrow> bool" where
  "ecat_al_poll_healthy al_status wkc slave_count \<longleftrightarrow>
     slave_count > 0 \<and> wkc \<ge> slave_count \<and>
     al_status AND (0x0F OR EC_STATE_ERROR) = EC_STATE_OPERATIONAL"

definition ecat_master_get_iomap :: "'d ecat_master_instance \<Rightarrow> bytes option" where
  "ecat_master_get_iomap inst = (if \<not> i_soem_initialized inst then None else i_iomap inst)"

definition record_al_reply :: "u16 \<Rightarrow> int \<Rightarrow> 'd ecat_master_instance \<Rightarrow> 'd ecat_master_instance" where
  "record_al_reply al_status al_wkc inst =
     (let inst = inst\<lparr>i_al_status := al_status, i_al_wkc := al_wkc\<rparr>;
          inst = (if ecat_al_poll_healthy al_status al_wkc (int (slavecount (i_ctx inst)))
                  then inst\<lparr>i_consecutive_al_faults := 0\<rparr>
                  else inst\<lparr>i_consecutive_al_faults := i_consecutive_al_faults inst + 1,
                            i_al_faults := i_al_faults inst + 1\<rparr>)
      in inst\<lparr>i_al_replies := i_al_replies inst + 1\<rparr>)"

definition collect_al_poll :: "'d soem \<Rightarrow> nat option \<Rightarrow> 'd ecat_master_instance \<Rightarrow> 'd ecat_master_instance" where
  "collect_al_poll S al_idx inst =
     (case al_idx of
        None \<Rightarrow> inst\<lparr>i_al_misses := i_al_misses inst + 1\<rparr>
      | Some idx \<Rightarrow>
          (case ecat_master_al_poll_collect S idx inst of
             (None, inst) \<Rightarrow> inst\<lparr>i_al_misses := i_al_misses inst + 1\<rparr>
           | (Some (al_status, al_wkc), inst) \<Rightarrow> record_al_reply al_status al_wkc inst))"

text \<open>What one cycle reads from its surroundings.\<close>

record cycle_io =
  ci_out_locked :: bool
  ci_dgrams :: "(bytes \<times> sockaddr) list"
  ci_exch_start :: timespec
  ci_exch_end :: timespec
  ci_in_locked :: bool
  ci_sent :: bool

definition record_exchange :: "bool \<Rightarrow> bool \<Rightarrow> u64 \<Rightarrow> int \<Rightarrow> ecat_cycle_diag \<Rightarrow> ecat_cycle_diag" where
  "record_exchange wkc_error noframe exchange_ns window g =
     g\<lparr>bus_cycle_ns := exchange_ns,
       wkc_error_count := wkc_error_count g + (if wkc_error then 1 else 0),
       noframe_count := noframe_count g + (if wkc_error \<and> noframe then 1 else 0),
       cycle_count := cycle_count g + 1,
       avg_bus_cycle_ns_sum := ewma window (sint exchange_ns) (avg_bus_cycle_ns_sum g),
       max_bus_cycle_ns := (if exchange_ns > max_bus_cycle_ns g then exchange_ns else max_bus_cycle_ns g),
       min_bus_cycle_ns := (if exchange_ns < min_bus_cycle_ns g then exchange_ns else min_bus_cycle_ns g)\<rparr>"

text \<open>
  The exchange of a cycle that read \<open>state\<close> at its beginning: outputs, AL poll, process data,
  inputs, counters. The result is the working counter, the frame published and the instance.
\<close>

definition cycle_exchange ::
  "'d soem \<Rightarrow> u8 \<Rightarrow> cycle_io \<Rightarrow> ecat_bus_state \<Rightarrow> 'd ecat_master_instance \<Rightarrow>
   int \<times> bytes option \<times> 'd ecat_master_instance" where
  "cycle_exchange S master_index io state inst =
     (let inst = ecat_data_apply_outputs (ci_out_locked io) (ci_dgrams io) master_index inst
      in case ecat_master_al_poll_send S inst of
           (al_idx, inst) \<Rightarrow>
             (case ecat_master_exchange_processdata S (i_receive_timeout_us inst) inst of
                (wkc, inst) \<Rightarrow>
                  let inst = collect_al_poll S al_idx inst
                  in case ecat_data_publish_inputs (ci_in_locked io) (ci_sent io) master_index wkc
                            (state = ECAT_STATE_OPERATIONAL) (wkc \<ge> i_expected_wkc inst) inst of
                       (frame, inst) \<Rightarrow>
                         let inst = inst\<lparr>i_cycle_counter := i_cycle_counter inst + 1,
                               i_diag := record_exchange (wkc < i_expected_wkc inst) (wkc = EC_NOFRAME)
                                 (elapsed_ns (ci_exch_start io) (ci_exch_end io))
                                 (i_avg_window inst) (i_diag inst)\<rparr>
                         in (wkc, frame, inst)))"

text \<open>The end of the cycle: consecutive errors and the step to RECOVERING.\<close>

definition cycle_decide :: "ecat_bus_state \<Rightarrow> int \<Rightarrow> 'd ecat_master_instance \<Rightarrow> 'd ecat_master_instance" where
  "cycle_decide state wkc inst =
     (let wkc_error = (wkc < i_expected_wkc inst);
          consec = (if wkc_error then i_consecutive_wkc_errors inst + 1 else 0);
          inst = inst\<lparr>i_consecutive_wkc_errors := consec\<rparr>
      in if state = ECAT_STATE_OPERATIONAL \<and> consec \<ge> ECAT_WKC_ERROR_THRESHOLD then
           inst\<lparr>i_recovery_al_trigger := 0, i_bus_state := ECAT_STATE_RECOVERING\<rparr>
         else if state = ECAT_STATE_OPERATIONAL \<and> i_consecutive_al_faults inst \<ge> ECAT_AL_FAULT_THRESHOLD then
           inst\<lparr>i_recovery_al_trigger := 0x10000 OR ucast (i_al_status inst),
                i_bus_state := ECAT_STATE_RECOVERING\<rparr>
         else inst)"

definition ecat_run_one_cycle ::
  "'d soem \<Rightarrow> u8 \<Rightarrow> cycle_io \<Rightarrow> 'd ecat_master_instance \<Rightarrow> bool \<times> bytes option \<times> 'd ecat_master_instance" where
  "ecat_run_one_cycle S master_index io inst =
     (let state = i_bus_state inst
      in if \<not> exchanging state then (False, None, inst)
         else if ecat_master_get_iomap inst = None then (False, None, inst)
         else case cycle_exchange S master_index io state inst of
                (wkc, frame, inst) \<Rightarrow> (True, frame, cycle_decide state wkc inst))"

section \<open>The loop of the bus thread\<close>

definition next_deadline :: "int \<Rightarrow> timespec \<Rightarrow> timespec" where
  "next_deadline interval_ns t =
     (let nsec = tv_nsec t + interval_ns mod 1000000000; sec = tv_sec t + interval_ns div 1000000000
      in if nsec \<ge> 1000000000 then \<lparr>tv_sec = sec + 1, tv_nsec = nsec - 1000000000\<rparr>
         else \<lparr>tv_sec = sec, tv_nsec = nsec\<rparr>)"

definition interval_of :: "ecat_config \<Rightarrow> int" where
  "interval_of config =
     (let i = cycle_time_us (c_master config) * 1000 in if i \<le> 0 then 1000000 else i)"

definition record_latency :: "int \<Rightarrow> int \<Rightarrow> ecat_cycle_diag \<Rightarrow> ecat_cycle_diag" where
  "record_latency window lat g =
     g\<lparr>latency_ns := lat,
       min_latency_ns := (if lat < min_latency_ns g then lat else min_latency_ns g),
       max_latency_ns := (if lat > max_latency_ns g then lat else max_latency_ns g),
       avg_latency_ns_sum := ewma window lat (avg_latency_ns_sum g)\<rparr>"

definition record_period :: "int \<Rightarrow> u64 \<Rightarrow> ecat_cycle_diag \<Rightarrow> ecat_cycle_diag" where
  "record_period window per g =
     g\<lparr>period_ns := per,
       min_period_ns := (if per < min_period_ns g then per else min_period_ns g),
       max_period_ns := (if per > max_period_ns g then per else max_period_ns g),
       avg_period_ns_sum := ewma window (sint per) (avg_period_ns_sum g)\<rparr>"

text \<open>The locals of the loop: the deadline and the previous wake-up; one iteration of it.\<close>

record bus_locals =
  bl_next_wakeup :: timespec
  bl_prev_wake :: "u64 option"

definition bus_wake ::
  "timespec \<Rightarrow> bus_locals \<Rightarrow> 'd ecat_master_instance \<Rightarrow> bus_locals \<times> 'd ecat_master_instance" where
  "bus_wake wake l inst =
     (let now = timespec_to_ns wake; window = i_avg_window inst;
          lat = sint now - sint (timespec_to_ns (bl_next_wakeup l));
          g = record_latency window lat (i_diag inst);
          g = (case bl_prev_wake l of None \<Rightarrow> g | Some prev \<Rightarrow> record_period window (now - prev) g)
      in (l\<lparr>bl_prev_wake := Some now\<rparr>, inst\<lparr>i_diag := g\<rparr>))"

definition bus_finish ::
  "timespec \<Rightarrow> bus_locals \<Rightarrow> 'd ecat_master_instance \<Rightarrow> bus_locals \<times> 'd ecat_master_instance" where
  "bus_finish fin l inst =
     (let nxt = next_deadline (interval_of (i_config inst)) (bl_next_wakeup l)
      in (l\<lparr>bl_next_wakeup := nxt\<rparr>,
          inst\<lparr>i_overruns := i_overruns inst + (if timespec_to_ns fin > timespec_to_ns nxt then 1 else 0)\<rparr>))"

definition bus_iteration ::
  "'d soem \<Rightarrow> u8 \<Rightarrow> timespec \<Rightarrow> timespec \<Rightarrow> cycle_io \<Rightarrow> bus_locals \<Rightarrow> 'd ecat_master_instance \<Rightarrow>
   bytes option \<times> bus_locals \<times> 'd ecat_master_instance" where
  "bus_iteration S master_index wake fin io l inst =
     (case bus_wake wake l inst of
        (l, inst) \<Rightarrow>
          (case ecat_run_one_cycle S master_index io inst of
             (_, frame, inst) \<Rightarrow> (frame, bus_finish fin l inst)))"

section \<open>All masters\<close>

text \<open>
  \<open>g_leaked\<close> is not a variable of the program: it keeps the masters that a refused free has left behind, to
  which no pointer leads any more while their threads go on.
\<close>

record 'd bus =
  g_masters :: "'d ecat_master_instance list"
  g_config_path :: string
  g_leaked :: "'d ecat_master_instance list"

definition ecat_bus_any_active :: "'d bus \<Rightarrow> bool" where
  "ecat_bus_any_active b =
     list_ex (\<lambda>inst. i_bus_state inst \<notin> {ECAT_STATE_IDLE, ECAT_STATE_STOPPED, ECAT_STATE_ERROR}) (g_masters b)"

text \<open>\<open>None\<close>: a thread still runs and nothing was freed.\<close>

definition destroy_instance :: "'d ecat_master_instance \<Rightarrow> 'd ecat_master_instance option" where
  "destroy_instance inst =
     (if i_bus_running inst \<or> i_monitor_running inst then None
      else Some (ecat_master_instance_destroy (ecat_data_destroy inst)))"

text \<open>Whether the array was freed, and the bus without masters; those with a thread left are leaked.\<close>

definition free_masters :: "'d bus \<Rightarrow> bool \<times> 'd bus" where
  "free_masters b =
     (let kept = filter (\<lambda>inst. destroy_instance inst = None) (g_masters b)
      in (kept = [], b\<lparr>g_masters := [], g_leaked := g_leaked b @ kept\<rparr>))"

definition new_instance :: "'d soem \<Rightarrow> string \<times> ecat_config \<Rightarrow> 'd ecat_master_instance" where
  "new_instance S nc =
     (zero_instance (hidden (ecx_zero_context S)))
       \<lparr>i_ctx := ecx_zero_context S, i_name := fst nc, i_config := snd nc\<rparr>"

text \<open>
  \<open>path\<close> is NULL or the path given, \<open>file\<close> what it holds, \<open>mem\<close> and \<open>parse_mem\<close> allocation, and
  \<open>locks i\<close> whether the locks of master \<open>i\<close> could be initialised.
\<close>

definition ecat_bus_configure ::
  "'d soem \<Rightarrow> (nat \<Rightarrow> bool) \<Rightarrow> (json \<Rightarrow> bool) \<Rightarrow> (string \<Rightarrow> json option) \<Rightarrow> (nat \<Rightarrow> bool) \<Rightarrow>
   string option \<Rightarrow> string option \<Rightarrow> 'd bus \<Rightarrow> bool \<times> 'd bus" where
  "ecat_bus_configure S mem parse_mem cJSON_Parse locks path file b =
     (if ecat_bus_any_active b then (False, b)
      else if path = None \<or> path = Some [] then (True, (snd (free_masters b))\<lparr>g_config_path := []\<rparr>)
      else if \<not> mem ECAT_MAX_MASTERS then (False, b)
      else case ecat_config_parse_all parse_mem cJSON_Parse file ECAT_MAX_MASTERS of
             Inl _ \<Rightarrow> (False, b)
           | Inr insts \<Rightarrow>
               if insts = [] then (False, b)
               else if \<not> list_all locks [0..<length insts] then (False, b)
               else
                 let temp = map (\<lambda>nc. set_bus_state ECAT_STATE_IDLE
                                   ((ecat_data_init (new_instance S nc))\<lparr>i_diag := diag_reset\<rparr>)) insts
                 in (True, (snd (free_masters b))\<lparr>g_masters := temp, g_config_path := take 511 (the path)\<rparr>))"

text \<open>\<open>threads i\<close>: whether the monitor and the bus thread of master \<open>i\<close> could be created.\<close>

fun start_masters ::
  "('d, 'w) env \<Rightarrow> (cdouble \<Rightarrow> int) \<Rightarrow> (bool \<times> bool) list \<Rightarrow> 'w host \<Rightarrow> 'd ecat_master_instance list \<Rightarrow>
   nat \<times> 'w host \<times> 'd ecat_master_instance list" where
  "start_masters E ub threads h [] = (0, h, [])"
| "start_masters E ub threads h (inst # is) =
     (let t = (case threads of [] \<Rightarrow> (True, True) | x # _ \<Rightarrow> x)
      in case (if exchanging (i_bus_state inst) then (True, h, inst)
               else if i_bus_state inst \<notin> {ECAT_STATE_IDLE, ECAT_STATE_STOPPED, ECAT_STATE_ERROR}
               then (False, h, inst)
               else start_single_master E ub (fst t) (snd t) h inst) of
           (ok, h, inst) \<Rightarrow>
             (case start_masters E ub (tl threads) h is of
                (started, h, is) \<Rightarrow> ((if ok then 1 else 0) + started, h, inst # is)))"

definition ecat_bus_start ::
  "('d, 'w) env \<Rightarrow> (cdouble \<Rightarrow> int) \<Rightarrow> (bool \<times> bool) list \<Rightarrow> 'w host \<Rightarrow> 'd bus \<Rightarrow> nat option \<times> 'w host \<times> 'd bus" where
  "ecat_bus_start E ub threads h b =
     (if g_masters b = [] then (None, h, b)
      else case start_masters E ub threads h (g_masters b) of
             (started, h, is) \<Rightarrow> (if started = 0 then None else Some started, h, b\<lparr>g_masters := is\<rparr>))"

fun stop_masters ::
  "('d, 'w) env \<Rightarrow> 'w host \<Rightarrow> 'd ecat_master_instance list \<Rightarrow> 'w host \<times> 'd ecat_master_instance list" where
  "stop_masters E h [] = (h, [])"
| "stop_masters E h (inst # is) =
     (case stop_single_master E h inst of
        (h, inst) \<Rightarrow> (case stop_masters E h is of (h, is) \<Rightarrow> (h, inst # is)))"

definition ecat_bus_stop :: "('d, 'w) env \<Rightarrow> 'w host \<Rightarrow> 'd bus \<Rightarrow> 'w host \<times> 'd bus" where
  "ecat_bus_stop E h b = (case stop_masters E h (g_masters b) of (h, is) \<Rightarrow> (h, b\<lparr>g_masters := is\<rparr>))"

definition ecat_bus_shutdown :: "('d, 'w) env \<Rightarrow> 'w host \<Rightarrow> 'd bus \<Rightarrow> 'w host \<times> bool \<times> 'd bus" where
  "ecat_bus_shutdown E h b = (case ecat_bus_stop E h b of (h, b) \<Rightarrow> (h, free_masters b))"

end
