(* ===== verification/Bus_Fields.thy ===== *)
theory Bus_Fields
  imports Bus Data_Session Master_Sound
begin

text \<open>
  Which fields of an instance each operation of the bus writes: the lemmas the proofs about
  starting, stopping, cycles and threads share. Then the arithmetic of the running averages.
\<close>

section \<open>Which fields an operation writes\<close>

lemma after_drain_shape:
  "\<exists>d m. after_drain off a b inst = inst\<lparr>i_data := d, i_iomap := m\<rparr>"
  by (rule exI [of _ "i_data (after_drain off a b inst)"], rule exI [of _ "i_iomap (after_drain off a b inst)"],
      cases inst) (simp add: after_drain_def zero_outputs_def set_region_def Let_def)

lemma apply_outputs_shape:
  "\<exists>d m. ecat_data_apply_outputs locked dgrams k inst = inst\<lparr>i_data := d, i_iomap := m\<rparr>"
proof -
  have same: "\<exists>d m. inst = inst\<lparr>i_data := d, i_iomap := m\<rparr>"
    by (rule exI [of _ "i_data inst"], rule exI [of _ "i_iomap inst"]) simp
  have zero: "\<exists>d m. zero_outputs off inst = inst\<lparr>i_data := d, i_iomap := m\<rparr>" for off
    by (rule exI [of _ "i_data (zero_outputs off inst)"], rule exI [of _ "i_iomap (zero_outputs off inst)"],
        cases inst) (simp add: zero_outputs_def set_region_def Let_def)
  have "\<exists>d' m. after_drain off a b (inst\<lparr>i_data := d\<rparr>) = inst\<lparr>i_data := d', i_iomap := m\<rparr>" for off a b d
    using after_drain_shape [of off a b "inst\<lparr>i_data := d\<rparr>"] by simp
  with same zero show ?thesis
    by (simp add: ecat_data_apply_outputs_def split: option.split prod.split)
qed

lemma publish_inputs_shape:
  "\<exists>d. snd (ecat_data_publish_inputs locked sent k wkc op ok inst) = inst\<lparr>i_data := d\<rparr>"
proof -
  have "\<exists>d. inst = inst\<lparr>i_data := d\<rparr>" by (rule exI [of _ "i_data inst"]) simp
  then show ?thesis by (simp add: ecat_data_publish_inputs_def Let_def) blast
qed

lemma exchange_shape: "\<exists>c m. snd (exchange S t inst) = inst\<lparr>i_ctx := c, i_iomap := m\<rparr>"
  by (auto simp: exchange_def Let_def split: prod.split)

lemma al_poll_send_shape: "\<exists>c. snd (ecat_master_al_poll_send S inst) = inst\<lparr>i_ctx := c\<rparr>"
  by (auto simp: ecat_master_al_poll_send_def split: prod.split)

lemma al_poll_collect_shape: "\<exists>c. snd (ecat_master_al_poll_collect S idx inst) = inst\<lparr>i_ctx := c\<rparr>"
  by (auto simp: ecat_master_al_poll_collect_def split: prod.split)

lemma collect_al_poll_fields [simp]:
  "i_bus_state (collect_al_poll S idx inst) = i_bus_state inst"
  "i_expected_wkc (collect_al_poll S idx inst) = i_expected_wkc inst"
  "i_consecutive_wkc_errors (collect_al_poll S idx inst) = i_consecutive_wkc_errors inst"
  "i_recovery_attempts (collect_al_poll S idx inst) = i_recovery_attempts inst"
  "i_bus_running (collect_al_poll S idx inst) = i_bus_running inst"
  "i_monitor_running (collect_al_poll S idx inst) = i_monitor_running inst"
  "i_diag (collect_al_poll S idx inst) = i_diag inst"
  "i_config (collect_al_poll S idx inst) = i_config inst"
  "i_soem_initialized (collect_al_poll S idx inst) = i_soem_initialized inst"
  "i_avg_window (collect_al_poll S idx inst) = i_avg_window inst"
  using al_poll_collect_shape [of S "the idx" inst]
  by (auto simp: collect_al_poll_def record_al_reply_def Let_def split: option.split prod.split)

section \<open>One cycle\<close>

lemma cycle_exchange_fields:
  assumes "cycle_exchange S k io st inst = (wkc, frame, x)"
  shows "i_bus_state x = i_bus_state inst" "i_expected_wkc x = i_expected_wkc inst"
    "i_consecutive_wkc_errors x = i_consecutive_wkc_errors inst"
    "i_recovery_attempts x = i_recovery_attempts inst" "i_bus_running x = i_bus_running inst"
    "i_monitor_running x = i_monitor_running inst" "i_config x = i_config inst"
    "i_soem_initialized x = i_soem_initialized inst" "i_avg_window x = i_avg_window inst"
    "i_diag x = record_exchange (wkc < i_expected_wkc inst) (wkc = EC_NOFRAME)
       (elapsed_ns (ci_exch_start io) (ci_exch_end io)) (i_avg_window inst) (i_diag inst)"
proof -
  let ?a = "ecat_data_apply_outputs (ci_out_locked io) (ci_dgrams io) k inst"
  obtain d m where a: "?a = inst\<lparr>i_data := d, i_iomap := m\<rparr>" using apply_outputs_shape by blast
  obtain idx b where send: "ecat_master_al_poll_send S ?a = (idx, b)" by force
  then obtain c where b: "b = ?a\<lparr>i_ctx := c\<rparr>" using al_poll_send_shape [of S ?a] by auto
  obtain w e where exch: "ecat_master_exchange_processdata S (i_receive_timeout_us b) b = (w, e)" by force
  then obtain c' m' where e: "e = b\<lparr>i_ctx := c', i_iomap := m'\<rparr>"
    using exchange_shape [of S "if i_receive_timeout_us b > 0 then i_receive_timeout_us b else EC_TIMEOUTRET S" b]
    by (auto simp: ecat_master_exchange_processdata_def)
  let ?p = "collect_al_poll S idx e"
  obtain f g where pub: "ecat_data_publish_inputs (ci_in_locked io) (ci_sent io) k w
      (st = ECAT_STATE_OPERATIONAL) (w \<ge> i_expected_wkc ?p) ?p = (f, g)" by force
  then obtain d' where g: "g = ?p\<lparr>i_data := d'\<rparr>"
    using publish_inputs_shape [of "ci_in_locked io" "ci_sent io" k w] by (metis snd_conv)
  have "wkc = w" and x: "x = g\<lparr>i_cycle_counter := i_cycle_counter g + 1,
      i_diag := record_exchange (w < i_expected_wkc g) (w = EC_NOFRAME)
        (elapsed_ns (ci_exch_start io) (ci_exch_end io)) (i_avg_window g) (i_diag g)\<rparr>"
    using assms by (auto simp: cycle_exchange_def Let_def send exch pub [simplified])
  then show "i_bus_state x = i_bus_state inst" "i_expected_wkc x = i_expected_wkc inst"
    "i_consecutive_wkc_errors x = i_consecutive_wkc_errors inst"
    "i_recovery_attempts x = i_recovery_attempts inst" "i_bus_running x = i_bus_running inst"
    "i_monitor_running x = i_monitor_running inst" "i_config x = i_config inst"
    "i_soem_initialized x = i_soem_initialized inst" "i_avg_window x = i_avg_window inst"
    "i_diag x = record_exchange (wkc < i_expected_wkc inst) (wkc = EC_NOFRAME)
       (elapsed_ns (ci_exch_start io) (ci_exch_end io)) (i_avg_window inst) (i_diag inst)"
    by (simp_all add: g e b a)
qed

lemma cycle_exchange_wkc:
  assumes "cycle_exchange S k io st inst = (w, f, y)"
    and "ecat_master_al_poll_send S (ecat_data_apply_outputs (ci_out_locked io) (ci_dgrams io) k inst) = (idx, p)"
    and "ecat_master_exchange_processdata S (i_receive_timeout_us p) p = (wkc, q)"
  shows "w = wkc" and "i_consecutive_al_faults y = i_consecutive_al_faults (collect_al_poll S idx q)"
proof -
  have "i_consecutive_al_faults (snd (ecat_data_publish_inputs l t k v b c z)) = i_consecutive_al_faults z"
    for l t v b c and z :: "'a ecat_master_instance"
    using publish_inputs_shape [of l t k v b c z] by force
  then show "w = wkc" "i_consecutive_al_faults y = i_consecutive_al_faults (collect_al_poll S idx q)"
    using assms by (auto simp: cycle_exchange_def Let_def case_prod_unfold)
qed

lemma cycle_decide_fields [simp]:
  "i_expected_wkc (cycle_decide st wkc inst) = i_expected_wkc inst"
  "i_recovery_attempts (cycle_decide st wkc inst) = i_recovery_attempts inst"
  "i_bus_running (cycle_decide st wkc inst) = i_bus_running inst"
  "i_monitor_running (cycle_decide st wkc inst) = i_monitor_running inst"
  "i_diag (cycle_decide st wkc inst) = i_diag inst"
  "i_consecutive_al_faults (cycle_decide st wkc inst) = i_consecutive_al_faults inst"
  "i_consecutive_wkc_errors (cycle_decide st wkc inst) =
     (if wkc < i_expected_wkc inst then i_consecutive_wkc_errors inst + 1 else 0)"
  "i_bus_state (cycle_decide st wkc inst) =
     (if st = ECAT_STATE_OPERATIONAL \<and>
         (ECAT_WKC_ERROR_THRESHOLD \<le> (if wkc < i_expected_wkc inst then i_consecutive_wkc_errors inst + 1 else 0) \<or>
          ECAT_AL_FAULT_THRESHOLD \<le> i_consecutive_al_faults inst)
      then ECAT_STATE_RECOVERING else i_bus_state inst)"
  by (auto simp: cycle_decide_def Let_def)

section \<open>Averages\<close>

lemma ewma_step:
  assumes "1 \<le> n" and "0 \<le> x" and "x \<le> b" and "0 \<le> acc" and "acc \<le> n * b"
  shows "0 \<le> ewma n x acc \<and> ewma n x acc \<le> n * b"
proof -
  define q where "q = acc div n"
  have sd: "acc sdiv n = q" using assms by (simp add: q_def signed_divide_int_def sgn_if zdiv_int)
  have eq: "acc = q * n + acc mod n" "0 \<le> acc mod n" "acc mod n < n" using assms(1) by (simp_all add: q_def)
  have q0: "0 \<le> q" using assms by (simp add: q_def pos_imp_zdiv_nonneg_iff)
  have qb: "q \<le> b"
  proof -
    have "acc div n \<le> (n * b) div n" using assms by (intro zdiv_mono1) simp_all
    then show ?thesis using assms(1) by (simp add: q_def)
  qed
  have "q \<le> q * n" using q0 assms(1) mult_left_mono [of 1 n q] by simp
  with eq have "q \<le> acc" by linarith
  moreover have "acc + (x - q) \<le> n * b"
  proof (cases "q = b")
    case True
    then show ?thesis using assms(3,5) by simp
  next
    case False
    then have "(q + 1) * (n - 1) \<le> b * (n - 1)" using qb assms(1) by (intro mult_right_mono) simp_all
    moreover have "acc \<le> q * n + (n - 1)" using eq by simp
    ultimately show ?thesis using assms(3) by (simp add: algebra_simps)
  qed
  ultimately show ?thesis using assms(2) by (simp add: ewma_def sd)
qed

lemma ewma_run:
  assumes "1 \<le> n" and "\<forall>x\<in>set xs. 0 \<le> x \<and> x \<le> b" and "0 \<le> acc" and "acc \<le> n * b"
  shows "0 \<le> fold (ewma n) xs acc \<and> fold (ewma n) xs acc \<le> n * b"
  using assms(2-4)
proof (induction xs arbitrary: acc)
  case (Cons x xs)
  have "0 \<le> ewma n x acc \<and> ewma n x acc \<le> n * b"
    using Cons.prems assms(1) by (intro ewma_step) simp_all
  with Cons.IH [of "ewma n x acc"] Cons.prems show ?case by simp
qed simp

section \<open>Phases of a start\<close>

text \<open>The two thread flags, which only the launch and the stop of a master write.\<close>

definition thread_flags :: "'d ecat_master_instance \<Rightarrow> bool \<times> bool" where
  "thread_flags inst = (i_bus_running inst, i_monitor_running inst)"

lemma thread_flags_updates [simp]:
  "thread_flags (inst\<lparr>i_ctx := c\<rparr>) = thread_flags inst"
  "thread_flags (inst\<lparr>i_iomap := m\<rparr>) = thread_flags inst"
  "thread_flags (inst\<lparr>i_data := d\<rparr>) = thread_flags inst"
  "thread_flags (inst\<lparr>i_layout := l\<rparr>) = thread_flags inst"
  "thread_flags (inst\<lparr>i_iface_state := st\<rparr>) = thread_flags inst"
  "thread_flags (inst\<lparr>i_soem_initialized := b\<rparr>) = thread_flags inst"
  "thread_flags (inst\<lparr>i_iomap_used_size := n\<rparr>) = thread_flags inst"
  "thread_flags (inst\<lparr>i_bus_state := s\<rparr>) = thread_flags inst"
  "thread_flags (set_bus_state s inst) = thread_flags inst"
  "thread_flags (release_buffers inst) = thread_flags inst"
  "thread_flags (soem_closed S inst) = thread_flags inst"
  "thread_flags (snd (ecat_master_instance_alloc_iomap mem inst)) = thread_flags inst"
  "thread_flags (snd (ecat_master_instance_grow_iomap mem k inst)) = thread_flags inst"
  "thread_flags (snd (ecat_master_instance_alloc_snapshot mem inst)) = thread_flags inst"
  by (simp_all add: thread_flags_def set_bus_state_def release_buffers_def soem_closed_def
      ecat_master_instance_alloc_iomap_def ecat_master_instance_grow_iomap_def
      ecat_master_instance_alloc_snapshot_def Let_def)

text \<open>
  The instance with its SOEM context and I/O map blanked out: operations that only talk to the
  bus leave this part alone.
\<close>

definition off_bus :: "'d ecat_master_instance \<Rightarrow> 'd ecat_master_instance" where
  "off_bus inst = inst\<lparr>i_ctx := zero_context undefined, i_iomap := None\<rparr>"

lemma off_bus_updates [simp]:
  "off_bus (inst\<lparr>i_ctx := c\<rparr>) = off_bus inst"
  "off_bus (inst\<lparr>i_iomap := m\<rparr>) = off_bus inst"
  "off_bus (inst\<lparr>i_soem_initialized := b\<rparr>) = (off_bus inst)\<lparr>i_soem_initialized := b\<rparr>"
  by (simp_all add: off_bus_def)

lemma off_bus_fields:
  assumes "off_bus a = off_bus b"
  shows "i_bus_state a = i_bus_state b" "i_config a = i_config b" "i_data a = i_data b"
    "i_layout a = i_layout b" "i_soem_initialized a = i_soem_initialized b" "i_diag a = i_diag b"
    "i_iomap_capacity a = i_iomap_capacity b" "i_iomap_used_size a = i_iomap_used_size b"
    "i_slaves_snapshot a = i_slaves_snapshot b" "thread_flags a = thread_flags b"
    "i_recovery_attempts a = i_recovery_attempts b" "i_expected_wkc a = i_expected_wkc b"
    "i_receive_timeout_us a = i_receive_timeout_us b" "i_iface_state a = i_iface_state b"
proof -
  have same: "f (off_bus a) = f (off_bus b)" for f :: "'a ecat_master_instance \<Rightarrow> 'b" using assms by simp
  show "i_bus_state a = i_bus_state b" using same [of i_bus_state] by (simp add: off_bus_def)
  show "i_config a = i_config b" using same [of i_config] by (simp add: off_bus_def)
  show "i_data a = i_data b" using same [of i_data] by (simp add: off_bus_def)
  show "i_layout a = i_layout b" using same [of i_layout] by (simp add: off_bus_def)
  show "i_soem_initialized a = i_soem_initialized b" using same [of i_soem_initialized] by (simp add: off_bus_def)
  show "i_diag a = i_diag b" using same [of i_diag] by (simp add: off_bus_def)
  show "i_iomap_capacity a = i_iomap_capacity b" using same [of i_iomap_capacity] by (simp add: off_bus_def)
  show "i_iomap_used_size a = i_iomap_used_size b" using same [of i_iomap_used_size] by (simp add: off_bus_def)
  show "i_slaves_snapshot a = i_slaves_snapshot b" using same [of i_slaves_snapshot] by (simp add: off_bus_def)
  show "thread_flags a = thread_flags b" using same [of thread_flags] by (simp add: off_bus_def)
  show "i_recovery_attempts a = i_recovery_attempts b" using same [of i_recovery_attempts] by (simp add: off_bus_def)
  show "i_expected_wkc a = i_expected_wkc b" using same [of i_expected_wkc] by (simp add: off_bus_def)
  show "i_receive_timeout_us a = i_receive_timeout_us b" using same [of i_receive_timeout_us] by (simp add: off_bus_def)
  show "i_iface_state a = i_iface_state b" using same [of i_iface_state] by (simp add: off_bus_def)
qed

lemma off_bus_exchange [simp]: "off_bus (snd (exchange S t inst)) = off_bus inst"
  by (simp add: exchange_def Let_def off_bus_def split: prod.split)

lemma off_bus_send_until_reply [simp]: "off_bus (snd (send_until_reply S n inst)) = off_bus inst"
proof (induction n arbitrary: inst)
  case (Suc n)
  have "exchange S t inst = (wkc, x) \<Longrightarrow> off_bus x = off_bus inst" for t wkc x
    using off_bus_exchange [of S t inst] by simp
  with Suc show ?case by (simp split: prod.split)
qed simp

lemma off_bus_poll_operational [simp]: "off_bus (snd (poll_operational S p n inst)) = off_bus inst"
  by (induction n arbitrary: inst) (simp_all add: Let_def)

lemma off_bus_transition [simp]: "off_bus (snd (ecat_master_transition_to_op S inst)) = off_bus inst"
proof -
  have "poll_operational S p n x = (ok, y) \<Longrightarrow> off_bus y = off_bus x" for p n x ok y
    using off_bus_poll_operational [of S p n x] by simp
  then show ?thesis
    by (simp add: ecat_master_transition_to_op_def Let_def split: prod.split bool.split)
qed

text \<open>The mailbox phases write the context alone.\<close>

lemma write_sdos_ctx:
  "ecat_master_write_sdos ub S pos sdos t inst = (ok, x) \<Longrightarrow> x = inst\<lparr>i_ctx := i_ctx x\<rparr>"
  by (auto simp: ecat_master_write_sdos_def split: prod.splits if_splits)

lemma startup_sdos_ctx:
  "write_startup_sdos ub S ss inst = (ok, x) \<Longrightarrow> x = inst\<lparr>i_ctx := i_ctx x\<rparr>"
proof (induction ss arbitrary: inst)
  case (Cons slave ss)
  show ?case
  proof (cases "sdo_configs slave = []")
    case True
    with Cons show ?thesis by simp
  next
    case False
    obtain rc y where y: "ecat_master_write_sdos ub S (position slave) (sdo_configs slave)
        (sdo_timeout_ms (timeouts slave)) inst = (rc, y)" by force
    note yc = write_sdos_ctx [OF y]
    show ?thesis
    proof (cases "\<not> rc \<and> strict_sdo slave")
      case True
      with Cons.prems False y have "x = y" by simp
      with yc show ?thesis by simp
    next
      case rest: False
      then have "write_startup_sdos ub S ss y = (ok, x)" using Cons.prems False y by auto
      then have "x = y\<lparr>i_ctx := i_ctx x\<rparr>" by (rule Cons.IH)
      also have "\<dots> = inst\<lparr>i_ctx := i_ctx x\<rparr>" by (subst yc) simp
      finally show ?thesis .
    qed
  qed
qed simp

lemma verify_ctx: "ecat_master_verify_fixed_pdos S inst = (ok, x) \<Longrightarrow> x = inst\<lparr>i_ctx := i_ctx x\<rparr>"
  by (auto simp: ecat_master_verify_fixed_pdos_def split: prod.splits)

lemma buffers_wf_layout [simp]: "buffers_wf (inst\<lparr>i_layout := l\<rparr>) = buffers_wf inst"
  by (simp add: buffers_wf_def split: option.split)

section \<open>Closing\<close>

lemma close_fields:
  assumes "ecat_master_close E h inst = (h', x)"
  shows "\<not> i_soem_initialized x" "i_iomap x = None" "i_slaves_snapshot x = None" "buffers_wf x"
    "i_data x = i_data inst" "i_config x = i_config inst" "thread_flags x = thread_flags inst"
    "i_layout x = i_layout inst" "i_expected_wkc x = i_expected_wkc inst"
    "i_recovery_attempts x = i_recovery_attempts inst"
proof -
  define c where "c = (if i_soem_initialized inst then close_soem (e_soem E) inst else inst)"
  have "off_bus (zero_iomap inst) = off_bus inst" by (simp add: zero_iomap_def)
  moreover have "off_bus (inst\<lparr>i_soem_initialized := False\<rparr>) = off_bus inst" if "\<not> i_soem_initialized inst"
    using that by (simp add: off_bus_def)
  ultimately have "off_bus c = off_bus (inst\<lparr>i_soem_initialized := False\<rparr>)"
    by (simp add: c_def close_soem_def soem_closed_def Let_def)
  note f = off_bus_fields [OF this]
  obtain st where x: "x = release_buffers (c\<lparr>i_iface_state := st\<rparr>)"
    using assms by (auto simp: ecat_master_close_def c_def Let_def split: prod.splits)
  show "\<not> i_soem_initialized x" "i_iomap x = None" "i_slaves_snapshot x = None" "buffers_wf x"
    "i_data x = i_data inst" "i_config x = i_config inst" "thread_flags x = thread_flags inst"
    "i_layout x = i_layout inst" "i_expected_wkc x = i_expected_wkc inst"
    "i_recovery_attempts x = i_recovery_attempts inst"
    using f by (simp_all add: x) (simp_all add: release_buffers_def buffers_wf_def thread_flags_def)
qed

end
