(* ===== verification/Bus_Sound.thy ===== *)
theory Bus_Sound
  imports Bus_Fields
begin

text \<open>
  What starting, stopping and one cycle of a master guarantee, and the lifecycle of all masters.
\<close>

section \<open>Starting\<close>

lemma scan_bus_flags: "thread_flags (snd (scan_bus S mem inst)) = thread_flags inst"
proof -
  have a: "ecat_master_instance_alloc_iomap mem x = (ok, y) \<Longrightarrow> thread_flags y = thread_flags x" for x y ok
    using thread_flags_updates(12) [of mem x] by simp
  have b: "ecat_master_instance_alloc_snapshot mem x = (ok, y) \<Longrightarrow> thread_flags y = thread_flags x" for x y ok
    using thread_flags_updates(14) [of mem x] by simp
  have "thread_flags (snd (wait_preop S x)) = thread_flags x" for x
    by (simp add: wait_preop_def Let_def)
  then show ?thesis
    by (auto simp: scan_bus_def Let_def dest!: a b split: prod.split bool.split)
qed

lemma open_and_scan_flags:
  assumes "ecat_master_open_and_scan E h inst = (ok, h', x)"
  shows "thread_flags x = thread_flags inst"
proof -
  have "scan_bus (e_soem E) (e_mem E) y = (ok, z) \<Longrightarrow> thread_flags z = thread_flags y" for y z ok
    using scan_bus_flags [of "e_soem E" "e_mem E" y] by simp
  with assms show ?thesis
    by (auto simp: ecat_master_open_and_scan_def Let_def split: prod.splits bool.splits)
qed

lemma configure_fields:
  assumes "ecat_master_configure S mem inst = (ok, x)"
  shows "thread_flags x = thread_flags inst" "i_soem_initialized x = i_soem_initialized inst"
    "i_config x = i_config inst" "i_data x = i_data inst"
proof -
  have "size_iomap_from_slaves S mem inst = (ok1, i1) \<Longrightarrow> thread_flags i1 = thread_flags inst \<and>
      i_soem_initialized i1 = i_soem_initialized inst \<and> i_config i1 = i_config inst \<and> i_data i1 = i_data inst"
    for ok1 i1
    by (auto simp: size_iomap_from_slaves_def ecat_master_instance_grow_iomap_def thread_flags_def
        split: prod.splits if_splits)
  with assms show "thread_flags x = thread_flags inst" "i_soem_initialized x = i_soem_initialized inst"
    "i_config x = i_config inst" "i_data x = i_data inst"
    by (auto simp: ecat_master_configure_def Let_def split: prod.splits bool.splits if_splits)
qed

lemma layout_build_fields:
  assumes "ecat_layout_build mem inst = (ok, x)"
  shows "x = inst\<lparr>i_layout := i_layout x\<rparr>"
  using assms by (auto simp: ecat_layout_build_def Let_def split: prod.splits if_splits bool.splits)

lemma alloc_buffers_fields:
  assumes "ecat_data_alloc_buffers mem inst = (ok, x)"
  shows "x = inst\<lparr>i_data := i_data x\<rparr>" and "ok \<Longrightarrow> d_rx_buf (i_data x) \<noteq> None \<and> d_tx_buf (i_data x) \<noteq> None"
  using assms by (auto simp: ecat_data_alloc_buffers_def Let_def split: if_splits)

lemma configure_master_result:
  assumes "configure_master E ub inst = (ok, x)" and "buffers_wf inst" and "i_soem_initialized inst"
  shows "thread_flags x = thread_flags inst" "i_config x = i_config inst"
    and "ok \<Longrightarrow> i_soem_initialized x \<and> buffers_wf x \<and> i_iomap x \<noteq> None \<and> 0 < i_iomap_used_size x \<and>
      d_rx_buf (i_data x) \<noteq> None \<and> d_tx_buf (i_data x) \<noteq> None"
proof -
  let ?S = "e_soem E"
  obtain ok1 x1 where sdo: "write_startup_sdos ub ?S (c_slaves (i_config inst)) inst = (ok1, x1)" by force
  obtain ok2 x2 where ver: "ecat_master_verify_fixed_pdos ?S x1 = (ok2, x2)" by force
  obtain ok3 x3 where con: "ecat_master_configure ?S (e_mem E) x2 = (ok3, x3)" by force
  obtain ok4 x4 where lay: "ecat_layout_build (e_mem E) x3 = (ok4, x4)" by force
  obtain ok5 x5 where buf: "ecat_data_alloc_buffers (e_mem E) x4 = (ok5, x5)" by force
  have "x1 = inst\<lparr>i_ctx := i_ctx x1\<rparr>" using sdo by (rule startup_sdos_ctx)
  then obtain c1 where x1: "x1 = inst\<lparr>i_ctx := c1\<rparr>" by blast
  have "x2 = x1\<lparr>i_ctx := i_ctx x2\<rparr>" using ver by (rule verify_ctx)
  also have "\<dots> = inst\<lparr>i_ctx := i_ctx x2\<rparr>" by (simp add: x1)
  finally obtain c2 where x2: "x2 = inst\<lparr>i_ctx := c2\<rparr>" by blast
  note c3 = configure_fields [OF con] and l4 = layout_build_fields [OF lay] and b5 = alloc_buffers_fields [OF buf]
  have r: "ok = (ok1 \<and> ok2 \<and> ok3 \<and> ok4 \<and> ok5)"
    and x: "x = (if \<not> ok1 then x1 else if \<not> ok2 then x2 else if \<not> ok3 then x3
      else if \<not> ok4 then x4\<lparr>i_layout := ecat_layout_destroy\<rparr>
      else if \<not> ok5 then x5\<lparr>i_layout := ecat_layout_destroy\<rparr> else x5)"
    using assms(1) by (auto simp: configure_master_def sdo ver con lay buf split: bool.splits)
  have t4: "thread_flags x4 = thread_flags x3" "i_config x4 = i_config x3"
    by (subst l4, simp)+
  have t5: "thread_flags x5 = thread_flags x4" "i_config x5 = i_config x4"
    by (subst b5(1), simp)+
  show "thread_flags x = thread_flags inst" "i_config x = i_config inst"
    using x1 x2 c3 t4 t5 by (simp_all add: x)
  show "i_soem_initialized x \<and> buffers_wf x \<and> i_iomap x \<noteq> None \<and> 0 < i_iomap_used_size x \<and>
      d_rx_buf (i_data x) \<noteq> None \<and> d_tx_buf (i_data x) \<noteq> None" if ok
  proof -
    have "buffers_wf x2" using assms(2) x2 by simp
    with configure_buffers [OF con] that r
    have "buffers_wf x3" "0 < i_iomap_used_size x3" "i_iomap x3 \<noteq> None" by auto
    moreover have "buffers_wf x4 = buffers_wf x3" "i_iomap x4 = i_iomap x3" "i_iomap_used_size x4 = i_iomap_used_size x3"
      "i_soem_initialized x4 = i_soem_initialized x3"
      by (subst l4, simp)+
    moreover have "buffers_wf x5 = buffers_wf x4" "i_iomap x5 = i_iomap x4" "i_iomap_used_size x5 = i_iomap_used_size x4"
      "i_soem_initialized x5 = i_soem_initialized x4"
      by (subst b5(1), simp)+
    ultimately show ?thesis using that r b5(2) c3(2) x2 assms(3) by (simp add: x)
  qed
qed

lemma set_bus_state_fields [simp]:
  "buffers_wf (set_bus_state st inst) = buffers_wf inst"
  "i_soem_initialized (set_bus_state st inst) = i_soem_initialized inst"
  "i_config (set_bus_state st inst) = i_config inst"
  by (simp_all add: set_bus_state_def buffers_wf_def split: option.split)

lemma abort_start_result:
  assumes "abort_start E h inst = (ok, h', x)"
  shows "\<not> ok" "i_bus_state x = ECAT_STATE_ERROR" "\<not> i_soem_initialized x" "i_iomap x = None"
    "thread_flags x = thread_flags inst" "i_config x = i_config inst"
proof -
  obtain h1 y where c: "ecat_master_close E h inst = (h1, y)" by force
  then have x: "\<not> ok" "x = set_bus_state ECAT_STATE_ERROR y" using assms by (simp_all add: abort_start_def)
  then show "\<not> ok" "i_bus_state x = ECAT_STATE_ERROR" by (simp_all add: set_bus_state_def)
  show "\<not> i_soem_initialized x" "i_iomap x = None" "i_config x = i_config inst"
    using close_fields [OF c] x by (simp_all add: set_bus_state_def)
  show "thread_flags x = thread_flags inst" using close_fields(7) [OF c] x by simp
qed

lemma publish_snapshot_off_bus [simp]:
  "i_bus_state (publish_slaves_snapshot mem inst) = i_bus_state inst"
  "i_soem_initialized (publish_slaves_snapshot mem inst) = i_soem_initialized inst"
  "i_data (publish_slaves_snapshot mem inst) = i_data inst"
  "i_config (publish_slaves_snapshot mem inst) = i_config inst"
  "i_recovery_attempts (publish_slaves_snapshot mem inst) = i_recovery_attempts inst"
  "i_consecutive_wkc_errors (publish_slaves_snapshot mem inst) = i_consecutive_wkc_errors inst"
  "i_iomap (publish_slaves_snapshot mem inst) = i_iomap inst"
  "thread_flags (publish_slaves_snapshot mem inst) = thread_flags inst"
  by (simp_all add: publish_slaves_snapshot_def thread_flags_def Let_def split: option.split)

text \<open>What a master that started has.\<close>

definition started :: "'d ecat_master_instance \<Rightarrow> bool" where
  "started inst \<longleftrightarrow>
     i_bus_state inst = ECAT_STATE_OPERATIONAL \<and> i_bus_running inst \<and> i_monitor_running inst \<and>
     i_soem_initialized inst \<and> i_iomap inst \<noteq> None \<and> i_recovery_attempts inst = 0 \<and>
     i_consecutive_wkc_errors inst = 0 \<and>
     d_rx_buf (i_data inst) \<noteq> None \<and> d_tx_buf (i_data inst) \<noteq> None"

lemma exchange_iomap: "i_iomap inst \<noteq> None \<Longrightarrow> i_iomap (snd (exchange S t inst)) \<noteq> None"
  by (auto simp: exchange_def Let_def split: prod.split)

lemma poll_operational_iomap:
  "i_iomap inst \<noteq> None \<Longrightarrow> i_iomap (snd (poll_operational S p n inst)) \<noteq> None"
proof (induction n arbitrary: inst)
  case (Suc n)
  then show ?case using exchange_iomap [OF Suc.prems, of S "EC_TIMEOUTRET S"] by (simp add: Let_def)
qed simp

lemma transition_iomap:
  assumes "ecat_master_transition_to_op S inst = (ok, x)" and "i_iomap inst \<noteq> None"
  shows "i_iomap x \<noteq> None"
proof -
  have "poll_operational S p n y = (b, z) \<Longrightarrow> i_iomap y \<noteq> None \<Longrightarrow> i_iomap z \<noteq> None" for p n y b z
    using poll_operational_iomap [of y S p n] by simp
  moreover have "i_iomap y \<noteq> None \<Longrightarrow> i_iomap (snd (exchange S t y)) \<noteq> None" for t y
    by (rule exchange_iomap)
  ultimately show ?thesis
    using assms by (fastforce simp: ecat_master_transition_to_op_def Let_def split: if_splits prod.splits bool.splits)
qed

text \<open>What a master has when its threads are about to be created.\<close>

definition ready :: "'d ecat_master_instance \<Rightarrow> bool" where
  "ready inst \<longleftrightarrow>
     i_bus_state inst = ECAT_STATE_OPERATIONAL \<and> i_soem_initialized inst \<and> i_iomap inst \<noteq> None \<and>
     i_recovery_attempts inst = 0 \<and> i_consecutive_wkc_errors inst = 0 \<and>
     d_rx_buf (i_data inst) \<noteq> None \<and> d_tx_buf (i_data inst) \<noteq> None"

lemma go_operational_result:
  assumes "i_soem_initialized inst" "i_iomap inst \<noteq> None"
    and "d_rx_buf (i_data inst) \<noteq> None" "d_tx_buf (i_data inst) \<noteq> None"
  shows "ready (go_operational E inst)" and "i_config (go_operational E inst) = i_config inst"
    and "thread_flags (go_operational E inst) = thread_flags inst"
proof -
  define a where "a = set_bus_state ECAT_STATE_OPERATIONAL (reset_counters inst)"
  define b where "b = snd (ecat_master_exchange_processdata (e_soem E) (i_receive_timeout_us a) a)"
  have g: "go_operational E inst = publish_slaves_snapshot (e_mem E) b"
    by (simp add: go_operational_def Let_def a_def b_def)
  have ba: "off_bus b = off_bus a" by (simp add: b_def ecat_master_exchange_processdata_def)
  note f = off_bus_fields [OF ba]
  have a: "i_bus_state a = ECAT_STATE_OPERATIONAL" "i_soem_initialized a" "i_data a = i_data inst"
    "thread_flags a = thread_flags inst" "i_recovery_attempts a = 0" "i_config a = i_config inst"
    "i_iomap a \<noteq> None"
    using assms by (simp_all add: a_def reset_counters_def set_bus_state_def thread_flags_def)
  have "i_consecutive_wkc_errors (off_bus b) = i_consecutive_wkc_errors (off_bus a)" using ba by simp
  then have wkc: "i_consecutive_wkc_errors b = 0"
    by (simp add: off_bus_def a_def reset_counters_def set_bus_state_def)
  have io: "i_iomap b \<noteq> None" using exchange_iomap [OF a(7)] by (simp add: b_def ecat_master_exchange_processdata_def)
  show "ready (go_operational E inst)" using g f a io wkc assms(3,4) by (simp add: ready_def)
  show "i_config (go_operational E inst) = i_config inst" "thread_flags (go_operational E inst) = thread_flags inst"
    using g f a by simp_all
qed

lemma start_mapped_result:
  assumes "start_mapped E h inst = (ok, h', x)"
    and "i_soem_initialized inst" "i_iomap inst \<noteq> None"
    and "d_rx_buf (i_data inst) \<noteq> None" "d_tx_buf (i_data inst) \<noteq> None"
  shows "i_config x = i_config inst" and "thread_flags x = thread_flags inst" and "ok \<Longrightarrow> ready x"
    and "\<not> ok \<Longrightarrow> i_bus_state x = ECAT_STATE_ERROR \<and> \<not> i_soem_initialized x \<and> i_iomap x = None"
proof -
  define a where "a = set_bus_state ECAT_STATE_TRANSITIONING
    (inst\<lparr>i_expected_wkc := ecat_master_get_expected_wkc inst,
          i_receive_timeout_us := max (receive_timeout_us (c_master (i_config inst))) ECAT_MIN_RECEIVE_TIMEOUT_US\<rparr>)"
  obtain up y where tr: "ecat_master_transition_to_op (e_soem E) a = (up, y)" by force
  have "off_bus y = off_bus a" using tr off_bus_transition [of "e_soem E" a] by simp
  note f = off_bus_fields [OF this]
  have a: "i_soem_initialized a" "i_data a = i_data inst" "thread_flags a = thread_flags inst"
    "i_config a = i_config inst"
    using assms(2) by (simp_all add: a_def set_bus_state_def thread_flags_def)
  have r: "(ok, h', x) = (if \<not> up then abort_start E h y else (True, h, go_operational E y))"
    using assms(1) by (auto simp: start_mapped_def Let_def a_def [symmetric] tr split: bool.splits)
  have "i_config x = i_config inst \<and> thread_flags x = thread_flags inst \<and> (ok \<longrightarrow> ready x) \<and>
    (\<not> ok \<longrightarrow> i_bus_state x = ECAT_STATE_ERROR \<and> \<not> i_soem_initialized x \<and> i_iomap x = None)"
  proof (cases up)
    case False
    with r have "abort_start E h y = (ok, h', x)" by simp
    then show ?thesis using abort_start_result f a by metis
  next
    case True
    have "i_iomap y \<noteq> None" using transition_iomap [OF tr] assms(3) by (simp add: a_def set_bus_state_def)
    then show ?thesis using go_operational_result [of y E] r True f a assms(4,5) by simp
  qed
  then show "i_config x = i_config inst" "thread_flags x = thread_flags inst" "ok \<Longrightarrow> ready x"
    "\<not> ok \<Longrightarrow> i_bus_state x = ECAT_STATE_ERROR \<and> \<not> i_soem_initialized x \<and> i_iomap x = None"
    by simp_all
qed

section \<open>The recording library starts\<close>

lemma recording_mapped: "\<exists>o1 i1. slave_mapped_bits recording_soem i ctx = (o1, i1, ctx)"
  by (simp add: slave_mapped_bits_def coe_mapping_def recording_soem_def Let_def)

lemma recording_sum: "\<exists>n. sum_mapped recording_soem is b ctx = (n, ctx)"
proof (induction "is" arbitrary: b)
  case (Cons i "is")
  obtain o1 i1 where "slave_mapped_bits recording_soem i ctx = (o1, i1, ctx)" using recording_mapped by blast
  with Cons show ?case by simp
qed simp

lemma recording_watchdogs: "configure_watchdogs recording_soem ss ctx = (True, ctx)"
  by (induction ss) (simp_all add: ecat_master_configure_watchdog_def recording_soem_def Let_def)

lemma recording_dc: "ecat_master_configure_dc recording_soem config ctx = ctx"
proof -
  have "fold (configure_slave_dc recording_soem config) ss ctx = ctx" for ss
    by (induction ss) (simp_all add: configure_slave_dc_def recording_soem_def Let_def)
  then show ?thesis by (simp add: ecat_master_configure_dc_def recording_soem_def)
qed

lemma recording_configure:
  assumes "i_soem_initialized inst"
  shows "\<exists>x. ecat_master_configure recording_soem (\<lambda>_. True) inst = (True, x) \<and> i_ctx x = i_ctx inst \<and>
    i_config x = i_config inst \<and> i_soem_initialized x"
proof -
  obtain n where n: "sum_mapped recording_soem [1..<slavecount (i_ctx inst) + 1] 0 (i_ctx inst) = (n, i_ctx inst)"
    using recording_sum by blast
  obtain ok y where y: "ecat_master_instance_grow_iomap (\<lambda>_. True) (max n ECAT_IOMAP_MIN_BYTES) inst = (ok, y)"
    by force
  then have yf: "ok" "i_ctx y = i_ctx inst" "i_config y = i_config inst" "i_soem_initialized y" "2 \<le> i_iomap_capacity y"
    using assms by (auto simp: ecat_master_instance_grow_iomap_def ECAT_IOMAP_MIN_BYTES_def split: if_splits)
  have "size_iomap_from_slaves recording_soem (\<lambda>_. True) inst = (True, y)"
    unfolding size_iomap_from_slaves_def n using y yf(1) by simp
  moreover have "ecx_config_map_group recording_soem ctx = (2, ctx)" for ctx by (simp add: recording_soem_def)
  ultimately show ?thesis
    using assms yf by (simp add: ecat_master_configure_def Let_def recording_watchdogs recording_dc)
qed

lemma recording_transition:
  assumes "i_soem_initialized inst"
  shows "fst (ecat_master_transition_to_op recording_soem inst)"
proof (rule transition_to_op_succeeds)
  show "i_soem_initialized inst" by (fact assms)
  show "fst (poll_operational recording_soem p n x)" if "0 < n" for n p x
    using that by (cases n) (simp_all add: recording_soem_def Let_def)
qed (simp add: recording_soem_def)

text \<open>A configuration with one slave that is the one the recording library finds.\<close>

definition fits_recording :: "ecat_config \<Rightarrow> bool" where
  "fits_recording config \<longleftrightarrow>
     (case c_slaves config of
        [s] \<Rightarrow> position s = 1 \<and> vendor_id s = 2 \<and> product_code s = 3 \<and> sdo_configs s = [] \<and> \<not> m_present (modular s)
      | _ \<Rightarrow> False)"

lemma start_succeeds:
  assumes "fits_recording (i_config inst)"
  shows "fst (prepare_start recording_env ub h inst)"
proof -
  obtain s where s: "c_slaves (i_config inst) = [s]" "position s = 1" "vendor_id s = 2" "product_code s = 3"
      "sdo_configs s = []" "\<not> m_present (modular s)"
    using assms by (auto simp: fits_recording_def split: list.splits)
  let ?i = "set_bus_state ECAT_STATE_SCANNING inst"
  note scan_defs = ecat_master_open_and_scan_def Let_def case_prod_unfold scan_bus_def wait_preop_def
    ecat_master_instance_alloc_iomap_def ecat_master_instance_alloc_snapshot_def release_buffers_def
    ecat_master_validate_topology_def slave_matches_def all_preop_def longest_us_def set_bus_state_def
    recording_env_def recording_soem_def recording_context_def zero_defs ec_state_defs
  have "fst (ecat_master_open_and_scan recording_env h ?i)"
    by (simp add: scan_defs s)
  then obtain h1 y where op: "ecat_master_open_and_scan recording_env h ?i = (True, h1, y)"
    by (metis prod.collapse)
  have sc: "slavecount (i_ctx y) = 1" "group0 (i_ctx y) = group0 (zero_context [])"
    "es_mbx_proto (slavelist (i_ctx y) 1) = 0" "i_config y = i_config inst" "i_soem_initialized y"
    using op by (auto simp: scan_defs s split: if_splits)
  let ?y = "set_bus_state ECAT_STATE_CONFIGURING y"
  have sdo: "write_startup_sdos ub recording_soem (c_slaves (i_config ?y)) ?y = (True, ?y)" for ub
    using sc s by simp
  have ver: "ecat_master_verify_fixed_pdos recording_soem ?y = (True, ?y)"
    using sc s by (cases y) (simp add: ecat_master_verify_fixed_pdos_def
        slave_has_coe_def set_bus_state_def ECT_MBXPROT_COE_def)
  obtain z where con: "ecat_master_configure recording_soem (\<lambda>_. True) ?y = (True, z)" "i_ctx z = i_ctx y"
      "i_config z = i_config inst" "i_soem_initialized z"
    using recording_configure [of ?y] sc by (auto simp: set_bus_state_def)
  have lay: "fst (ecat_layout_build (\<lambda>_. True) z)"
    using con sc s by (simp add: layout_build_cases slaves_found_def zero_defs)
  obtain x where lx: "ecat_layout_build (\<lambda>_. True) z = (True, x)" "x = z\<lparr>i_layout := built_layout z\<rparr>"
    using lay layout_build_cases(2) [OF lay] by (metis prod.collapse)
  have "fst (ecat_data_alloc_buffers (\<lambda>_. True) x)"
    using lx con sc by (simp add: ecat_data_alloc_buffers_def Let_def built_layout_def zero_defs)
  then obtain w where al: "ecat_data_alloc_buffers (\<lambda>_. True) x = (True, w)" by (metis prod.collapse)
  have E: "e_soem recording_env = recording_soem" "e_mem recording_env = (\<lambda>_. True)"
    by (simp_all add: recording_env_def)
  have cm: "configure_master recording_env ub ?y = (True, w)"
    by (simp add: configure_master_def E sdo [simplified] ver con lx(1) al)
  have "i_soem_initialized w" using alloc_buffers_fields(1) [OF al] lx(2) con(4) by (metis (no_types, lifting)
      ecat_master_instance.select_convs(6) ecat_master_instance.surjective ecat_master_instance.update_convs(8,9))
  then have "fst (start_mapped recording_env h1 w)"
    using recording_transition [of "set_bus_state ECAT_STATE_TRANSITIONING _"]
    by (auto simp: start_mapped_def Let_def E case_prod_unfold split: bool.split)
  then show ?thesis using s by (simp add: prepare_start_def op cm)
qed

lemma one_slave_inst_config: "i_config one_slave_inst = one_slave_config"
  by (simp add: one_slave_inst_def)

lemma one_slave_fits: "fits_recording one_slave_config"
  by (simp add: fits_recording_def one_slave_config_def zero_slave_def no_modular_def)

lemma prepare_result:
  assumes "prepare_start E ub h inst = (ok, h', x)"
  shows "i_config x = i_config inst" and "thread_flags x = thread_flags inst" and "ok \<Longrightarrow> ready x"
    and "\<not> ok \<Longrightarrow> c_slaves (i_config inst) = [] \<and> x = inst \<or>
      c_slaves (i_config inst) \<noteq> [] \<and> i_bus_state x = ECAT_STATE_ERROR \<and> \<not> i_soem_initialized x \<and> i_iomap x = None"
proof -
  have "i_config x = i_config inst \<and> thread_flags x = thread_flags inst \<and> (ok \<longrightarrow> ready x) \<and>
    (\<not> ok \<longrightarrow> i_bus_state x = ECAT_STATE_ERROR \<and> \<not> i_soem_initialized x \<and> i_iomap x = None)"
    if slaves: "c_slaves (i_config inst) \<noteq> []"
  proof -
    let ?i = "set_bus_state ECAT_STATE_SCANNING inst"
    obtain ok1 h1 y where op: "ecat_master_open_and_scan E h ?i = (ok1, h1, y)" by (metis prod_cases3)
    note o = open_and_scan_result [OF op]
    have y: "thread_flags y = thread_flags inst" "i_config y = i_config inst"
      using open_and_scan_flags [OF op] o by (simp_all add: set_bus_state_def thread_flags_def)
    let ?y = "set_bus_state ECAT_STATE_CONFIGURING y"
    obtain ok2 z where co: "configure_master E ub ?y = (ok2, z)" by force
    consider (scan) "abort_start E h1 y = (ok, h', x)"
      | (conf) "ok1" "abort_start E h1 z = (ok, h', x)"
      | (mapped) "ok1" "ok2" "start_mapped E h1 z = (ok, h', x)"
      using assms slaves by (auto simp: prepare_start_def op co split: bool.splits)
    then show ?thesis
    proof cases
      case scan
      then show ?thesis using abort_start_result y by metis
    next
      case conf
      have "buffers_wf ?y" "i_soem_initialized ?y" using o conf(1) by (simp_all add: scanned_def)
      then have "thread_flags z = thread_flags inst" "i_config z = i_config inst"
        using configure_master_result(1,2) [OF co] y by (simp_all add: set_bus_state_def thread_flags_def)
      then show ?thesis using abort_start_result [OF conf(2)] by simp
    next
      case mapped
      have "buffers_wf ?y" "i_soem_initialized ?y" using o mapped(1) by (simp_all add: scanned_def)
      note c = configure_master_result [OF co this]
      have "thread_flags z = thread_flags inst" "i_config z = i_config inst"
        using c(1,2) y by (simp_all add: set_bus_state_def thread_flags_def)
      then show ?thesis using start_mapped_result [OF mapped(3)] c(3) mapped(2) by auto
    qed
  qed
  moreover have "\<not> ok \<and> x = inst" if "c_slaves (i_config inst) = []"
    using assms that by (simp add: prepare_start_def)
  ultimately show "i_config x = i_config inst" "thread_flags x = thread_flags inst" "ok \<Longrightarrow> ready x"
    "\<not> ok \<Longrightarrow> c_slaves (i_config inst) = [] \<and> x = inst \<or>
      c_slaves (i_config inst) \<noteq> [] \<and> i_bus_state x = ECAT_STATE_ERROR \<and> \<not> i_soem_initialized x \<and> i_iomap x = None"
    by blast+
qed

lemma launch_started: "ready inst \<Longrightarrow> launch_threads True True inst = (True, x) \<Longrightarrow> started x"
  by (auto simp: launch_threads_def ready_def started_def)

lemma start_result:
  assumes "start_single_master E ub mon_ok bus_ok h inst = (ok, h', x)"
  shows "i_config x = i_config inst \<and>
    (if ok then mon_ok \<and> bus_ok \<and> started x
     else if c_slaves (i_config inst) = [] then x = inst
     else i_bus_state x = ECAT_STATE_ERROR \<and>
       (\<not> i_soem_initialized x \<and> i_iomap x = None \<and> thread_flags x = thread_flags inst \<or>
        i_soem_initialized x \<and> \<not> mon_ok \<and> thread_flags x = (i_bus_running inst, False) \<or>
        i_soem_initialized x \<and> mon_ok \<and> \<not> bus_ok \<and> thread_flags x = (False, True)))"
proof -
  obtain up h1 y where p: "prepare_start E ub h inst = (up, h1, y)" by (metis prod_cases3)
  note r = prepare_result [OF p]
  show ?thesis
  proof (cases up)
    case False
    then show ?thesis using assms p r by (auto simp: start_single_master_def)
  next
    case True
    then have sl: "c_slaves (i_config inst) \<noteq> []" using p by (auto simp: prepare_start_def)
    have y: "ready y" "thread_flags y = thread_flags inst" "i_config y = i_config inst" using r True by auto
    show ?thesis using assms p True y sl
      by (auto simp: start_single_master_def launch_threads_def ready_def started_def thread_flags_def set_bus_state_def
          Let_def split: if_splits)
  qed
qed

lemma close_stopped_result:
  assumes "close_stopped E h inst = (h', x)"
  shows "i_bus_state x = ECAT_STATE_STOPPED" "thread_flags x = thread_flags inst"
    "\<not> i_soem_initialized x" "i_iomap x = None" "i_slaves_snapshot x = None" "i_slaves_snapshot_count x = 0"
    "i_layout x = ecat_layout_destroy" "\<not> d_open (i_data x)" "d_rx_buf (i_data x) = None"
    "d_tx_buf (i_data x) = None" "i_config x = i_config inst"
proof -
  define a where "a = (ecat_data_free_buffers (ecat_data_close inst))
    \<lparr>i_layout := ecat_layout_destroy, i_consecutive_wkc_errors := 0, i_recovery_attempts := 0,
     i_recovery_writestate_failures := 0, i_expected_wkc := 0\<rparr>"
  obtain h1 y where c: "ecat_master_close E h a = (h1, y)" by force
  then have x: "x = (set_bus_state ECAT_STATE_STOPPED y)
      \<lparr>i_slaves_snapshot := map_option (map (\<lambda>_. zero_status)) (i_slaves_snapshot y), i_slaves_snapshot_count := 0\<rparr>"
    using assms by (auto simp: close_stopped_def Let_def a_def)
  have a: "thread_flags a = thread_flags inst" "i_layout a = ecat_layout_destroy" "i_config a = i_config inst"
    "\<not> d_open (i_data a)" "d_rx_buf (i_data a) = None" "d_tx_buf (i_data a) = None"
    by (simp_all add: a_def thread_flags_def ecat_data_free_buffers_def ecat_data_close_def close_locked_def)
  show "i_bus_state x = ECAT_STATE_STOPPED" "thread_flags x = thread_flags inst"
    "\<not> i_soem_initialized x" "i_iomap x = None" "i_slaves_snapshot x = None" "i_slaves_snapshot_count x = 0"
    "i_layout x = ecat_layout_destroy" "\<not> d_open (i_data x)" "d_rx_buf (i_data x) = None"
    "d_tx_buf (i_data x) = None" "i_config x = i_config inst"
    using close_fields [OF c] a by (simp_all add: x set_bus_state_def thread_flags_def)
qed

lemma stop_result:
  assumes "stop_single_master E h inst = (h', x)"
  shows "if i_bus_state inst \<in> {ECAT_STATE_STOPPED, ECAT_STATE_IDLE} then x = inst
    else i_bus_state x = ECAT_STATE_STOPPED \<and> \<not> i_bus_running x \<and> \<not> i_monitor_running x \<and>
      \<not> i_soem_initialized x \<and> i_iomap x = None \<and> i_slaves_snapshot x = None \<and> i_slaves_snapshot_count x = 0 \<and>
      i_layout x = ecat_layout_destroy \<and> \<not> d_open (i_data x) \<and> d_rx_buf (i_data x) = None \<and>
      d_tx_buf (i_data x) = None \<and> i_config x = i_config inst"
proof (cases "i_bus_state inst \<in> {ECAT_STATE_STOPPED, ECAT_STATE_IDLE}")
  case True
  with assms show ?thesis by (auto simp: stop_single_master_def)
next
  case False
  define y where "y = (let i = (if i_bus_running inst then inst\<lparr>i_bus_running := False\<rparr> else inst)
    in if i_monitor_running i then i\<lparr>i_monitor_running := False\<rparr> else i)"
  have y: "thread_flags y = (False, False)" "i_config y = i_config inst"
    by (simp_all add: y_def thread_flags_def Let_def)
  have "close_stopped E h y = (h', x)"
    using assms False by (simp add: stop_single_master_def y_def Let_def)
  from close_stopped_result [OF this] show ?thesis using False y by (auto simp: thread_flags_def)
qed

section \<open>What threads do meanwhile\<close>

text \<open>
  What a master's own threads may change of it between two commands, as far as the commands depend on it: the bus
  state among OPERATIONAL and RECOVERING and from there to ERROR. \<^verbatim>\<open>Bus_Runs\<close> shows that their steps do no more.
\<close>

definition master_ran :: "'d ecat_master_instance \<Rightarrow> 'd ecat_master_instance \<Rightarrow> bool" where
  "master_ran a b \<longleftrightarrow>
     i_config b = i_config a \<and> thread_flags b = thread_flags a \<and>
     (i_bus_state b = i_bus_state a \<or>
      exchanging (i_bus_state a) \<and> (exchanging (i_bus_state b) \<or> i_bus_state b = ECAT_STATE_ERROR))"

section \<open>Properties\<close>

text \<open>
  C19: the function that starts a master, whatever its running flags are when it is called, either
  succeeds, and the master is OPERATIONAL with SOEM open, its I/O map and frame buffers allocated, error
  counters reset and both threads created; or it fails in one of four ways. Without a configured slave
  nothing changes. Otherwise the state is ERROR, and a failure before the threads leaves SOEM closed, the
  I/O map freed and the running flags as they were; a failed monitor thread leaves SOEM open and takes
  back the monitor's flag only; a failed bus thread leaves SOEM open and the monitor running. The
  configuration is never changed.
\<close>

theorem start_outcome:
  assumes "start_single_master E ub mon_ok bus_ok h inst = (ok, h', x)"
  shows "i_config x = i_config inst \<and>
    (if ok then mon_ok \<and> bus_ok \<and> started x
     else if c_slaves (i_config inst) = [] then x = inst
     else i_bus_state x = ECAT_STATE_ERROR \<and>
       (\<not> i_soem_initialized x \<and> i_iomap x = None \<and> thread_flags x = thread_flags inst \<or>
        i_soem_initialized x \<and> \<not> mon_ok \<and> thread_flags x = (i_bus_running inst, False) \<or>
        i_soem_initialized x \<and> mon_ok \<and> \<not> bus_ok \<and> thread_flags x = (False, True)))"
  by (rule start_result [OF assms])

theorem start_outcome_witness:
  "\<exists>h' x. start_single_master recording_env (\<lambda>_. 0) True True \<lparr>files = Map.empty, nic = 0\<rparr> one_slave_inst = (True, h', x) \<and>
     i_config x = one_slave_config \<and> started x"
proof -
  obtain h1 y where p: "prepare_start recording_env (\<lambda>_. 0) \<lparr>files = Map.empty, nic = 0\<rparr> one_slave_inst = (True, h1, y)"
    using start_succeeds [of one_slave_inst] one_slave_fits by (metis one_slave_inst_config prod.collapse)
  then obtain h' x where r: "start_single_master recording_env (\<lambda>_. 0) True True \<lparr>files = Map.empty, nic = 0\<rparr> one_slave_inst = (True, h', x)"
    by (simp add: start_single_master_def launch_threads_def)
  with start_outcome [OF r] show ?thesis by (simp add: one_slave_inst_config)
qed



text \<open>
  C21: a cycle runs exactly when the master is OPERATIONAL or RECOVERING with an I/O map; otherwise
  it changes nothing. A cycle that runs applies the client's outputs, sends the AL status poll and
  exchanges process data, and the working counter that this exchange returned decides: a counter below
  the expected one is counted as one error and one more in a row, any other ends the row. The cycle is
  counted once, and it changes the bus state only from OPERATIONAL to RECOVERING, exactly when
  it was the third consecutive working counter error or the AL status poll has failed three times in a row.
\<close>

theorem cycle_outcome:
  assumes "ecat_run_one_cycle S k io inst = (did, frame, x)"
    and "ecat_master_al_poll_send S (ecat_data_apply_outputs (ci_out_locked io) (ci_dgrams io) k inst) = (idx, p)"
    and "ecat_master_exchange_processdata S (i_receive_timeout_us p) p = (wkc, q)"
  shows "did = (exchanging (i_bus_state inst) \<and> ecat_master_get_iomap inst \<noteq> None) \<and>
    (\<not> did \<longrightarrow> x = inst \<and> frame = None) \<and>
    (did \<longrightarrow> cycle_count (i_diag x) = cycle_count (i_diag inst) + 1 \<and>
      wkc_error_count (i_diag x) = wkc_error_count (i_diag inst) + (if wkc < i_expected_wkc inst then 1 else 0) \<and>
      i_consecutive_wkc_errors x = (if wkc < i_expected_wkc inst then i_consecutive_wkc_errors inst + 1 else 0) \<and>
      i_consecutive_al_faults x = i_consecutive_al_faults (collect_al_poll S idx q) \<and>
      i_bus_state x =
        (if i_bus_state inst = ECAT_STATE_OPERATIONAL \<and>
            (3 \<le> i_consecutive_wkc_errors x \<or> 3 \<le> i_consecutive_al_faults x)
         then ECAT_STATE_RECOVERING else i_bus_state inst) \<and>
      thread_flags x = thread_flags inst \<and> i_recovery_attempts x = i_recovery_attempts inst)"
proof (cases "exchanging (i_bus_state inst) \<and> ecat_master_get_iomap inst \<noteq> None")
  case False
  with assms show ?thesis by (auto simp: ecat_run_one_cycle_def Let_def split: if_splits)
next
  case True
  obtain w f y where ex: "cycle_exchange S k io (i_bus_state inst) inst = (w, f, y)" by (metis prod_cases3)
  note e = cycle_exchange_fields [OF ex]
  have r: "did" "x = cycle_decide (i_bus_state inst) w y"
    using assms(1) True ex by (auto simp: ecat_run_one_cycle_def Let_def)
  have w: "w = wkc" "i_consecutive_al_faults y = i_consecutive_al_faults (collect_al_poll S idx q)"
    using cycle_exchange_wkc [OF ex assms(2,3)] by simp_all
  have "cycle_count (i_diag x) = cycle_count (i_diag inst) + 1" by (simp add: r(2) e record_exchange_def)
  moreover have "wkc_error_count (i_diag x) = wkc_error_count (i_diag inst) + (if wkc < i_expected_wkc inst then 1 else 0)"
    "i_consecutive_wkc_errors x = (if wkc < i_expected_wkc inst then i_consecutive_wkc_errors inst + 1 else 0)"
    by (simp_all add: r(2) e record_exchange_def w(1))
  moreover have "thread_flags x = thread_flags inst" by (simp add: r(2) thread_flags_def e)
  ultimately show ?thesis using True r(1) w by (simp add: r(2) e threshold_defs)
qed

theorem cycle_outcome_witness:
  "\<exists>frame x. ecat_run_one_cycle recording_soem 0
       \<lparr>ci_out_locked = True, ci_dgrams = [], ci_exch_start = \<lparr>tv_sec = 0, tv_nsec = 0\<rparr>,
        ci_exch_end = \<lparr>tv_sec = 0, tv_nsec = 5\<rparr>, ci_in_locked = True, ci_sent = True\<rparr>
       (one_slave_inst\<lparr>i_bus_state := ECAT_STATE_OPERATIONAL, i_soem_initialized := True, i_iomap := Some [0, 0]\<rparr>) =
       (True, frame, x) \<and> cycle_count (i_diag x) = 1 \<and> i_recovery_attempts x = 0"
proof -
  let ?io = "\<lparr>ci_out_locked = True, ci_dgrams = [], ci_exch_start = \<lparr>tv_sec = 0, tv_nsec = 0\<rparr>,
    ci_exch_end = \<lparr>tv_sec = 0, tv_nsec = 5\<rparr>, ci_in_locked = True, ci_sent = True\<rparr>"
  let ?i = "one_slave_inst\<lparr>i_bus_state := ECAT_STATE_OPERATIONAL, i_soem_initialized := True, i_iomap := Some [0, 0]\<rparr>"
  obtain did frame x where r: "ecat_run_one_cycle recording_soem 0 ?io ?i = (did, frame, x)" by (metis prod_cases3)
  obtain idx p where p: "ecat_master_al_poll_send recording_soem (ecat_data_apply_outputs (ci_out_locked ?io) (ci_dgrams ?io) 0 ?i) = (idx, p)"
    by force
  obtain wkc q where q: "ecat_master_exchange_processdata recording_soem (i_receive_timeout_us p) p = (wkc, q)" by force
  note c = cycle_outcome [OF r p q]
  have "exchanging (i_bus_state ?i)" "ecat_master_get_iomap ?i \<noteq> None" "cycle_count (i_diag ?i) = 0"
    "i_recovery_attempts ?i = 0"
    by (simp_all add: exchanging_def ecat_master_get_iomap_def one_slave_inst_def zero_defs)
  with c r show ?thesis by auto
qed

text \<open>
  While every sample of a window of at least one lies between zero and \<open>b\<close>, the kept sum lies
  between zero and the window times \<open>b\<close>, so the reported average never exceeds the largest sample
  and the 64-bit sum does not overflow as long as that product fits.
\<close>

theorem average_bounded:
  assumes "1 \<le> window" and "\<forall>x\<in>set samples. 0 \<le> x \<and> x \<le> b" and "0 \<le> b"
  shows "0 \<le> fold (ewma window) samples 0 \<and> fold (ewma window) samples 0 \<le> window * b \<and>
    fold (ewma window) samples 0 sdiv window \<le> b"
proof -
  have r: "0 \<le> fold (ewma window) samples 0 \<and> fold (ewma window) samples 0 \<le> window * b"
    using assms by (intro ewma_run) simp_all
  have "fold (ewma window) samples 0 sdiv window = fold (ewma window) samples 0 div window"
    using r assms(1) by (simp add: signed_divide_int_def sgn_if zdiv_int)
  moreover have "fold (ewma window) samples 0 div window \<le> (window * b) div window"
    using r assms(1) by (intro zdiv_mono1) simp_all
  ultimately show ?thesis using r assms(1) by simp
qed

theorem average_bounded_witness:
  "0 \<le> fold (ewma 2) [10, 20, 20] 0 \<and> fold (ewma 2) [10, 20, 20] 0 \<le> 2 * 20 \<and>
   fold (ewma 2) [10, 20, 20] 0 sdiv 2 \<le> 20"
  using average_bounded [of 2 "[10, 20, 20]" 20] by simp

text \<open>
  C30: configuring is refused while any master is neither IDLE, STOPPED nor in ERROR, and a refusal,
  for whatever reason, leaves the bus as it was. A file that is accepted replaces all masters by
  at least one and at most the allowed number of new ones, IDLE, without threads, SOEM or session,
  each with a well-formed configuration and an interface of its own; no path clears the bus.
\<close>

theorem configure_all_or_nothing:
  assumes "ecat_bus_configure S mem pmem cJSON_Parse locks path file b = (ok, b')"
  shows "(ecat_bus_any_active b \<longrightarrow> \<not> ok) \<and> (\<not> ok \<longrightarrow> b' = b) \<and>
    (ok \<and> path \<in> {None, Some []} \<longrightarrow> g_masters b' = []) \<and>
    (ok \<and> path \<notin> {None, Some []} \<longrightarrow>
      1 \<le> length (g_masters b') \<and> length (g_masters b') \<le> ECAT_MAX_MASTERS \<and>
      distinct (map (\<lambda>inst. interface (c_master (i_config inst))) (g_masters b')) \<and>
      (\<forall>inst\<in>set (g_masters b'). i_bus_state inst = ECAT_STATE_IDLE \<and> thread_flags inst = (False, False) \<and>
         \<not> i_soem_initialized inst \<and> \<not> d_open (i_data inst) \<and> config_wf (i_config inst)))"
proof -
  define fresh where "fresh = (\<lambda>nc. set_bus_state ECAT_STATE_IDLE
    ((ecat_data_init (new_instance S nc))\<lparr>i_diag := diag_reset\<rparr>))"
  have f: "i_bus_state (fresh nc) = ECAT_STATE_IDLE" "thread_flags (fresh nc) = (False, False)"
    "\<not> i_soem_initialized (fresh nc)" "\<not> d_open (i_data (fresh nc))" "i_config (fresh nc) = snd nc" for nc
    by (simp_all add: fresh_def set_bus_state_def ecat_data_init_def new_instance_def thread_flags_def zero_defs)
  consider (kept) "\<not> ok" "b' = b"
    | (clear) "ok" "\<not> ecat_bus_any_active b" "path \<in> {None, Some []}" "g_masters b' = []"
    | (new) insts where "ok" "\<not> ecat_bus_any_active b" "path \<notin> {None, Some []}" "g_masters b' = map fresh insts"
        "ecat_config_parse_all pmem cJSON_Parse file ECAT_MAX_MASTERS = Inr insts"
    using assms by (auto simp: ecat_bus_configure_def free_masters_def Let_def fresh_def
        split: if_splits sum.splits)
  then show ?thesis
  proof cases
    case new
    have d: "map (\<lambda>inst. interface (c_master (i_config inst))) (map fresh insts) =
        map (\<lambda>(_, c). interface (c_master c)) insts"
      by (simp add: f case_prod_unfold comp_def)
    show ?thesis
      using new parse_all_wf [OF new(5)] by (auto simp: d f list_all_iff case_prod_unfold simp del: map_map)
  qed simp_all
qed

theorem configure_all_or_nothing_witness:
  "ecat_bus_configure recording_soem (\<lambda>_. True) (\<lambda>_. True) (\<lambda>_. None) (\<lambda>_. True) (Some ''bus.json'') None
     \<lparr>g_masters = [one_slave_inst\<lparr>i_bus_state := ECAT_STATE_RECOVERING\<rparr>], g_config_path = ''a'', g_leaked = []\<rparr> =
   (False, \<lparr>g_masters = [one_slave_inst\<lparr>i_bus_state := ECAT_STATE_RECOVERING\<rparr>], g_config_path = ''a'', g_leaked = []\<rparr>)"
proof -
  let ?b = "\<lparr>g_masters = [one_slave_inst\<lparr>i_bus_state := ECAT_STATE_RECOVERING\<rparr>], g_config_path = ''a'', g_leaked = []\<rparr>"
  obtain ok b' where r: "ecat_bus_configure recording_soem (\<lambda>_. True) (\<lambda>_. True) (\<lambda>_. None) (\<lambda>_. True)
      (Some ''bus.json'') None ?b = (ok, b')" by force
  have "ecat_bus_any_active ?b" by (simp add: ecat_bus_any_active_def)
  with configure_all_or_nothing [OF r] r show ?thesis by simp
qed

end
