(* ===== verification/Coupler.thy ===== *)
theory Coupler
  imports Master_Sound
begin

text \<open>
  Diagnostics of a modular coupler (the end of \<^verbatim>\<open>src/master.c\<close>): one status object of the coupler and
  one of each configured module, read over the mailbox within a time budget. The lock is taken anew
  for every read; whether it was obtained in time and what the clock then showed are arguments,
  numbered in the order of the reads.
\<close>

section \<open>Model\<close>

record ecat_module_diag =
  md_slot :: int
  md_ident :: u32
  md_known :: bool
  md_status :: u8

record ecat_coupler_diag =
  cd_status_known :: bool
  cd_status_word :: u16
  cd_modules :: "ecat_module_diag list"

record sdo_clock =
  sc_start :: u64
  sc_locked :: "nat \<Rightarrow> bool"
  sc_now :: "nat \<Rightarrow> u64"

definition budget_timeout_us :: "int \<Rightarrow> u64 \<Rightarrow> u64 \<Rightarrow> int" where
  "budget_timeout_us rxm deadline_ms now =
     (if now \<ge> deadline_ms then 0
      else let left_us = (deadline_ms - now) * 1000
           in if left_us < of_int rxm then uint left_us else rxm)"

definition lock_for_sdo :: "bool \<Rightarrow> int \<Rightarrow> 'd ecat_master_instance \<Rightarrow> bool" where
  "lock_for_sdo locked pos inst \<longleftrightarrow>
     locked \<and> i_soem_initialized inst \<and> pos \<le> int (slavecount (i_ctx inst))"

text \<open>A read within the budget; without time left it is not made.\<close>

definition sdo_in_budget ::
  "'d soem \<Rightarrow> sdo_clock \<Rightarrow> u64 \<Rightarrow> nat \<Rightarrow> int \<Rightarrow> u16 \<Rightarrow> u8 \<Rightarrow> bool \<Rightarrow> nat \<Rightarrow> 'd ecat_master_instance \<Rightarrow>
   int \<times> bytes \<times> 'd ecat_master_instance" where
  "sdo_in_budget S clk deadline k pos index sub ca cap inst =
     (let t = budget_timeout_us (EC_TIMEOUTRXM S) deadline (sc_now clk k)
      in if t > 0 then
           (case ecx_SDOread S (nat pos) index sub ca cap t (i_ctx inst) of
              (wkc, bs, ctx) \<Rightarrow> (wkc, bs, inst\<lparr>i_ctx := ctx\<rparr>))
         else (0, [], inst))"

definition read_status_word ::
  "'d soem \<Rightarrow> sdo_clock \<Rightarrow> u64 \<Rightarrow> int \<Rightarrow> 'd ecat_master_instance \<Rightarrow> u16 option \<times> 'd ecat_master_instance" where
  "read_status_word S clk deadline pos inst =
     (if \<not> lock_for_sdo (sc_locked clk 1) pos inst then (None, inst)
      else case sdo_in_budget S clk deadline 1 pos 0xF100 0 True 64 inst of
             (wkc, bs, inst) \<Rightarrow>
               (if wkc > 0 \<and> length bs \<ge> 4 then Some (ucast (bs ! 2) OR push_bit 8 (ucast (bs ! 3))) else None,
                inst))"

definition read_module ::
  "'d soem \<Rightarrow> sdo_clock \<Rightarrow> u64 \<Rightarrow> int \<Rightarrow> int \<Rightarrow> nat \<Rightarrow> ecat_module_diag \<Rightarrow> 'd ecat_master_instance \<Rightarrow>
   ecat_module_diag \<times> 'd ecat_master_instance" where
  "read_module S clk deadline pos incr k md inst =
     (let index = 0xA000 + (md_slot md - 1) * incr
      in if incr \<le> 0 \<or> index > 0xAFFF \<or> \<not> lock_for_sdo (sc_locked clk k) pos inst then (md, inst)
         else case sdo_in_budget S clk deadline k pos (of_int index) 1 False 4 inst of
                (wkc, bs, inst) \<Rightarrow>
                  (if wkc > 0 \<and> length bs \<ge> 1 then md\<lparr>md_known := True, md_status := bs ! 0\<rparr> else md, inst))"

fun read_modules ::
  "'d soem \<Rightarrow> sdo_clock \<Rightarrow> u64 \<Rightarrow> int \<Rightarrow> int \<Rightarrow> nat \<Rightarrow> ecat_module_diag list \<Rightarrow> 'd ecat_master_instance \<Rightarrow>
   ecat_module_diag list \<times> 'd ecat_master_instance" where
  "read_modules S clk deadline pos incr k [] inst = ([], inst)"
| "read_modules S clk deadline pos incr k (md # mds) inst =
     (case read_module S clk deadline pos incr k md inst of
        (md, inst) \<Rightarrow>
          (case read_modules S clk deadline pos incr (k + 1) mds inst of
             (mds, inst) \<Rightarrow> (md # mds, inst)))"

definition blank_module :: "ecat_module \<Rightarrow> ecat_module_diag" where
  "blank_module m = \<lparr>md_slot = mod_slot m, md_ident = mod_ident m, md_known = False, md_status = 0\<rparr>"

text \<open>The diagnostics, or the text of the error.\<close>

definition ecat_master_read_coupler_diagnostics ::
  "'d soem \<Rightarrow> (nat \<Rightarrow> bool) \<Rightarrow> sdo_clock \<Rightarrow> ecat_slave \<Rightarrow> int \<Rightarrow> 'd ecat_master_instance \<Rightarrow>
   (string + ecat_coupler_diag) \<times> 'd ecat_master_instance" where
  "ecat_master_read_coupler_diagnostics S mem clk slave budget_ms inst =
     (let pos = position slave;
          deadline = sc_start clk + of_int (if budget_ms > 0 then budget_ms else 1);
          mods = m_modules (modular slave)
      in if pos < 1 \<or> \<not> lock_for_sdo (sc_locked clk 0) pos inst then
           (Inl ''the bus is not running or is recovering, retry'', inst)
         else if \<not> slave_has_coe (i_ctx inst) (nat pos) then
           (Inl (''slave '' @ fmt_dec pos @ '' is not reachable over CoE''), inst)
         else if \<not> mem (if mods \<noteq> [] then length mods else 1) then (Inl ''out of memory'', inst)
         else
           case read_status_word S clk deadline pos inst of
             (word, inst) \<Rightarrow>
               (case read_modules S clk deadline pos (slot_index_increment (modular slave)) 2
                       (map blank_module mods) inst of
                  (mds, inst) \<Rightarrow>
                    (Inr \<lparr>cd_status_known = (word \<noteq> None), cd_status_word = (case word of Some w \<Rightarrow> w | None \<Rightarrow> 0),
                          cd_modules = mds\<rparr>, inst)))"

section \<open>Reads stay within the budget\<close>

lemma budget_timeout_bounds:
  assumes "0 < rxm" and "rxm < 2 ^ 31"
  shows "0 \<le> budget_timeout_us rxm deadline now \<and> budget_timeout_us rxm deadline now \<le> rxm"
proof -
  have "uint (of_int rxm :: u64) = rxm" using assms by (simp add: unsigned_of_int take_bit_int_eq_self)
  then have "(x::u64) < of_int rxm \<Longrightarrow> uint x < rxm" for x by (simp add: word_less_def)
  then show ?thesis using assms by (auto simp: budget_timeout_us_def Let_def intro: less_imp_le)
qed

text \<open>Two libraries that agree on reads of the diagnostic objects with a timeout in range.\<close>

definition same_reads :: "'d soem \<Rightarrow> 'd soem \<Rightarrow> bool" where
  "same_reads S S' \<longleftrightarrow>
     EC_TIMEOUTRXM S' = EC_TIMEOUTRXM S \<and>
     (\<forall>pos index sub ca cap t ctx.
        0 < t \<and> t \<le> EC_TIMEOUTRXM S \<and> (index = 0xF100 \<or> 0xA000 \<le> index \<and> index \<le> 0xAFFF) \<longrightarrow>
        ecx_SDOread S' pos index sub ca cap t ctx = ecx_SDOread S pos index sub ca cap t ctx)"

lemma sdo_same:
  assumes "same_reads S S'" and "0 < EC_TIMEOUTRXM S" and "EC_TIMEOUTRXM S < 2 ^ 31"
    and "index = 0xF100 \<or> 0xA000 \<le> index \<and> index \<le> 0xAFFF"
  shows "sdo_in_budget S' clk deadline k pos index sub ca cap inst = sdo_in_budget S clk deadline k pos index sub ca cap inst"
  using assms budget_timeout_bounds [OF assms(2,3), of deadline "sc_now clk k"]
  by (simp add: sdo_in_budget_def same_reads_def Let_def)

lemma module_index:
  assumes "(0xA000::int) \<le> index" and "index \<le> 0xAFFF"
  shows "(0xA000::u16) \<le> of_int index" "(of_int index :: u16) \<le> 0xAFFF"
proof -
  have "uint (of_int index :: u16) = index" using assms by (simp add: unsigned_of_int take_bit_int_eq_self)
  then show "(0xA000::u16) \<le> of_int index" "(of_int index :: u16) \<le> 0xAFFF"
    using assms by (simp_all add: word_le_def)
qed

lemma read_module_same:
  assumes "same_reads S S'" and "0 < EC_TIMEOUTRXM S" and "EC_TIMEOUTRXM S < 2 ^ 31" and "1 \<le> md_slot md"
  shows "read_module S' clk deadline pos incr k md inst = read_module S clk deadline pos incr k md inst"
proof -
  define index where "index = 0xA000 + (md_slot md - 1) * incr"
  have "sdo_in_budget S' clk deadline k pos (of_int index) 1 False 4 inst =
      sdo_in_budget S clk deadline k pos (of_int index) 1 False 4 inst" if "0 < incr" "index \<le> 0xAFFF"
  proof -
    have "0xA000 \<le> index" using assms(4) that(1) by (simp add: index_def)
    then show ?thesis using module_index [OF _ that(2)] by (intro sdo_same [OF assms(1-3)]) simp
  qed
  then show ?thesis unfolding read_module_def Let_def index_def [symmetric] by (simp add: not_le)
qed

lemma read_modules_same:
  assumes "same_reads S S'" and "0 < EC_TIMEOUTRXM S" and "EC_TIMEOUTRXM S < 2 ^ 31"
    and "list_all (\<lambda>md. 1 \<le> md_slot md) mds"
  shows "read_modules S' clk deadline pos incr k mds inst = read_modules S clk deadline pos incr k mds inst"
  using assms(4)
  by (induction mds arbitrary: k inst) (simp_all add: read_module_same [OF assms(1-3)] split: prod.split)

lemma read_modules_slots:
  "map (\<lambda>md. (md_slot md, md_ident md)) (fst (read_modules S clk deadline pos incr k mds inst)) =
   map (\<lambda>md. (md_slot md, md_ident md)) mds"
proof (induction mds arbitrary: k inst)
  case (Cons md mds)
  obtain md' x where m: "read_module S clk deadline pos incr k md inst = (md', x)" by force
  then have "md_slot md' = md_slot md" "md_ident md' = md_ident md"
    by (auto simp: read_module_def Let_def split: if_splits prod.splits)
  then show ?case using Cons.IH [of "k + 1" x] m by (simp add: case_prod_unfold)
qed simp

text \<open>
  Reading the diagnostics of a coupler touches no object but 0xF100 and the module objects
  0xA000 to 0xAFFF, and never waits longer for one of them than SOEM's receive timeout: a
  library that answers all other reads differently gives the same result. A result lists exactly
  the configured modules in their order.
\<close>

theorem coupler_reads_bounded:
  assumes "same_reads S S'" and "0 < EC_TIMEOUTRXM S" and "EC_TIMEOUTRXM S < 2 ^ 31"
    and "list_all (\<lambda>m. 1 \<le> mod_slot m) (m_modules (modular slave))"
  shows "ecat_master_read_coupler_diagnostics S' mem clk slave budget_ms inst =
      ecat_master_read_coupler_diagnostics S mem clk slave budget_ms inst \<and>
    (\<forall>d. fst (ecat_master_read_coupler_diagnostics S mem clk slave budget_ms inst) = Inr d \<longrightarrow>
       map (\<lambda>md. (md_slot md, md_ident md)) (cd_modules d) =
       map (\<lambda>m. (mod_slot m, mod_ident m)) (m_modules (modular slave)))"
proof
  let ?mds = "map blank_module (m_modules (modular slave))"
  have "list_all (\<lambda>md. 1 \<le> md_slot md) ?mds" using assms(4) by (simp add: list_all_iff blank_module_def)
  note m = read_modules_same [OF assms(1-3) this]
  have w: "read_status_word S' clk deadline pos i = read_status_word S clk deadline pos i" for deadline pos i
    using sdo_same [OF assms(1-3)] by (simp add: read_status_word_def)
  show "ecat_master_read_coupler_diagnostics S' mem clk slave budget_ms inst =
      ecat_master_read_coupler_diagnostics S mem clk slave budget_ms inst"
    by (simp add: ecat_master_read_coupler_diagnostics_def m w Let_def)
  have "map (\<lambda>md. (md_slot md, md_ident md)) ?mds = map (\<lambda>m. (mod_slot m, mod_ident m)) (m_modules (modular slave))"
    by (simp add: blank_module_def)
  then have "map (\<lambda>md. (md_slot md, md_ident md)) (fst (read_modules S clk dl p n 2 ?mds i)) =
      map (\<lambda>m. (mod_slot m, mod_ident m)) (m_modules (modular slave))" for dl p n i
    by (simp only: read_modules_slots)
  then show "\<forall>d. fst (ecat_master_read_coupler_diagnostics S mem clk slave budget_ms inst) = Inr d \<longrightarrow>
       map (\<lambda>md. (md_slot md, md_ident md)) (cd_modules d) =
       map (\<lambda>m. (mod_slot m, mod_ident m)) (m_modules (modular slave))"
    by (auto simp: ecat_master_read_coupler_diagnostics_def Let_def case_prod_unfold)
qed

theorem coupler_reads_bounded_witness:
  "ecat_master_read_coupler_diagnostics
     (recording_soem\<lparr>ecx_SDOread := (\<lambda>pos index sub ca cap t ctx.
        if 0 < t \<and> t \<le> EC_TIMEOUTRXM recording_soem \<and> (index = 0xF100 \<or> 0xA000 \<le> index \<and> index \<le> 0xAFFF)
        then ecx_SDOread recording_soem pos index sub ca cap t ctx else (0, [], ctx))\<rparr>)
     (\<lambda>_. True) \<lparr>sc_start = 0, sc_locked = (\<lambda>_. True), sc_now = (\<lambda>k. of_nat k)\<rparr>
     (zero_slave\<lparr>position := 1, modular := no_modular\<lparr>m_modules := [\<lparr>mod_slot = 1, mod_ident = 7, mod_class_name = []\<rparr>]\<rparr>\<rparr>)
     2000 one_slave_inst =
   ecat_master_read_coupler_diagnostics recording_soem
     (\<lambda>_. True) \<lparr>sc_start = 0, sc_locked = (\<lambda>_. True), sc_now = (\<lambda>k. of_nat k)\<rparr>
     (zero_slave\<lparr>position := 1, modular := no_modular\<lparr>m_modules := [\<lparr>mod_slot = 1, mod_ident = 7, mod_class_name = []\<rparr>]\<rparr>\<rparr>)
     2000 one_slave_inst"
  by (rule coupler_reads_bounded [THEN conjunct1])
    (simp_all add: same_reads_def recording_soem_def)

end
