(* ===== verification/Bus_Threads.thy ===== *)
theory Bus_Threads
  imports Bus_Sound Coupler
begin

text \<open>
  One master as its threads see it: the control thread that starts, stops, reads and frees it, the bus
  threads of \<^verbatim>\<open>ecat_bus_thread\<close> and the monitor threads of \<^verbatim>\<open>ecat_monitor_thread\<close>. The program does not ask, when it
  starts a master, whether threads of an earlier start are left, so a master has a family of threads of
  each kind; \<^verbatim>\<open>inst->bus_thread\<close> and \<^verbatim>\<open>inst->monitor_thread\<close> hold the ids of the last ones created, and a stop joins
  those. A thread has a program counter at the points where it reads or stores the bus state or a running
  flag and where it takes or releases \<^verbatim>\<open>acyclic_lock\<close>, so the other threads may run in between. The work between
  two such points is one step.

  What a start does before it creates a thread is one step. \<open>careful_step\<close> are the steps in which a start
  happens only with both running flags clear, the check that \<^verbatim>\<open>destroy_instance\<close> makes and \<^verbatim>\<open>ecat_bus_start\<close> does not:
  then no other thread of the master exists during that step. A master that is IDLE or STOPPED is always
  started with care (\<open>stopped_start_careful\<close>); without care the properties fail (\<open>start_beside_monitor\<close>).
\<close>

section \<open>Threads and steps\<close>

datatype bus_pc =
    B_none
  | B_loop bus_locals
  | B_cycle bus_locals ecat_bus_state
  | B_decide bus_locals ecat_bus_state int

text \<open>The monitor holds the lock in \<open>M_recover\<close> and \<open>M_drain\<close>; it waits for it before them.\<close>

datatype mon_pc =
    M_none
  | M_begin
  | M_loop mon_seen
  | M_work mon_seen ecat_bus_state
  | M_recover mon_seen
  | M_store mon_seen ecat_bus_state int
  | M_mailbox mon_seen
  | M_lock_mailbox mon_seen
  | M_drain mon_seen

text \<open>
  The control thread: at rest; in a start, from the launch of the threads on; holding the lock for a read;
  in a stop; and done with the master, whose memory was freed or leaked.
\<close>

datatype ctl_pc =
    C_idle
  | C_launch | C_create_monitor | C_monitor_failed | C_monitor_up | C_create_bus | C_bus_failed | C_store_error
  | C_acyclic
  | C_join_bus | C_stop_monitor | C_join_monitor | C_close
  | C_freed | C_leaked

text \<open>Who makes a step; the beginning of a start has a name of its own.\<close>

datatype actor = Start | Control | Bus_thread nat | Monitor nat

record ('d, 'w) world =
  w_inst :: "'d ecat_master_instance"
  w_bus :: "nat \<Rightarrow> bus_pc"
  w_bus_thread :: nat
  w_mon :: "nat \<Rightarrow> mon_pc"
  w_monitor_thread :: nat
  w_ctl :: ctl_pc
  w_lock :: "actor option"
  w_host :: "'w host"

abbreviation startable :: "ecat_bus_state set" where
  "startable \<equiv> {ECAT_STATE_IDLE, ECAT_STATE_STOPPED, ECAT_STATE_ERROR}"

inductive thread_step ::
  "('d, 'w) env \<Rightarrow> u8 \<Rightarrow> actor \<Rightarrow> ('d, 'w) world \<Rightarrow> ('d, 'w) world \<Rightarrow> bool" for E k where
  start: "w_ctl s = C_idle \<Longrightarrow> i_bus_state (w_inst s) \<in> startable \<Longrightarrow>
    prepare_start E ub (w_host s) (w_inst s) = (up, h, x) \<Longrightarrow>
    thread_step E k Start s (s\<lparr>w_inst := x, w_host := h, w_ctl := (if up then C_launch else C_idle)\<rparr>)"
| flag_monitor: "w_ctl s = C_launch \<Longrightarrow>
    thread_step E k Control s
      (s\<lparr>w_inst := (w_inst s)\<lparr>i_monitor_running := True\<rparr>, w_ctl := C_create_monitor\<rparr>)"
| monitor_created: "w_ctl s = C_create_monitor \<Longrightarrow> n = Suc (w_monitor_thread s) \<Longrightarrow>
    thread_step E k Control s
      (s\<lparr>w_mon := (w_mon s)(n := M_begin), w_monitor_thread := n, w_ctl := C_monitor_up\<rparr>)"
| monitor_refused: "w_ctl s = C_create_monitor \<Longrightarrow>
    thread_step E k Control s (s\<lparr>w_ctl := C_monitor_failed\<rparr>)"
| unflag_monitor: "w_ctl s = C_monitor_failed \<Longrightarrow>
    thread_step E k Control s
      (s\<lparr>w_inst := (w_inst s)\<lparr>i_monitor_running := False\<rparr>, w_ctl := C_store_error\<rparr>)"
| flag_bus: "w_ctl s = C_monitor_up \<Longrightarrow>
    thread_step E k Control s (s\<lparr>w_inst := (w_inst s)\<lparr>i_bus_running := True\<rparr>, w_ctl := C_create_bus\<rparr>)"
| bus_created: "w_ctl s = C_create_bus \<Longrightarrow> n = Suc (w_bus_thread s) \<Longrightarrow>
    thread_step E k Control s
      (s\<lparr>w_bus := (w_bus s)(n := B_loop \<lparr>bl_next_wakeup = now, bl_prev_wake = None\<rparr>), w_bus_thread := n,
         w_ctl := C_idle\<rparr>)"
| bus_refused: "w_ctl s = C_create_bus \<Longrightarrow>
    thread_step E k Control s (s\<lparr>w_ctl := C_bus_failed\<rparr>)"
| unflag_bus: "w_ctl s = C_bus_failed \<Longrightarrow>
    thread_step E k Control s (s\<lparr>w_inst := (w_inst s)\<lparr>i_bus_running := False\<rparr>, w_ctl := C_store_error\<rparr>)"
| store_error: "w_ctl s = C_store_error \<Longrightarrow>
    thread_step E k Control s (s\<lparr>w_inst := set_bus_state ECAT_STATE_ERROR (w_inst s), w_ctl := C_idle\<rparr>)"
| open_data: "w_ctl s = C_idle \<Longrightarrow> exchanging (i_bus_state (w_inst s)) \<Longrightarrow>
    thread_step E k Control s (s\<lparr>w_inst := snd (ecat_data_open ep sock fresh (w_inst s))\<rparr>)"
| close_data: "w_ctl s = C_idle \<Longrightarrow>
    thread_step E k Control s (s\<lparr>w_inst := ecat_data_close (w_inst s)\<rparr>)"
| control_locks: "w_ctl s = C_idle \<Longrightarrow> i_soem_initialized (w_inst s) \<Longrightarrow> i_bus_running (w_inst s) \<Longrightarrow> w_lock s = None \<Longrightarrow>
    thread_step E k Control s (s\<lparr>w_lock := Some Control, w_ctl := C_acyclic\<rparr>)"
| control_scans: "w_ctl s = C_acyclic \<Longrightarrow>
    ecat_read_module_idents (e_soem E) (e_mem E) slave_pos (i_ctx (w_inst s)) = (idents, ctx) \<Longrightarrow>
    thread_step E k Control s (s\<lparr>w_inst := (w_inst s)\<lparr>i_ctx := ctx\<rparr>, w_lock := None, w_ctl := C_idle\<rparr>)"
| control_diagnoses: "w_ctl s = C_acyclic \<Longrightarrow>
    sdo_in_budget (e_soem E) clk deadline j pos index sub ca cap (w_inst s) = (wkc, bs, x) \<Longrightarrow>
    thread_step E k Control s (s\<lparr>w_inst := x, w_lock := None, w_ctl := C_idle\<rparr>)"
| stop_request: "w_ctl s = C_idle \<Longrightarrow> i_bus_state (w_inst s) \<notin> {ECAT_STATE_STOPPED, ECAT_STATE_IDLE} \<Longrightarrow>
    thread_step E k Control s
      (if i_bus_running (w_inst s)
       then s\<lparr>w_inst := (w_inst s)\<lparr>i_bus_running := False\<rparr>, w_ctl := C_join_bus\<rparr>
       else s\<lparr>w_ctl := C_stop_monitor\<rparr>)"
| bus_joined: "w_ctl s = C_join_bus \<Longrightarrow> w_bus s (w_bus_thread s) = B_none \<Longrightarrow>
    thread_step E k Control s (s\<lparr>w_ctl := C_stop_monitor\<rparr>)"
| stop_monitor: "w_ctl s = C_stop_monitor \<Longrightarrow>
    thread_step E k Control s
      (if i_monitor_running (w_inst s)
       then s\<lparr>w_inst := (w_inst s)\<lparr>i_monitor_running := False\<rparr>, w_ctl := C_join_monitor\<rparr>
       else s\<lparr>w_ctl := C_close\<rparr>)"
| monitor_joined: "w_ctl s = C_join_monitor \<Longrightarrow> w_mon s (w_monitor_thread s) = M_none \<Longrightarrow>
    thread_step E k Control s (s\<lparr>w_ctl := C_close\<rparr>)"
| stop_closes: "w_ctl s = C_close \<Longrightarrow> close_stopped E (w_host s) (w_inst s) = (h, x) \<Longrightarrow>
    thread_step E k Control s (s\<lparr>w_inst := x, w_host := h, w_ctl := C_idle\<rparr>)"
| configure: "w_ctl s = C_idle \<Longrightarrow> i_bus_state (w_inst s) \<in> startable \<Longrightarrow>
    thread_step E k Control s
      (case destroy_instance (w_inst s) of
         None \<Rightarrow> s\<lparr>w_ctl := C_leaked\<rparr>
       | Some x \<Rightarrow> s\<lparr>w_inst := x, w_ctl := C_freed\<rparr>)"
| bus_exit: "w_bus s n = B_loop l \<Longrightarrow> \<not> i_bus_running (w_inst s) \<Longrightarrow>
    thread_step E k (Bus_thread n) s (s\<lparr>w_bus := (w_bus s)(n := B_none)\<rparr>)"
| bus_wakes: "w_bus s n = B_loop l \<Longrightarrow> i_bus_running (w_inst s) \<Longrightarrow>
    bus_wake now l (w_inst s) = (l', x) \<Longrightarrow>
    thread_step E k (Bus_thread n) s (s\<lparr>w_inst := x, w_bus := (w_bus s)(n := B_cycle l' (i_bus_state x))\<rparr>)"
| bus_skips: "w_bus s n = B_cycle l st \<Longrightarrow> \<not> exchanging st \<or> ecat_master_get_iomap (w_inst s) = None \<Longrightarrow>
    bus_finish fin l (w_inst s) = (l', x) \<Longrightarrow>
    thread_step E k (Bus_thread n) s (s\<lparr>w_inst := x, w_bus := (w_bus s)(n := B_loop l')\<rparr>)"
| bus_exchanges: "w_bus s n = B_cycle l st \<Longrightarrow> exchanging st \<Longrightarrow> ecat_master_get_iomap (w_inst s) \<noteq> None \<Longrightarrow>
    cycle_exchange (e_soem E) k io st (w_inst s) = (wkc, frame, x) \<Longrightarrow>
    thread_step E k (Bus_thread n) s (s\<lparr>w_inst := x, w_bus := (w_bus s)(n := B_decide l st wkc)\<rparr>)"
| bus_decides: "w_bus s n = B_decide l st wkc \<Longrightarrow>
    bus_finish fin l (cycle_decide st wkc (w_inst s)) = (l', x) \<Longrightarrow>
    thread_step E k (Bus_thread n) s (s\<lparr>w_inst := x, w_bus := (w_bus s)(n := B_loop l')\<rparr>)"
| monitor_begins: "w_mon s n = M_begin \<Longrightarrow>
    thread_step E k (Monitor n) s (s\<lparr>w_mon := (w_mon s)(n := M_loop (0, i_al_faults (w_inst s)))\<rparr>)"
| monitor_exit: "w_mon s n = M_loop seen \<Longrightarrow> \<not> i_monitor_running (w_inst s) \<Longrightarrow>
    thread_step E k (Monitor n) s (s\<lparr>w_mon := (w_mon s)(n := M_none)\<rparr>)"
| monitor_loads: "w_mon s n = M_loop seen \<Longrightarrow> i_monitor_running (w_inst s) \<Longrightarrow>
    thread_step E k (Monitor n) s (s\<lparr>w_mon := (w_mon s)(n := M_work seen (i_bus_state (w_inst s)))\<rparr>)"
| monitor_works: "w_mon s n = M_work seen st \<Longrightarrow> st \<noteq> ECAT_STATE_RECOVERING \<Longrightarrow>
    monitor_work (e_soem E) (e_mem E) st seen (w_inst s) = (result, seen', x) \<Longrightarrow>
    thread_step E k (Monitor n) s (s\<lparr>w_inst := x, w_mon := (w_mon s)(n := M_store seen' st result)\<rparr>)"
| monitor_locks: "w_mon s n = M_work seen ECAT_STATE_RECOVERING \<Longrightarrow> w_lock s = None \<Longrightarrow>
    thread_step E k (Monitor n) s (s\<lparr>w_lock := Some (Monitor n), w_mon := (w_mon s)(n := M_recover seen)\<rparr>)"
| monitor_recovers: "w_mon s n = M_recover seen \<Longrightarrow>
    monitor_work (e_soem E) (e_mem E) ECAT_STATE_RECOVERING seen (w_inst s) = (result, seen', x) \<Longrightarrow>
    thread_step E k (Monitor n) s
      (s\<lparr>w_inst := x, w_lock := None, w_mon := (w_mon s)(n := M_store seen' ECAT_STATE_RECOVERING result)\<rparr>)"
| monitor_stores: "w_mon s n = M_store seen st result \<Longrightarrow>
    thread_step E k (Monitor n) s
      (s\<lparr>w_inst := monitor_store result (w_inst s), w_mon := (w_mon s)(n := M_mailbox seen)\<rparr>)"
| monitor_reloads: "w_mon s n = M_mailbox seen \<Longrightarrow>
    thread_step E k (Monitor n) s
      (s\<lparr>w_mon := (w_mon s)(n := if exchanging (i_bus_state (w_inst s)) \<and> i_soem_initialized (w_inst s)
                                   then M_lock_mailbox seen else M_loop seen)\<rparr>)"
| mailbox_locks: "w_mon s n = M_lock_mailbox seen \<Longrightarrow> w_lock s = None \<Longrightarrow>
    thread_step E k (Monitor n) s (s\<lparr>w_lock := Some (Monitor n), w_mon := (w_mon s)(n := M_drain seen)\<rparr>)"
| monitor_drains: "w_mon s n = M_drain seen \<Longrightarrow>
    thread_step E k (Monitor n) s
      (s\<lparr>w_inst := drain_mailbox_and_errors (e_soem E) (w_inst s), w_lock := None,
         w_mon := (w_mon s)(n := M_loop seen)\<rparr>)"

inductive_cases start_stepE: "thread_step E k Start s t"
inductive_cases control_stepE: "thread_step E k Control s t"
inductive_cases bus_stepE: "thread_step E k (Bus_thread n) s t"
inductive_cases monitor_stepE: "thread_step E k (Monitor n) s t"

text \<open>A start happens only when neither running flag is set.\<close>

definition careful_step ::
  "('d, 'w) env \<Rightarrow> u8 \<Rightarrow> actor \<Rightarrow> ('d, 'w) world \<Rightarrow> ('d, 'w) world \<Rightarrow> bool" where
  "careful_step E k a s t \<longleftrightarrow>
     thread_step E k a s t \<and> (a = Start \<longrightarrow> thread_flags (w_inst s) = (False, False))"

definition unthreaded :: "('d, 'w) world \<Rightarrow> bool" where
  "unthreaded s \<longleftrightarrow> (\<forall>n. w_bus s n = B_none) \<and> (\<forall>n. w_mon s n = M_none)"

definition world_init :: "('d, 'w) world \<Rightarrow> bool" where
  "world_init s \<longleftrightarrow>
     unthreaded s \<and> w_ctl s = C_idle \<and> w_lock s = None \<and>
     i_bus_state (w_inst s) = ECAT_STATE_IDLE \<and> thread_flags (w_inst s) = (False, False) \<and>
     \<not> i_soem_initialized (w_inst s) \<and> i_recovery_attempts (w_inst s) = 0"

section \<open>The monitor's work\<close>

lemma recover_slave_off_bus:
  "i_bus_state (snd (ecat_master_recover_slave S pos inst)) = i_bus_state inst"
  "i_recovery_attempts (snd (ecat_master_recover_slave S pos inst)) = i_recovery_attempts inst"
  "thread_flags (snd (ecat_master_recover_slave S pos inst)) = thread_flags inst"
  "i_soem_initialized (snd (ecat_master_recover_slave S pos inst)) = i_soem_initialized inst"
  "i_config (snd (ecat_master_recover_slave S pos inst)) = i_config inst"
  by (simp_all add: ecat_master_recover_slave_def check_op_def set_lost_def writestate_with_check_def
      Let_def thread_flags_def split: prod.split bool.split)

lemma recover_slaves_fields:
  assumes "recover_slaves S ss b inst = (ok, x)"
  shows "i_bus_state x = i_bus_state inst" "i_recovery_attempts x = i_recovery_attempts inst"
    "thread_flags x = thread_flags inst" "i_soem_initialized x = i_soem_initialized inst"
    "i_config x = i_config inst"
  using assms
  by (induction S ss b inst rule: recover_slaves.induct)
    (auto simp: recover_slave_off_bus split: if_splits)

lemma attempt_recovery_result:
  assumes "attempt_recovery S inst = (r, x)"
  shows "i_bus_state x = i_bus_state inst" "thread_flags x = thread_flags inst"
    and "r = 1 \<and> i_recovery_attempts x = 0 \<or>
      i_recovery_attempts x = i_recovery_attempts inst + 1 \<and> r = (if i_recovery_attempts x \<ge> 5 then - 1 else 0)"
proof -
  let ?i = "ecat_master_read_states S inst"
  have i: "i_bus_state ?i = i_bus_state inst" "thread_flags ?i = thread_flags inst"
    "i_recovery_attempts ?i = i_recovery_attempts inst"
    by (simp_all add: ecat_master_read_states_def)
  obtain ok y where y: "recover_slaves S (c_slaves (i_config ?i)) True ?i = (ok, y)" by force
  note f = recover_slaves_fields [OF y]
  show "i_bus_state x = i_bus_state inst" "thread_flags x = thread_flags inst"
    "r = 1 \<and> i_recovery_attempts x = 0 \<or>
      i_recovery_attempts x = i_recovery_attempts inst + 1 \<and> r = (if i_recovery_attempts x \<ge> 5 then - 1 else 0)"
    using assms f i y by (auto simp: attempt_recovery_def Let_def threshold_defs thread_flags_def split: bool.splits)
qed

lemma monitor_work_result:
  assumes "monitor_work S mem st seen inst = (r, seen', x)"
  shows "i_bus_state x = i_bus_state inst" "thread_flags x = thread_flags inst"
    and "st \<noteq> ECAT_STATE_RECOVERING \<Longrightarrow> r = 0 \<and> i_recovery_attempts x = i_recovery_attempts inst"
    and "st = ECAT_STATE_RECOVERING \<Longrightarrow> r = 1 \<and> i_recovery_attempts x = 0 \<or>
      i_recovery_attempts x = i_recovery_attempts inst + 1 \<and> r = (if i_recovery_attempts x \<ge> 5 then - 1 else 0)"
proof -
  have m: "i_bus_state (ecat_master_mark_all_operational y) = i_bus_state y"
    "thread_flags (ecat_master_mark_all_operational y) = thread_flags y"
    "i_recovery_attempts (ecat_master_mark_all_operational y) = i_recovery_attempts y"
    "i_bus_state (ecat_master_read_states S y) = i_bus_state y"
    "thread_flags (ecat_master_read_states S y) = thread_flags y"
    "i_recovery_attempts (ecat_master_read_states S y) = i_recovery_attempts y" for y :: "'a ecat_master_instance"
    by (simp_all add: ecat_master_mark_all_operational_def ecat_master_read_states_def)
  obtain q y where y: "attempt_recovery S inst = (q, y)" by force
  note a = attempt_recovery_result [OF y]
  show "i_bus_state x = i_bus_state inst" "thread_flags x = thread_flags inst"
    using assms m a y by (auto simp: monitor_work_def Let_def split: ecat_bus_state.splits)
  show "r = 0 \<and> i_recovery_attempts x = i_recovery_attempts inst" if "st \<noteq> ECAT_STATE_RECOVERING"
    using assms m that by (auto simp: monitor_work_def Let_def split: ecat_bus_state.splits)
  show "r = 1 \<and> i_recovery_attempts x = 0 \<or>
      i_recovery_attempts x = i_recovery_attempts inst + 1 \<and> r = (if i_recovery_attempts x \<ge> 5 then - 1 else 0)"
    if "st = ECAT_STATE_RECOVERING"
    using assms a(3) y that by (auto simp: monitor_work_def)
qed

lemma monitor_tail_fields [simp]:
  "i_bus_state (drain_mailbox_and_errors S inst) = i_bus_state inst"
  "thread_flags (drain_mailbox_and_errors S inst) = thread_flags inst"
  "i_recovery_attempts (drain_mailbox_and_errors S inst) = i_recovery_attempts inst"
  "thread_flags (monitor_store r inst) = thread_flags inst"
  "i_recovery_attempts (monitor_store r inst) = i_recovery_attempts inst"
  "i_bus_state (monitor_store r inst) =
     (if r = 1 then ECAT_STATE_OPERATIONAL else if r = - 1 then ECAT_STATE_ERROR else i_bus_state inst)"
  by (simp_all add: drain_mailbox_and_errors_def monitor_store_def)

lemma bus_locals_steps:
  "bus_wake now l inst = (l', x) \<Longrightarrow> i_bus_state x = i_bus_state inst \<and> thread_flags x = thread_flags inst \<and>
     i_recovery_attempts x = i_recovery_attempts inst"
  "bus_finish now l inst = (l', x) \<Longrightarrow> i_bus_state x = i_bus_state inst \<and> thread_flags x = thread_flags inst \<and>
     i_recovery_attempts x = i_recovery_attempts inst"
  by (auto simp: bus_wake_def bus_finish_def Let_def thread_flags_def)

lemma data_ops_fields [simp]:
  "i_bus_state (snd (ecat_data_open ep sock fresh inst)) = i_bus_state inst"
  "thread_flags (snd (ecat_data_open ep sock fresh inst)) = thread_flags inst"
  "i_recovery_attempts (snd (ecat_data_open ep sock fresh inst)) = i_recovery_attempts inst"
  "i_bus_state (ecat_data_close inst) = i_bus_state inst"
  "thread_flags (ecat_data_close inst) = thread_flags inst"
  "i_recovery_attempts (ecat_data_close inst) = i_recovery_attempts inst"
  by (simp_all add: ecat_data_open_def ecat_data_close_def Let_def split: option.split)

section \<open>The invariant\<close>

text \<open>
  \<open>lock_ok\<close> says that the lock has a holder exactly while that thread is between taking and releasing it. \<open>alone\<close> says that of each kind at most the thread created last is left. \<open>flags_ok\<close> ties the
  running flags and the bus state to the threads that exist and to what the control thread is doing,
  \<open>owner_ok\<close> says that a bus state a thread has read is still there when the thread may act on it, and
  \<open>attempts_ok\<close> bounds the recovery counter.
\<close>

definition mon_locked :: "mon_pc \<Rightarrow> bool" where
  "mon_locked m = (case m of M_recover _ \<Rightarrow> True | M_drain _ \<Rightarrow> True | _ \<Rightarrow> False)"

lemma mon_locked_simps [simp]:
  "\<not> mon_locked M_none" "\<not> mon_locked M_begin" "\<not> mon_locked (M_loop v)" "\<not> mon_locked (M_work v st)"
  "mon_locked (M_recover v)" "\<not> mon_locked (M_store v st r)" "\<not> mon_locked (M_mailbox v)"
  "\<not> mon_locked (M_lock_mailbox v)" "mon_locked (M_drain v)"
  by (simp_all add: mon_locked_def)

definition lock_ok :: "('d, 'w) world \<Rightarrow> bool" where
  "lock_ok s \<longleftrightarrow>
     (w_lock s = Some Control \<longleftrightarrow> w_ctl s = C_acyclic) \<and>
     (\<forall>n. w_lock s = Some (Monitor n) \<longleftrightarrow> mon_locked (w_mon s n)) \<and>
     w_lock s \<noteq> Some Start \<and> (\<forall>n. w_lock s \<noteq> Some (Bus_thread n))"

definition alone :: "('d, 'w) world \<Rightarrow> bool" where
  "alone s \<longleftrightarrow>
     (\<forall>n. n \<noteq> w_bus_thread s \<longrightarrow> w_bus s n = B_none) \<and> (\<forall>n. n \<noteq> w_monitor_thread s \<longrightarrow> w_mon s n = M_none)"

definition cur_bus :: "('d, 'w) world \<Rightarrow> bus_pc" where
  "cur_bus s = w_bus s (w_bus_thread s)"

definition cur_mon :: "('d, 'w) world \<Rightarrow> mon_pc" where
  "cur_mon s = w_mon s (w_monitor_thread s)"

text \<open>
  The running flags \<open>f\<close> and the bus state \<open>st\<close> at every point of the control thread, where \<open>b\<close> and \<open>m\<close> say whether
  the bus thread and the monitor exist.
\<close>

definition ctl_ok :: "ctl_pc \<Rightarrow> bool \<Rightarrow> bool \<Rightarrow> bool \<times> bool \<Rightarrow> ecat_bus_state \<Rightarrow> bool" where
  "ctl_ok c b m f st \<longleftrightarrow>
     (let live = (exchanging st \<or> st = ECAT_STATE_ERROR);
          rest = (f = (b, m) \<and> (b \<or> m \<longrightarrow> live) \<and> (exchanging st \<longrightarrow> b \<and> m) \<and> (exchanging st \<or> st \<in> startable));
          op = (st = ECAT_STATE_OPERATIONAL)
      in case c of
           C_idle \<Rightarrow> rest | C_acyclic \<Rightarrow> rest | C_leaked \<Rightarrow> rest
         | C_freed \<Rightarrow> f = (False, False) \<and> \<not> b \<and> \<not> m \<and> st \<in> startable
         | C_launch \<Rightarrow> f = (False, False) \<and> \<not> b \<and> \<not> m \<and> op
         | C_create_monitor \<Rightarrow> f = (False, True) \<and> \<not> b \<and> \<not> m \<and> op
         | C_monitor_failed \<Rightarrow> f = (False, True) \<and> \<not> b \<and> \<not> m \<and> op
         | C_monitor_up \<Rightarrow> f = (False, True) \<and> \<not> b \<and> m \<and> op
         | C_create_bus \<Rightarrow> f = (True, True) \<and> \<not> b \<and> m \<and> op
         | C_bus_failed \<Rightarrow> f = (True, True) \<and> \<not> b \<and> m \<and> op
         | C_store_error \<Rightarrow> f = (False, m) \<and> \<not> b \<and> op
         | C_join_bus \<Rightarrow> f = (False, m) \<and> live
         | C_stop_monitor \<Rightarrow> f = (False, m) \<and> \<not> b \<and> live
         | C_join_monitor \<Rightarrow> f = (False, False) \<and> \<not> b \<and> live
         | C_close \<Rightarrow> f = (False, False) \<and> \<not> b \<and> \<not> m \<and> live)"

definition flags_ok :: "('d, 'w) world \<Rightarrow> bool" where
  "flags_ok s \<longleftrightarrow>
     ctl_ok (w_ctl s) (cur_bus s \<noteq> B_none) (cur_mon s \<noteq> M_none) (thread_flags (w_inst s)) (i_bus_state (w_inst s))"

definition bus_read :: "bus_pc \<Rightarrow> ecat_bus_state option" where
  "bus_read b = (case b of B_cycle _ st \<Rightarrow> Some st | B_decide _ st _ \<Rightarrow> Some st | _ \<Rightarrow> None)"

definition mon_read :: "mon_pc \<Rightarrow> ecat_bus_state option" where
  "mon_read m = (case m of M_work _ st \<Rightarrow> Some st | M_recover _ \<Rightarrow> Some ECAT_STATE_RECOVERING
                 | M_store _ st _ \<Rightarrow> Some st | _ \<Rightarrow> None)"

definition mon_result :: "mon_pc \<Rightarrow> int" where
  "mon_result m = (case m of M_store _ _ r \<Rightarrow> r | _ \<Rightarrow> 0)"

definition owner_ok :: "('d, 'w) world \<Rightarrow> bool" where
  "owner_ok s \<longleftrightarrow>
     (bus_read (cur_bus s) = Some ECAT_STATE_OPERATIONAL \<longrightarrow> i_bus_state (w_inst s) = ECAT_STATE_OPERATIONAL) \<and>
     (mon_read (cur_mon s) = Some ECAT_STATE_RECOVERING \<longrightarrow> i_bus_state (w_inst s) = ECAT_STATE_RECOVERING) \<and>
     (mon_result (cur_mon s) \<noteq> 0 \<longrightarrow> mon_read (cur_mon s) = Some ECAT_STATE_RECOVERING)"

definition attempts_ok :: "('d, 'w) world \<Rightarrow> bool" where
  "attempts_ok s \<longleftrightarrow>
     (let a = i_recovery_attempts (w_inst s)
      in (i_bus_state (w_inst s) = ECAT_STATE_OPERATIONAL \<longrightarrow> a = 0) \<and>
         (i_bus_state (w_inst s) = ECAT_STATE_RECOVERING \<longrightarrow>
            0 \<le> a \<and> a \<le> (if mon_result (cur_mon s) = - 1 then 5 else 4)) \<and>
         (mon_result (cur_mon s) = 1 \<longrightarrow> a = 0) \<and> mon_result (cur_mon s) \<in> {- 1, 0, 1})"

definition threads_ok :: "('d, 'w) world \<Rightarrow> bool" where
  "threads_ok s \<longleftrightarrow> lock_ok s \<and> alone s \<and> flags_ok s \<and> owner_ok s \<and> attempts_ok s"

lemmas thread_inv_defs = threads_ok_def flags_ok_def owner_ok_def attempts_ok_def bus_read_def mon_read_def
  mon_result_def

subsection \<open>The lock\<close>

lemma lock_held:
  assumes "lock_ok s"
  shows "w_ctl s = C_acyclic \<Longrightarrow> w_lock s = Some Control" and "w_lock s = Some Control \<Longrightarrow> w_ctl s = C_acyclic"
    and "mon_locked (w_mon s n) \<Longrightarrow> w_lock s = Some (Monitor n)"
    and "w_lock s = Some (Monitor n) \<Longrightarrow> mon_locked (w_mon s n)"
  using assms by (auto simp: lock_ok_def)

text \<open>The three ways in which a step touches the lock.\<close>

lemma lock_ok_other:
  assumes "lock_ok s" and "w_lock t = w_lock s" and "(w_ctl t = C_acyclic) = (w_ctl s = C_acyclic)"
    and "\<And>n. mon_locked (w_mon t n) = mon_locked (w_mon s n)"
  shows "lock_ok t"
  using assms by (simp add: lock_ok_def)

lemma lock_ok_taken:
  assumes "lock_ok s" and "w_lock s = None" and "w_lock t = Some (Monitor n)" and "w_ctl t = w_ctl s"
    and "w_mon t = (w_mon s)(n := m)" and "mon_locked m"
  shows "lock_ok t"
  using assms by (auto simp: lock_ok_def)

lemma lock_ok_released:
  assumes "lock_ok s" and "mon_locked (w_mon s n)" and "w_lock t = None" and "w_ctl t = w_ctl s"
    and "w_mon t = (w_mon s)(n := m)" and "\<not> mon_locked m"
  shows "lock_ok t"
proof -
  have "w_lock s = Some (Monitor n)" using lock_held(3) [OF assms(1,2)] .
  then have "w_ctl s \<noteq> C_acyclic" "\<And>j. j \<noteq> n \<Longrightarrow> \<not> mon_locked (w_mon s j)"
    using assms(1) by (auto simp: lock_ok_def)
  then show ?thesis using assms(3-6) by (simp add: lock_ok_def)
qed

lemma control_lock:
  assumes "lock_ok s" and "alone s" and "thread_step E k Control s t"
  shows "lock_ok t"
  using assms(3)
proof cases
  case control_locks
  then show ?thesis using assms(1) by (auto simp: lock_ok_def)
next
  case (control_scans slave_pos idents ctx)
  then have "w_lock s = Some Control" using lock_held(1) [OF assms(1)] by simp
  then show ?thesis using assms(1) control_scans by (simp add: lock_ok_def)
next
  case (control_diagnoses clk deadline j pos index sub ca cap wkc bs x)
  then have "w_lock s = Some Control" using lock_held(1) [OF assms(1)] by simp
  then show ?thesis using assms(1) control_diagnoses by (simp add: lock_ok_def)
next
  case (monitor_created n)
  then have "w_mon s n = M_none" using assms(2) by (simp add: alone_def)
  then show ?thesis using assms(1) monitor_created by (auto simp: lock_ok_def mon_locked_def)
qed (auto intro!: lock_ok_other [OF assms(1)] split: option.split if_splits)

lemma bus_lock: "lock_ok s \<Longrightarrow> thread_step E k (Bus_thread n) s t \<Longrightarrow> lock_ok t"
  by (erule bus_stepE) (simp_all add: lock_ok_def)

lemma monitor_lock:
  assumes "lock_ok s" and "thread_step E k (Monitor n) s t"
  shows "lock_ok t"
  using assms(2)
proof cases
  case (monitor_locks seen)
  then show ?thesis by (intro lock_ok_taken [OF assms(1), where n = n and m = "M_recover seen"]) simp_all
next
  case (mailbox_locks seen)
  then show ?thesis by (intro lock_ok_taken [OF assms(1), where n = n and m = "M_drain seen"]) simp_all
next
  case (monitor_recovers seen result seen' x)
  then show ?thesis
    by (intro lock_ok_released [OF assms(1), where n = n and m = "M_store seen' ECAT_STATE_RECOVERING result"]) simp_all
next
  case (monitor_drains seen)
  then show ?thesis by (intro lock_ok_released [OF assms(1), where n = n and m = "M_loop seen"]) simp_all
qed (auto intro!: lock_ok_other [OF assms(1)] split: if_splits)

subsection \<open>Threads left\<close>

lemma only_bus_thread:
  assumes "alone s" and "thread_step E k (Bus_thread n) s t"
  shows "n = w_bus_thread s"
  using assms(2) by cases (use assms(1) in \<open>auto simp: alone_def\<close>)

lemma only_monitor:
  assumes "alone s" and "thread_step E k (Monitor n) s t"
  shows "n = w_monitor_thread s"
  using assms(2) by cases (use assms(1) in \<open>auto simp: alone_def\<close>)

lemma unthreaded_alone: "alone s \<Longrightarrow> unthreaded s \<longleftrightarrow> cur_bus s = B_none \<and> cur_mon s = M_none"
  by (simp add: alone_def unthreaded_def cur_bus_def cur_mon_def) metis

lemma unflagged_unthreaded:
  assumes "threads_ok s" and "w_ctl s = C_idle" and "thread_flags (w_inst s) = (False, False)"
  shows "unthreaded s"
  using assms by (simp add: threads_ok_def unthreaded_alone flags_ok_def ctl_ok_def Let_def)

lemma ctl_ok_bus_exit: "ctl_ok c True m (False, fm) st \<Longrightarrow> ctl_ok c False m (False, fm) st"
  by (cases c) (auto simp: ctl_ok_def Let_def)

lemma ctl_ok_monitor_exit: "ctl_ok c b True (fb, False) st \<Longrightarrow> ctl_ok c b False (fb, False) st"
  by (cases c) (auto simp: ctl_ok_def Let_def)

lemma ctl_ok_bus_store:
  "ctl_ok c True m f ECAT_STATE_OPERATIONAL \<Longrightarrow> ctl_ok c True m f ECAT_STATE_RECOVERING"
  by (cases c) (auto simp: ctl_ok_def exchanging_def Let_def)

lemma ctl_ok_monitor_store:
  "ctl_ok c b True f ECAT_STATE_RECOVERING \<Longrightarrow> st \<in> {ECAT_STATE_OPERATIONAL, ECAT_STATE_ERROR} \<Longrightarrow> ctl_ok c b True f st"
  by (cases c) (auto simp: ctl_ok_def exchanging_def Let_def)

subsection \<open>Steps keep it\<close>

lemma view_keeps:
  assumes "threads_ok s" and "lock_ok t" and "alone t" and "w_ctl t = w_ctl s"
    and "cur_bus t = cur_bus s" and "cur_mon t = cur_mon s" and "i_bus_state (w_inst t) = i_bus_state (w_inst s)"
    and "thread_flags (w_inst t) = thread_flags (w_inst s)"
    and "i_recovery_attempts (w_inst t) = i_recovery_attempts (w_inst s)"
  shows "threads_ok t"
  using assms by (simp add: threads_ok_def flags_ok_def owner_ok_def attempts_ok_def)

lemma start_keeps:
  assumes "threads_ok s" and "thread_step E k Start s t" and "thread_flags (w_inst s) = (False, False)"
  shows "threads_ok t"
  using assms(2)
proof cases
  case (start ub up h x)
  have no: "cur_bus s = B_none" "cur_mon s = M_none"
    using unflagged_unthreaded [OF assms(1) start(2) assms(3)] by (simp_all add: unthreaded_def cur_bus_def cur_mon_def)
  have t: "cur_bus t = B_none" "cur_mon t = M_none" "w_inst t = x" "w_ctl t = (if up then C_launch else C_idle)"
    using start(1) no by (simp_all add: cur_bus_def cur_mon_def)
  have lk: "lock_ok t" "alone t"
    using assms(1) start(1,2) by (simp_all add: threads_ok_def lock_ok_def alone_def)
  note r = prepare_result [OF start(4)]
  have f: "thread_flags x = (False, False)" using r(2) assms(3) by simp
  show ?thesis
  proof (cases up)
    case True
    then have "ready x" using r(3) by simp
    then show ?thesis using t lk f True
      by (simp add: threads_ok_def flags_ok_def ctl_ok_def owner_ok_def attempts_ok_def bus_read_def mon_read_def mon_result_def
          ready_def Let_def)
  next
    case False
    then have "i_bus_state x \<in> startable" using r(4) start(3) by auto
    then show ?thesis using t lk f False
      by (auto simp: threads_ok_def flags_ok_def ctl_ok_def owner_ok_def attempts_ok_def bus_read_def mon_read_def mon_result_def
          exchanging_def Let_def)
  qed
qed

lemma control_alone:
  assumes "alone s" and "flags_ok s" and "thread_step E k Control s t"
  shows "alone t"
  using assms(3)
proof cases
  case (monitor_created n)
  then have "w_mon s j = M_none" for j
    using assms(1,2) by (cases "j = w_monitor_thread s") (simp_all add: alone_def flags_ok_def ctl_ok_def cur_mon_def Let_def)
  then show ?thesis using assms(1) monitor_created by (simp add: alone_def)
next
  case (bus_created n now)
  then have "w_bus s j = B_none" for j
    using assms(1,2) by (cases "j = w_bus_thread s") (simp_all add: alone_def flags_ok_def ctl_ok_def cur_bus_def Let_def)
  then show ?thesis using assms(1) bus_created by (simp add: alone_def)
qed (use assms(1) in \<open>auto simp: alone_def split: option.split\<close>)

lemma destroy_fields:
  assumes "destroy_instance inst = Some x"
  shows "i_bus_state x = i_bus_state inst" "thread_flags x = (False, False)" "thread_flags inst = (False, False)"
    "i_recovery_attempts x = i_recovery_attempts inst"
  using assms by (auto simp: destroy_instance_def ecat_master_instance_destroy_def release_buffers_def ecat_data_destroy_def
      ecat_data_free_buffers_def ecat_data_close_def thread_flags_def Let_def split: if_splits)

lemma sdo_in_budget_fields:
  "sdo_in_budget S clk deadline j pos index sub ca cap inst = (wkc, bs, x) \<Longrightarrow> \<exists>ctx. x = inst\<lparr>i_ctx := ctx\<rparr>"
proof -
  have "\<exists>ctx. inst = inst\<lparr>i_ctx := ctx\<rparr>" by (rule exI [of _ "i_ctx inst"]) simp
  then show "sdo_in_budget S clk deadline j pos index sub ca cap inst = (wkc, bs, x) \<Longrightarrow> \<exists>ctx. x = inst\<lparr>i_ctx := ctx\<rparr>"
    by (auto simp: sdo_in_budget_def Let_def split: if_splits prod.splits)
qed

text \<open>What a step of the control thread has to keep once the lock and the threads are settled.\<close>

lemma control_keepsI:
  assumes "threads_ok s" and "thread_step E k Control s t"
    and "flags_ok t" and "owner_ok t" and "attempts_ok t"
  shows "threads_ok t"
  using assms control_lock control_alone unfolding threads_ok_def by blast

lemma owner_view:
  assumes "owner_ok s" and "cur_bus t = cur_bus s" and "cur_mon t = cur_mon s"
    and "i_bus_state (w_inst t) = i_bus_state (w_inst s)"
  shows "owner_ok t"
  using assms by (simp add: owner_ok_def)

lemma attempts_view:
  assumes "attempts_ok s" and "cur_mon t = cur_mon s" and "i_bus_state (w_inst t) = i_bus_state (w_inst s)"
    and "i_recovery_attempts (w_inst t) = i_recovery_attempts (w_inst s)"
  shows "attempts_ok t"
  using assms by (simp add: attempts_ok_def)

lemmas view_simps = cur_bus_def cur_mon_def flags_ok_def ctl_ok_def thread_flags_def Let_def

lemma control_keeps:
  assumes ok: "threads_ok s" and step: "thread_step E k Control s t"
  shows "threads_ok t"
proof -
  have fl: "flags_ok s" and ow: "owner_ok s" and at: "attempts_ok s" and al: "alone s"
    using ok by (simp_all add: threads_ok_def)
  have same: "threads_ok t" if "flags_ok t" "cur_bus t = cur_bus s" "cur_mon t = cur_mon s"
      "i_bus_state (w_inst t) = i_bus_state (w_inst s)" "i_recovery_attempts (w_inst t) = i_recovery_attempts (w_inst s)"
    using control_keepsI [OF ok step that(1)] owner_view [OF ow that(2-4)] attempts_view [OF at that(3-5)] .
  show ?thesis
    using step
  proof cases
    case flag_monitor
    then show ?thesis using fl by (intro same) (simp_all add: view_simps)
  next
    case (monitor_created n)
    then have t: "cur_bus t = cur_bus s" "cur_mon t = M_begin" "w_inst t = w_inst s" "w_ctl t = C_monitor_up"
      by (simp_all add: cur_bus_def cur_mon_def)
    then show ?thesis using fl ow at monitor_created(2)
      by (intro control_keepsI [OF ok step])
        (simp_all add: flags_ok_def ctl_ok_def owner_ok_def attempts_ok_def mon_read_def mon_result_def Let_def)
  next
    case monitor_refused
    then show ?thesis using fl by (intro same) (simp_all add: view_simps)
  next
    case unflag_monitor
    then show ?thesis using fl by (intro same) (simp_all add: view_simps)
  next
    case flag_bus
    then show ?thesis using fl by (intro same) (simp_all add: view_simps)
  next
    case (bus_created n now)
    then have t: "cur_bus t \<noteq> B_none" "bus_read (cur_bus t) = None" "cur_mon t = cur_mon s" "w_inst t = w_inst s" "w_ctl t = C_idle"
      by (simp_all add: cur_bus_def cur_mon_def bus_read_def)
    then show ?thesis using fl ow at bus_created(2)
      by (intro control_keepsI [OF ok step])
        (simp_all add: flags_ok_def ctl_ok_def owner_ok_def attempts_ok_def exchanging_def Let_def)
  next
    case bus_refused
    then show ?thesis using fl by (intro same) (simp_all add: view_simps)
  next
    case unflag_bus
    then show ?thesis using fl by (intro same) (simp_all add: view_simps)
  next
    case store_error
    then have t: "cur_bus t = cur_bus s" "cur_mon t = cur_mon s" "i_bus_state (w_inst t) = ECAT_STATE_ERROR" "w_ctl t = C_idle"
      "thread_flags (w_inst t) = thread_flags (w_inst s)" "i_recovery_attempts (w_inst t) = i_recovery_attempts (w_inst s)"
      by (simp_all add: cur_bus_def cur_mon_def set_bus_state_def thread_flags_def)
    have s: "cur_bus s = B_none" "i_bus_state (w_inst s) = ECAT_STATE_OPERATIONAL"
      "thread_flags (w_inst s) = (False, cur_mon s \<noteq> M_none)"
      using fl store_error(2) by (simp_all add: flags_ok_def ctl_ok_def Let_def)
    have "flags_ok t" using t s by (simp add: flags_ok_def ctl_ok_def exchanging_def Let_def)
    moreover have "owner_ok t" using t s ow by (auto simp: owner_ok_def bus_read_def)
    moreover have "attempts_ok t" using t s at by (simp add: attempts_ok_def Let_def)
    ultimately show ?thesis by (rule control_keepsI [OF ok step])
  next
    case (open_data ep sock fresh)
    then show ?thesis using fl by (intro same) (simp_all add: flags_ok_def cur_bus_def cur_mon_def)
  next
    case close_data
    then show ?thesis using fl by (intro same) (simp_all add: flags_ok_def cur_bus_def cur_mon_def)
  next
    case control_locks
    then show ?thesis using fl by (intro same) (simp_all add: view_simps)
  next
    case (control_scans slave_pos idents ctx)
    then show ?thesis using fl by (intro same) (simp_all add: view_simps)
  next
    case (control_diagnoses clk deadline j pos index sub ca cap wkc bs x)
    then show ?thesis using fl sdo_in_budget_fields [OF control_diagnoses(3)] by (intro same) (auto simp: view_simps)
  next
    case stop_request
    then show ?thesis using fl by (intro same) (auto simp: view_simps exchanging_def)
  next
    case bus_joined
    then show ?thesis using fl by (intro same) (simp_all add: view_simps)
  next
    case stop_monitor
    then show ?thesis using fl by (intro same) (auto simp: view_simps)
  next
    case monitor_joined
    then show ?thesis using fl by (intro same) (simp_all add: view_simps)
  next
    case (stop_closes h x)
    have s: "cur_bus s = B_none" "cur_mon s = M_none" "thread_flags (w_inst s) = (False, False)"
      using fl stop_closes(2) by (simp_all add: flags_ok_def ctl_ok_def Let_def)
    have t: "cur_bus t = B_none" "cur_mon t = M_none" "w_inst t = x" "w_ctl t = C_idle"
      using stop_closes s by (simp_all add: cur_bus_def cur_mon_def)
    note r = close_stopped_result(1,2) [OF stop_closes(3)]
    show ?thesis using s t r
      by (intro control_keepsI [OF ok step])
        (simp_all add: flags_ok_def ctl_ok_def owner_ok_def attempts_ok_def bus_read_def mon_read_def mon_result_def exchanging_def Let_def)
  next
    case configure
    show ?thesis
    proof (cases "destroy_instance (w_inst s)")
      case None
      then show ?thesis using configure fl by (intro same) (simp_all add: view_simps)
    next
      case (Some x)
      note d = destroy_fields [OF Some]
      have t: "cur_bus t = cur_bus s" "cur_mon t = cur_mon s" "w_inst t = x" "w_ctl t = C_freed"
        using configure(1) Some by (simp_all add: cur_bus_def cur_mon_def)
      have "cur_bus s = B_none" "cur_mon s = M_none"
        using fl configure(2) d(3) by (simp_all add: flags_ok_def ctl_ok_def Let_def)
      then show ?thesis using configure(3) d t
        by (intro same) (auto simp: flags_ok_def ctl_ok_def)
    qed
  qed
qed

lemma bus_keepsI:
  assumes "threads_ok s" and "thread_step E k (Bus_thread n) s t"
    and "flags_ok t" and "owner_ok t" and "attempts_ok t"
  shows "threads_ok t"
proof -
  have al: "alone s" using assms(1) by (simp add: threads_ok_def)
  have n: "n = w_bus_thread s" by (rule only_bus_thread [OF al assms(2)])
  have "alone t" using assms(2) by cases (use al n in \<open>simp_all add: alone_def\<close>)
  then show ?thesis using assms bus_lock unfolding threads_ok_def by blast
qed

lemma bus_keeps:
  assumes ok: "threads_ok s" and step: "thread_step E k (Bus_thread n) s t"
  shows "threads_ok t"
proof -
  have fl: "flags_ok s" and ow: "owner_ok s" and at: "attempts_ok s" and al: "alone s"
    using ok by (simp_all add: threads_ok_def)
  have n: "n = w_bus_thread s" by (rule only_bus_thread [OF al step])
  have kept: "threads_ok t" if "w_ctl t = w_ctl s" "cur_mon t = cur_mon s" "cur_bus s \<noteq> B_none" "cur_bus t \<noteq> B_none"
      "bus_read (cur_bus t) = Some ECAT_STATE_OPERATIONAL \<longrightarrow> i_bus_state (w_inst s) = ECAT_STATE_OPERATIONAL"
      "i_bus_state (w_inst t) = i_bus_state (w_inst s)" "thread_flags (w_inst t) = thread_flags (w_inst s)"
      "i_recovery_attempts (w_inst t) = i_recovery_attempts (w_inst s)"
  proof (rule bus_keepsI [OF ok step])
    show "flags_ok t" using fl that by (simp add: flags_ok_def)
    show "owner_ok t" using ow that by (simp add: owner_ok_def)
    show "attempts_ok t" by (rule attempts_view [OF at that(2,6,8)])
  qed
  show ?thesis
    using step
  proof cases
    case (bus_exit l)
    have t: "cur_bus s \<noteq> B_none" "cur_bus t = B_none" "cur_mon t = cur_mon s" "w_inst t = w_inst s" "w_ctl t = w_ctl s"
      using bus_exit n by (simp_all add: cur_bus_def cur_mon_def)
    have f: "thread_flags (w_inst s) = (False, i_monitor_running (w_inst s))" using bus_exit by (simp add: thread_flags_def)
    have "flags_ok t" using fl t f ctl_ok_bus_exit by (simp add: flags_ok_def)
    moreover have "owner_ok t" using ow t by (simp add: owner_ok_def bus_read_def)
    moreover have "attempts_ok t" using at t by (simp add: attempts_ok_def)
    ultimately show ?thesis by (rule bus_keepsI [OF ok step])
  next
    case (bus_wakes l now l' x)
    then show ?thesis using n bus_locals_steps(1) [OF bus_wakes(4)]
      by (intro kept) (simp_all add: cur_bus_def cur_mon_def bus_read_def)
  next
    case (bus_skips l st fin l' x)
    then show ?thesis using n bus_locals_steps(2) [OF bus_skips(4)]
      by (intro kept) (simp_all add: cur_bus_def cur_mon_def bus_read_def)
  next
    case (bus_exchanges l st io wkc frame x)
    have x: "thread_flags x = thread_flags (w_inst s)"
      using cycle_exchange_fields(5,6) [OF bus_exchanges(5)] by (simp add: thread_flags_def)
    have "st = ECAT_STATE_OPERATIONAL \<Longrightarrow> i_bus_state (w_inst s) = ECAT_STATE_OPERATIONAL"
      using ow bus_exchanges(2) n by (simp add: owner_ok_def bus_read_def cur_bus_def)
    then show ?thesis using n x bus_exchanges cycle_exchange_fields(1,4) [OF bus_exchanges(5)]
      by (intro kept) (simp_all add: cur_bus_def cur_mon_def bus_read_def)
  next
    case (bus_decides l st wkc fin l' x)
    let ?d = "cycle_decide st wkc (w_inst s)"
    have x: "i_bus_state x = i_bus_state ?d" "thread_flags x = thread_flags (w_inst s)"
      "i_recovery_attempts x = i_recovery_attempts (w_inst s)"
      using bus_locals_steps(2) [OF bus_decides(3)] by (simp_all add: thread_flags_def)
    have op: "st = ECAT_STATE_OPERATIONAL \<Longrightarrow> i_bus_state (w_inst s) = ECAT_STATE_OPERATIONAL"
      using ow bus_decides(2) n by (simp add: owner_ok_def bus_read_def cur_bus_def)
    have t: "cur_bus s \<noteq> B_none" "cur_bus t \<noteq> B_none" "bus_read (cur_bus t) = None" "cur_mon t = cur_mon s" "w_inst t = x" "w_ctl t = w_ctl s"
      using bus_decides n by (simp_all add: cur_bus_def cur_mon_def bus_read_def)
    consider (same) "i_bus_state x = i_bus_state (w_inst s)"
      | (recover) "i_bus_state (w_inst s) = ECAT_STATE_OPERATIONAL" "i_bus_state x = ECAT_STATE_RECOVERING"
      using x(1) op by (simp split: if_splits)
    then show ?thesis
    proof cases
      case same
      then show ?thesis using t x by (intro kept) simp_all
    next
      case recover
      have m: "mon_read (cur_mon s) \<noteq> Some ECAT_STATE_RECOVERING" "mon_result (cur_mon s) = 0"
        "i_recovery_attempts (w_inst s) = 0"
        using ow at recover(1) by (auto simp: owner_ok_def attempts_ok_def Let_def)
      have "flags_ok t" using fl t x recover ctl_ok_bus_store by (simp add: flags_ok_def)
      moreover have "owner_ok t" using t x recover m by (simp add: owner_ok_def)
      moreover have "attempts_ok t" using t x recover m by (simp add: attempts_ok_def)
      ultimately show ?thesis by (rule bus_keepsI [OF ok step])
    qed
  qed
qed

lemma monitor_keepsI:
  assumes "threads_ok s" and "thread_step E k (Monitor n) s t"
    and "flags_ok t" and "owner_ok t" and "attempts_ok t"
  shows "threads_ok t"
proof -
  have al: "alone s" using assms(1) by (simp add: threads_ok_def)
  have n: "n = w_monitor_thread s" by (rule only_monitor [OF al assms(2)])
  have "alone t" using assms(2) by cases (use al n in \<open>simp_all add: alone_def\<close>)
  then show ?thesis using assms monitor_lock unfolding threads_ok_def by blast
qed

lemma monitor_keeps:
  assumes ok: "threads_ok s" and step: "thread_step E k (Monitor n) s t"
  shows "threads_ok t"
proof -
  have fl: "flags_ok s" and ow: "owner_ok s" and at: "attempts_ok s" and al: "alone s"
    using ok by (simp_all add: threads_ok_def)
  have n: "n = w_monitor_thread s" by (rule only_monitor [OF al step])
  have idle: "threads_ok t" if "w_ctl t = w_ctl s" "cur_bus t = cur_bus s" "cur_mon s \<noteq> M_none" "cur_mon t \<noteq> M_none"
      "mon_read (cur_mon t) = Some ECAT_STATE_RECOVERING \<longrightarrow> i_bus_state (w_inst s) = ECAT_STATE_RECOVERING"
      "mon_result (cur_mon s) = 0" "mon_result (cur_mon t) = 0"
      "i_bus_state (w_inst t) = i_bus_state (w_inst s)" "thread_flags (w_inst t) = thread_flags (w_inst s)"
      "i_recovery_attempts (w_inst t) = i_recovery_attempts (w_inst s)"
  proof (rule monitor_keepsI [OF ok step])
    show "flags_ok t" using fl that by (simp add: flags_ok_def)
    show "owner_ok t" using ow that by (simp add: owner_ok_def)
    show "attempts_ok t" using at that by (simp add: attempts_ok_def)
  qed
  show ?thesis
    using step
  proof cases
    case monitor_begins
    then show ?thesis using n by (intro idle) (simp_all add: cur_bus_def cur_mon_def mon_read_def mon_result_def)
  next
    case (monitor_exit seen)
    have t: "cur_mon s \<noteq> M_none" "cur_mon t = M_none" "cur_bus t = cur_bus s" "w_inst t = w_inst s" "w_ctl t = w_ctl s"
      "mon_result (cur_mon s) = 0"
      using monitor_exit n by (simp_all add: cur_bus_def cur_mon_def mon_result_def)
    have f: "thread_flags (w_inst s) = (i_bus_running (w_inst s), False)" using monitor_exit by (simp add: thread_flags_def)
    have "flags_ok t" using fl t f ctl_ok_monitor_exit by (simp add: flags_ok_def)
    moreover have "owner_ok t" using ow t by (simp add: owner_ok_def mon_read_def mon_result_def)
    moreover have "attempts_ok t" using at t by (simp add: attempts_ok_def mon_result_def)
    ultimately show ?thesis by (rule monitor_keepsI [OF ok step])
  next
    case (monitor_loads seen)
    then show ?thesis using n by (intro idle) (simp_all add: cur_bus_def cur_mon_def mon_read_def mon_result_def)
  next
    case (monitor_works seen st result seen' x)
    note r = monitor_work_result(1-3) [OF monitor_works(4)]
    then show ?thesis using n monitor_works
      by (intro idle) (simp_all add: cur_bus_def cur_mon_def mon_read_def mon_result_def)
  next
    case (monitor_locks seen)
    have "i_bus_state (w_inst s) = ECAT_STATE_RECOVERING"
      using ow monitor_locks(2) n by (simp add: owner_ok_def mon_read_def cur_mon_def)
    then show ?thesis using n monitor_locks by (intro idle) (simp_all add: cur_bus_def cur_mon_def mon_read_def mon_result_def)
  next
    case (monitor_recovers seen result seen' x)
    note r = monitor_work_result(1,2,4) [OF monitor_recovers(3)]
    have s: "mon_read (cur_mon s) = Some ECAT_STATE_RECOVERING" "mon_result (cur_mon s) = 0" "cur_mon s \<noteq> M_none"
      using monitor_recovers(2) n by (simp_all add: mon_read_def mon_result_def cur_mon_def)
    have t: "mon_read (cur_mon t) = Some ECAT_STATE_RECOVERING" "mon_result (cur_mon t) = result" "cur_mon t \<noteq> M_none"
      "cur_bus t = cur_bus s" "w_ctl t = w_ctl s" "w_inst t = x"
      using monitor_recovers(1) n by (simp_all add: mon_read_def mon_result_def cur_bus_def cur_mon_def)
    have rec: "i_bus_state (w_inst s) = ECAT_STATE_RECOVERING" using ow s by (simp add: owner_ok_def)
    then have a: "0 \<le> i_recovery_attempts (w_inst s)" "i_recovery_attempts (w_inst s) \<le> 4"
      using at s by (simp_all add: attempts_ok_def Let_def)
    have "flags_ok t" using fl s t r(1,2) by (simp add: flags_ok_def)
    moreover have "owner_ok t" using ow t r(1) rec by (simp add: owner_ok_def)
    moreover have "attempts_ok t" using a r(1,3) t rec by (auto simp: attempts_ok_def Let_def split: if_splits)
    ultimately show ?thesis by (rule monitor_keepsI [OF ok step])
  next
    case (monitor_stores seen st result)
    have s: "mon_read (cur_mon s) = Some st" "mon_result (cur_mon s) = result" "cur_mon s \<noteq> M_none"
      using monitor_stores(2) n by (simp_all add: mon_read_def mon_result_def cur_mon_def)
    have t: "mon_read (cur_mon t) = None" "mon_result (cur_mon t) = 0" "cur_mon t \<noteq> M_none" "cur_bus t = cur_bus s"
      "w_ctl t = w_ctl s" "w_inst t = monitor_store result (w_inst s)"
      using monitor_stores(1) n by (simp_all add: mon_read_def mon_result_def cur_bus_def cur_mon_def)
    have rec: "i_bus_state (w_inst s) = ECAT_STATE_RECOVERING" if "result \<noteq> 0"
      using ow s that by (auto simp: owner_ok_def)
    have "flags_ok t"
      using fl t s rec ctl_ok_monitor_store [of "w_ctl s" "cur_bus s \<noteq> B_none" "thread_flags (w_inst s)"]
      by (auto simp: flags_ok_def)
    moreover have "bus_read (cur_bus s) \<noteq> Some ECAT_STATE_OPERATIONAL" if "result \<noteq> 0"
      using ow rec that by (auto simp: owner_ok_def)
    then have "owner_ok t" using ow t rec by (auto simp: owner_ok_def)
    moreover have "attempts_ok t" using at t s rec by (auto simp: attempts_ok_def Let_def)
    ultimately show ?thesis by (rule monitor_keepsI [OF ok step])
  next
    case (monitor_reloads seen)
    then show ?thesis using n by (intro idle) (simp_all add: cur_bus_def cur_mon_def mon_read_def mon_result_def)
  next
    case (mailbox_locks seen)
    then show ?thesis using n by (intro idle) (simp_all add: cur_bus_def cur_mon_def mon_read_def mon_result_def)
  next
    case (monitor_drains seen)
    then show ?thesis using n by (intro idle) (simp_all add: cur_bus_def cur_mon_def mon_read_def mon_result_def)
  qed
qed

lemma init_ok: "world_init s \<Longrightarrow> threads_ok s"
  by (simp add: world_init_def unthreaded_def lock_ok_def alone_def cur_bus_def cur_mon_def ctl_ok_def exchanging_def
      thread_inv_defs Let_def)

lemma careful_keeps: "threads_ok s \<Longrightarrow> careful_step E k a s t \<Longrightarrow> threads_ok t"
  by (cases a) (auto simp: careful_step_def intro: start_keeps control_keeps bus_keeps monitor_keeps)

interpretation threads: step_invariant world_init "careful_step E k" threads_ok for E k
  by unfold_locales (auto intro: init_ok careful_keeps)

text \<open>A master that is IDLE or STOPPED has no thread: whoever stops a master before starting it takes care.\<close>

lemma stopped_start_careful:
  assumes "threads_ok s" and "thread_step E k Start s t"
    and "i_bus_state (w_inst s) \<in> {ECAT_STATE_IDLE, ECAT_STATE_STOPPED}"
  shows "careful_step E k Start s t"
proof -
  have "w_ctl s = C_idle" using assms(2) by (rule start_stepE)
  then have "thread_flags (w_inst s) = (False, False)"
    using assms(1,3) by (auto simp: threads_ok_def flags_ok_def ctl_ok_def exchanging_def Let_def)
  then show ?thesis using assms(2) by (simp add: careful_step_def)
qed

end
