(* ===== verification/Bus_Runs.thy ===== *)
theory Bus_Runs
  imports Bus_Threads
begin

text \<open>
  What holds over the runs of a master's threads: who changes the bus state, that recovery ends, that
  buffers outlive the threads that use them; that the steps put together are the functions of \<^verbatim>\<open>Bus\<close>; and
  concrete runs, among them one in which a start without care leaves two monitors.
\<close>

section \<open>Who changes the bus state\<close>

lemma start_changes:
  assumes "threads_ok s" and "careful_step E k Start s t" and "i_bus_state (w_inst t) \<noteq> i_bus_state (w_inst s)"
  shows "unthreaded s \<and> i_bus_state (w_inst s) \<in> startable \<and>
    i_bus_state (w_inst t) \<in> {ECAT_STATE_OPERATIONAL, ECAT_STATE_ERROR}"
proof -
  have "thread_step E k Start s t" and f: "thread_flags (w_inst s) = (False, False)"
    using assms(2) by (simp_all add: careful_step_def)
  then show ?thesis
  proof cases
    case (start ub up h x)
    note r = prepare_result(3,4) [OF start(4)]
    have "i_bus_state x \<in> {ECAT_STATE_OPERATIONAL, ECAT_STATE_ERROR}"
      using r assms(3) start(1) by (cases up) (auto simp: ready_def)
    then show ?thesis using unflagged_unthreaded [OF assms(1) start(2) f] start(1,3) by simp
  qed
qed

lemma control_changes:
  assumes "threads_ok s" and "thread_step E k Control s t" and "i_bus_state (w_inst t) \<noteq> i_bus_state (w_inst s)"
  shows "(\<forall>n. w_bus s n = B_none) \<and>
    (w_ctl s = C_store_error \<and> i_bus_state (w_inst s) = ECAT_STATE_OPERATIONAL \<and> i_bus_state (w_inst t) = ECAT_STATE_ERROR \<or>
     unthreaded s \<and> i_bus_state (w_inst t) = ECAT_STATE_STOPPED)"
proof -
  have un: "alone s" "flags_ok s" using assms(1) by (simp_all add: threads_ok_def)
  show ?thesis
    using assms(2)
  proof cases
    case store_error
    then have s: "cur_bus s = B_none" "i_bus_state (w_inst s) = ECAT_STATE_OPERATIONAL"
      using un(2) by (simp_all add: flags_ok_def ctl_ok_def Let_def)
    then have "w_bus s n = B_none" for n
      using un(1) by (cases "n = w_bus_thread s") (simp_all add: alone_def cur_bus_def)
    then show ?thesis using store_error s by (simp add: set_bus_state_def)
  next
    case (stop_closes h x)
    then have "unthreaded s" using un by (simp add: unthreaded_alone flags_ok_def ctl_ok_def Let_def)
    then show ?thesis using stop_closes close_stopped_result(1) [OF stop_closes(3)] by (simp add: unthreaded_def)
  next
    case configure
    then show ?thesis using assms(3) by (cases "destroy_instance (w_inst s)") (auto dest: destroy_fields)
  next
    case (control_diagnoses clk deadline j pos index sub ca cap wkc bs x)
    then show ?thesis using assms(3) sdo_in_budget_fields [OF control_diagnoses(3)] by auto
  qed (use assms(3) in \<open>auto split: if_splits\<close>)
qed

lemma bus_changes:
  assumes "threads_ok s" and "thread_step E k (Bus_thread n) s t" and "i_bus_state (w_inst t) \<noteq> i_bus_state (w_inst s)"
  shows "i_bus_state (w_inst s) = ECAT_STATE_OPERATIONAL \<and> i_bus_state (w_inst t) = ECAT_STATE_RECOVERING"
  using assms(2)
proof cases
  case (bus_wakes l now l' x)
  then show ?thesis using assms(3) bus_locals_steps(1) [OF bus_wakes(4)] by simp
next
  case (bus_skips l st fin l' x)
  then show ?thesis using assms(3) bus_locals_steps(2) [OF bus_skips(4)] by simp
next
  case (bus_exchanges l st io wkc frame x)
  then show ?thesis using assms(3) cycle_exchange_fields(1) [OF bus_exchanges(5)] by simp
next
  case (bus_decides l st wkc fin l' x)
  have "n = w_bus_thread s" using only_bus_thread [OF _ assms(2)] assms(1) by (simp add: threads_ok_def)
  then have "st = ECAT_STATE_OPERATIONAL \<Longrightarrow> i_bus_state (w_inst s) = ECAT_STATE_OPERATIONAL"
    using assms(1) bus_decides(2) by (simp add: threads_ok_def owner_ok_def bus_read_def cur_bus_def)
  then show ?thesis using assms(3) bus_decides(1) bus_locals_steps(2) [OF bus_decides(3)]
    by (simp split: if_splits)
qed (use assms(3) in simp_all)

lemma monitor_changes:
  assumes "threads_ok s" and "thread_step E k (Monitor n) s t" and "i_bus_state (w_inst t) \<noteq> i_bus_state (w_inst s)"
  shows "i_bus_state (w_inst s) = ECAT_STATE_RECOVERING \<and>
    i_bus_state (w_inst t) \<in> {ECAT_STATE_OPERATIONAL, ECAT_STATE_ERROR}"
  using assms(2)
proof cases
  case (monitor_works seen st result seen' x)
  then show ?thesis using assms(3) monitor_work_result(1) [OF monitor_works(4)] by simp
next
  case (monitor_recovers seen result seen' x)
  then show ?thesis using assms(3) monitor_work_result(1) [OF monitor_recovers(3)] by simp
next
  case (monitor_stores seen st result)
  have "n = w_monitor_thread s" using only_monitor [OF _ assms(2)] assms(1) by (simp add: threads_ok_def)
  then have "result \<noteq> 0 \<Longrightarrow> i_bus_state (w_inst s) = ECAT_STATE_RECOVERING"
    using assms(1) monitor_stores(2) by (auto simp: threads_ok_def owner_ok_def mon_read_def mon_result_def cur_mon_def)
  then show ?thesis using assms(3) monitor_stores(1) by (auto split: if_splits)
qed (use assms(3) in simp_all)

text \<open>Between two commands the threads of a master do to it no more than \<open>master_ran\<close> allows.\<close>

lemma monitor_work_config: "monitor_work S mem st seen inst = (r, seen', x) \<Longrightarrow> i_config x = i_config inst"
proof -
  have c: "i_config (ecat_master_read_states S y) = i_config y" "i_config (ecat_master_mark_all_operational y) = i_config y"
    for y :: "'a ecat_master_instance"
    by (simp_all add: ecat_master_read_states_def ecat_master_mark_all_operational_def)
  have "i_config y = i_config inst" if "attempt_recovery S inst = (q, y)" for q y
    using that c(1) [of inst] recover_slaves_fields(5) [of S _ True "ecat_master_read_states S inst"]
    by (fastforce simp: attempt_recovery_def Let_def split: prod.splits bool.splits)
  then show "monitor_work S mem st seen inst = (r, seen', x) \<Longrightarrow> i_config x = i_config inst"
    using c by (auto simp: monitor_work_def Let_def split: ecat_bus_state.splits prod.splits if_splits)
qed

lemma thread_steps_ran:
  assumes "threads_ok s" and "thread_step E k a s t" and "\<exists>n. a = Bus_thread n \<or> a = Monitor n"
  shows "master_ran (w_inst s) (w_inst t)"
proof -
  obtain n where n: "a = Bus_thread n \<or> a = Monitor n" using assms(3) by blast
  have st: "i_bus_state (w_inst t) = i_bus_state (w_inst s) \<or>
      exchanging (i_bus_state (w_inst s)) \<and> (exchanging (i_bus_state (w_inst t)) \<or> i_bus_state (w_inst t) = ECAT_STATE_ERROR)"
    using n bus_changes [OF assms(1), of E k n t] monitor_changes [OF assms(1), of E k n t] assms(2)
    by (auto simp: exchanging_def)
  have "i_config (w_inst t) = i_config (w_inst s) \<and> thread_flags (w_inst t) = thread_flags (w_inst s)"
    using assms(2)
  proof cases
    case (bus_wakes n l now l' x)
    then show ?thesis by (auto simp: bus_wake_def thread_flags_def Let_def)
  next
    case (bus_skips n l st fin l' x)
    then show ?thesis by (auto simp: bus_finish_def thread_flags_def Let_def)
  next
    case (bus_exchanges n l st io wkc frame x)
    then show ?thesis using cycle_exchange_fields(5-7) [OF bus_exchanges(6)] by (simp add: thread_flags_def)
  next
    case (bus_decides n l st wkc fin l' x)
    have "i_config (cycle_decide st wkc (w_inst s)) = i_config (w_inst s)" by (simp add: cycle_decide_def Let_def)
    moreover have "thread_flags (cycle_decide st wkc (w_inst s)) = thread_flags (w_inst s)" by (simp add: thread_flags_def)
    moreover have "i_config x = i_config (cycle_decide st wkc (w_inst s))"
      using bus_decides(4) by (auto simp: bus_finish_def Let_def)
    ultimately show ?thesis using bus_decides bus_locals_steps(2) [OF bus_decides(4)] by simp
  next
    case (monitor_works n seen st result seen' x)
    then show ?thesis using monitor_work_config [OF monitor_works(5)] monitor_work_result(2) [OF monitor_works(5)] by simp
  next
    case (monitor_recovers n seen result seen' x)
    then show ?thesis using monitor_work_config [OF monitor_recovers(4)] monitor_work_result(2) [OF monitor_recovers(4)] by simp
  next
    case (monitor_stores n seen st result)
    then show ?thesis by (simp add: monitor_store_def thread_flags_def)
  next
    case (monitor_drains n seen)
    then show ?thesis by (simp add: drain_mailbox_and_errors_def)
  qed (use n in simp_all)
  then show ?thesis using st by (simp add: master_ran_def)
qed

section \<open>Recovery ends\<close>

text \<open>
  A run with care during which the bus state stays RECOVERING, counting the recovery passes of the monitor.
\<close>

definition recovery_pass :: "actor \<Rightarrow> ('d, 'w) world \<Rightarrow> bool" where
  "recovery_pass a s \<longleftrightarrow> (\<exists>n seen. a = Monitor n \<and> w_mon s n = M_recover seen)"

inductive recovering_run ::
  "('d, 'w) env \<Rightarrow> u8 \<Rightarrow> nat \<Rightarrow> ('d, 'w) world \<Rightarrow> ('d, 'w) world \<Rightarrow> bool" for E k where
  stays: "i_bus_state (w_inst s) = ECAT_STATE_RECOVERING \<Longrightarrow> recovering_run E k 0 s s"
| moves: "recovering_run E k n s t \<Longrightarrow> careful_step E k a t u \<Longrightarrow>
    i_bus_state (w_inst u) = ECAT_STATE_RECOVERING \<Longrightarrow>
    recovering_run E k (if recovery_pass a t then Suc n else n) s u"

text \<open>How far recovery has come: the attempts made, all of them once a result is waiting.\<close>

definition recovery_level :: "('d, 'w) world \<Rightarrow> int" where
  "recovery_level s = (if mon_result (cur_mon s) \<noteq> 0 then 5 else i_recovery_attempts (w_inst s))"

lemma recovery_level_bounds:
  assumes "threads_ok s" and "i_bus_state (w_inst s) = ECAT_STATE_RECOVERING"
  shows "0 \<le> recovery_level s \<and> recovery_level s \<le> 5"
  using assms by (auto simp: threads_ok_def attempts_ok_def recovery_level_def Let_def)

lemma recovery_level_control:
  assumes "threads_ok t" and "i_bus_state (w_inst t) = ECAT_STATE_RECOVERING"
    and "thread_step E k Control t u" and "i_bus_state (w_inst u) = ECAT_STATE_RECOVERING"
  shows "recovery_level u = recovery_level t"
proof -
  have fl: "flags_ok t" using assms(1) by (simp add: threads_ok_def)
  have "cur_mon u = cur_mon t \<and> i_recovery_attempts (w_inst u) = i_recovery_attempts (w_inst t)"
    using assms(3)
  proof cases
    case (monitor_created n)
    then show ?thesis using fl assms(2) by (simp add: flags_ok_def ctl_ok_def Let_def)
  next
    case (stop_closes h x)
    then show ?thesis using close_stopped_result(1) [OF stop_closes(3)] assms(4) by simp
  next
    case (control_diagnoses clk deadline j pos index sub ca cap wkc bs x)
    then show ?thesis using sdo_in_budget_fields [OF control_diagnoses(3)] by (auto simp: cur_mon_def)
  next
    case configure
    then show ?thesis using assms(2) by simp
  qed (auto simp: cur_mon_def set_bus_state_def)
  then show ?thesis by (simp add: recovery_level_def)
qed

lemma recovery_level_bus:
  assumes "thread_step E k (Bus_thread n) t u"
  shows "recovery_level u = recovery_level t"
proof -
  have "cur_mon u = cur_mon t \<and> i_recovery_attempts (w_inst u) = i_recovery_attempts (w_inst t)"
    using assms
  proof cases
    case (bus_wakes l now l' x)
    then show ?thesis using bus_locals_steps(1) [OF bus_wakes(4)] by (simp add: cur_mon_def)
  next
    case (bus_skips l st fin l' x)
    then show ?thesis using bus_locals_steps(2) [OF bus_skips(4)] by (simp add: cur_mon_def)
  next
    case (bus_exchanges l st io wkc frame x)
    then show ?thesis using cycle_exchange_fields(4) [OF bus_exchanges(5)] by (simp add: cur_mon_def)
  next
    case (bus_decides l st wkc fin l' x)
    then show ?thesis using bus_locals_steps(2) [OF bus_decides(3)] by (simp add: cur_mon_def)
  qed (simp_all add: cur_mon_def)
  then show ?thesis by (simp add: recovery_level_def)
qed

lemma recovery_level_monitor:
  assumes "threads_ok t" and "i_bus_state (w_inst t) = ECAT_STATE_RECOVERING"
    and "thread_step E k (Monitor n) t u" and "i_bus_state (w_inst u) = ECAT_STATE_RECOVERING"
  shows "recovery_level t + (if recovery_pass (Monitor n) t then 1 else 0) \<le> recovery_level u"
proof -
  have n: "n = w_monitor_thread t" using only_monitor [OF _ assms(3)] assms(1) by (simp add: threads_ok_def)
  show ?thesis
    using assms(3)
  proof cases
    case (monitor_recovers seen result seen' x)
    have "0 \<le> i_recovery_attempts (w_inst t)" "i_recovery_attempts (w_inst t) \<le> 4"
      using assms(1,2) monitor_recovers(2) n
      by (simp_all add: threads_ok_def attempts_ok_def mon_result_def cur_mon_def Let_def)
    then show ?thesis using monitor_recovers n monitor_work_result(4) [OF monitor_recovers(3)]
      by (auto simp: recovery_level_def recovery_pass_def mon_result_def cur_mon_def split: if_splits)
  next
    case (monitor_works seen st result seen' x)
    then show ?thesis using n monitor_work_result(3) [OF monitor_works(4)]
      by (simp add: recovery_level_def recovery_pass_def mon_result_def cur_mon_def)
  next
    case (monitor_stores seen st result)
    have "mon_result (cur_mon t) \<in> {- 1, 0, 1}"
      using assms(1) by (simp add: threads_ok_def attempts_ok_def Let_def)
    then show ?thesis using monitor_stores assms(4) n
      by (auto simp: recovery_level_def recovery_pass_def mon_result_def cur_mon_def split: if_splits)
  qed (use n in \<open>simp_all add: recovery_level_def recovery_pass_def mon_result_def cur_mon_def\<close>)
qed

lemma recovery_level_step:
  assumes "threads_ok t" and "i_bus_state (w_inst t) = ECAT_STATE_RECOVERING"
    and "careful_step E k a t u" and "i_bus_state (w_inst u) = ECAT_STATE_RECOVERING"
  shows "recovery_level t + (if recovery_pass a t then 1 else 0) \<le> recovery_level u"
proof (cases a)
  case Start
  then have "thread_step E k Start t u" using assms(3) by (simp add: careful_step_def)
  then show ?thesis using assms(2) by (auto elim: start_stepE)
next
  case Control
  then show ?thesis using recovery_level_control [OF assms(1,2) _ assms(4)] assms(3)
    by (simp add: careful_step_def recovery_pass_def)
next
  case (Bus_thread n)
  then show ?thesis using recovery_level_bus assms(3) by (fastforce simp: careful_step_def recovery_pass_def)
next
  case (Monitor n)
  then show ?thesis using recovery_level_monitor [OF assms(1,2) _ assms(4)] assms(3) by (simp add: careful_step_def)
qed

lemma recovering_run_level:
  assumes "recovering_run E k n s u" and "threads_ok s"
  shows "threads_ok u \<and> i_bus_state (w_inst u) = ECAT_STATE_RECOVERING \<and> recovery_level s + int n \<le> recovery_level u"
  using assms
proof (induction rule: recovering_run.induct)
  case (moves n s t a u)
  then show ?case using recovery_level_step [of t E k a u] careful_keeps [of t E k a u] by auto
qed simp

text \<open>
  A monitor that cannot step waits for the lock, and the only one it can wait for is the control thread, whose
  next step, whatever it is, gives the lock back.
\<close>

lemma monitor_blocked:
  assumes "w_mon s n \<noteq> M_none" and "\<nexists>t. thread_step E k (Monitor n) s t"
  shows "w_lock s \<noteq> None \<and> \<not> mon_locked (w_mon s n)"
proof (cases "w_mon s n")
  case (M_loop seen)
  then show ?thesis using assms(2)
    by (cases "i_monitor_running (w_inst s)") (blast intro: thread_step.monitor_exit thread_step.monitor_loads)+
next
  case (M_work seen st)
  show ?thesis
  proof (cases "st = ECAT_STATE_RECOVERING")
    case True
    then show ?thesis using assms(2) M_work thread_step.monitor_locks [of s n seen] by (cases "w_lock s = None") auto
  next
    case False
    obtain result seen' x where "monitor_work (e_soem E) (e_mem E) st seen (w_inst s) = (result, seen', x)"
      by (metis prod_cases3)
    then show ?thesis using thread_step.monitor_works [OF M_work False] assms(2) by blast
  qed
next
  case (M_recover seen)
  obtain result seen' x where "monitor_work (e_soem E) (e_mem E) ECAT_STATE_RECOVERING seen (w_inst s) = (result, seen', x)"
    by (metis prod_cases3)
  then show ?thesis using thread_step.monitor_recovers [OF M_recover] assms(2) by blast
next
  case (M_lock_mailbox seen)
  then show ?thesis using assms(2) thread_step.mailbox_locks [of s n seen] by (cases "w_lock s = None") auto
qed (use assms in \<open>blast intro: thread_step.monitor_begins thread_step.monitor_stores thread_step.monitor_reloads
    thread_step.monitor_drains\<close>)+

lemma monitor_progress:
  assumes "threads_ok s" and "cur_mon s \<noteq> M_none" and "\<nexists>t. thread_step E k (Monitor (w_monitor_thread s)) s t"
  shows "w_lock s = Some Control \<and> (\<exists>t. thread_step E k Control s t) \<and>
    (\<forall>t. thread_step E k Control s t \<longrightarrow> w_lock t = None)"
proof -
  have lk: "lock_ok s" and al: "alone s" using assms(1) by (simp_all add: threads_ok_def)
  note b = monitor_blocked [OF assms(2) [unfolded cur_mon_def] assms(3)]
  have "\<not> mon_locked (w_mon s n)" for n
    using b al by (cases "n = w_monitor_thread s") (simp_all add: alone_def)
  moreover obtain a where a: "w_lock s = Some a" using b by auto
  ultimately have held: "w_lock s = Some Control" using lk by (cases a) (simp_all add: lock_ok_def)
  then have c: "w_ctl s = C_acyclic" using lock_held(2) [OF lk] by simp
  obtain r ctx where "ecat_read_module_idents (e_soem E) (e_mem E) 0 (i_ctx (w_inst s)) = (r, ctx)" by force
  then have "\<exists>t. thread_step E k Control s t" using thread_step.control_scans [OF c] by blast
  moreover have "w_lock t = None" if "thread_step E k Control s t" for t
    using that by cases (simp_all add: c)
  ultimately show ?thesis using held by blast
qed

section \<open>Buffers outlive the threads\<close>

lemma recover_slaves_iomap: "i_iomap (snd (recover_slaves S ss b inst)) = i_iomap inst"
proof (induction S ss b inst rule: recover_slaves.induct)
  case (2 S slave ss b inst)
  moreover have "i_iomap (snd (ecat_master_recover_slave S p y)) = i_iomap y" for p and y :: "'a ecat_master_instance"
    by (simp add: ecat_master_recover_slave_def check_op_def set_lost_def writestate_with_check_def
        Let_def split: prod.split bool.split)
  ultimately show ?case by simp
qed simp

lemma monitor_work_iomap:
  assumes "monitor_work S mem st seen inst = (r, seen', x)"
  shows "i_iomap x = i_iomap inst"
proof -
  obtain ok y where y: "recover_slaves S (c_slaves (i_config (ecat_master_read_states S inst))) True
      (ecat_master_read_states S inst) = (ok, y)" by force
  have "i_iomap (ecat_master_read_states S z) = i_iomap z" "i_iomap (ecat_master_mark_all_operational z) = i_iomap z"
    for z :: "'a ecat_master_instance"
    by (simp_all add: ecat_master_read_states_def ecat_master_mark_all_operational_def)
  moreover from this have "i_iomap y = i_iomap inst"
    using y recover_slaves_iomap [of S "c_slaves (i_config (ecat_master_read_states S inst))" True] by (metis snd_conv)
  ultimately show ?thesis
    using assms y by (auto simp: monitor_work_def attempt_recovery_def Let_def split: ecat_bus_state.splits bool.splits)
qed

lemma cycle_exchange_iomap:
  assumes "cycle_exchange S k io st inst = (wkc, frame, x)" and "i_iomap inst \<noteq> None"
  shows "i_iomap x \<noteq> None"
proof -
  let ?a = "ecat_data_apply_outputs (ci_out_locked io) (ci_dgrams io) k inst"
  have "i_iomap (after_drain off b c y) \<noteq> None" if "i_iomap y \<noteq> None" for off b c and y :: "'a ecat_master_instance"
    using that by (simp add: after_drain_def zero_outputs_def set_region_def Let_def)
  then have a: "i_iomap ?a \<noteq> None"
    using assms(2) by (auto simp: ecat_data_apply_outputs_def zero_outputs_def set_region_def Let_def
        split: option.split prod.split)
  obtain idx b where send: "ecat_master_al_poll_send S ?a = (idx, b)" by force
  then have b: "i_iomap b \<noteq> None" using a al_poll_send_shape [of S ?a] by auto
  obtain w e where exch: "ecat_master_exchange_processdata S (i_receive_timeout_us b) b = (w, e)" by force
  then have "i_iomap e \<noteq> None" using exchange_iomap [OF b] by (simp add: ecat_master_exchange_processdata_def) (metis snd_conv)
  moreover have "i_iomap (collect_al_poll S idx e) = i_iomap e"
    using al_poll_collect_shape [of S "the idx" e]
    by (auto simp: collect_al_poll_def record_al_reply_def Let_def split: option.split prod.split)
  moreover have "i_iomap (snd (ecat_data_publish_inputs l t k v p q y)) = i_iomap y" for l t v p q and y :: "'a ecat_master_instance"
    by (simp add: ecat_data_publish_inputs_def Let_def)
  ultimately show ?thesis
    using assms(1) by (auto simp: cycle_exchange_def Let_def send exch case_prod_unfold)
qed

lemma iomap_kept:
  assumes "thread_step E k a s t" and "a \<noteq> Start" and "a \<noteq> Control" and "i_iomap (w_inst s) \<noteq> None"
  shows "i_iomap (w_inst t) \<noteq> None"
  using assms(1)
proof cases
  case (bus_wakes n l now l' x)
  then show ?thesis using assms(4) by (auto simp: bus_wake_def Let_def)
next
  case (bus_skips n l st fin l' x)
  then show ?thesis using assms(4) by (auto simp: bus_finish_def Let_def)
next
  case (bus_exchanges n l st io wkc frame x)
  then show ?thesis using assms(4) cycle_exchange_iomap [OF bus_exchanges(6)] by simp
next
  case (bus_decides n l st wkc fin l' x)
  moreover have "i_iomap (cycle_decide st wkc (w_inst s)) = i_iomap (w_inst s)"
    by (simp add: cycle_decide_def Let_def)
  ultimately show ?thesis using assms(4) by (auto simp: bus_finish_def Let_def)
next
  case (monitor_works n seen st result seen' x)
  then show ?thesis using assms(4) monitor_work_iomap [OF monitor_works(5)] by simp
next
  case (monitor_recovers n seen result seen' x)
  then show ?thesis using assms(4) monitor_work_iomap [OF monitor_recovers(4)] by simp
next
  case (monitor_stores n seen st result)
  then show ?thesis using assms(4) by (simp add: monitor_store_def)
next
  case (monitor_drains n seen)
  then show ?thesis using assms(4) by (simp add: drain_mailbox_and_errors_def)
qed (use assms(2-4) in simp_all)

lemma control_keeps_iomap:
  assumes "thread_step E k Control s t" and "w_ctl s \<noteq> C_close" and "w_ctl t \<noteq> C_freed"
  shows "i_iomap (w_inst t) = i_iomap (w_inst s)"
  using assms(1)
proof cases
  case (open_data ep sock fresh)
  then show ?thesis by (simp add: ecat_data_open_def Let_def split: option.split prod.split)
next
  case close_data
  then show ?thesis by (simp add: ecat_data_close_def)
next
  case (control_diagnoses clk deadline j pos index sub ca cap wkc bs x)
  then show ?thesis using sdo_in_budget_fields [OF control_diagnoses(3)] by auto
next
  case configure
  then show ?thesis using assms(3) by (simp split: option.splits)
qed (use assms(2) in \<open>simp_all add: set_bus_state_def\<close>)

lemma freed_alone:
  assumes "threads_ok s" and "thread_step E k Control s t"
    and "w_ctl s = C_close \<or> w_ctl t = C_freed \<and> w_ctl s \<noteq> C_freed"
  shows "unthreaded s"
proof (cases "w_ctl s = C_close")
  case True
  then show ?thesis using assms(1) by (simp add: threads_ok_def unthreaded_alone flags_ok_def ctl_ok_def Let_def)
next
  case False
  then have "w_ctl t = C_freed" "w_ctl s \<noteq> C_freed" using assms(3) by auto
  with assms(2) have "w_ctl s = C_idle \<and> thread_flags (w_inst s) = (False, False)"
    by cases (auto split: option.splits if_splits dest: destroy_fields(3))
  then show ?thesis using unflagged_unthreaded [OF assms(1)] by blast
qed

section \<open>The steps and the code they split\<close>

text \<open>
  Without another thread in between, the steps of a thread are the functions that \<^verbatim>\<open>Bus\<close> translates from the
  program: a start, a stop of a master whose threads have ended, one pass of the bus thread's loop and one of the monitor's.
\<close>

abbreviation steps_of :: "('d, 'w) env \<Rightarrow> u8 \<Rightarrow> actor set \<Rightarrow> ('d, 'w) world \<Rightarrow> ('d, 'w) world \<Rightarrow> bool" where
  "steps_of E k A \<equiv> (\<lambda>s t. \<exists>a\<in>A. thread_step E k a s t)\<^sup>*\<^sup>*"

lemma steps_of_step: "steps_of E k A s t \<Longrightarrow> thread_step E k a t u \<Longrightarrow> a \<in> A \<Longrightarrow> steps_of E k A s u"
  by (rule rtranclp.rtrancl_into_rtrancl) auto

lemma launch_steps:
  assumes "w_ctl s = C_launch" and "launch_threads mon_ok bus_ok (w_inst s) = (ok, x)"
  shows "\<exists>t. steps_of E k {Control} s t \<and> w_inst t = x \<and> w_host t = w_host s \<and> w_ctl t = C_idle \<and> w_lock t = w_lock s \<and>
    (mon_ok \<longrightarrow> w_mon t = (w_mon s)(Suc (w_monitor_thread s) := M_begin) \<and> w_monitor_thread t = Suc (w_monitor_thread s)) \<and>
    (\<not> mon_ok \<longrightarrow> w_mon t = w_mon s) \<and>
    (mon_ok \<and> bus_ok \<longrightarrow> (\<exists>l. w_bus t = (w_bus s)(Suc (w_bus_thread s) := B_loop l)) \<and> w_bus_thread t = Suc (w_bus_thread s)) \<and>
    (\<not> (mon_ok \<and> bus_ok) \<longrightarrow> w_bus t = w_bus s)"
proof -
  define a where "a = s\<lparr>w_inst := (w_inst s)\<lparr>i_monitor_running := True\<rparr>, w_ctl := C_create_monitor\<rparr>"
  have "thread_step E k Control s a" unfolding a_def by (rule thread_step.flag_monitor [OF assms(1)])
  then have a: "steps_of E k {Control} s a" by auto
  show ?thesis
  proof (cases mon_ok)
    case False
    define b where "b = a\<lparr>w_ctl := C_monitor_failed\<rparr>"
    define c where "c = b\<lparr>w_inst := (w_inst b)\<lparr>i_monitor_running := False\<rparr>, w_ctl := C_store_error\<rparr>"
    define d where "d = c\<lparr>w_inst := set_bus_state ECAT_STATE_ERROR (w_inst c), w_ctl := C_idle\<rparr>"
    have "thread_step E k Control a b" unfolding b_def by (rule thread_step.monitor_refused) (simp add: a_def)
    moreover have "thread_step E k Control b c" unfolding c_def by (rule thread_step.unflag_monitor) (simp add: b_def)
    moreover have "thread_step E k Control c d" unfolding d_def by (rule thread_step.store_error) (simp add: c_def)
    ultimately have "steps_of E k {Control} s d" using a by (blast intro: steps_of_step)
    then show ?thesis using assms(2) False
      by (intro exI [of _ d]) (auto simp: d_def c_def b_def a_def launch_threads_def Let_def)
  next
    case True
    define b where "b = a\<lparr>w_mon := (w_mon a)(Suc (w_monitor_thread a) := M_begin),
      w_monitor_thread := Suc (w_monitor_thread a), w_ctl := C_monitor_up\<rparr>"
    define c where "c = b\<lparr>w_inst := (w_inst b)\<lparr>i_bus_running := True\<rparr>, w_ctl := C_create_bus\<rparr>"
    have "thread_step E k Control a b" unfolding b_def by (rule thread_step.monitor_created) (simp_all add: a_def)
    moreover have "thread_step E k Control b c" unfolding c_def by (rule thread_step.flag_bus) (simp add: b_def)
    ultimately have c: "steps_of E k {Control} s c" using a by (blast intro: steps_of_step)
    show ?thesis
    proof (cases bus_ok)
      case bad: False
      define d where "d = c\<lparr>w_ctl := C_bus_failed\<rparr>"
      define e where "e = d\<lparr>w_inst := (w_inst d)\<lparr>i_bus_running := False\<rparr>, w_ctl := C_store_error\<rparr>"
      define f where "f = e\<lparr>w_inst := set_bus_state ECAT_STATE_ERROR (w_inst e), w_ctl := C_idle\<rparr>"
      have "thread_step E k Control c d" unfolding d_def by (rule thread_step.bus_refused) (simp add: c_def)
      moreover have "thread_step E k Control d e" unfolding e_def by (rule thread_step.unflag_bus) (simp add: d_def)
      moreover have "thread_step E k Control e f" unfolding f_def by (rule thread_step.store_error) (simp add: e_def)
      ultimately have "steps_of E k {Control} s f" using c by (blast intro: steps_of_step)
      then show ?thesis using assms(2) True bad
        by (intro exI [of _ f]) (auto simp: f_def e_def d_def c_def b_def a_def launch_threads_def Let_def)
    next
      case good: True
      define d where "d = c\<lparr>w_bus := (w_bus c)(Suc (w_bus_thread c) := B_loop \<lparr>bl_next_wakeup = \<lparr>tv_sec = 0, tv_nsec = 0\<rparr>, bl_prev_wake = None\<rparr>),
        w_bus_thread := Suc (w_bus_thread c), w_ctl := C_idle\<rparr>"
      have "thread_step E k Control c d"
        unfolding d_def by (rule thread_step.bus_created) (simp_all add: c_def)
      then have "steps_of E k {Control} s d" using c by (blast intro: steps_of_step)
      then show ?thesis using assms(2) True good
        by (intro exI [of _ d]) (auto simp: d_def c_def b_def a_def launch_threads_def Let_def)
    qed
  qed
qed

lemma start_steps:
  assumes "w_ctl s = C_idle" and "i_bus_state (w_inst s) \<in> startable"
    and "start_single_master E ub mon_ok bus_ok (w_host s) (w_inst s) = (ok, h, x)"
  shows "\<exists>t. steps_of E k {Start, Control} s t \<and> w_inst t = x \<and> w_host t = h \<and> w_ctl t = C_idle"
proof -
  obtain up h1 y where p: "prepare_start E ub (w_host s) (w_inst s) = (up, h1, y)" by (metis prod_cases3)
  define t where "t = s\<lparr>w_inst := y, w_host := h1, w_ctl := (if up then C_launch else C_idle)\<rparr>"
  have "thread_step E k Start s t" unfolding t_def by (rule thread_step.start [OF assms(1,2) p])
  then have st: "steps_of E k {Start, Control} s t" by auto
  show ?thesis
  proof (cases up)
    case False
    then show ?thesis using st assms(3) p by (intro exI [of _ t]) (simp add: t_def start_single_master_def)
  next
    case True
    then have "w_ctl t = C_launch" "launch_threads mon_ok bus_ok (w_inst t) = (ok, x)" and h: "h = h1"
      using assms(3) p by (auto simp: t_def start_single_master_def split: prod.splits)
    from launch_steps [OF this(1,2), of E k] obtain u where
      u: "steps_of E k {Control} t u" "w_inst u = x" "w_host u = w_host t" "w_ctl u = C_idle" by auto
    have "steps_of E k {Start, Control} t u" using u(1) by (rule rtranclp_mono [THEN predicate2D, rotated]) auto
    then have "steps_of E k {Start, Control} s u" using st by (rule rtranclp_trans [rotated])
    then show ?thesis using u h by (intro exI [of _ u]) (simp add: t_def)
  qed
qed

lemma stop_steps:
  assumes "w_ctl s = C_idle" and "unthreaded s" and "i_bus_state (w_inst s) \<notin> {ECAT_STATE_STOPPED, ECAT_STATE_IDLE}"
    and "stop_single_master E (w_host s) (w_inst s) = (h, x)"
  shows "steps_of E k {Control} s (s\<lparr>w_inst := x, w_host := h\<rparr>)"
proof -
  define i where "i = (if i_bus_running (w_inst s) then (w_inst s)\<lparr>i_bus_running := False\<rparr> else w_inst s)"
  define j where "j = (if i_monitor_running i then i\<lparr>i_monitor_running := False\<rparr> else i)"
  define a where "a = s\<lparr>w_inst := i, w_ctl := C_stop_monitor\<rparr>"
  define b where "b = s\<lparr>w_inst := j, w_ctl := C_close\<rparr>"
  have "steps_of E k {Control} s a"
  proof (cases "i_bus_running (w_inst s)")
    case True
    let ?j = "s\<lparr>w_inst := i, w_ctl := C_join_bus\<rparr>"
    have "thread_step E k Control s ?j" using thread_step.stop_request [OF assms(1,3), of E k] True by (simp add: i_def)
    moreover have "thread_step E k Control ?j (?j\<lparr>w_ctl := C_stop_monitor\<rparr>)"
      by (rule thread_step.bus_joined) (use assms(2) in \<open>simp_all add: unthreaded_def\<close>)
    ultimately show ?thesis by (auto simp: a_def intro: steps_of_step)
  next
    case False
    then have "thread_step E k Control s a" using thread_step.stop_request [OF assms(1,3), of E k] by (simp add: i_def a_def)
    then show ?thesis by auto
  qed
  moreover have "steps_of E k {Control} a b"
  proof (cases "i_monitor_running i")
    case True
    let ?j = "s\<lparr>w_inst := j, w_ctl := C_join_monitor\<rparr>"
    have "thread_step E k Control a ?j" using thread_step.stop_monitor [of a E k] True by (simp add: j_def a_def)
    moreover have "thread_step E k Control ?j (?j\<lparr>w_ctl := C_close\<rparr>)"
      by (rule thread_step.monitor_joined) (use assms(2) in \<open>simp_all add: unthreaded_def\<close>)
    ultimately show ?thesis by (auto simp: b_def intro: steps_of_step)
  next
    case False
    then have "thread_step E k Control a b" using thread_step.stop_monitor [of a E k] by (simp add: j_def a_def b_def)
    then show ?thesis by auto
  qed
  moreover have "thread_step E k Control b (b\<lparr>w_inst := x, w_host := h, w_ctl := C_idle\<rparr>)"
    by (rule thread_step.stop_closes) (use assms(3,4) in \<open>auto simp: b_def j_def i_def stop_single_master_def Let_def\<close>)
  ultimately have "steps_of E k {Control} s (b\<lparr>w_inst := x, w_host := h, w_ctl := C_idle\<rparr>)"
    by (auto intro: rtranclp_trans steps_of_step)
  moreover have "b\<lparr>w_inst := x, w_host := h, w_ctl := C_idle\<rparr> = s\<lparr>w_inst := x, w_host := h\<rparr>"
    using assms(1) by (cases s) (simp add: b_def)
  ultimately show ?thesis by simp
qed

lemma bus_iteration_steps:
  assumes "w_bus s n = B_loop l" and "i_bus_running (w_inst s)"
    and "bus_iteration (e_soem E) k wake fin io l (w_inst s) = (frame, l', x)"
  shows "steps_of E k {Bus_thread n} s (s\<lparr>w_inst := x, w_bus := (w_bus s)(n := B_loop l')\<rparr>)"
proof -
  obtain m y where wk: "bus_wake wake l (w_inst s) = (m, y)" by force
  let ?st = "i_bus_state y"
  let ?a = "s\<lparr>w_inst := y, w_bus := (w_bus s)(n := B_cycle m ?st)\<rparr>"
  have "thread_step E k (Bus_thread n) s ?a" by (rule thread_step.bus_wakes [OF assms(1,2) wk])
  then have s1: "steps_of E k {Bus_thread n} s ?a" by auto
  show ?thesis
  proof (cases "exchanging ?st \<and> ecat_master_get_iomap y \<noteq> None")
    case False
    then have "bus_finish fin m (w_inst ?a) = (l', x)"
      using assms(3) wk by (auto simp: bus_iteration_def ecat_run_one_cycle_def Let_def split: if_splits)
    then have "thread_step E k (Bus_thread n) ?a (?a\<lparr>w_inst := x, w_bus := (w_bus ?a)(n := B_loop l')\<rparr>)"
      using False by (intro thread_step.bus_skips [where st = ?st and l = m]) auto
    with s1 show ?thesis by (auto dest: steps_of_step)
  next
    case True
    obtain wkc f z where ex: "cycle_exchange (e_soem E) k io ?st y = (wkc, f, z)" by (metis prod_cases3)
    let ?b = "?a\<lparr>w_inst := z, w_bus := (w_bus ?a)(n := B_decide m ?st wkc)\<rparr>"
    have "thread_step E k (Bus_thread n) ?a ?b"
      using True ex by (intro thread_step.bus_exchanges [where st = ?st and l = m and io = io]) auto
    then have s2: "steps_of E k {Bus_thread n} s ?b" using s1 by (blast intro: steps_of_step)
    have "bus_finish fin m (cycle_decide ?st wkc (w_inst ?b)) = (l', x)"
      using assms(3) wk ex True by (auto simp: bus_iteration_def ecat_run_one_cycle_def Let_def)
    then have "thread_step E k (Bus_thread n) ?b (?b\<lparr>w_inst := x, w_bus := (w_bus ?b)(n := B_loop l')\<rparr>)"
      by (intro thread_step.bus_decides [where st = ?st and l = m and wkc = wkc]) auto
    with s2 show ?thesis by (auto dest: steps_of_step)
  qed
qed

lemma mailbox_steps:
  assumes "w_mon s n = M_mailbox seen" and "w_lock s = None"
  shows "steps_of E k {Monitor n} s
    (s\<lparr>w_inst := monitor_mailbox (e_soem E) (w_inst s), w_mon := (w_mon s)(n := M_loop seen)\<rparr>)"
proof (cases "exchanging (i_bus_state (w_inst s)) \<and> i_soem_initialized (w_inst s)")
  case False
  then have i: "monitor_mailbox (e_soem E) (w_inst s) = w_inst s"
    by (auto simp: monitor_mailbox_def drain_mailbox_and_errors_def)
  show ?thesis using thread_step.monitor_reloads [OF assms(1), of E k] False by (auto simp: i)
next
  case True
  let ?a = "s\<lparr>w_mon := (w_mon s)(n := M_lock_mailbox seen)\<rparr>"
  let ?b = "?a\<lparr>w_lock := Some (Monitor n), w_mon := (w_mon ?a)(n := M_drain seen)\<rparr>"
  let ?c = "?b\<lparr>w_inst := drain_mailbox_and_errors (e_soem E) (w_inst ?b), w_lock := None, w_mon := (w_mon ?b)(n := M_loop seen)\<rparr>"
  have "thread_step E k (Monitor n) s ?a" using thread_step.monitor_reloads [OF assms(1), of E k] True by simp
  moreover have "thread_step E k (Monitor n) ?a ?b" by (rule thread_step.mailbox_locks) (use assms(2) in simp_all)
  moreover have "thread_step E k (Monitor n) ?b ?c" by (rule thread_step.monitor_drains) simp
  ultimately have "steps_of E k {Monitor n} s ?c" by (auto intro: steps_of_step rtranclp.rtrancl_refl)
  moreover have "?c = s\<lparr>w_inst := monitor_mailbox (e_soem E) (w_inst s), w_mon := (w_mon s)(n := M_loop seen)\<rparr>"
    using True assms(2) by (cases s) (simp add: monitor_mailbox_def)
  ultimately show ?thesis by simp
qed

lemma monitor_pass_steps:
  assumes "w_mon s n = M_loop seen" and "i_monitor_running (w_inst s)" and "w_lock s = None"
    and "monitor_pass (e_soem E) (e_mem E) seen (w_inst s) = (seen', x)"
  shows "steps_of E k {Monitor n} s (s\<lparr>w_inst := x, w_mon := (w_mon s)(n := M_loop seen')\<rparr>)"
proof -
  let ?st = "i_bus_state (w_inst s)"
  obtain r v y where w: "monitor_work (e_soem E) (e_mem E) ?st seen (w_inst s) = (r, v, y)" by (metis prod_cases3)
  have x: "v = seen'" "x = monitor_mailbox (e_soem E) (monitor_store r y)"
    using assms(4) w by (simp_all add: monitor_pass_def)
  let ?a = "s\<lparr>w_mon := (w_mon s)(n := M_work seen ?st)\<rparr>"
  let ?c = "s\<lparr>w_inst := y, w_mon := (w_mon s)(n := M_store v ?st r)\<rparr>"
  have a: "thread_step E k (Monitor n) s ?a" by (rule thread_step.monitor_loads [OF assms(1,2)])
  have c: "steps_of E k {Monitor n} ?a ?c"
  proof (cases "?st = ECAT_STATE_RECOVERING")
    case False
    then have "thread_step E k (Monitor n) ?a (?a\<lparr>w_inst := y, w_mon := (w_mon ?a)(n := M_store v ?st r)\<rparr>)"
      using w by (intro thread_step.monitor_works) auto
    then show ?thesis by auto
  next
    case True
    let ?b = "?a\<lparr>w_lock := Some (Monitor n), w_mon := (w_mon ?a)(n := M_recover seen)\<rparr>"
    have "thread_step E k (Monitor n) ?a ?b" by (rule thread_step.monitor_locks) (use True assms(3) in simp_all)
    moreover have "thread_step E k (Monitor n) ?b
        (?b\<lparr>w_inst := y, w_lock := None, w_mon := (w_mon ?b)(n := M_store v ECAT_STATE_RECOVERING r)\<rparr>)"
      using w True by (intro thread_step.monitor_recovers) auto
    ultimately have "steps_of E k {Monitor n} ?a
        (?b\<lparr>w_inst := y, w_lock := None, w_mon := (w_mon ?b)(n := M_store v ECAT_STATE_RECOVERING r)\<rparr>)"
      by (auto intro: steps_of_step rtranclp.rtrancl_refl)
    moreover have "?b\<lparr>w_inst := y, w_lock := None, w_mon := (w_mon ?b)(n := M_store v ECAT_STATE_RECOVERING r)\<rparr> = ?c"
      using True assms(3) by (cases s) simp
    ultimately show ?thesis by simp
  qed
  let ?d = "?c\<lparr>w_inst := monitor_store r (w_inst ?c), w_mon := (w_mon ?c)(n := M_mailbox v)\<rparr>"
  have "thread_step E k (Monitor n) ?c ?d" by (rule thread_step.monitor_stores) simp
  then have "steps_of E k {Monitor n} s ?d"
    using a c by (auto intro: steps_of_step converse_rtranclp_into_rtranclp)
  moreover have "steps_of E k {Monitor n} ?d
      (?d\<lparr>w_inst := monitor_mailbox (e_soem E) (w_inst ?d), w_mon := (w_mon ?d)(n := M_loop v)\<rparr>)"
    by (rule mailbox_steps) (use assms(3) in simp_all)
  ultimately have "steps_of E k {Monitor n} s
      (?d\<lparr>w_inst := monitor_mailbox (e_soem E) (w_inst ?d), w_mon := (w_mon ?d)(n := M_loop v)\<rparr>)" by (rule rtranclp_trans)
  then show ?thesis using x by simp
qed

text \<open>
  What the program does not insist on: a master whose recovery has given up is in ERROR and keeps
  its threads, and in ERROR neither a start nor a configure is refused; a configure leaks it.
\<close>

lemma error_keeps_threads:
  "let x = monitor_store (- 1) inst; b = \<lparr>g_masters = [x], g_config_path = path, g_leaked = []\<rparr>
   in i_bus_state x \<in> startable \<and> thread_flags x = thread_flags inst \<and> \<not> ecat_bus_any_active b \<and>
      (i_bus_running inst \<longrightarrow> free_masters b = (False, b\<lparr>g_masters := [], g_leaked := [x]\<rparr>))"
  by (simp add: Let_def ecat_bus_any_active_def free_masters_def destroy_instance_def monitor_store_def)

section \<open>Runs of a concrete master\<close>

text \<open>The world in which a master is before its first start.\<close>

definition resting :: "'w host \<Rightarrow> 'd ecat_master_instance \<Rightarrow> ('d, 'w) world" where
  "resting h inst = \<lparr>w_inst = inst, w_bus = (\<lambda>_. B_none), w_bus_thread = 0, w_mon = (\<lambda>_. M_none), w_monitor_thread = 0,
     w_ctl = C_idle, w_lock = None, w_host = h\<rparr>"

definition idle_world :: "(soem_call list, nat) world" where
  "idle_world = resting \<lparr>files = Map.empty, nic = 0\<rparr> one_slave_inst"

lemma idle_world_init: "world_init idle_world"
  by (simp add: world_init_def idle_world_def resting_def unthreaded_def one_slave_inst_def zero_defs thread_flags_def)

abbreviation care_reach :: "('d, 'w) env \<Rightarrow> ('d, 'w) world \<Rightarrow> ('d, 'w) world \<Rightarrow> bool" where
  "care_reach E s \<equiv> reach (\<lambda>w. w = s) (careful_step E 0)"

lemma care_reach_step: "care_reach E s t \<Longrightarrow> thread_step E 0 a t u \<Longrightarrow> a \<noteq> Start \<Longrightarrow> care_reach E s u"
  by (rule reach_step [where a = a]) (simp_all add: careful_step_def)

lemma care_reach_steps: "steps_of E 0 {Control} t u \<Longrightarrow> care_reach E s t \<Longrightarrow> care_reach E s u"
  by (induction rule: rtranclp_induct) (auto intro: care_reach_step)

lemma care_reach_init: "world_init s \<Longrightarrow> care_reach E s t \<Longrightarrow> reach world_init (careful_step E 0) t"
  by (rotate_tac 1, induction rule: reach.induct) (auto intro: reach.intros)

lemma prepared_reachable:
  assumes "fits_recording (i_config inst)" and "i_bus_state inst = ECAT_STATE_IDLE" and "thread_flags inst = (False, False)"
  shows "\<exists>h' x. ready x \<and> thread_flags x = (False, False) \<and> i_config x = i_config inst \<and>
    care_reach recording_env (resting h inst) ((resting h' x)\<lparr>w_ctl := C_launch\<rparr>)"
proof -
  obtain h' x where p: "prepare_start recording_env (\<lambda>_. 0) h inst = (True, h', x)"
    using start_succeeds [OF assms(1), of "\<lambda>_. 0" h] by (metis prod.collapse)
  note r = prepare_result [OF p]
  let ?s = "resting h inst"
  have "thread_step recording_env 0 Start ?s (?s\<lparr>w_inst := x, w_host := h', w_ctl := (if True then C_launch else C_idle)\<rparr>)"
    by (rule thread_step.start) (use assms(2) p in \<open>simp_all add: resting_def\<close>)
  then have "careful_step recording_env 0 Start ?s ((resting h' x)\<lparr>w_ctl := C_launch\<rparr>)"
    using assms(3) by (simp add: careful_step_def resting_def)
  then have "care_reach recording_env ?s ((resting h' x)\<lparr>w_ctl := C_launch\<rparr>)"
    using reach_step [of "\<lambda>w. w = ?s" "careful_step recording_env 0" ?s Start] reach_init [of "\<lambda>w. w = ?s" ?s] by blast
  then show ?thesis using r assms(3) by (intro exI [of _ h'] exI [of _ x]) simp
qed

lemma started_reachable:
  assumes "fits_recording (i_config inst)" and "i_bus_state inst = ECAT_STATE_IDLE" and "thread_flags inst = (False, False)"
  shows "\<exists>t l. care_reach recording_env (resting h inst) t \<and> started (w_inst t) \<and> w_ctl t = C_idle \<and> w_lock t = None \<and>
    w_bus t = (\<lambda>_. B_none)(1 := B_loop l) \<and> w_bus_thread t = 1 \<and> w_mon t = (\<lambda>_. M_none)(1 := M_begin) \<and> w_monitor_thread t = 1"
proof -
  obtain h' x where x: "ready x" "care_reach recording_env (resting h inst) ((resting h' x)\<lparr>w_ctl := C_launch\<rparr>)"
    using prepared_reachable [OF assms] by blast
  let ?s = "(resting h' x)\<lparr>w_ctl := C_launch\<rparr>"
  obtain y where y: "launch_threads True True (w_inst ?s) = (True, y)" by (simp add: launch_threads_def)
  obtain t where t: "steps_of recording_env 0 {Control} ?s t" "w_inst t = y" "w_ctl t = C_idle" "w_lock t = None"
      "w_mon t = (\<lambda>_. M_none)(1 := M_begin)" "w_monitor_thread t = 1" "\<exists>l. w_bus t = (\<lambda>_. B_none)(1 := B_loop l)"
      "w_bus_thread t = 1"
    using launch_steps [of ?s, OF _ y, of recording_env 0] by (auto simp: resting_def)
  have "care_reach recording_env (resting h inst) t" using care_reach_steps [OF t(1) x(2)] .
  moreover have "started y" using launch_started [OF x(1)] y by (simp add: resting_def)
  ultimately show ?thesis using t by auto
qed

text \<open>The bus thread within a cycle, the monitor within a pass and the control thread holding the lock.\<close>

definition busy :: "('d, 'w) world \<Rightarrow> bool" where
  "busy s \<longleftrightarrow> bus_read (cur_bus s) = Some ECAT_STATE_OPERATIONAL \<and>
     mon_read (cur_mon s) = Some ECAT_STATE_OPERATIONAL \<and> w_lock s = Some Control"

lemma busy_reachable:
  assumes "fits_recording (i_config inst)" and "i_bus_state inst = ECAT_STATE_IDLE" and "thread_flags inst = (False, False)"
  shows "\<exists>t. care_reach recording_env (resting h inst) t \<and> busy t"
proof -
  let ?R = "care_reach recording_env (resting h inst)"
  obtain t l where t: "?R t" "started (w_inst t)" "w_ctl t = C_idle" "w_lock t = None"
      "w_bus t = (\<lambda>_. B_none)(1 := B_loop l)" "w_bus_thread t = 1" "w_mon t = (\<lambda>_. M_none)(1 := M_begin)" "w_monitor_thread t = 1"
    using started_reachable [OF assms] by blast
  define a where "a = t\<lparr>w_mon := (w_mon t)(1 := M_loop (0, i_al_faults (w_inst t)))\<rparr>"
  define b where "b = a\<lparr>w_mon := (w_mon a)(1 := M_work (0, i_al_faults (w_inst t)) (i_bus_state (w_inst a)))\<rparr>"
  obtain l' x where wk: "bus_wake \<lparr>tv_sec = 0, tv_nsec = 0\<rparr> l (w_inst b) = (l', x)" by force
  define c where "c = b\<lparr>w_inst := x, w_bus := (w_bus b)(1 := B_cycle l' (i_bus_state x))\<rparr>"
  define d where "d = c\<lparr>w_lock := Some Control, w_ctl := C_acyclic\<rparr>"
  have bi: "w_inst b = w_inst t" by (simp add: b_def a_def)
  have x: "x = (w_inst t)\<lparr>i_diag := i_diag x\<rparr>" using wk bi by (auto simp: bus_wake_def Let_def)
  have run: "i_bus_running (w_inst t)" "i_monitor_running (w_inst t)" "i_soem_initialized (w_inst t)"
    "i_bus_state (w_inst t) = ECAT_STATE_OPERATIONAL"
    using t(2) by (simp_all add: started_def)
  have xf: "i_bus_running x" "i_soem_initialized x" "i_bus_state x = ECAT_STATE_OPERATIONAL"
    using run by (subst x, simp)+
  have "?R a" using t(1) thread_step.monitor_begins [of t 1 recording_env 0] t(7) by (auto simp: a_def intro: care_reach_step)
  moreover have "thread_step recording_env 0 (Monitor 1) a b"
    unfolding b_def by (rule thread_step.monitor_loads) (use run in \<open>simp_all add: a_def\<close>)
  ultimately have "?R b" by (rule care_reach_step) simp
  moreover have "thread_step recording_env 0 (Bus_thread 1) b c"
    unfolding c_def by (rule thread_step.bus_wakes [OF _ _ wk]) (use run t(5) in \<open>simp_all add: bi\<close>, simp add: b_def a_def t(5))
  ultimately have "?R c" by (rule care_reach_step) simp
  moreover have "thread_step recording_env 0 Control c d"
    unfolding d_def by (rule thread_step.control_locks) (use xf t in \<open>simp_all add: c_def b_def a_def\<close>)
  ultimately have "?R d" by (rule care_reach_step) simp
  moreover have "busy d" using xf run t by (simp add: busy_def d_def c_def b_def a_def cur_bus_def cur_mon_def bus_read_def mon_read_def)
  ultimately show ?thesis by blast
qed

text \<open>The bus thread could not be created: the state is still OPERATIONAL and the monitor exists.\<close>

lemma refused_reachable:
  "\<exists>s. care_reach recording_env idle_world s \<and> w_ctl s = C_store_error \<and>
     i_bus_state (w_inst s) = ECAT_STATE_OPERATIONAL \<and> fits_recording (i_config (w_inst s)) \<and>
     w_mon s = (\<lambda>_. M_none)(1 := M_begin) \<and> w_monitor_thread s = 1"
proof -
  let ?R = "care_reach recording_env idle_world"
  have i: "fits_recording (i_config one_slave_inst)" "i_bus_state one_slave_inst = ECAT_STATE_IDLE" "thread_flags one_slave_inst = (False, False)"
    by (simp_all add: one_slave_inst_config one_slave_fits) (simp_all add: one_slave_inst_def zero_defs thread_flags_def)
  obtain h x where x: "ready x" "i_config x = i_config one_slave_inst" "?R ((resting h x)\<lparr>w_ctl := C_launch\<rparr>)"
    using prepared_reachable [OF i] unfolding idle_world_def by blast
  define s where "s = (resting h x)\<lparr>w_ctl := C_launch\<rparr>"
  define a where "a = s\<lparr>w_inst := (w_inst s)\<lparr>i_monitor_running := True\<rparr>, w_ctl := C_create_monitor\<rparr>"
  define b where "b = a\<lparr>w_mon := (w_mon a)(1 := M_begin), w_monitor_thread := 1, w_ctl := C_monitor_up\<rparr>"
  define c where "c = b\<lparr>w_inst := (w_inst b)\<lparr>i_bus_running := True\<rparr>, w_ctl := C_create_bus\<rparr>"
  define d where "d = c\<lparr>w_ctl := C_bus_failed\<rparr>"
  define e where "e = d\<lparr>w_inst := (w_inst d)\<lparr>i_bus_running := False\<rparr>, w_ctl := C_store_error\<rparr>"
  have "?R s" using x(3) by (simp add: s_def)
  moreover have "thread_step recording_env 0 Control s a" unfolding a_def by (rule thread_step.flag_monitor) (simp add: s_def)
  ultimately have "?R a" by (rule care_reach_step) simp
  moreover have "thread_step recording_env 0 Control a b"
    unfolding b_def by (rule thread_step.monitor_created) (simp_all add: a_def s_def resting_def)
  ultimately have "?R b" by (rule care_reach_step) simp
  moreover have "thread_step recording_env 0 Control b c" unfolding c_def by (rule thread_step.flag_bus) (simp add: b_def)
  ultimately have "?R c" by (rule care_reach_step) simp
  moreover have "thread_step recording_env 0 Control c d" unfolding d_def by (rule thread_step.bus_refused) (simp add: c_def)
  ultimately have "?R d" by (rule care_reach_step) simp
  moreover have "thread_step recording_env 0 Control d e" unfolding e_def by (rule thread_step.unflag_bus) (simp add: d_def)
  ultimately have "?R e" by (rule care_reach_step) simp
  moreover have "w_ctl e = C_store_error" "i_bus_state (w_inst e) = ECAT_STATE_OPERATIONAL" "fits_recording (i_config (w_inst e))"
    "w_mon e = (\<lambda>_. M_none)(1 := M_begin)" "w_monitor_thread e = 1"
    using x(1,2) i(1) by (simp_all add: e_def d_def c_def b_def a_def s_def resting_def ready_def)
  ultimately show ?thesis by blast
qed

text \<open>
  Why care is needed. In ERROR the program starts a master beside the monitor of a start that failed: the
  master then has two monitors, and the handle of the first one is lost.
\<close>

lemma start_beside_monitor:
  "\<exists>s. reach world_init (thread_step recording_env 0) s \<and> w_mon s 1 \<noteq> M_none \<and> w_mon s 2 \<noteq> M_none \<and> w_monitor_thread s = 2 \<and> \<not> alone s"
proof -
  let ?R = "reach world_init (thread_step recording_env 0)"
  obtain s where s: "care_reach recording_env idle_world s" "w_ctl s = C_store_error" "fits_recording (i_config (w_inst s))"
      "w_mon s = (\<lambda>_. M_none)(1 := M_begin)" "w_monitor_thread s = 1"
    using refused_reachable by blast
  have "?R s" using s(1)
    by (induction rule: reach.induct) (auto simp: careful_step_def intro: idle_world_init reach.intros)
  moreover define a where "a = s\<lparr>w_inst := set_bus_state ECAT_STATE_ERROR (w_inst s), w_ctl := C_idle\<rparr>"
  have "thread_step recording_env 0 Control s a" unfolding a_def by (rule thread_step.store_error [OF s(2)])
  ultimately have "?R a" by (rule reach_step)
  have "fits_recording (i_config (w_inst a))" using s(3) by (simp add: a_def)
  then obtain h x where p: "prepare_start recording_env (\<lambda>_. 0) (w_host a) (w_inst a) = (True, h, x)"
    using start_succeeds by (metis prod.collapse)
  define b where "b = a\<lparr>w_inst := x, w_host := h, w_ctl := C_launch\<rparr>"
  have "thread_step recording_env 0 Start a b"
    using thread_step.start [OF _ _ p, of 0] by (simp add: a_def b_def set_bus_state_def)
  with \<open>?R a\<close> have "?R b" by (rule reach_step)
  define c where "c = b\<lparr>w_inst := (w_inst b)\<lparr>i_monitor_running := True\<rparr>, w_ctl := C_create_monitor\<rparr>"
  define d where "d = c\<lparr>w_mon := (w_mon c)(2 := M_begin), w_monitor_thread := 2, w_ctl := C_monitor_up\<rparr>"
  note \<open>?R b\<close>
  moreover have "thread_step recording_env 0 Control b c" unfolding c_def by (rule thread_step.flag_monitor) (simp add: b_def)
  ultimately have "?R c" by (rule reach_step)
  moreover have "thread_step recording_env 0 Control c d"
    unfolding d_def by (rule thread_step.monitor_created) (simp_all add: c_def b_def a_def s(5))
  ultimately have "?R d" by (rule reach_step)
  moreover have m: "w_mon d 1 = M_begin" "w_mon d 2 = M_begin" "w_monitor_thread d = 2"
    by (simp_all add: d_def c_def b_def a_def s(4))
  moreover from m have "\<not> alone d" by (auto simp: alone_def intro: exI [of _ 1])
  ultimately show ?thesis by (intro exI [of _ d]) simp
qed

lemma stopped_threads_reachable:
  "\<exists>s. care_reach recording_env idle_world s \<and> w_ctl s = C_close \<and> i_iomap (w_inst s) \<noteq> None"
proof -
  let ?R = "care_reach recording_env idle_world"
  have i: "fits_recording (i_config one_slave_inst)" "i_bus_state one_slave_inst = ECAT_STATE_IDLE" "thread_flags one_slave_inst = (False, False)"
    by (simp_all add: one_slave_inst_config one_slave_fits) (simp_all add: one_slave_inst_def zero_defs thread_flags_def)
  obtain t l where t: "?R t" "started (w_inst t)" "w_ctl t = C_idle" "w_lock t = None"
      "w_bus t = (\<lambda>_. B_none)(1 := B_loop l)" "w_bus_thread t = 1" "w_mon t = (\<lambda>_. M_none)(1 := M_begin)" "w_monitor_thread t = 1"
    using started_reachable [OF i] unfolding idle_world_def by blast
  define seen where "seen = (0::u64, i_al_faults (w_inst t))"
  define a where "a = t\<lparr>w_inst := (w_inst t)\<lparr>i_bus_running := False\<rparr>, w_ctl := C_join_bus\<rparr>"
  define b where "b = a\<lparr>w_mon := (w_mon a)(1 := M_loop seen)\<rparr>"
  define c where "c = b\<lparr>w_bus := (w_bus b)(1 := B_none)\<rparr>"
  define d where "d = c\<lparr>w_ctl := C_stop_monitor\<rparr>"
  define e where "e = d\<lparr>w_inst := (w_inst d)\<lparr>i_monitor_running := False\<rparr>, w_ctl := C_join_monitor\<rparr>"
  define f where "f = e\<lparr>w_mon := (w_mon e)(1 := M_none)\<rparr>"
  define g where "g = f\<lparr>w_ctl := C_close\<rparr>"
  have run: "i_bus_running (w_inst t)" "i_monitor_running (w_inst t)" "i_bus_state (w_inst t) = ECAT_STATE_OPERATIONAL"
    "i_iomap (w_inst t) \<noteq> None"
    using t(2) by (simp_all add: started_def)
  have "thread_step recording_env 0 Control t a"
    using thread_step.stop_request [OF t(3), of recording_env 0] run by (simp add: a_def)
  then have "?R a" using t(1) by (blast intro: care_reach_step)
  moreover have "thread_step recording_env 0 (Monitor 1) a b"
    using thread_step.monitor_begins [of a 1 recording_env 0] t(7) by (simp add: b_def a_def seen_def)
  ultimately have "?R b" by (rule care_reach_step) simp
  moreover have "thread_step recording_env 0 (Bus_thread 1) b c"
    unfolding c_def by (rule thread_step.bus_exit [where l = l]) (simp_all add: b_def a_def t(5))
  ultimately have "?R c" by (rule care_reach_step) simp
  moreover have "thread_step recording_env 0 Control c d"
    unfolding d_def by (rule thread_step.bus_joined) (simp_all add: c_def b_def a_def t(6))
  ultimately have "?R d" by (rule care_reach_step) simp
  moreover have "thread_step recording_env 0 Control d e"
    using thread_step.stop_monitor [of d recording_env 0] run by (simp add: e_def d_def c_def b_def a_def)
  ultimately have "?R e" by (rule care_reach_step) simp
  moreover have "thread_step recording_env 0 (Monitor 1) e f"
    unfolding f_def by (rule thread_step.monitor_exit [where seen = seen]) (simp_all add: e_def d_def c_def b_def)
  ultimately have "?R f" by (rule care_reach_step) simp
  moreover have "thread_step recording_env 0 Control f g"
    unfolding g_def by (rule thread_step.monitor_joined) (simp_all add: f_def e_def d_def c_def b_def a_def t(8))
  ultimately have "?R g" by (rule care_reach_step) simp
  then show ?thesis using run(4) by (intro exI [of _ g]) (simp add: g_def f_def e_def d_def c_def b_def a_def)
qed

section \<open>Properties\<close>



text \<open>
  C7: in runs with care, the bus thread only ever moves the bus state from OPERATIONAL to RECOVERING and the monitor only
  from RECOVERING to OPERATIONAL or ERROR. A start moves it, while no thread exists, from IDLE, STOPPED or ERROR to OPERATIONAL
  or ERROR. Apart from that the control thread never changes it while a bus thread exists: it moves it from OPERATIONAL to ERROR when a thread could not
  be created, and then the monitor may already run, or to STOPPED at the end of a stop, when no thread is left.
\<close>

theorem bus_state_ownership:
  assumes "reach world_init (careful_step E k) s" and "careful_step E k a s t"
    and "i_bus_state (w_inst t) \<noteq> i_bus_state (w_inst s)"
  shows "case a of
      Bus_thread n \<Rightarrow> i_bus_state (w_inst s) = ECAT_STATE_OPERATIONAL \<and> i_bus_state (w_inst t) = ECAT_STATE_RECOVERING
    | Monitor n \<Rightarrow> i_bus_state (w_inst s) = ECAT_STATE_RECOVERING \<and>
        i_bus_state (w_inst t) \<in> {ECAT_STATE_OPERATIONAL, ECAT_STATE_ERROR}
    | Start \<Rightarrow> unthreaded s \<and> i_bus_state (w_inst s) \<in> startable \<and>
        i_bus_state (w_inst t) \<in> {ECAT_STATE_OPERATIONAL, ECAT_STATE_ERROR}
    | Control \<Rightarrow> (\<forall>n. w_bus s n = B_none) \<and>
        (w_ctl s = C_store_error \<and> i_bus_state (w_inst s) = ECAT_STATE_OPERATIONAL \<and> i_bus_state (w_inst t) = ECAT_STATE_ERROR \<or>
         unthreaded s \<and> i_bus_state (w_inst t) = ECAT_STATE_STOPPED)"
proof -
  have ok: "threads_ok s" using assms(1) by (rule threads.reach_good)
  have st: "thread_step E k a s t" using assms(2) by (simp add: careful_step_def)
  show ?thesis
  proof (cases a)
    case Start
    then show ?thesis using start_changes [OF ok _ assms(3)] assms(2) by simp
  next
    case Control
    from control_changes [OF ok st [unfolded Control] assms(3)] show ?thesis unfolding Control actor.case .
  next
    case (Bus_thread n)
    then show ?thesis using bus_changes [OF ok _ assms(3)] st by simp
  next
    case (Monitor n)
    then show ?thesis using monitor_changes [OF ok _ assms(3)] st by simp
  qed
qed

theorem bus_state_ownership_witness:
  "\<exists>s t. careful_step recording_env 0 Control s t \<and> w_mon s 1 \<noteq> M_none \<and> i_bus_state (w_inst t) = ECAT_STATE_ERROR \<and>
     (\<forall>n. w_bus s n = B_none)"
proof -
  obtain s where s: "care_reach recording_env idle_world s" "w_ctl s = C_store_error"
      "i_bus_state (w_inst s) = ECAT_STATE_OPERATIONAL" "w_mon s = (\<lambda>_. M_none)(1 := M_begin)"
    using refused_reachable by blast
  let ?t = "s\<lparr>w_inst := set_bus_state ECAT_STATE_ERROR (w_inst s), w_ctl := C_idle\<rparr>"
  have step: "careful_step recording_env 0 Control s ?t"
    using thread_step.store_error [OF s(2)] by (simp add: careful_step_def)
  have r: "reach world_init (careful_step recording_env 0) s" using care_reach_init [OF idle_world_init s(1)] .
  have "i_bus_state (w_inst ?t) \<noteq> i_bus_state (w_inst s)" using s(3) by (simp add: set_bus_state_def)
  from bus_state_ownership [OF r step this] step s(4) show ?thesis
    unfolding actor.case by (intro exI [of _ s] exI [of _ ?t]) (simp add: set_bus_state_def)
qed

text \<open>
  C5: recovery ends. From a state as in the property before, in runs with care, the monitor makes at most five recovery
  passes while the bus state stays RECOVERING, whatever the slaves answer and however the threads
  interleave. As long as it exists it can make its next step, unless it waits for the acyclic lock; then the control
  thread holds the lock, can make a step, and every step it can make releases the lock.
\<close>

theorem recovery_bounded:
  assumes "lock_ok s \<and> alone s \<and> flags_ok s \<and> owner_ok s \<and> attempts_ok s" and "recovering_run E k n s u"
  shows "n \<le> 5 \<and>
    (cur_mon u = M_none \<or> (\<exists>v. thread_step E k (Monitor (w_monitor_thread u)) u v) \<or>
     w_lock u = Some Control \<and> (\<exists>v. thread_step E k Control u v) \<and> (\<forall>v. thread_step E k Control u v \<longrightarrow> w_lock v = None))"
proof -
  have s: "threads_ok s" using assms(1) by (simp add: threads_ok_def)
  have "i_bus_state (w_inst s) = ECAT_STATE_RECOVERING"
    using assms(2) by (induction rule: recovering_run.induct) simp_all
  then have "0 \<le> recovery_level s" using recovery_level_bounds [OF s] by simp
  moreover note u = recovering_run_level [OF assms(2) s]
  then have "recovery_level u \<le> 5" using recovery_level_bounds [of u] by simp
  ultimately have "n \<le> 5" using u by linarith
  then show ?thesis using u monitor_progress [of u E k] by blast
qed

theorem recovery_bounded_witness:
  "\<exists>s u. w_mon s 1 = M_work (0, 0) ECAT_STATE_RECOVERING \<and> recovering_run recording_env 0 1 s u \<and> (1::nat) \<le> 5 \<and>
     cur_mon u \<noteq> M_none"
proof -
  let ?i = "one_slave_inst\<lparr>i_bus_state := ECAT_STATE_RECOVERING, i_monitor_running := True, i_bus_running := True\<rparr>"
  define s where "s = idle_world\<lparr>w_inst := ?i, w_bus := (\<lambda>_. B_none)(1 := B_loop \<lparr>bl_next_wakeup = \<lparr>tv_sec = 0, tv_nsec = 0\<rparr>, bl_prev_wake = None\<rparr>), w_bus_thread := 1,
    w_mon := (\<lambda>_. M_none)(1 := M_work (0, 0) ECAT_STATE_RECOVERING), w_monitor_thread := 1\<rparr>"
  have ok: "lock_ok s \<and> alone s \<and> flags_ok s \<and> owner_ok s \<and> attempts_ok s"
    by (simp add: s_def lock_ok_def alone_def flags_ok_def ctl_ok_def owner_ok_def attempts_ok_def cur_bus_def cur_mon_def
        bus_read_def mon_read_def mon_result_def exchanging_def idle_world_def resting_def one_slave_inst_def zero_defs
        thread_flags_def Let_def)
  define t where "t = s\<lparr>w_lock := Some (Monitor 1), w_mon := (w_mon s)(1 := M_recover (0, 0))\<rparr>"
  obtain r seen x where w: "monitor_work (e_soem recording_env) (e_mem recording_env) ECAT_STATE_RECOVERING (0, 0) (w_inst t) = (r, seen, x)"
    by (metis prod_cases3)
  define u where "u = t\<lparr>w_inst := x, w_lock := None, w_mon := (w_mon t)(1 := M_store seen ECAT_STATE_RECOVERING r)\<rparr>"
  have st: "i_bus_state (w_inst s) = ECAT_STATE_RECOVERING" "i_bus_state (w_inst t) = ECAT_STATE_RECOVERING"
    by (simp_all add: s_def t_def)
  have "thread_step recording_env 0 (Monitor 1) s t"
    unfolding t_def by (rule thread_step.monitor_locks) (simp_all add: s_def idle_world_def resting_def)
  then have "recovering_run recording_env 0 (if recovery_pass (Monitor 1) s then Suc 0 else 0) s t"
    using recovering_run.moves [OF recovering_run.stays [OF st(1)] _ st(2)] by (simp add: careful_step_def)
  then have r1: "recovering_run recording_env 0 0 s t" by (simp add: recovery_pass_def s_def)
  have "thread_step recording_env 0 (Monitor 1) t u"
    unfolding u_def by (rule thread_step.monitor_recovers [OF _ w]) (simp add: t_def)
  then have "recovering_run recording_env 0 (if recovery_pass (Monitor 1) t then Suc 0 else 0) s u"
    using recovering_run.moves [OF r1, of "Monitor 1" u] monitor_work_result(1) [OF w] st(2)
    by (simp add: careful_step_def u_def)
  then have run: "recovering_run recording_env 0 1 s u" by (simp add: recovery_pass_def t_def)
  have "w_mon s 1 = M_work (0, 0) ECAT_STATE_RECOVERING" "cur_mon u \<noteq> M_none"
    by (simp_all add: s_def u_def t_def cur_mon_def)
  with recovery_bounded [OF ok run] run show ?thesis by blast
qed

text \<open>
  C11: in runs with care, the I/O map is taken away and the master's memory is freed only by the control thread, in a
  start, at the end of a stop or in a configure, and only while no other thread of the master exists, so no cycle and
  no recovery pass can touch a freed process image.
\<close>

theorem buffers_outlive_threads:
  assumes "reach world_init (careful_step E k) s" and "careful_step E k a s t"
    and "i_iomap (w_inst s) \<noteq> None \<and> i_iomap (w_inst t) = None \<or> w_ctl s \<noteq> C_freed \<and> w_ctl t = C_freed"
  shows "(a = Start \<or> a = Control) \<and> unthreaded s"
proof -
  have ok: "threads_ok s" using assms(1) by (rule threads.reach_good)
  have st: "thread_step E k a s t" and care: "a = Start \<longrightarrow> thread_flags (w_inst s) = (False, False)"
    using assms(2) by (simp_all add: careful_step_def)
  have other: "w_ctl t = w_ctl s" if "a \<noteq> Start" "a \<noteq> Control"
    using st by cases (use that in simp_all)
  then have a: "a = Start \<or> a = Control" using iomap_kept [OF st] assms(3) by metis
  then show ?thesis
  proof
    assume "a = Start"
    then show ?thesis using st care unflagged_unthreaded [OF ok] by (auto elim: start_stepE)
  next
    assume c: "a = Control"
    then have ct: "thread_step E k Control s t" using st by simp
    then have "w_ctl s \<noteq> C_freed" by cases simp_all
    then have "w_ctl s = C_close \<or> w_ctl t = C_freed \<and> w_ctl s \<noteq> C_freed"
      using control_keeps_iomap [OF ct] assms(3) by metis
    then show ?thesis using freed_alone [OF ok] st c by blast
  qed
qed

theorem buffers_outlive_threads_witness:
  "\<exists>s t. careful_step recording_env 0 Control s t \<and> i_iomap (w_inst s) \<noteq> None \<and> i_iomap (w_inst t) = None \<and> unthreaded s"
proof -
  obtain s where s: "care_reach recording_env idle_world s" "w_ctl s = C_close" "i_iomap (w_inst s) \<noteq> None"
    using stopped_threads_reachable by blast
  obtain h x where stop: "close_stopped recording_env (w_host s) (w_inst s) = (h, x)" by force
  define t where "t = s\<lparr>w_inst := x, w_host := h, w_ctl := C_idle\<rparr>"
  have step: "careful_step recording_env 0 Control s t"
    using thread_step.stop_closes [OF s(2) stop] by (simp add: careful_step_def t_def)
  have "i_iomap (w_inst t) = None" using close_stopped_result(4) [OF stop] by (simp add: t_def)
  with buffers_outlive_threads [OF care_reach_init [OF idle_world_init s(1)] step] step s(3) show ?thesis by blast
qed

end
