(* ===== verification/Log.thy ===== *)
theory Log
  imports Dgram
begin

text \<open>
  The logger (\<^verbatim>\<open>src/log.c\<close>): the level filter, the ring of recent entries and its query, the JSON
  lines of the socket sink, and one pass of the sink thread. The formatted text and the clock are
  arguments of the log call, the outcome of each system call an argument of the step that makes it.
  Text on stderr is left out. Against the ring stands the full history of recorded entries.
\<close>

section \<open>Levels\<close>

datatype edog_log_level = EDOG_LOG_DEBUG | EDOG_LOG_INFO | EDOG_LOG_WARN | EDOG_LOG_ERROR

primrec level_num :: "edog_log_level \<Rightarrow> nat" where
  "level_num EDOG_LOG_DEBUG = 0"
| "level_num EDOG_LOG_INFO = 1"
| "level_num EDOG_LOG_WARN = 2"
| "level_num EDOG_LOG_ERROR = 3"

instantiation edog_log_level :: linorder
begin

definition less_eq_edog_log_level :: "edog_log_level \<Rightarrow> edog_log_level \<Rightarrow> bool" where
  "less_eq_edog_log_level a b \<longleftrightarrow> level_num a \<le> level_num b"

definition less_edog_log_level :: "edog_log_level \<Rightarrow> edog_log_level \<Rightarrow> bool" where
  "less_edog_log_level a b \<longleftrightarrow> level_num a < level_num b"

instance
proof
  fix a b :: edog_log_level
  show "a \<le> b \<Longrightarrow> b \<le> a \<Longrightarrow> a = b"
    by (cases a; cases b) (simp_all add: less_eq_edog_log_level_def)
qed (auto simp: less_eq_edog_log_level_def less_edog_log_level_def)

end

primrec edog_log_level_name :: "edog_log_level \<Rightarrow> string" where
  "edog_log_level_name EDOG_LOG_DEBUG = ''DEBUG''"
| "edog_log_level_name EDOG_LOG_INFO = ''INFO''"
| "edog_log_level_name EDOG_LOG_WARN = ''WARN''"
| "edog_log_level_name EDOG_LOG_ERROR = ''ERROR''"

definition level_names :: "(string \<times> edog_log_level) list" where
  "level_names = [(''debug'', EDOG_LOG_DEBUG), (''info'', EDOG_LOG_INFO), (''warn'', EDOG_LOG_WARN),
     (''warning'', EDOG_LOG_WARN), (''error'', EDOG_LOG_ERROR)]"

definition edog_log_parse_level :: "string option \<Rightarrow> edog_log_level option" where
  "edog_log_parse_level name =
     (case name of
        None \<Rightarrow> None
      | Some n \<Rightarrow> map_option snd (find (\<lambda>(m, _). map tolower n = map tolower m) level_names))"

section \<open>The ring\<close>

record edog_log_entry =
  le_id :: u64
  le_timestamp :: int
  le_level :: edog_log_level
  le_tag :: string
  le_message :: string

definition EDOG_LOG_RING_SIZE :: nat where "EDOG_LOG_RING_SIZE = 1000"

record log_state =
  g_min_level :: edog_log_level
  g_ring :: "edog_log_entry list"
  g_next_id :: u64

definition zero_entry :: edog_log_entry where
  "zero_entry = \<lparr>le_id = 0, le_timestamp = 0, le_level = EDOG_LOG_DEBUG, le_tag = [], le_message = []\<rparr>"

definition log_init :: log_state where
  "log_init = \<lparr>g_min_level = EDOG_LOG_INFO, g_ring = replicate EDOG_LOG_RING_SIZE zero_entry, g_next_id = 1\<rparr>"

definition edog_log_set_level :: "edog_log_level \<Rightarrow> log_state \<Rightarrow> log_state" where
  "edog_log_set_level level s = s\<lparr>g_min_level := level\<rparr>"

definition edog_logger_init :: "string option \<Rightarrow> string" where
  "edog_logger_init tag = c_copy 32 (case tag of Some t \<Rightarrow> t | None \<Rightarrow> ''ETHERDOG'')"

definition slot_of :: "u64 \<Rightarrow> nat" where
  "slot_of i = unat i mod EDOG_LOG_RING_SIZE"

definition log_entry :: "string option \<Rightarrow> edog_log_level \<Rightarrow> string \<Rightarrow> int \<Rightarrow> u64 \<Rightarrow> edog_log_entry" where
  "log_entry logger level text now i =
     \<lparr>le_id = i, le_timestamp = now, le_level = level,
      le_tag = c_copy 32 (case logger of Some (c # t) \<Rightarrow> c # t | _ \<Rightarrow> ''ETHERDOG''),
      le_message = c_copy 512 text\<rparr>"

definition vlog :: "string option \<Rightarrow> edog_log_level \<Rightarrow> string \<Rightarrow> int \<Rightarrow> log_state \<Rightarrow> log_state" where
  "vlog logger level text now s =
     (if level < g_min_level s then s
      else
        let i = g_next_id s
        in s\<lparr>g_next_id := i + 1, g_ring := (g_ring s)[slot_of i := log_entry logger level text now i]\<rparr>)"

definition oldest_id_locked :: "log_state \<Rightarrow> u64" where
  "oldest_id_locked s = (if g_next_id s > 1000 then g_next_id s - 1000 else 1)"

lemma unat_next: "(i::u64) < j \<Longrightarrow> unat (i + 1) = Suc (unat i)"
  using unsigned_less [of j, where ?'a = nat] by (simp add: word_less_nat_alt unat_word_ariths)

text \<open>The loop of the query: the id it looks at and how many entries still fit.\<close>

function query_from :: "log_state \<Rightarrow> edog_log_level \<Rightarrow> u64 \<Rightarrow> nat \<Rightarrow> edog_log_entry list" where
  "query_from s min_level i room =
     (if i < g_next_id s \<and> room > 0 then
        (let e = g_ring s ! slot_of i
         in if le_level e \<ge> min_level then e # query_from s min_level (i + 1) (room - 1)
            else query_from s min_level (i + 1) room)
      else [])"
  by pat_completeness auto

termination
  by (relation "measure (\<lambda>(s, _, i, _). unat (g_next_id s) - unat i)")
    (auto simp: unat_next word_less_nat_alt)

declare query_from.simps [simp del]

definition edog_log_query :: "u64 \<Rightarrow> edog_log_level \<Rightarrow> int \<Rightarrow> log_state \<Rightarrow> edog_log_entry list" where
  "edog_log_query min_id min_level max_n s =
     query_from s min_level (if min_id < oldest_id_locked s then oldest_id_locked s else min_id) (nat max_n)"

section \<open>The socket sink\<close>

definition quote_char :: char where "quote_char = CHR 0x22"
definition backslash_char :: char where "backslash_char = CHR 0x5C"

definition hex_lower :: "nat \<Rightarrow> char" where
  "hex_lower d = ''0123456789abcdef'' ! (d mod 16)"

definition escape_char :: "char \<Rightarrow> string" where
  "escape_char c =
     (if c = quote_char \<or> c = backslash_char then [backslash_char, c]
      else if code_of c < 0x20 then
        [backslash_char, CHR ''u'', CHR ''0'', CHR ''0'', hex_lower (code_of c div 16), hex_lower (code_of c)]
      else [c])"

text \<open>The loop stops when the buffer of \<open>cap\<close> bytes might not hold another escape; \<open>n\<close> is written.\<close>

fun escape_from :: "nat \<Rightarrow> nat \<Rightarrow> string \<Rightarrow> string" where
  "escape_from cap n [] = []"
| "escape_from cap n (c # s) =
     (if n + 7 < cap then escape_char c @ escape_from cap (n + length (escape_char c)) s else [])"

definition json_escape :: "nat \<Rightarrow> string \<Rightarrow> string" where
  "json_escape cap s = escape_from cap 0 s"

definition quoted :: "string \<Rightarrow> string" where
  "quoted s = quote_char # s @ [quote_char]"

definition sink_line :: "edog_log_entry \<Rightarrow> string" where
  "sink_line e =
     c_copy 1400
       (''{'' @ quoted ''timestamp'' @ '':'' @ quoted (fmt_dec (le_timestamp e)) @ '','' @
        quoted ''level'' @ '':'' @ quoted (edog_log_level_name (le_level e)) @ '','' @
        quoted ''source'' @ '':'' @ quoted ''EtherDOG'' @ '','' @
        quoted ''message'' @ '':'' @
        quoted (''[ETHERDOG]'' @
                (if le_tag e = ''ETHERDOG'' then [] else '' ['' @ le_tag e @ '']'') @ '' '' @
                json_escape 1100 (le_message e)) @
        ''}'' @ [CHR 0x0A])"

text \<open>What a call of \<^verbatim>\<open>send\<close> returned: a byte count, EINTR, or another error.\<close>

datatype send_result = Sent nat | Interrupted | Failed

text \<open>The results in order; the outcome and what went out, or \<open>None\<close> while a call blocks.\<close>

fun send_all :: "send_result list \<Rightarrow> string \<Rightarrow> (bool \<times> string) option" where
  "send_all rs [] = Some (True, [])"
| "send_all [] data = None"
| "send_all (Interrupted # rs) data = send_all rs data"
| "send_all (Failed # rs) data = Some (False, [])"
| "send_all (Sent n # rs) data =
     map_option (\<lambda>(ok, out). (ok, take n data @ out)) (send_all rs (drop n data))"

datatype sink_addr = Sink_unix string | Sink_tcp u32 u16

definition sink_connect :: "(sink_addr \<Rightarrow> int option) \<Rightarrow> string \<Rightarrow> int option" where
  "sink_connect conn spec =
     (if starts_with ''unix:'' spec then
        (let path = drop 5 spec in if length path \<ge> sun_path_size then None else conn (Sink_unix path))
      else
        case split_last CHR '':'' (drop 4 spec) of
          None \<Rightarrow> None
        | Some (host, port) \<Rightarrow>
            if length host \<ge> 64 then None
            else (case inet_pton host of
                    None \<Rightarrow> None
                  | Some a \<Rightarrow> conn (Sink_tcp a (of_int (atoi port)))))"

text \<open>
  The part of a pass under the mutex: the ring as first locked, and as found after waiting for the
  condition when nothing was left to send.
\<close>

definition sink_fetch :: "log_state \<Rightarrow> log_state \<Rightarrow> u64 \<Rightarrow> u64 \<times> edog_log_entry option" where
  "sink_fetch locked woken sent =
     (let sent = (if sent < oldest_id_locked locked then oldest_id_locked locked else sent);
          s = (if sent \<ge> g_next_id locked then woken else locked)
      in (sent, if sent < g_next_id s then Some (g_ring s ! slot_of sent) else None))"

definition sink_pass ::
  "(sink_addr \<Rightarrow> int option) \<Rightarrow> string \<Rightarrow> log_state \<Rightarrow> log_state \<Rightarrow> (string \<Rightarrow> bool) \<Rightarrow> int option \<times> u64 \<Rightarrow>
   int option \<times> u64" where
  "sink_pass conn spec locked woken delivered st =
     (case st of (fd, sent) \<Rightarrow>
        case (case fd of None \<Rightarrow> sink_connect conn spec | Some f \<Rightarrow> Some f) of
          None \<Rightarrow> (None, sent)
        | Some f \<Rightarrow>
            (case sink_fetch locked woken sent of
               (sent, None) \<Rightarrow> (Some f, sent)
             | (sent, Some e) \<Rightarrow>
                 if delivered (sink_line e) then (Some f, le_id e + 1) else (None, sent)))"

record sink_state =
  g_sink_spec :: string
  g_sink_started :: bool
  g_sink_run :: bool

definition edog_log_start_sink :: "bool \<Rightarrow> string option \<Rightarrow> sink_state \<Rightarrow> bool \<times> sink_state" where
  "edog_log_start_sink thread_ok spec k =
     (case spec of
        None \<Rightarrow> (False, k)
      | Some sp \<Rightarrow>
          if \<not> starts_with ''unix:'' sp \<and> \<not> starts_with ''tcp:'' sp \<or> length sp \<ge> 160 then (False, k)
          else if g_sink_started k then (True, k)
          else
            let k = k\<lparr>g_sink_spec := sp, g_sink_run := True\<rparr>
            in if \<not> thread_ok then (False, k\<lparr>g_sink_run := False\<rparr>)
               else (True, k\<lparr>g_sink_started := True\<rparr>))"

definition edog_log_stop_sink :: "sink_state \<Rightarrow> sink_state" where
  "edog_log_stop_sink k =
     (if \<not> g_sink_started k then k else k\<lparr>g_sink_run := False, g_sink_started := False\<rparr>)"

section \<open>The history behind the ring\<close>

datatype log_op = Set_level edog_log_level | Log "string option" edog_log_level string int

primrec log_step :: "log_op \<Rightarrow> log_state \<Rightarrow> log_state" where
  "log_step (Set_level l) s = edog_log_set_level l s"
| "log_step (Log logger level text now) s = vlog logger level text now s"

text \<open>The abstract log keeps everything it recorded.\<close>

record log_spec =
  sp_level :: edog_log_level
  sp_hist :: "edog_log_entry list"

primrec spec_step :: "log_op \<Rightarrow> log_spec \<Rightarrow> log_spec" where
  "spec_step (Set_level l) a = a\<lparr>sp_level := l\<rparr>"
| "spec_step (Log logger level text now) a =
     (if level < sp_level a then a
      else a\<lparr>sp_hist := sp_hist a @ [log_entry logger level text now (of_nat (Suc (length (sp_hist a))))]\<rparr>)"

definition spec_init :: log_spec where
  "spec_init = \<lparr>sp_level = EDOG_LOG_INFO, sp_hist = []\<rparr>"

definition retained :: "edog_log_entry list \<Rightarrow> edog_log_entry list" where
  "retained h = drop (length h - EDOG_LOG_RING_SIZE) h"

definition log_rel :: "log_state \<Rightarrow> log_spec \<Rightarrow> bool" where
  "log_rel s a \<longleftrightarrow>
     g_min_level s = sp_level a \<and> unat (g_next_id s) = Suc (length (sp_hist a)) \<and>
     length (g_ring s) = EDOG_LOG_RING_SIZE \<and>
     (\<forall>i<length (sp_hist a). le_id (sp_hist a ! i) = of_nat (Suc i) \<and>
        (length (sp_hist a) \<le> i + EDOG_LOG_RING_SIZE \<longrightarrow>
           g_ring s ! (Suc i mod EDOG_LOG_RING_SIZE) = sp_hist a ! i))"

lemma log_rel_init: "log_rel log_init spec_init"
  by (simp add: log_rel_def log_init_def spec_init_def)

lemma mod_window:
  fixes i n N :: nat
  assumes "i < n" and "n < i + N"
  shows "i mod N \<noteq> n mod N"
proof
  assume "i mod N = n mod N"
  then have "N dvd n - i" using assms(1) by (metis mod_eq_dvd_iff_nat less_imp_le)
  then show False using assms by (auto dest: dvd_imp_le)
qed

lemma log_rel_step:
  assumes "log_rel s a" and "Suc (Suc (length (sp_hist a))) < 2 ^ 64"
  shows "log_rel (log_step op s) (spec_step op a)"
proof (cases op)
  case (Set_level l)
  then show ?thesis using assms(1) by (simp add: log_rel_def edog_log_set_level_def)
next
  case (Log logger level msg now)
  let ?n = "length (sp_hist a)"
  have next_id: "unat (g_next_id s) = Suc ?n" using assms(1) by (simp add: log_rel_def)
  then have w: "g_next_id s = 1 + of_nat ?n" by (metis of_nat_unat ucast_id of_nat_Suc)
  have suc: "unat (g_next_id s + 1) = Suc (Suc ?n)"
    using next_id assms(2) by (simp add: unat_word_ariths)
  have slot: "slot_of (g_next_id s) = Suc ?n mod EDOG_LOG_RING_SIZE" by (simp add: slot_of_def next_id)
  have N: "0 < EDOG_LOG_RING_SIZE" by (simp add: EDOG_LOG_RING_SIZE_def)
  have other: "Suc i mod EDOG_LOG_RING_SIZE \<noteq> Suc ?n mod EDOG_LOG_RING_SIZE"
    if "i < ?n" "Suc ?n \<le> i + EDOG_LOG_RING_SIZE" for i
    using that by (intro mod_window) auto
  show ?thesis
    using assms(1) Log next_id suc other other [symmetric] w N
    by (auto simp: log_rel_def vlog_def Let_def slot slot [unfolded w] log_entry_def nth_append nth_list_update less_Suc_eq)
qed

lemma log_run:
  assumes "length ops < 2 ^ 64 - 2"
  shows "log_rel (fold log_step ops log_init) (fold spec_step ops spec_init) \<and>
    length (sp_hist (fold spec_step ops spec_init)) \<le> length ops"
  using assms
proof (induction ops rule: rev_induct)
  case (snoc op ops)
  let ?a = "fold spec_step ops spec_init"
  have ih: "log_rel (fold log_step ops log_init) ?a" "length (sp_hist ?a) \<le> length ops" using snoc by simp_all
  have "log_rel (log_step op (fold log_step ops log_init)) (spec_step op ?a)"
    using ih snoc.prems by (intro log_rel_step) simp_all
  moreover have "length (sp_hist (spec_step op ?a)) \<le> Suc (length (sp_hist ?a))" by (cases op) simp_all
  ultimately show ?case using ih by simp
qed (simp add: log_rel_init, simp add: spec_init_def)

lemma query_from_spec:
  assumes "log_rel s a" and "0 < unat i" and "length (sp_hist a) < unat i + EDOG_LOG_RING_SIZE"
  shows "query_from s l i room = take room (filter (\<lambda>e. l \<le> le_level e) (drop (unat i - 1) (sp_hist a)))"
  using assms
proof (induction s l i room rule: query_from.induct)
  case (1 s l i room)
  let ?h = "sp_hist a"
  have nx: "unat (g_next_id s) = Suc (length ?h)" using 1(3) by (simp add: log_rel_def)
  show ?case
  proof (cases "i < g_next_id s \<and> 0 < room")
    case False
    then have "length ?h \<le> unat i - 1 \<or> room = 0" using nx by (auto simp: word_less_nat_alt)
    with False show ?thesis by (subst query_from.simps) auto
  next
    case True
    then have lt: "unat i - 1 < length ?h" using nx 1(4) by (auto simp: word_less_nat_alt)
    let ?e = "?h ! (unat i - 1)"
    obtain j where j: "unat i = Suc j" using 1(4) by (cases "unat i") simp_all
    have e: "g_ring s ! slot_of i = ?e" using 1(3,5) lt j by (simp add: log_rel_def slot_of_def)
    have un: "unat (i + 1) = Suc (unat i)" using True by (auto intro: unat_next)
    have d: "drop (unat i - 1) ?h = ?e # drop (unat (i + 1) - 1) ?h"
      using lt j un by (simp add: Cons_nth_drop_Suc)
    have "length ?h < unat (i + 1) + EDOG_LOG_RING_SIZE" "0 < unat (i + 1)" using 1(5) un by simp_all
    then have yes: "l \<le> le_level ?e \<Longrightarrow> query_from s l (i + 1) (room - 1) =
          take (room - 1) (filter (\<lambda>e. l \<le> le_level e) (drop (unat (i + 1) - 1) ?h))"
      and no: "\<not> l \<le> le_level ?e \<Longrightarrow> query_from s l (i + 1) room =
          take room (filter (\<lambda>e. l \<le> le_level e) (drop (unat (i + 1) - 1) ?h))"
      using 1(1) [OF True refl] 1(2) [OF True refl] 1(3) e by simp_all
    obtain r where r: "room = Suc r" using True by (cases room) simp_all
    show ?thesis unfolding d using True e yes no r by (subst query_from.simps) (simp add: Let_def)
  qed
qed

lemma filter_ids:
  assumes "\<forall>i<length xs. unat (le_id (xs ! i)) = i + c"
  shows "filter (\<lambda>e. m \<le> le_id e \<and> P e) xs = filter P (drop (unat m - c) xs)"
  using assms
proof (induction xs arbitrary: c)
  case (Cons x xs)
  have x: "unat (le_id x) = c" using Cons.prems by force
  have xs: "\<forall>i<length xs. unat (le_id (xs ! i)) = i + Suc c" using Cons.prems by force
  note ih = Cons.IH [OF xs]
  show ?case
  proof (cases "unat m \<le> c")
    case True
    then show ?thesis using ih x by (simp add: word_le_nat_alt)
  next
    case False
    then have "unat m - c = Suc (unat m - Suc c)" by simp
    then show ?thesis using ih x False by (simp add: word_le_nat_alt)
  qed
qed simp

section \<open>Escaped text\<close>

text \<open>Reading the inside of a JSON string of the form the sink writes.\<close>

definition hex_value :: "char \<Rightarrow> nat option" where
  "hex_value c = (case digit_of c of Some d \<Rightarrow> if d < 16 then Some d else None | None \<Rightarrow> None)"

fun json_unescape :: "string \<Rightarrow> string option" where
  "json_unescape [] = Some []"
| "json_unescape (c # s) =
     (if c = backslash_char then
        (case s of
           d # r \<Rightarrow>
             if d = quote_char \<or> d = backslash_char then map_option ((#) d) (json_unescape r)
             else if d = CHR ''u'' then
               (case r of
                  a # b # x # y # r' \<Rightarrow>
                    (case (a = CHR ''0'' \<and> b = CHR ''0'', hex_value x, hex_value y) of
                       (True, Some h, Some l) \<Rightarrow> map_option ((#) (char_of (16 * h + l))) (json_unescape r')
                     | _ \<Rightarrow> None)
                | _ \<Rightarrow> None)
             else None
         | [] \<Rightarrow> None)
      else if c = quote_char \<or> code_of c < 0x20 then None
      else map_option ((#) c) (json_unescape s))"

lemma hex_lower_value: "hex_value (hex_lower d) = Some (d mod 16)"
proof -
  have "\<forall>i\<in>{..<16}. hex_value (''0123456789abcdef'' ! i) = Some i"
    by (simp add: lessThan_nat_numeral lessThan_Suc hex_value_def digit_of_def isdigit_def)
  then show ?thesis by (simp add: hex_lower_def)
qed

lemma unescape_escape: "json_unescape (escape_char c @ s) = map_option ((#) c) (json_unescape s)"
proof (cases "c = quote_char \<or> c = backslash_char")
  case True
  then show ?thesis by (auto simp: escape_char_def)
next
  case False
  have "(16 * (code_of c div 16) + code_of c mod 16 :: nat) = code_of c" by simp
  then have "code_of c < 32 \<Longrightarrow> char_of (16 * (code_of c div 16 mod 16) + code_of c mod 16 :: nat) = c"
    by simp
  then show ?thesis using False
    by (auto simp: escape_char_def hex_lower_value quote_char_def backslash_char_def)
qed

lemma escape_char_length: "1 \<le> length (escape_char c)" "length (escape_char c) \<le> 6"
  by (simp_all add: escape_char_def)

lemma escape_from_spec:
  assumes "n < cap"
  shows "n + length (escape_from cap n s) < cap"
    and "\<exists>k\<le>length s. json_unescape (escape_from cap n s) = Some (take k s) \<and>
      (n + 6 * length s + 1 < cap \<longrightarrow> k = length s)"
  using assms
proof (induction cap n s rule: escape_from.induct)
  case (2 cap n c s)
  {
    case 1
    then show ?case using 2(1) escape_char_length [of c] by auto
  next
    case 2
    show ?case
    proof (cases "n + 7 < cap")
      case False
      then show ?thesis by (intro exI [of _ 0]) auto
    next
      case True
      then have lt: "n + length (escape_char c) < cap" using escape_char_length [of c] by simp
      obtain k where "k \<le> length s" "json_unescape (escape_from cap (n + length (escape_char c)) s) = Some (take k s)"
        "n + length (escape_char c) + 6 * length s + 1 < cap \<longrightarrow> k = length s"
        using "2.IH"(2) [OF True lt] by auto
      then show ?thesis
        using True escape_char_length [of c] by (intro exI [of _ "Suc k"]) (auto simp: unescape_escape)
    qed
  }
qed auto

definition printable :: "char \<Rightarrow> bool" where
  "printable c \<longleftrightarrow> 0x20 \<le> code_of c"

lemma escape_printable: "list_all printable (escape_from cap n s)"
proof -
  have "\<forall>i\<in>{..<16}. printable (''0123456789abcdef'' ! i)"
    by (simp add: lessThan_nat_numeral lessThan_Suc printable_def)
  then have "printable (hex_lower d)" for d by (simp add: hex_lower_def)
  then have c: "list_all printable (escape_char c)" for c
    by (simp add: escape_char_def printable_def quote_char_def backslash_char_def)
  show ?thesis by (induction cap n s rule: escape_from.induct) (simp_all add: c)
qed

lemma fmt_dec_bound:
  assumes "- (2 ^ 63) \<le> i" and "i < 2 ^ 63"
  shows "length (fmt_dec i) \<le> 20"
proof -
  have "nat \<bar>i\<bar> < 10 ^ Suc 18" using assms by simp
  from dec_chars_length [OF _ this] show ?thesis by (auto simp: fmt_dec_def abs_if split: if_splits)
qed

lemma fmt_dec_printable: "list_all printable (fmt_dec i)"
proof -
  have "list_all printable (dec_chars n)" for n
    using dec_chars_digits(1) [of n] by (auto simp: list_all_iff isdigit_def printable_def)
  then show ?thesis by (simp add: fmt_dec_def printable_def)
qed

text \<open>What precedes the escaped message in a line of the sink.\<close>

definition sink_prefix :: "edog_log_entry \<Rightarrow> string" where
  "sink_prefix e =
     ''{'' @ quoted ''timestamp'' @ '':'' @ quoted (fmt_dec (le_timestamp e)) @ '','' @
     quoted ''level'' @ '':'' @ quoted (edog_log_level_name (le_level e)) @ '','' @
     quoted ''source'' @ '':'' @ quoted ''EtherDOG'' @ '','' @ quoted ''message'' @ '':'' @ [quote_char] @
     ''[ETHERDOG]'' @ (if le_tag e = ''ETHERDOG'' then [] else '' ['' @ le_tag e @ '']'') @ '' ''"

lemma sink_prefix_props:
  assumes "length (le_tag e) < 32" and "list_all printable (le_tag e)"
    and "- (2 ^ 63) \<le> le_timestamp e" and "le_timestamp e < 2 ^ 63"
  shows "length (sink_prefix e) \<le> 200" "list_all printable (sink_prefix e)"
proof -
  have "length (edog_log_level_name (le_level e)) \<le> 5" "list_all printable (edog_log_level_name (le_level e))"
    by (cases "le_level e"; simp add: printable_def)+
  then show "length (sink_prefix e) \<le> 200" "list_all printable (sink_prefix e)"
    using assms fmt_dec_bound [OF assms(3,4)] fmt_dec_printable [of "le_timestamp e"]
    by (simp_all add: sink_prefix_def quoted_def printable_def quote_char_def)
qed

section \<open>The sink's cursor\<close>

lemma slot_entry:
  assumes "log_rel s a" and "0 < unat i" and "unat i \<le> length (sp_hist a)"
  shows "\<exists>j. unat i \<le> j \<and> j \<le> length (sp_hist a) \<and> length (sp_hist a) < j + EDOG_LOG_RING_SIZE \<and>
    g_ring s ! slot_of i = sp_hist a ! (j - 1) \<and>
    (length (sp_hist a) < unat i + EDOG_LOG_RING_SIZE \<longrightarrow> j = unat i)"
proof -
  let ?n = "length (sp_hist a)" and ?N = EDOG_LOG_RING_SIZE
  define q where "q = (?n - unat i) div ?N"
  define r where "r = (?n - unat i) mod ?N"
  define j where "j = unat i + ?N * q"
  have N: "0 < ?N" by (simp add: EDOG_LOG_RING_SIZE_def)
  have "?N * q + r = ?n - unat i" "r < ?N" using N by (simp_all add: q_def r_def)
  then have le: "unat i \<le> j" "j \<le> ?n" "?n < j + ?N" using assms(3) by (simp_all add: j_def)
  then obtain m where m: "j = Suc m" "m < ?n" using assms(2) by (cases j) auto
  have "Suc m mod ?N = unat i mod ?N" using m(1) by (simp add: j_def flip: m(1))
  then have "g_ring s ! slot_of i = sp_hist a ! m"
    using assms(1) m le(3) by (auto simp: log_rel_def slot_of_def simp flip: \<open>Suc m mod ?N = unat i mod ?N\<close>)
  moreover have "?n < unat i + ?N \<longrightarrow> j = unat i" using assms(3) by (auto simp: j_def q_def)
  ultimately show ?thesis using le m(1) by (intro exI [of _ j]) simp
qed

lemma slot_entry_id:
  assumes "log_rel s a" and "0 < i" and "i < g_next_id s"
  shows "g_ring s ! slot_of i \<in> set (sp_hist a) \<and> i \<le> le_id (g_ring s ! slot_of i)"
proof -
  have n: "unat (g_next_id s) = Suc (length (sp_hist a))" using assms(1) by (simp add: log_rel_def)
  then have "0 < unat i" "unat i \<le> length (sp_hist a)" using assms(2,3) by (auto simp: word_less_nat_alt)
  from slot_entry [OF assms(1) this] obtain j where
    j: "unat i \<le> j" "j \<le> length (sp_hist a)" "g_ring s ! slot_of i = sp_hist a ! (j - 1)" by auto
  then obtain m where m: "j = Suc m" using \<open>0 < unat i\<close> by (cases j) auto
  have "j < 2 ^ 64" using j(2) n unsigned_less [of "g_next_id s", where ?'a = nat] by simp
  moreover have "le_id (sp_hist a ! m) = of_nat j" using assms(1) j(2) m by (auto simp: log_rel_def)
  ultimately have "unat (le_id (sp_hist a ! m)) = j" by (simp add: unsigned_of_nat take_bit_nat_eq_self)
  then show ?thesis using j m by (simp add: word_le_nat_alt)
qed

text \<open>The sink never goes back: what it fetches was recorded and is at or after its cursor.\<close>

lemma sink_fetch_forward:
  assumes "log_rel locked a" and "log_rel woken a'" and "0 < sent"
    and "sink_fetch locked woken sent = (c, Some e)"
  shows "sent \<le> c \<and> c \<le> le_id e \<and> e \<in> set (sp_hist a) \<union> set (sp_hist a')"
proof -
  have c: "sent \<le> c" "0 < c" and e: "c < g_next_id locked \<and> e = g_ring locked ! slot_of c \<or>
      c < g_next_id woken \<and> e = g_ring woken ! slot_of c"
    using assms(3,4) by (auto simp: sink_fetch_def Let_def split: if_splits)
  show ?thesis
    using c e slot_entry_id [OF assms(1) c(2)] slot_entry_id [OF assms(2) c(2)] by auto
qed

section \<open>Properties\<close>

text \<open>
  C34: after any sequence of log calls and level changes, a query returns, oldest first and at most
  \<open>max\<close> of them, exactly those of the last 1000 recorded entries whose id is at least \<open>min_id\<close>
  and whose level is at least \<open>min_level\<close>; ids count the recorded entries from 1.
\<close>

theorem log_query_refines:
  assumes "length ops < 2 ^ 64 - 2"
  shows "edog_log_query min_id min_level max_n (fold log_step ops log_init) =
    take (nat max_n) (filter (\<lambda>e. min_id \<le> le_id e \<and> min_level \<le> le_level e)
      (retained (sp_hist (fold spec_step ops spec_init))))"
proof -
  define s where "s = fold log_step ops log_init"
  define a where "a = fold spec_step ops spec_init"
  let ?h = "sp_hist a" and ?k = "length (sp_hist a) - EDOG_LOG_RING_SIZE"
  have rel: "log_rel s a" and len: "length ?h < 2 ^ 64 - 2"
    using log_run [OF assms] assms by (simp_all add: s_def a_def)
  then have nx: "unat (g_next_id s) = Suc (length ?h)" by (simp add: log_rel_def)
  have old: "unat (oldest_id_locked s) = Suc ?k"
  proof (cases "1000 < g_next_id s")
    case True
    then have "unat (g_next_id s - 1000) = unat (g_next_id s) - 1000" by (simp add: unat_sub)
    with True nx show ?thesis by (simp add: oldest_id_locked_def word_less_nat_alt EDOG_LOG_RING_SIZE_def)
  next
    case False
    with nx show ?thesis by (simp add: oldest_id_locked_def word_less_nat_alt EDOG_LOG_RING_SIZE_def)
  qed
  let ?from = "if min_id < oldest_id_locked s then oldest_id_locked s else min_id"
  have f: "unat ?from = max (unat min_id) (Suc ?k)" using old by (simp add: word_less_nat_alt)
  have "query_from s min_level ?from (nat max_n) =
      take (nat max_n) (filter (\<lambda>e. min_level \<le> le_level e) (drop (unat ?from - 1) ?h))"
    using f by (intro query_from_spec [OF rel]) (auto simp: EDOG_LOG_RING_SIZE_def)
  moreover have "drop (unat ?from - 1) ?h = drop (unat min_id - Suc ?k) (retained ?h)"
    by (simp add: f retained_def max_def)
  moreover have "\<forall>i<length (retained ?h). unat (le_id (retained ?h ! i)) = i + Suc ?k"
  proof (intro allI impI)
    fix i assume i: "i < length (retained ?h)"
    then have "le_id (retained ?h ! i) = of_nat (Suc (i + ?k))" and "Suc (i + ?k) < 2 ^ 64"
      using rel len by (auto simp: retained_def log_rel_def add.commute)
    then show "unat (le_id (retained ?h ! i)) = i + Suc ?k" by (simp add: unsigned_of_nat take_bit_nat_eq_self del: of_nat_Suc)
  qed
  ultimately show ?thesis
    using filter_ids [of "retained ?h" "Suc ?k" min_id "\<lambda>e. min_level \<le> le_level e"]
    by (simp add: edog_log_query_def flip: s_def a_def)
qed

theorem log_query_refines_witness:
  "map le_message (edog_log_query 0 EDOG_LOG_WARN 5
     (fold log_step [Log None EDOG_LOG_INFO ''up'' 1, Log None EDOG_LOG_DEBUG ''x'' 2, Log None EDOG_LOG_ERROR ''down'' 3]
        log_init)) = [''down'']"
  by (subst log_query_refines)
    (simp_all add: retained_def EDOG_LOG_RING_SIZE_def spec_init_def log_entry_def less_edog_log_level_def
      less_eq_edog_log_level_def c_copy_def)

text \<open>
  The line the sink sends for an entry is never truncated, holds exactly one newline, its last
  character, and carries a JSON string that reads back as the message, or as a prefix of it when
  the message has more than 183 characters.
\<close>

theorem sink_line_framed:
  assumes "length (le_tag e) < 32" and "list_all printable (le_tag e)"
    and "- (2 ^ 63) \<le> le_timestamp e" and "le_timestamp e < 2 ^ 63"
  shows "sink_line e = sink_prefix e @ json_escape 1100 (le_message e) @ [quote_char, CHR ''}'', CHR 0x0A] \<and>
    CHR 0x0A \<notin> set (sink_prefix e @ json_escape 1100 (le_message e) @ [quote_char, CHR ''}'']) \<and>
    (\<exists>k\<le>length (le_message e). json_unescape (json_escape 1100 (le_message e)) = Some (take k (le_message e)) \<and>
       (length (le_message e) \<le> 183 \<longrightarrow> k = length (le_message e)))"
proof (intro conjI)
  note p = sink_prefix_props [OF assms]
  have "length (json_escape 1100 (le_message e)) < 1100"
    using escape_from_spec(1) [of 0 1100] by (simp add: json_escape_def)
  then show "sink_line e = sink_prefix e @ json_escape 1100 (le_message e) @ [quote_char, CHR ''}'', CHR 0x0A]"
    using p(1) by (simp add: sink_line_def c_copy_def sink_prefix_def quoted_def)
  have "list_all printable (json_escape 1100 (le_message e))" by (simp add: json_escape_def escape_printable)
  then show "CHR 0x0A \<notin> set (sink_prefix e @ json_escape 1100 (le_message e) @ [quote_char, CHR ''}''])"
    using p(2) by (auto simp: list_all_iff printable_def quote_char_def)
  show "\<exists>k\<le>length (le_message e). json_unescape (json_escape 1100 (le_message e)) = Some (take k (le_message e)) \<and>
      (length (le_message e) \<le> 183 \<longrightarrow> k = length (le_message e))"
    using escape_from_spec(2) [of 0 1100 "le_message e"] unfolding json_escape_def by fastforce
qed

theorem sink_line_framed_witness:
  "CHR 0x0A \<notin> set (sink_prefix \<lparr>le_id = 1, le_timestamp = 7, le_level = EDOG_LOG_INFO, le_tag = ''BUS'',
       le_message = [CHR 0x0A]\<rparr> @ json_escape 1100 [CHR 0x0A])"
  using sink_line_framed [of "\<lparr>le_id = 1, le_timestamp = 7, le_level = EDOG_LOG_INFO, le_tag = ''BUS'',
       le_message = [CHR 0x0A]\<rparr>"]
  by (simp add: printable_def)

end
