(* ===== verification/Replies.thy ===== *)
theory Replies
  imports Bus Log
begin

text \<open>
  The JSON replies of \<^verbatim>\<open>src/bus.c\<close>: the diagnostics view, the status, diagnostics and layout of a
  master. An object is the list of its members in the order they are added. \<open>mem\<close> says whether the
  copy of the slaves snapshot could be allocated.
\<close>

section \<open>Values\<close>

definition j_int :: "int \<Rightarrow> json" where "j_int i = J_num (double_of_int i)"
definition j_u64 :: "u64 \<Rightarrow> json" where "j_u64 w = j_int (uint w)"

definition error_text :: "string \<Rightarrow> string" where
  "error_text msg = ''{\"error\":\"'' @ msg @ ''\"}''"

definition status_error_text :: "string \<Rightarrow> string" where
  "status_error_text msg = ''{\"status\":\"error\",\"message\":\"'' @ msg @ ''\"}''"

definition hex_byte :: "u8 \<Rightarrow> string" where
  "hex_byte b = [hex_lower (unat b div 16), hex_lower (unat b)]"

definition hex16 :: "u64 \<Rightarrow> string" where
  "hex16 w = map (\<lambda>i. hex_lower (unat w div 16 ^ i)) (rev [0..<16])"

definition ident_text :: "u32 \<Rightarrow> string" where
  "ident_text w = ''0x'' @ fmt_hex 8 (unat w)"

section \<open>Diagnostics view\<close>

record ecat_diag_view =
  v_cycle_count :: u64
  v_wkc_error_count :: u64
  v_noframe_count :: u64
  v_avg_cycle_us :: u64
  v_min_cycle_us :: u64
  v_max_cycle_us :: u64
  v_min_exchange_us :: u64
  v_max_exchange_us :: u64
  v_avg_period_us :: int
  v_max_period_us :: int
  v_min_period_us :: int
  v_avg_latency_us :: int
  v_max_latency_us :: int
  v_min_latency_us :: int

definition load_diag_view :: "'d ecat_master_instance \<Rightarrow> ecat_diag_view" where
  "load_diag_view inst =
     (let g = i_diag inst;
          window = (if i_avg_window inst > 0 then i_avg_window inst else 1);
          min_us = (if min_bus_cycle_ns g = - 1 then 0 else min_bus_cycle_ns g div 1000);
          max_us = max_bus_cycle_ns g div 1000
      in \<lparr>v_cycle_count = cycle_count g, v_wkc_error_count = wkc_error_count g,
          v_noframe_count = noframe_count g,
          v_avg_cycle_us = of_int ((avg_bus_cycle_ns_sum g sdiv window) sdiv 1000),
          v_min_cycle_us = min_us, v_max_cycle_us = max_us,
          v_min_exchange_us = min_us, v_max_exchange_us = max_us,
          v_avg_period_us = (avg_period_ns_sum g sdiv window) sdiv 1000,
          v_max_period_us = uint (max_period_ns g div 1000),
          v_min_period_us = (if min_period_ns g = - 1 then 0 else uint (min_period_ns g div 1000)),
          v_avg_latency_us = (avg_latency_ns_sum g sdiv window) sdiv 1000,
          v_max_latency_us = max_latency_ns g sdiv 1000,
          v_min_latency_us = (if min_latency_ns g = 2 ^ 63 - 1 then 0 else min_latency_ns g sdiv 1000)\<rparr>)"

section \<open>Slaves\<close>

definition slave_json :: "bool \<Rightarrow> ecat_slave_status \<Rightarrow> json" where
  "slave_json diagnostics ss =
     J_obj ([(''position'', j_int (ss_position ss)), (''name'', J_str (ss_name ss)),
             (''state'', J_str (al_state_to_string (ss_al_state ss)))] @
            (if diagnostics then [(''al_state_raw'', j_int (uint (ss_al_state ss)))] else []) @
            [(''al_status_code'', j_int (uint (ss_al_status_code ss))),
             (''error_count'', j_int (uint (ss_error_count ss))),
             (''has_error'', J_bool (ss_al_state ss AND EC_STATE_ERROR \<noteq> 0 \<or> ss_al_state ss \<noteq> EC_STATE_OPERATIONAL))])"

definition add_slaves_json :: "(nat \<Rightarrow> bool) \<Rightarrow> bool \<Rightarrow> 'd ecat_master_instance \<Rightarrow> json \<times> nat" where
  "add_slaves_json mem diagnostics inst =
     (case i_slaves_snapshot inst of
        None \<Rightarrow> (J_arr [], 0)
      | Some snap \<Rightarrow>
          if i_slaves_snapshot_count inst = 0 then (J_arr [], 0)
          else
            let n = min (i_slaves_snapshot_count inst) (i_slaves_snapshot_capacity inst)
            in if \<not> mem n then (J_arr [], 0)
               else (J_arr (map (slave_json diagnostics) (take n snap)), n))"

section \<open>Status and diagnostics of a master\<close>

definition view_members :: "ecat_diag_view \<Rightarrow> (string \<times> json) list" where
  "view_members v =
     [(''cycle_count'', j_u64 (v_cycle_count v)), (''wkc_error_count'', j_u64 (v_wkc_error_count v)),
      (''noframe_count'', j_u64 (v_noframe_count v)), (''avg_cycle_us'', j_u64 (v_avg_cycle_us v)),
      (''min_cycle_us'', j_u64 (v_min_cycle_us v)), (''max_cycle_us'', j_u64 (v_max_cycle_us v)),
      (''min_exchange_us'', j_u64 (v_min_exchange_us v)), (''max_exchange_us'', j_u64 (v_max_exchange_us v)),
      (''avg_period_us'', j_int (v_avg_period_us v)), (''max_period_us'', j_int (v_max_period_us v)),
      (''min_period_us'', j_int (v_min_period_us v)), (''avg_latency_us'', j_int (v_avg_latency_us v)),
      (''max_latency_us'', j_int (v_max_latency_us v)), (''min_latency_us'', j_int (v_min_latency_us v))]"

definition build_master_status_json :: "(nat \<Rightarrow> bool) \<Rightarrow> 'd ecat_master_instance \<Rightarrow> json" where
  "build_master_status_json mem inst =
     (case add_slaves_json mem False inst of
        (slaves, slave_count) \<Rightarrow>
          J_obj
            [(''name'', J_str (i_name inst)), (''state'', J_str (ecat_state_to_string (i_bus_state inst))),
             (''expected_wkc'', j_int (i_expected_wkc inst)), (''slaves'', slaves),
             (''slave_count'', j_int (int slave_count)),
             (''metrics'',
              J_obj (view_members (load_diag_view inst) @
                     [(''consecutive_wkc_errors'', j_int (i_consecutive_wkc_errors inst)),
                      (''recovery_attempts'', j_int (i_recovery_attempts inst)),
                      (''overruns'', j_u64 (i_overruns inst))]))])"

definition master_has_layout :: "'d ecat_master_instance \<Rightarrow> bool" where
  "master_has_layout inst \<longleftrightarrow>
     i_bus_state inst = ECAT_STATE_OPERATIONAL \<or> i_bus_state inst = ECAT_STATE_RECOVERING"

text \<open>At most 64 bytes of a region of the process image, in hexadecimal.\<close>

definition region_hex :: "'d ecat_master_instance \<Rightarrow> nat option \<Rightarrow> u32 \<Rightarrow> string" where
  "region_hex inst region len =
     (let n = min (unat len) 64
      in concat (map (\<lambda>b. hex_byte (case region of
                                      None \<Rightarrow> 0
                                    | Some off \<Rightarrow> (case i_iomap inst of Some m \<Rightarrow> m ! (off + b) | None \<Rightarrow> 0)))
                     [0..<n]))"

definition image_members :: "'d ecat_master_instance \<Rightarrow> (string \<times> json) list" where
  "image_members inst =
     (if \<not> master_has_layout inst then []
      else [(''process_image'',
             J_obj [(''outputs'', J_str (region_hex inst (ecat_layout_output_region inst) (output_bytes (i_layout inst)))),
                    (''inputs'', J_str (region_hex inst (ecat_layout_input_region inst) (input_bytes (i_layout inst))))])])"

definition build_master_diagnostics_json :: "(nat \<Rightarrow> bool) \<Rightarrow> 'd ecat_master_instance \<Rightarrow> json" where
  "build_master_diagnostics_json mem inst =
     (case add_slaves_json mem True inst of
        (slaves, slave_count) \<Rightarrow>
          J_obj
            ([(''name'', J_str (i_name inst)), (''state'', J_str (ecat_state_to_string (i_bus_state inst))),
              (''expected_wkc'', j_int (i_expected_wkc inst)), (''slaves'', slaves),
              (''slave_count'', j_int (int slave_count)),
              (''timing'',
               J_obj (view_members (load_diag_view inst) @
                      [(''configured_cycle_us'', j_int (cycle_time_us (c_master (i_config inst)))),
                       (''receive_timeout_us'', j_int (i_receive_timeout_us inst)),
                       (''overruns'', j_u64 (i_overruns inst))])),
              (''recovery'',
               J_obj [(''consecutive_wkc_errors'', j_int (i_consecutive_wkc_errors inst)),
                      (''recovery_attempts'', j_int (i_recovery_attempts inst)),
                      (''max_recovery_attempts'', j_int ECAT_MAX_RECOVERY_ATTEMPTS),
                      (''wkc_error_threshold'', j_int ECAT_WKC_ERROR_THRESHOLD),
                      (''writestate_failures'', j_int (uint (i_recovery_writestate_failures inst)))]),
              (''al_poll'',
               J_obj [(''status'', J_str (''0x'' @ fmt_hex 4 (unat (i_al_status inst)))),
                      (''responding'', j_int (i_al_wkc inst)), (''replies'', j_u64 (i_al_replies inst)),
                      (''misses'', j_u64 (i_al_misses inst)), (''faults'', j_u64 (i_al_faults inst))]),
              (''data'',
               J_obj [(''open'', J_bool (d_open (i_data inst))), (''frames_rx'', j_u64 (d_frames_rx (i_data inst))),
                      (''frames_tx'', j_u64 (d_frames_tx (i_data inst))),
                      (''frames_dropped'', j_u64 (d_frames_dropped (i_data inst))),
                      (''watchdog_trips'', j_u64 (d_watchdog_trips (i_data inst)))])] @
             image_members inst @
             [(''master_config'',
               J_obj [(''interface'', J_str (interface (c_master (i_config inst)))),
                      (''cycle_time_us'', j_int (cycle_time_us (c_master (i_config inst)))),
                      (''watchdog_timeout_cycles'', j_int (watchdog_timeout_cycles (c_master (i_config inst))))])]))"

section \<open>Layout of a master\<close>

definition layout_entry_json :: "ecat_layout_entry \<Rightarrow> json" where
  "layout_entry_json le =
     J_obj [(''slave'', j_int (le_slave_position le)), (''pdo'', J_str (le_pdo_index le)),
            (''index'', J_str (le_entry_index le)), (''subindex'', j_int (uint (le_entry_subindex le))),
            (''direction'', J_str (if le_is_output le then ''output'' else ''input'')),
            (''bit_offset'', j_int (uint (le_bit_offset le))), (''bit_length'', j_int (uint (le_bit_length le))),
            (''data_type'', J_str (ecat_data_type_to_string (le_data_type le))), (''name'', J_str (le_name le))]"

definition layout_json :: "nat \<Rightarrow> 'd ecat_master_instance \<Rightarrow> json" where
  "layout_json i inst =
     (let ready = master_has_layout inst
      in J_obj [(''index'', j_int (int i)), (''name'', J_str (i_name inst)),
                (''state'', J_str (ecat_state_to_string (i_bus_state inst))), (''ready'', J_bool ready),
                (''output_bytes'', j_int (if ready then uint (output_bytes (i_layout inst)) else 0)),
                (''input_bytes'', j_int (if ready then uint (input_bytes (i_layout inst)) else 0)),
                (''entries'', J_arr (if ready then map layout_entry_json (ly_entries (i_layout inst)) else []))])"

end
