(* ===== verification/Commands.thy ===== *)
theory Commands
  imports Replies Coupler
begin

text \<open>
  The control commands of \<^verbatim>\<open>src/bus.c\<close>. A handler that only reads the masters returns its reply, one
  that acts on them also the new state. A reply is the text sent, \<open>None\<close> where no text could be
  made; the JSON printer and parser of the library are arguments, as are the outcomes of system
  calls and the error texts that failing operations leave behind.
\<close>

section \<open>Surroundings\<close>

record ('d, 'w) cmd_io =
  x_env :: "('d, 'w) env"
  x_parse :: "string \<Rightarrow> json option"
  x_print :: "json \<Rightarrow> string option"
  x_parse_mem :: "json \<Rightarrow> bool"
  x_locks :: "nat \<Rightarrow> bool"
  x_sdo_double :: "cdouble \<Rightarrow> int"
  x_threads :: "(bool \<times> bool) list"
  x_adapters :: "(string \<times> string) list"
  x_sock :: "nat \<Rightarrow> (int \<times> string) option"
  x_session :: "nat \<Rightarrow> u64"
  x_endpoint :: "nat \<Rightarrow> string"
  x_acyclic :: bool
  x_clock :: sdo_clock
  x_wall :: timespec
  x_err :: string

record ('d, 'w) daemon =
  dm_bus :: "'d bus"
  dm_host :: "'w host"

text \<open>Error objects built as JSON values; both members are strings.\<close>

definition error_json :: "string \<Rightarrow> json" where
  "error_json msg = J_obj [(''error'', J_str msg)]"

definition reply_error :: "('d, 'w) cmd_io \<Rightarrow> string \<Rightarrow> string option" where
  "reply_error x msg = x_print x (J_obj [(''status'', J_str ''error''), (''message'', J_str msg)])"

definition param :: "json \<Rightarrow> string \<Rightarrow> json option" where
  "param root key = get_object_item (get_object_item (Some root) ''params'') key"

section \<open>Scanning the bus\<close>

definition validate_interface_name :: "string \<Rightarrow> string option" where
  "validate_interface_name ifname =
     (if ifname = [] \<or> length ifname \<ge> ECAT_IFNAME_MAX then Some (error_text ''invalid interface name length'')
      else if \<not> ecat_iface_validate (Some ifname) ECAT_IFACE_ANY_PLATFORM
      then Some (error_text ''invalid interface name format'')
      else None)"

definition any_master_active :: "'d bus \<Rightarrow> bool" where
  "any_master_active b =
     list_ex (\<lambda>inst. i_bus_state inst \<in> {ECAT_STATE_OPERATIONAL, ECAT_STATE_RECOVERING, ECAT_STATE_TRANSITIONING})
       (g_masters b)"

definition device_json :: "nat \<Rightarrow> ec_slave \<Rightarrow> json" where
  "device_json pos s =
     J_obj [(''position'', j_int (int pos)), (''name'', J_str (es_name s)),
            (''vendor_id'', j_int (uint (es_eep_man s))), (''product_code'', j_int (uint (es_eep_id s))),
            (''revision'', j_int (uint (es_eep_rev s))), (''serial_number'', j_int (uint (es_eep_ser s))),
            (''state'', J_str ''UNKNOWN''), (''al_status_code'', j_int 0),
            (''has_coe'', J_bool (es_mbx_proto s AND 0x04 \<noteq> 0)),
            (''input_bytes'', j_int 0), (''output_bytes'', j_int 0)]"

text \<open>Opening a temporary context and scanning it: \<open>Inl\<close> when the interface cannot be opened.\<close>

definition scan_interface :: "'d soem \<Rightarrow> string \<Rightarrow> string + (int \<times> 'd ecx_context)" where
  "scan_interface S ifname =
     (case ecx_init S ifname (ecx_zero_context S) of
        (False, _) \<Rightarrow> Inl (error_text (''Failed to open interface '' @ [CHR 0x27] @ ifname @ [CHR 0x27]))
      | (True, ctx) \<Rightarrow> Inr (ecx_config_init S ctx))"

definition handle_scan_command :: "('d, 'w) cmd_io \<Rightarrow> json \<Rightarrow> 'd bus \<Rightarrow> string option" where
  "handle_scan_command x root b =
     (case param root ''interface'' of
        Some (J_str ifname) \<Rightarrow>
          (case validate_interface_name ifname of
             Some err \<Rightarrow> Some err
           | None \<Rightarrow>
               if any_master_active b
               then Some (error_text ''EtherCAT master is running. Stop the bus before scanning.'')
               else
                 case scan_interface (e_soem (x_env x)) ifname of
                   Inl err \<Rightarrow> Some err
                 | Inr (slave_count, ctx) \<Rightarrow>
                     if slave_count \<le> 0 then
                       Some ''{\"status\":\"success\",\"devices\":[],\"message\":\"No slaves found\",\"slave_count\":0}''
                     else
                       x_print x
                         (J_obj [(''status'', J_str ''success''),
                                 (''devices'', J_arr (map (\<lambda>i. device_json i (slavelist ctx i)) [1..<slavecount ctx + 1])),
                                 (''message'', J_str (''Found '' @ fmt_dec (int (slavecount ctx)) @ '' EtherCAT slave(s)'')),
                                 (''slave_count'', j_int (int (slavecount ctx)))]))
      | _ \<Rightarrow> Some (error_text (''missing '' @ [CHR 0x27] @ ''interface'' @ [CHR 0x27] @ '' param'')))"

definition handle_list_interfaces_command :: "('d, 'w) cmd_io \<Rightarrow> string option" where
  "handle_list_interfaces_command x =
     x_print x
       (J_obj [(''status'', J_str ''success''),
               (''interfaces'',
                J_arr (map (\<lambda>(name, desc). J_obj [(''name'', J_str name), (''description'', J_str desc)]) (x_adapters x))),
               (''message'', J_str (''Found '' @ fmt_dec (int (length (x_adapters x))) @ '' network interface(s)''))])"

definition handle_test_command :: "('d, 'w) cmd_io \<Rightarrow> json \<Rightarrow> 'd bus \<Rightarrow> string option" where
  "handle_test_command x root b =
     (case param root ''interface'' of
        Some (J_str ifname) \<Rightarrow>
          (case param root ''position'' of
             Some (J_num p) \<Rightarrow>
               let pos = valueint p
               in if pos < 1 then
                    Some (error_text ([CHR 0x27] @ ''position'' @ [CHR 0x27] @ '' must be a positive integer''))
                  else (case validate_interface_name ifname of
                    Some err \<Rightarrow> Some err
                  | None \<Rightarrow>
                      if any_master_active b
                      then Some (error_text ''EtherCAT master is running. Stop the bus before testing.'')
                      else
                        case scan_interface (e_soem (x_env x)) ifname of
                          Inl err \<Rightarrow> Some err
                        | Inr (slave_count, ctx) \<Rightarrow>
                            if slave_count \<le> 0 then
                              Some (''{\"status\":\"success\",\"connected\":false,\"device\":null,'' @
                                    ''\"message\":\"No EtherCAT slaves found on the network\"}'')
                            else if pos > int (slavecount ctx) then
                              Some (''{\"status\":\"error\",\"connected\":false,\"device\":null,\"message\":\"'' @
                                    c_copy 128 (''No device at position '' @ fmt_dec pos @ ''. Found '' @
                                      fmt_dec (int (slavecount ctx)) @ '' slave(s).'') @ ''\"}'')
                            else
                              let s = slavelist ctx (nat pos)
                              in x_print x
                                   (J_obj [(''status'', J_str ''success''), (''connected'', J_bool True),
                                           (''device'', device_json (nat pos) s),
                                           (''message'',
                                            J_str (c_copy 128 (''Successfully connected to '' @ es_name s @
                                                               '' at position '' @ fmt_dec pos)))]))
           | _ \<Rightarrow> Some (error_text (''missing '' @ [CHR 0x27] @ ''position'' @ [CHR 0x27] @ '' param'')))
      | _ \<Rightarrow> Some (error_text (''missing '' @ [CHR 0x27] @ ''interface'' @ [CHR 0x27] @ '' param'')))"

section \<open>Queries\<close>

definition handle_status_command :: "('d, 'w) cmd_io \<Rightarrow> 'd bus \<Rightarrow> string option" where
  "handle_status_command x b =
     x_print x
       (J_obj [(''configured'', J_bool (g_masters b \<noteq> [])), (''config_path'', J_str (g_config_path b)),
               (''masters'', J_arr (map (build_master_status_json (e_mem (x_env x))) (g_masters b)))])"

definition handle_diagnostics_command :: "('d, 'w) cmd_io \<Rightarrow> 'd bus \<Rightarrow> string option" where
  "handle_diagnostics_command x b =
     x_print x (J_obj [(''masters'', J_arr (map (build_master_diagnostics_json (e_mem (x_env x))) (g_masters b)))])"

definition handle_layout_command :: "('d, 'w) cmd_io \<Rightarrow> 'd bus \<Rightarrow> string option" where
  "handle_layout_command x b =
     x_print x (J_obj [(''status'', J_str ''success''),
                       (''masters'', J_arr (map2 layout_json [0..<length (g_masters b)] (g_masters b)))])"

section \<open>Lifecycle commands\<close>

definition configured_json :: "nat \<Rightarrow> 'd ecat_master_instance \<Rightarrow> json" where
  "configured_json i inst =
     J_obj [(''index'', j_int (int i)), (''name'', J_str (i_name inst)),
            (''interface'', J_str (interface (c_master (i_config inst)))),
            (''cycle_time_us'', j_int (cycle_time_us (c_master (i_config inst)))),
            (''task_priority'', j_int (task_priority (c_master (i_config inst)))),
            (''slave_count'', j_int (int (length (c_slaves (i_config inst)))))]"

definition handle_configure_command ::
  "('d, 'w) cmd_io \<Rightarrow> json \<Rightarrow> ('d, 'w) daemon \<Rightarrow> string option \<times> ('d, 'w) daemon" where
  "handle_configure_command x root dm =
     (let run = (\<lambda>path.
            case ecat_bus_configure (e_soem (x_env x)) (e_mem (x_env x)) (x_parse_mem x) (x_parse x) (x_locks x)
                   path (case path of Some p \<Rightarrow> files (dm_host dm) p | None \<Rightarrow> None) (dm_bus dm) of
              (False, b) \<Rightarrow> (x_print x (error_json (x_err x)), dm\<lparr>dm_bus := b\<rparr>)
            | (True, b) \<Rightarrow>
                (x_print x (J_obj [(''status'', J_str ''success''),
                                   (''masters'', J_arr (map2 configured_json [0..<length (g_masters b)] (g_masters b)))]),
                 dm\<lparr>dm_bus := b\<rparr>))
      in case param root ''path'' of
           None \<Rightarrow> run None
         | Some (J_str path) \<Rightarrow> run (Some path)
         | Some _ \<Rightarrow> (Some (error_text ([CHR 0x27] @ ''path'' @ [CHR 0x27] @ '' must be a string'')), dm))"

definition handle_start_command ::
  "('d, 'w) cmd_io \<Rightarrow> ('d, 'w) daemon \<Rightarrow> string option \<times> ('d, 'w) daemon" where
  "handle_start_command x dm =
     (case ecat_bus_start (x_env x) (x_sdo_double x) (x_threads x) (dm_host dm) (dm_bus dm) of
        (started, h, b) \<Rightarrow>
          ((case started of
              None \<Rightarrow> x_print x (error_json (x_err x))
            | Some n \<Rightarrow> x_print x (J_obj [(''status'', J_str ''success''), (''started'', j_int (int n)),
                                          (''total'', j_int (int (length (g_masters b))))])),
           \<lparr>dm_bus = b, dm_host = h\<rparr>))"

definition success_text :: string where
  "success_text = ''{\"status\":\"success\"}''"

definition handle_stop_command ::
  "('d, 'w) cmd_io \<Rightarrow> ('d, 'w) daemon \<Rightarrow> string option \<times> ('d, 'w) daemon" where
  "handle_stop_command x dm =
     (case ecat_bus_stop (x_env x) (dm_host dm) (dm_bus dm) of
        (h, b) \<Rightarrow> (Some success_text, \<lparr>dm_bus = b, dm_host = h\<rparr>))"

section \<open>Data sessions\<close>

text \<open>
  The loop over the masters: the entries of the reply and the masters, \<open>None\<close> for the entries when
  opening failed; masters before the failing one keep their sessions.
\<close>

fun open_sessions ::
  "('d, 'w) cmd_io \<Rightarrow> string \<Rightarrow> nat \<Rightarrow> 'd ecat_master_instance list \<Rightarrow>
   json list option \<times> 'd ecat_master_instance list" where
  "open_sessions x endpoint i [] = (Some [], [])"
| "open_sessions x endpoint i (inst # is) =
     (if \<not> master_has_layout inst then
        (case open_sessions x endpoint (i + 1) is of (js, is) \<Rightarrow> (js, inst # is))
      else
        case ecat_data_open endpoint (x_sock x i) (x_session x i) inst of
          (None, inst) \<Rightarrow> (None, inst # is)
        | (Some session, inst) \<Rightarrow>
            (case open_sessions x endpoint (i + 1) is of
               (js, is) \<Rightarrow>
                 (map_option ((#) (J_obj [(''index'', j_int (int i)), (''endpoint'', J_str (x_endpoint x i)),
                                          (''session'', J_str (hex16 session))])) js,
                  inst # is)))"

definition handle_open_data_command ::
  "('d, 'w) cmd_io \<Rightarrow> json \<Rightarrow> ('d, 'w) daemon \<Rightarrow> string option \<times> ('d, 'w) daemon" where
  "handle_open_data_command x root dm =
     (case param root ''endpoint'' of
        Some (J_str endpoint) \<Rightarrow>
          (case open_sessions x endpoint 0 (g_masters (dm_bus dm)) of
             (js, is) \<Rightarrow>
               ((case js of
                   None \<Rightarrow> x_print x (error_json (x_err x))
                 | Some [] \<Rightarrow> x_print x (error_json ''no master is running; start the bus first'')
                 | Some js \<Rightarrow> x_print x (J_obj [(''status'', J_str ''success''), (''masters'', J_arr js)])),
                dm\<lparr>dm_bus := (dm_bus dm)\<lparr>g_masters := is\<rparr>\<rparr>))
      | _ \<Rightarrow> (Some (error_text (''missing '' @ [CHR 0x27] @ ''endpoint'' @ [CHR 0x27] @ '' param'')), dm))"

definition handle_close_data_command :: "('d, 'w) daemon \<Rightarrow> string option \<times> ('d, 'w) daemon" where
  "handle_close_data_command dm =
     (Some success_text, dm\<lparr>dm_bus := (dm_bus dm)\<lparr>g_masters := map ecat_data_close (g_masters (dm_bus dm))\<rparr>\<rparr>)"

section \<open>Modules\<close>

text \<open>Comparisons of a double with an integer: less, and equal as values.\<close>

definition d_less :: "cdouble \<Rightarrow> int \<Rightarrow> bool" where "d_less d k \<longleftrightarrow> d_le d k \<and> \<not> d_ge d k"
definition d_greater :: "cdouble \<Rightarrow> int \<Rightarrow> bool" where "d_greater d k \<longleftrightarrow> d_ge d k \<and> \<not> d_le d k"
definition d_equal :: "cdouble \<Rightarrow> int \<Rightarrow> bool" where "d_equal d k \<longleftrightarrow> d_le d k \<and> d_ge d k"

definition slave_number_ok :: "cdouble \<Rightarrow> bool" where
  "slave_number_ok s \<longleftrightarrow> \<not> (d_less s 1 \<or> d_greater s 65535 \<or> \<not> d_equal s (valueint s))"

definition slave_range_text :: string where
  "slave_range_text = status_error_text ([CHR 0x27] @ ''slave'' @ [CHR 0x27] @ '' must be an integer in 1..65535'')"

definition parse_master_slave :: "json \<Rightarrow> 'd bus \<Rightarrow> string + (nat \<times> int)" where
  "parse_master_slave root b =
     (case (param root ''master'', param root ''slave'') of
        (Some (J_num m), Some (J_num s)) \<Rightarrow>
          if d_less m 0 \<or> d_ge m (int (length (g_masters b))) \<or> \<not> d_equal m (valueint m) then
            Inl (status_error_text (''master index out of range (0..'' @ fmt_dec (int (length (g_masters b)) - 1) @ '')''))
          else if \<not> slave_number_ok s then Inl slave_range_text
          else Inr (nat (valueint m), valueint s)
      | _ \<Rightarrow> Inl (status_error_text ([CHR 0x27] @ ''master'' @ [CHR 0x27] @ '' and '' @ [CHR 0x27] @ ''slave'' @
                                     [CHR 0x27] @ '' must be numbers'')))"

text \<open>Whether another master than number \<open>i\<close> has SOEM open on the interface of master \<open>i\<close>.\<close>

definition interface_in_use :: "nat \<Rightarrow> 'd bus \<Rightarrow> bool" where
  "interface_in_use i b =
     list_ex (\<lambda>(j, other). j \<noteq> i \<and> i_soem_initialized other \<and>
                interface (c_master (i_config other)) = interface (c_master (i_config (g_masters b ! i))))
       (zip [0..<length (g_masters b)] (g_masters b))"

definition idents_member :: "u32 list \<Rightarrow> string \<times> json" where
  "idents_member idents = (''idents'', J_arr (map (\<lambda>w. J_str (ident_text w)) idents))"

definition scan_failed :: "('d, 'w) cmd_io \<Rightarrow> string option" where
  "scan_failed x = reply_error x (if x_err x \<noteq> [] then x_err x else ''scan failed'')"

definition scan_modules_on_interface :: "('d, 'w) cmd_io \<Rightarrow> json \<Rightarrow> 'd bus \<Rightarrow> string option" where
  "scan_modules_on_interface x root b =
     (case param root ''interface'' of
        Some (J_str ifname) \<Rightarrow>
          (case validate_interface_name ifname of
             Some err \<Rightarrow> Some err
           | None \<Rightarrow>
               (case param root ''slave'' of
                  Some (J_num s) \<Rightarrow>
                    if \<not> slave_number_ok s then Some slave_range_text
                    else if list_ex (\<lambda>other. i_soem_initialized other \<and>
                                       interface (c_master (i_config other)) = ifname) (g_masters b)
                    then reply_error x ''a running master uses this interface; stop the PLC to scan''
                    else
                      (case fst (ecat_scan_modules_offline (e_soem (x_env x)) (e_mem (x_env x)) ifname (valueint s) 0) of
                         None \<Rightarrow> scan_failed x
                       | Some idents \<Rightarrow>
                           x_print x (J_obj [(''status'', J_str ''success''), (''interface'', J_str ifname),
                                             (''slave'', j_int (valueint s)), idents_member idents]))
                | _ \<Rightarrow> Some slave_range_text))
      | _ \<Rightarrow> Some (status_error_text ([CHR 0x27] @ ''interface'' @ [CHR 0x27] @ '' must be a string'')))"

definition preop_timeout_us :: "int \<Rightarrow> ecat_slave list \<Rightarrow> int" where
  "preop_timeout_us slave_pos ss =
     fold (\<lambda>s t. if position s = slave_pos then init_to_preop_timeout_ms (timeouts s) * 1000 else t) ss 0"

definition set_master :: "nat \<Rightarrow> 'd ecat_master_instance \<Rightarrow> ('d, 'w) daemon \<Rightarrow> ('d, 'w) daemon" where
  "set_master i inst dm = dm\<lparr>dm_bus := (dm_bus dm)\<lparr>g_masters := (g_masters (dm_bus dm))[i := inst]\<rparr>\<rparr>"

definition modules_reply :: "('d, 'w) cmd_io \<Rightarrow> nat \<Rightarrow> int \<Rightarrow> u32 list option \<Rightarrow> string option" where
  "modules_reply x i slave_pos r =
     (case r of
        None \<Rightarrow> scan_failed x
      | Some idents \<Rightarrow>
          x_print x (J_obj [(''status'', J_str ''success''), (''master'', j_int (int i)),
                            (''slave'', j_int slave_pos), idents_member idents]))"

definition handle_scan_modules_command ::
  "('d, 'w) cmd_io \<Rightarrow> json \<Rightarrow> ('d, 'w) daemon \<Rightarrow> string option \<times> ('d, 'w) daemon" where
  "handle_scan_modules_command x root dm =
     (if get_object_item (Some root) ''params'' \<noteq> None \<and> param root ''master'' = None \<and> param root ''interface'' \<noteq> None
      then (scan_modules_on_interface x root (dm_bus dm), dm)
      else
        case parse_master_slave root (dm_bus dm) of
          Inl err \<Rightarrow> (Some err, dm)
        | Inr (i, slave_pos) \<Rightarrow>
            let inst = g_masters (dm_bus dm) ! i
            in if i_soem_initialized inst \<and> i_bus_running inst then
                 (if \<not> x_acyclic x then (reply_error x ''bus recovering, retry'', dm)
                  else
                    case ecat_read_module_idents (e_soem (x_env x)) (e_mem (x_env x)) slave_pos (i_ctx inst) of
                      (r, ctx) \<Rightarrow> (modules_reply x i slave_pos r, set_master i (inst\<lparr>i_ctx := ctx\<rparr>) dm))
               else if \<not> i_soem_initialized inst \<and>
                       i_bus_state inst \<in> {ECAT_STATE_IDLE, ECAT_STATE_STOPPED, ECAT_STATE_ERROR} then
                 (if interface_in_use i (dm_bus dm)
                  then (reply_error x ''another master is running on this interface'', dm)
                  else
                    (modules_reply x i slave_pos
                       (fst (ecat_scan_modules_offline (e_soem (x_env x)) (e_mem (x_env x))
                               (interface (c_master (i_config inst))) slave_pos
                               (preop_timeout_us slave_pos (c_slaves (i_config inst))))), dm))
               else (reply_error x ''master is starting or stopping, retry'', dm))"

section \<open>Diagnostics of a coupler\<close>

definition find_modular_slave :: "'d ecat_master_instance \<Rightarrow> int \<Rightarrow> ecat_slave option" where
  "find_modular_slave inst pos =
     find (\<lambda>s. position s = pos \<and> m_present (modular s)) (c_slaves (i_config inst))"

definition ECAT_DIAG_BUDGET_MS :: int where "ECAT_DIAG_BUDGET_MS = 2000"

definition module_diag_json :: "ecat_module_diag \<Rightarrow> json" where
  "module_diag_json md =
     J_obj [(''slot'', j_int (md_slot md)), (''ident'', J_str (ident_text (md_ident md))),
            (''status_byte'', if md_known md then j_int (uint (md_status md)) else J_null)]"

definition poll_at_ms :: "timespec \<Rightarrow> json" where
  "poll_at_ms ts = j_int (tv_sec ts * 1000 + tv_nsec ts div 1000000)"

definition coupler_reply :: "('d, 'w) cmd_io \<Rightarrow> nat \<Rightarrow> int \<Rightarrow> ecat_coupler_diag \<Rightarrow> string option" where
  "coupler_reply x i slave_pos d =
     x_print x
       (J_obj [(''status'', J_str ''success''), (''master'', j_int (int i)), (''slave'', j_int slave_pos),
               (''coupler'',
                J_obj [(''status_word'', if cd_status_known d then j_int (uint (cd_status_word d)) else J_null),
                       (''poll_at_ms'', poll_at_ms (x_wall x))]),
               (''modules'', J_arr (map module_diag_json (cd_modules d)))])"

definition handle_diagnostics_slave_command ::
  "('d, 'w) cmd_io \<Rightarrow> json \<Rightarrow> ('d, 'w) daemon \<Rightarrow> string option \<times> ('d, 'w) daemon" where
  "handle_diagnostics_slave_command x root dm =
     (case parse_master_slave root (dm_bus dm) of
        Inl err \<Rightarrow> (Some err, dm)
      | Inr (i, slave_pos) \<Rightarrow>
          let inst = g_masters (dm_bus dm) ! i
          in case find_modular_slave inst slave_pos of
               None \<Rightarrow> (reply_error x ''slave is not a configured modular coupler'', dm)
             | Some slave \<Rightarrow>
                 if \<not> i_soem_initialized inst \<or> \<not> i_bus_running inst then (reply_error x ''the bus is not running'', dm)
                 else if \<not> x_acyclic x then (reply_error x ''bus recovering, retry'', dm)
                 else
                   case ecat_master_read_coupler_diagnostics (e_soem (x_env x)) (e_mem (x_env x)) (x_clock x) slave
                          ECAT_DIAG_BUDGET_MS inst of
                     (Inl err, inst) \<Rightarrow> (reply_error x err, set_master i inst dm)
                   | (Inr d, inst) \<Rightarrow> (coupler_reply x i slave_pos d, set_master i inst dm))"

section \<open>Dispatch\<close>

definition unknown_command :: "('d, 'w) cmd_io \<Rightarrow> string \<Rightarrow> string option" where
  "unknown_command x name =
     x_print x (error_json (''unknown command '' @ [CHR 0x27] @ take 64 name @ [CHR 0x27]))"

definition run_command ::
  "('d, 'w) cmd_io \<Rightarrow> string \<Rightarrow> json \<Rightarrow> ('d, 'w) daemon \<Rightarrow> string option \<times> ('d, 'w) daemon" where
  "run_command x name root dm =
     (if name = ''scan'' then (handle_scan_command x root (dm_bus dm), dm)
      else if name = ''list-interfaces'' then (handle_list_interfaces_command x, dm)
      else if name = ''test'' then (handle_test_command x root (dm_bus dm), dm)
      else if name = ''status'' then (handle_status_command x (dm_bus dm), dm)
      else if name = ''diagnostics'' then (handle_diagnostics_command x (dm_bus dm), dm)
      else if name = ''configure'' then handle_configure_command x root dm
      else if name = ''start'' then handle_start_command x dm
      else if name = ''stop'' then handle_stop_command x dm
      else if name = ''layout'' then (handle_layout_command x (dm_bus dm), dm)
      else if name = ''scan-modules'' then handle_scan_modules_command x root dm
      else if name = ''diagnostics-slave'' then handle_diagnostics_slave_command x root dm
      else if name = ''open_data'' then handle_open_data_command x root dm
      else if name = ''close_data'' then handle_close_data_command dm
      else (unknown_command x name, dm))"

definition bus_command ::
  "('d, 'w) cmd_io \<Rightarrow> string \<Rightarrow> ('d, 'w) daemon \<Rightarrow> string option \<times> ('d, 'w) daemon" where
  "bus_command x command_json dm =
     (case x_parse x command_json of
        None \<Rightarrow> (Some (error_text ''invalid JSON''), dm)
      | Some root \<Rightarrow>
          (case get_object_item (Some root) ''command'' of
             Some (J_str name) \<Rightarrow> run_command x name root dm
           | _ \<Rightarrow> (Some (error_text (''missing '' @ [CHR 0x27] @ ''command'' @ [CHR 0x27] @ '' field'')), dm)))"

definition ecat_bus_command ::
  "('d, 'w) cmd_io \<Rightarrow> string \<Rightarrow> ('d, 'w) daemon \<Rightarrow> string \<times> ('d, 'w) daemon" where
  "ecat_bus_command x command_json dm =
     (case bus_command x command_json dm of
        (Some reply, dm) \<Rightarrow> (reply, dm)
      | (None, dm) \<Rightarrow> (error_text ''no reply'', dm))"

section \<open>Parameters in range\<close>

lemma d_equal_below: "d_equal d v \<Longrightarrow> v < k \<Longrightarrow> d_le d k \<and> \<not> d_ge d k"
proof (cases d)
  case (D_fin s m e)
  assume "d_equal d v" "v < k"
  moreover from \<open>v < k\<close> have "v * 2 ^ n < k * 2 ^ n" for n :: nat by simp
  ultimately show ?thesis by (force simp: D_fin d_equal_def Let_def split: if_splits)
qed (auto simp: d_equal_def)

lemma d_equal_above: "d_equal d v \<Longrightarrow> k < v \<Longrightarrow> d_ge d k \<and> \<not> d_le d k"
proof (cases d)
  case (D_fin s m e)
  assume "d_equal d v" "k < v"
  moreover from \<open>k < v\<close> have "k * 2 ^ n < v * 2 ^ n" for n :: nat by simp
  ultimately show ?thesis by (force simp: D_fin d_equal_def Let_def split: if_splits)
qed (auto simp: d_equal_def)

lemma slave_number_range: "slave_number_ok s \<Longrightarrow> 1 \<le> valueint s \<and> valueint s \<le> 65535"
  using d_equal_below [of s "valueint s" 1] d_equal_above [of s "valueint s" 65535]
  by (auto simp: slave_number_ok_def d_less_def d_greater_def not_le [symmetric])

lemma parse_master_slave_range:
  assumes "parse_master_slave root b = Inr (i, pos)"
  shows "i < length (g_masters b) \<and> 1 \<le> pos \<and> pos \<le> 65535"
proof -
  obtain m s where p: "param root ''master'' = Some (J_num m)" "param root ''slave'' = Some (J_num s)"
    using assms by (auto simp: parse_master_slave_def split: option.splits json.splits)
  then have c: "\<not> d_less m 0" "\<not> d_ge m (int (length (g_masters b)))" "d_equal m (valueint m)" "slave_number_ok s"
      "i = nat (valueint m)" "pos = valueint s"
    using assms by (auto simp: parse_master_slave_def split: if_splits)
  have "0 \<le> valueint m"
    using d_equal_below [OF c(3), of 0] c(1) by (force simp: d_less_def)
  moreover have "valueint m < int (length (g_masters b))"
    using d_equal_above [OF c(3), of "int (length (g_masters b))"] c(2,3)
    by (cases "valueint m = int (length (g_masters b))") (force simp: d_equal_def)+
  ultimately show ?thesis using slave_number_range [OF c(4)] c(5,6) by auto
qed

text \<open>
  A master index and slave position that the commands accept lie within the array of masters
  and within 1 to 65535, whatever number the client sends.
\<close>

theorem accepted_master_slave_in_range:
  "parse_master_slave root b = Inr (i, pos) \<Longrightarrow> i < length (g_masters b) \<and> 1 \<le> pos \<and> pos \<le> 65535"
  by (rule parse_master_slave_range)

definition example_params :: json where
  "example_params = J_obj [(''params'', J_obj [(''master'', J_num (D_fin False 0 0)), (''slave'', J_num (D_fin False 3 0))])]"

theorem accepted_master_slave_in_range_witness:
  "parse_master_slave example_params \<lparr>g_masters = [one_slave_inst], g_config_path = [], g_leaked = []\<rparr> = Inr (0, 3) \<and>
   (0::nat) < length (g_masters \<lparr>g_masters = [one_slave_inst], g_config_path = [], g_leaked = []\<rparr>)"
proof -
  have r: "parse_master_slave example_params \<lparr>g_masters = [one_slave_inst], g_config_path = [], g_leaked = []\<rparr> = Inr (0, 3)"
    by (simp add: parse_master_slave_def param_def example_params_def get_object_item_def d_less_def d_greater_def
        d_equal_def slave_number_ok_def valueint_def Let_def)
  with accepted_master_slave_in_range [OF r] show ?thesis by simp
qed

section \<open>Queries leave the masters alone\<close>

definition ctx_only :: "'d ecat_master_instance \<Rightarrow> 'd ecat_master_instance \<Rightarrow> bool" where
  "ctx_only a b \<longleftrightarrow> (\<exists>c. b = a\<lparr>i_ctx := c\<rparr>)"

lemma ctx_only_refl [simp]: "ctx_only a a"
  by (auto simp: ctx_only_def intro: exI [of _ "i_ctx a"])

lemma ctx_only_trans: "ctx_only a b \<Longrightarrow> ctx_only b c \<Longrightarrow> ctx_only a c"
  by (auto simp: ctx_only_def)

lemma sdo_ctx_only:
  "sdo_in_budget S clk deadline k pos index sub ca cap inst = (wkc, bs, x) \<Longrightarrow> ctx_only inst x"
  by (auto simp: sdo_in_budget_def Let_def ctx_only_def split: if_splits prod.splits intro: exI [of _ "i_ctx inst"])

lemma read_modules_ctx_only: "ctx_only inst (snd (read_modules S clk deadline pos incr k mds inst))"
proof (induction mds arbitrary: k inst)
  case (Cons md mds)
  obtain md' x where m: "read_module S clk deadline pos incr k md inst = (md', x)" by force
  then have "ctx_only inst x"
    by (auto simp: read_module_def Let_def split: if_splits prod.splits dest: sdo_ctx_only)
  moreover have "ctx_only x (snd (read_modules S clk deadline pos incr (k + 1) mds x))" by (rule Cons.IH)
  ultimately show ?case using m by (auto simp: case_prod_unfold intro: ctx_only_trans)
qed simp

lemma coupler_ctx_only:
  assumes "ecat_master_read_coupler_diagnostics S mem clk slave budget inst = (r, x)"
  shows "ctx_only inst x"
proof -
  have w: "ctx_only i (snd (read_status_word S clk d p i))" for d p i
    by (auto simp: read_status_word_def split: prod.splits dest: sdo_ctx_only)
  have m: "ctx_only i (snd (read_modules S clk d p n 2 mds (snd (read_status_word S clk d p i))))" for d p n mds i
    using ctx_only_trans [OF w read_modules_ctx_only] .
  show ?thesis using assms m w
    by (auto simp: ecat_master_read_coupler_diagnostics_def Let_def case_prod_unfold split: if_splits)
qed

text \<open>What a query may do to the daemon: SOEM traffic on a running master, nothing else.\<close>

definition query_effect :: "('d, 'w) daemon \<Rightarrow> ('d, 'w) daemon \<Rightarrow> bool" where
  "query_effect dm dm' \<longleftrightarrow>
     dm_host dm' = dm_host dm \<and> g_config_path (dm_bus dm') = g_config_path (dm_bus dm) \<and>
     g_leaked (dm_bus dm') = g_leaked (dm_bus dm) \<and>
     list_all2 (\<lambda>a b. ctx_only a b \<and> (i_soem_initialized a \<and> i_bus_running a \<or> b = a))
       (g_masters (dm_bus dm)) (g_masters (dm_bus dm'))"

lemma query_effect_refl [simp]: "query_effect dm dm"
  by (simp add: query_effect_def list_all2_same)

lemma set_master_effect:
  assumes "i < length (g_masters (dm_bus dm))" and "ctx_only (g_masters (dm_bus dm) ! i) x"
    and "i_soem_initialized (g_masters (dm_bus dm) ! i)" and "i_bus_running (g_masters (dm_bus dm) ! i)"
  shows "query_effect dm (set_master i x dm)"
  using assms by (auto simp: query_effect_def set_master_def list_all2_conv_all_nth nth_list_update)

lemma scan_modules_effect: "query_effect dm (snd (handle_scan_modules_command x root dm))"
proof (cases "parse_master_slave root (dm_bus dm)")
  case (Inr p)
  obtain i pos where p: "p = (i, pos)" by force
  have i: "i < length (g_masters (dm_bus dm))" using parse_master_slave_range Inr p by blast
  have "ctx_only a (a\<lparr>i_ctx := c\<rparr>)" for c and a :: "'a ecat_master_instance" by (auto simp: ctx_only_def)
  then show ?thesis using Inr p set_master_effect [OF i]
    by (auto simp: handle_scan_modules_command_def Let_def case_prod_unfold)
qed (auto simp: handle_scan_modules_command_def)

lemma diagnostics_slave_effect: "query_effect dm (snd (handle_diagnostics_slave_command x root dm))"
proof (cases "parse_master_slave root (dm_bus dm)")
  case (Inr p)
  obtain i pos where p: "p = (i, pos)" by force
  have i: "i < length (g_masters (dm_bus dm))" using parse_master_slave_range Inr p by blast
  show ?thesis using Inr p
    by (auto simp: handle_diagnostics_slave_command_def Let_def split: option.split prod.split sum.split
        intro!: set_master_effect [OF i] elim: coupler_ctx_only)
qed (auto simp: handle_diagnostics_slave_command_def)

definition lifecycle_commands :: "string list" where
  "lifecycle_commands = [''configure'', ''start'', ''stop'', ''open_data'', ''close_data'']"

text \<open>
  C31: only configure, start, stop, open_data and close_data act on the masters. Every other line a
  client sends, malformed ones included, leaves the host, the configuration path and all fields of
  every master as they are, except that the SOEM context of a running master may change by the
  mailbox reads made for it.
\<close>

theorem queries_leave_masters_alone:
  assumes "\<forall>root name. x_parse x command_json = Some root \<and> get_object_item (Some root) ''command'' = Some (J_str name) \<longrightarrow>
      name \<notin> set lifecycle_commands"
  shows "query_effect dm (snd (ecat_bus_command x command_json dm))"
proof -
  have "query_effect dm (snd (run_command x name root dm))" if "name \<notin> set lifecycle_commands" for name root
    using that scan_modules_effect [of dm x root] diagnostics_slave_effect [of dm x root]
    by (simp add: run_command_def lifecycle_commands_def)
  then have "query_effect dm (snd (bus_command x command_json dm))"
    using assms by (simp add: bus_command_def split: option.split json.split)
  then show ?thesis by (simp add: ecat_bus_command_def case_prod_unfold split: option.split)
qed

definition example_io :: "(soem_call list, nat) cmd_io" where
  "example_io =
     \<lparr>x_env = recording_env, x_parse = (\<lambda>_. Some (J_obj [(''command'', J_str ''status'')])), x_print = (\<lambda>_. Some ''{}''),
      x_parse_mem = (\<lambda>_. True), x_locks = (\<lambda>_. True), x_sdo_double = (\<lambda>_. 0), x_threads = [], x_adapters = [],
      x_sock = (\<lambda>_. None), x_session = (\<lambda>_. 1), x_endpoint = (\<lambda>_. []), x_acyclic = True,
      x_clock = \<lparr>sc_start = 0, sc_locked = (\<lambda>_. True), sc_now = (\<lambda>_. 0)\<rparr>,
      x_wall = \<lparr>tv_sec = 0, tv_nsec = 0\<rparr>, x_err = []\<rparr>"

definition example_daemon :: "ecat_bus_state \<Rightarrow> (soem_call list, nat) daemon" where
  "example_daemon st =
     \<lparr>dm_bus = \<lparr>g_masters = [one_slave_inst\<lparr>i_bus_state := st\<rparr>], g_config_path = [], g_leaked = []\<rparr>,
      dm_host = \<lparr>files = Map.empty, nic = 0\<rparr>\<rparr>"

theorem queries_leave_masters_alone_witness:
  "query_effect (example_daemon ECAT_STATE_IDLE) (snd (ecat_bus_command example_io ''x'' (example_daemon ECAT_STATE_IDLE)))"
  by (rule queries_leave_masters_alone) (auto simp: example_io_def get_object_item_def lifecycle_commands_def)

section \<open>No second master on a running bus\<close>

text \<open>
  While a master is exchanging data or on its way to it, scan and test answer without touching
  any interface: their reply is the same for every behaviour of SOEM.
\<close>

theorem scan_refused_while_active:
  assumes "any_master_active b"
  shows "handle_scan_command (x\<lparr>x_env := (x_env x)\<lparr>e_soem := S\<rparr>\<rparr>) root b = handle_scan_command x root b \<and>
    handle_test_command (x\<lparr>x_env := (x_env x)\<lparr>e_soem := S\<rparr>\<rparr>) root b = handle_test_command x root b"
  using assms
  by (simp add: handle_scan_command_def handle_test_command_def Let_def split: option.split json.split)

theorem scan_refused_while_active_witness:
  "handle_scan_command (example_io\<lparr>x_env := (x_env example_io)\<lparr>e_soem := recording_soem\<lparr>ecx_init := (\<lambda>_ ctx. (False, ctx))\<rparr>\<rparr>\<rparr>)
     example_params (dm_bus (example_daemon ECAT_STATE_RECOVERING)) =
   handle_scan_command example_io example_params (dm_bus (example_daemon ECAT_STATE_RECOVERING))"
  by (rule scan_refused_while_active [THEN conjunct1])
    (simp add: any_master_active_def example_daemon_def)

end
