(* ===== verification/Control.thy ===== *)
theory Control
  imports Log Protocol "HOL-Library.Sublist"
begin

text \<open>
  The control server (\<^verbatim>\<open>src/control.c\<close>): authentication, the line protocol of a client and the table
  of clients. The service behind the protocol, \<^verbatim>\<open>ecat_bus_command\<close>, is an argument with the state
  \<open>'b\<close> it acts on; so are the JSON parser and printer. A client's file descriptor is \<open>- 1\<close> when its
  slot is free. What is sent to a client is a list of texts; each is followed by a newline.
\<close>

section \<open>Model\<close>

definition MAX_CLIENTS :: nat where "MAX_CLIENTS = 8"
definition MAX_LINE :: nat where "MAX_LINE = 64 * 1024"
definition MAX_ALLOWED_UIDS :: nat where "MAX_ALLOWED_UIDS = 8"

record client =
  cl_fd :: int
  cl_authenticated :: bool
  cl_buf :: string

record 'b server_io =
  s_parse :: "string \<Rightarrow> json option"
  s_print :: "json \<Rightarrow> string option"
  s_command :: "string \<Rightarrow> 'b \<Rightarrow> string \<times> 'b"
  s_log :: log_state

text \<open>The difference of two tokens, accumulated over the whole of the first.\<close>

definition char_byte :: "char \<Rightarrow> u8" where "char_byte c = of_nat (code_of c)"

definition constant_time_equals :: "string \<Rightarrow> string \<Rightarrow> bool" where
  "constant_time_equals a b =
     (fold (\<lambda>i diff. diff OR (char_byte (a ! i) XOR (if b = [] then 0 else char_byte (b ! (i mod length b)))))
        [0..<length a] (if length a \<noteq> length b then 1 else (0::u8)) = 0)"

datatype listen_addr = Listen_unix string | Listen_tcp u32 u16

text \<open>
  \<open>bind\<close> creates, binds and listens; the result is the listener and whether it is a unix socket.
\<close>

definition open_listener :: "(listen_addr \<Rightarrow> int option) \<Rightarrow> string \<Rightarrow> (int \<times> bool) option" where
  "open_listener bind spec =
     (if starts_with ''unix:'' spec then
        (let path = drop 5 spec
         in if path = [] \<or> length path \<ge> sun_path_size then None
            else map_option (\<lambda>fd. (fd, True)) (bind (Listen_unix path)))
      else if starts_with ''tcp:'' spec then
        (case split_last CHR '':'' (drop 4 spec) of
           None \<Rightarrow> None
         | Some (host, port_text) \<Rightarrow>
             if length host \<ge> 64 then None
             else
               let port = (case strtol 10 port_text of Some (p, _) \<Rightarrow> p | None \<Rightarrow> 0)
               in if port \<le> 0 \<or> port > 65535 then None
                  else (case inet_pton host of
                          None \<Rightarrow> None
                        | Some a \<Rightarrow>
                            if drop_bit 24 a \<noteq> 127 then None
                            else map_option (\<lambda>fd. (fd, False)) (bind (Listen_tcp a (of_int port)))))
      else None)"

definition peer_allowed :: "nat list \<Rightarrow> nat option \<Rightarrow> bool" where
  "peer_allowed allowed uid = (case uid of None \<Rightarrow> False | Some u \<Rightarrow> u \<in> set allowed)"

definition drop_client :: "client \<Rightarrow> client" where
  "drop_client c = c\<lparr>cl_fd := - 1, cl_authenticated := False, cl_buf := []\<rparr>"

definition EDOG_VERSION :: string where "EDOG_VERSION = ''0.1.0''"

definition hello_response :: string where
  "hello_response =
     c_copy 384
       (''{\"status\":\"success\",\"name\":\"EtherDOG\",\"version\":\"'' @ EDOG_VERSION @
        ''\",\"protocol\":'' @ fmt_dec (uint EDOG_PROTOCOL_VERSION) @ '',\"features\":['' @
        ''\"ethercat.dynamic_alloc\",\"ethercat.sdo_byte_string\",\"ethercat.sdo_complete_access\",'' @
        ''\"ethercat.scan_modules\",\"ethercat.diagnostics_slave\"]}'')"

text \<open>\<^verbatim>\<open>(uint64_t)valuedouble\<close>, defined in C for values below \<open>2 ^ 64\<close>.\<close>

definition query_start :: "json option \<Rightarrow> u64" where
  "query_start min_id =
     (case min_id of Some (J_num d) \<Rightarrow> if d_ge d 0 \<and> \<not> d_le d 0 then of_int (d_trunc d) else 0 | _ \<Rightarrow> 0)"

definition query_limit :: "json option \<Rightarrow> int" where
  "query_limit max_n =
     (let limit = (case max_n of Some (J_num d) \<Rightarrow> valueint d | _ \<Rightarrow> 500)
      in min (max limit 1) (int EDOG_LOG_RING_SIZE))"

definition log_entry_json :: "edog_log_entry \<Rightarrow> json" where
  "log_entry_json e =
     J_obj [(''id'', J_num (double_of_int (uint (le_id e)))), (''timestamp'', J_num (double_of_int (le_timestamp e))),
            (''level'', J_str (edog_log_level_name (le_level e))), (''source'', J_str (le_tag e)),
            (''message'', J_str (le_message e))]"

definition out_of_memory :: string where "out_of_memory = ''{\"error\":\"out of memory\"}''"

definition logs_response :: "'b server_io \<Rightarrow> json option \<Rightarrow> string" where
  "logs_response io root =
     (let params = get_object_item root ''params'';
          level = get_object_item params ''level'';
          min_level = (case level of Some (J_str l) \<Rightarrow> edog_log_parse_level (Some l) | _ \<Rightarrow> Some EDOG_LOG_DEBUG)
      in case min_level of
           None \<Rightarrow> ''{\"error\":\"unknown level\"}''
         | Some lvl \<Rightarrow>
             let entries = edog_log_query (query_start (get_object_item params ''min_id'')) lvl
                             (query_limit (get_object_item params ''max'')) (s_log io);
                 next_id = (if entries \<noteq> [] then le_id (last entries) + 1 else g_next_id (s_log io))
             in case s_print io
                       (J_obj [(''status'', J_str ''success''), (''next_id'', J_num (double_of_int (uint next_id))),
                               (''entries'', J_arr (map log_entry_json entries))]) of
                  Some t \<Rightarrow> t
                | None \<Rightarrow> out_of_memory)"

definition command_name :: "json option \<Rightarrow> string option" where
  "command_name root = (case get_object_item root ''command'' of Some (J_str n) \<Rightarrow> Some n | _ \<Rightarrow> None)"

definition needs_auth :: "string option \<Rightarrow> bool" where
  "needs_auth token \<longleftrightarrow> token \<noteq> None \<and> token \<noteq> Some []"

definition hello_token_ok :: "json option \<Rightarrow> string option \<Rightarrow> bool" where
  "hello_token_ok root token =
     (case get_object_item (get_object_item root ''params'') ''token'' of
        Some (J_str t) \<Rightarrow> constant_time_equals t (the token)
      | _ \<Rightarrow> False)"

text \<open>Whether the server should exit, the texts sent, the client and the service's state.\<close>

definition handle_line ::
  "'b server_io \<Rightarrow> string option \<Rightarrow> string \<Rightarrow> client \<Rightarrow> 'b \<Rightarrow> bool \<times> string list \<times> client \<times> 'b" where
  "handle_line io token line c b =
     (let root = s_parse io line; name = command_name root
      in if name = Some ''hello'' then
           (if needs_auth token \<and> \<not> hello_token_ok root token
            then (False, [''{\"error\":\"authentication failed\"}''], drop_client c, b)
            else (False, [hello_response], c\<lparr>cl_authenticated := True\<rparr>, b))
         else if needs_auth token \<and> \<not> cl_authenticated c then
           (False, [''{\"error\":\"authenticate with '' @ [CHR 0x27] @ ''hello'' @ [CHR 0x27] @ '' first\"}''], drop_client c, b)
         else if name = Some ''logs'' then (False, [logs_response io root], c, b)
         else if name = Some ''shutdown'' then (True, [''{\"status\":\"success\"}''], c, b)
         else case s_command io line b of (reply, b) \<Rightarrow> (False, [reply], c, b))"

text \<open>A carriage return before the newline is not part of the line.\<close>

definition strip_cr :: "string \<Rightarrow> string" where
  "strip_cr l = (if l \<noteq> [] \<and> last l = CHR 0x0D then butlast l else l)"

definition line_end :: "string \<Rightarrow> bool" where
  "line_end buf \<longleftrightarrow> CHR 0x0A \<in> set (takeWhile (\<lambda>x. x \<noteq> CHR 0x00) buf)"

definition first_line :: "string \<Rightarrow> string" where
  "first_line buf = takeWhile (\<lambda>x. x \<noteq> CHR 0x0A) buf"

definition after_line :: "string \<Rightarrow> string" where
  "after_line buf = drop (length (first_line buf) + 1) buf"

lemma after_line_shorter: "line_end buf \<Longrightarrow> length (after_line buf) < length buf"
  by (cases buf) (simp_all add: line_end_def after_line_def)

text \<open>One line, unless it is empty, and the loop over the complete lines in the buffer.\<close>

definition serve_line ::
  "'b server_io \<Rightarrow> string option \<Rightarrow> string \<Rightarrow> client \<Rightarrow> 'b \<Rightarrow> bool \<times> string list \<times> client \<times> 'b" where
  "serve_line io token l c b =
     (let line = strip_cr l in if line = [] then (False, [], c, b) else handle_line io token line c b)"

function serve_lines ::
  "'b server_io \<Rightarrow> string option \<Rightarrow> string \<Rightarrow> client \<Rightarrow> 'b \<Rightarrow> bool \<times> string list \<times> string \<times> client \<times> 'b" where
  "serve_lines io token buf c b =
     (if \<not> line_end buf then (False, [], buf, c, b)
      else
        case serve_line io token (first_line buf) c b of
          (exit_now, sent, c, b) \<Rightarrow>
            if exit_now \<or> cl_fd c < 0 then (exit_now, sent, after_line buf, c, b)
            else (case serve_lines io token (after_line buf) c b of
                    (exit_now, later, rest, c, b) \<Rightarrow> (exit_now, sent @ later, rest, c, b)))"
  by pat_completeness auto

termination
  by (relation "measure (\<lambda>(_, _, buf, _, _). length buf)") (auto simp: after_line_shorter)

declare serve_lines.simps [simp del]

text \<open>\<open>got\<close> is what \<^verbatim>\<open>recv\<close> could deliver; it takes what fits in the buffer.\<close>

definition service_client ::
  "'b server_io \<Rightarrow> string option \<Rightarrow> string \<Rightarrow> client \<Rightarrow> 'b \<Rightarrow> bool \<times> string list \<times> client \<times> 'b" where
  "service_client io token got c b =
     (let chunk = take (MAX_LINE - 1 - length (cl_buf c)) got
      in if chunk = [] then (False, [], drop_client c, b)
         else
           case serve_lines io token (cl_buf c @ chunk) c b of
             (exit_now, sent, rest, c, b) \<Rightarrow>
               if cl_fd c < 0 then (exit_now, sent, c, b)
               else if length rest \<ge> MAX_LINE - 1 then
                 (exit_now, sent @ [''{\"error\":\"request line too long\"}''], drop_client (c\<lparr>cl_buf := rest\<rparr>), b)
               else (exit_now, sent, c\<lparr>cl_buf := rest\<rparr>, b))"

definition too_long :: string where "too_long = ''{\"error\":\"request line too long\"}''"

lemma service_client_eq:
  assumes "take (MAX_LINE - 1 - length (cl_buf c)) got = chunk"
  shows "service_client io token got c b =
    (if chunk = [] then (False, [], drop_client c, b)
     else case serve_lines io token (cl_buf c @ chunk) c b of
            (exit_now, sent, rest, c, b) \<Rightarrow>
              if cl_fd c < 0 then (exit_now, sent, c, b)
              else if length rest \<ge> MAX_LINE - 1 then (exit_now, sent @ [too_long], drop_client (c\<lparr>cl_buf := rest\<rparr>), b)
              else (exit_now, sent, c\<lparr>cl_buf := rest\<rparr>, b))"
  unfolding service_client_def assms Let_def too_long_def ..

section \<open>The table of clients\<close>

record 'b server =
  sv_clients :: "client list"
  sv_service :: 'b
  sv_exit :: bool

definition free_client :: client where
  "free_client = \<lparr>cl_fd = - 1, cl_authenticated = False, cl_buf = []\<rparr>"

text \<open>The settings of a run that is accepted: the token and the users allowed on a unix socket.\<close>

definition control_setup :: "string \<Rightarrow> string option \<Rightarrow> nat \<Rightarrow> nat list \<Rightarrow> nat list option" where
  "control_setup spec token euid allow_uids =
     (if starts_with ''tcp:'' spec \<and> \<not> needs_auth token then None
      else if length allow_uids > MAX_ALLOWED_UIDS then None
      else Some (euid # 0 # allow_uids))"

definition free_slot :: "client list \<Rightarrow> nat option" where
  "free_slot cs = find (\<lambda>i. cl_fd (cs ! i) < 0) [0..<length cs]"

text \<open>A connection accepted by the kernel with descriptor \<open>fd\<close>; texts sent to it when it is refused.\<close>

definition accept_client ::
  "bool \<Rightarrow> nat list \<Rightarrow> int \<Rightarrow> nat option \<Rightarrow> client list \<Rightarrow> string list \<times> client list" where
  "accept_client unix_listener allowed fd uid cs =
     (if fd < 0 then ([], cs)
      else if unix_listener \<and> \<not> peer_allowed allowed uid then ([''{\"error\":\"permission denied\"}''], cs)
      else case free_slot cs of
             None \<Rightarrow> ([''{\"error\":\"too many clients\"}''], cs)
           | Some i \<Rightarrow> ([], cs[i := \<lparr>cl_fd = fd, cl_authenticated = False, cl_buf = []\<rparr>]))"

text \<open>What one round of the poll loop found: a connection, and the slots that became readable.\<close>

record poll_round =
  pr_accept :: "(int \<times> nat option) option"
  pr_ready :: "nat \<Rightarrow> string option"

fun serve_ready ::
  "'b server_io \<Rightarrow> string option \<Rightarrow> (nat \<times> string) list \<Rightarrow> 'b server \<Rightarrow> 'b server" where
  "serve_ready io token [] s = s"
| "serve_ready io token ((i, got) # more_ready) s =
     (if sv_exit s then s
      else
        case service_client io token got (sv_clients s ! i) (sv_service s) of
          (exit_now, sent, c, b) \<Rightarrow>
            serve_ready io token more_ready
              (s\<lparr>sv_clients := (sv_clients s)[i := c], sv_service := b, sv_exit := exit_now\<rparr>))"

text \<open>Only clients connected before the round was polled are served in it.\<close>

definition control_round ::
  "'b server_io \<Rightarrow> string option \<Rightarrow> bool \<Rightarrow> nat list \<Rightarrow> poll_round \<Rightarrow> 'b server \<Rightarrow> 'b server" where
  "control_round io token unix_listener allowed r s =
     (if sv_exit s then s
      else
        let polled = concat (map (\<lambda>i. case pr_ready r i of
                                         Some got \<Rightarrow> if cl_fd (sv_clients s ! i) \<ge> 0 then [(i, got)] else []
                                       | None \<Rightarrow> []) [0..<length (sv_clients s)]);
            s = (case pr_accept r of
                   None \<Rightarrow> s
                 | Some (fd, uid) \<Rightarrow> s\<lparr>sv_clients := snd (accept_client unix_listener allowed fd uid (sv_clients s))\<rparr>)
        in serve_ready io token polled s)"

definition server_start :: "'b \<Rightarrow> 'b server" where
  "server_start b = \<lparr>sv_clients = replicate MAX_CLIENTS free_client, sv_service = b, sv_exit = False\<rparr>"

section \<open>Tokens\<close>

lemma fold_or_zero:
  fixes w :: u8
  shows "fold (\<lambda>i d. d OR f i) xs w = 0 \<longleftrightarrow> w = 0 \<and> (\<forall>i\<in>set xs. f i = 0)"
  by (induction xs arbitrary: w) (auto simp: or_eq_0_iff)

lemma char_byte_inj: "char_byte a = char_byte b \<longleftrightarrow> a = b"
proof
  assume "char_byte a = char_byte b"
  then have "unat (char_byte a) = unat (char_byte b)" by simp
  moreover have "code_of c < 256" for c by (simp add: of_char_def)
  ultimately show "a = b" by (simp add: char_byte_def unsigned_of_nat take_bit_nat_eq_self)
qed simp

lemma constant_time_equals_eq: "constant_time_equals a b \<longleftrightarrow> a = b"
proof
  assume eq: "constant_time_equals a b"
  then have len: "length a = length b"
    by (auto simp: constant_time_equals_def fold_or_zero split: if_splits)
  show "a = b"
  proof (rule nth_equalityI [OF len])
    fix i assume i: "i < length a"
    then have "b \<noteq> []" "i mod length b = i" using len by auto
    moreover have "\<forall>i\<in>{0..<length a}. char_byte (a ! i) XOR (if b = [] then 0 else char_byte (b ! (i mod length b))) = 0"
      using eq by (simp add: constant_time_equals_def fold_or_zero)
    ultimately have "char_byte (a ! i) XOR char_byte (b ! i) = 0" using i by (metis atLeastLessThan_iff le0)
    then have "char_byte (a ! i) = char_byte (b ! i)" by (metis xor.assoc xor.left_neutral xor.right_neutral xor_self_eq)
    then show "a ! i = b ! i" by (simp add: char_byte_inj)
  qed
next
  assume "a = b"
  then show "constant_time_equals a b" by (auto simp: constant_time_equals_def fold_or_zero)
qed

section \<open>Unauthenticated clients\<close>

text \<open>A line that is a hello with the right token.\<close>

definition presents_token :: "'b server_io \<Rightarrow> string \<Rightarrow> string \<Rightarrow> bool" where
  "presents_token io token line \<longleftrightarrow>
     command_name (s_parse io line) = Some ''hello'' \<and>
     get_object_item (get_object_item (s_parse io line) ''params'') ''token'' = Some (J_str token)"

text \<open>
  The only texts such a client is sent: fixed ones, that carry nothing of the log, of the service or of the
  version. One of them is the last thing the client gets, for it is dropped.
\<close>

definition refusals :: "string list" where
  "refusals =
     [''{\"error\":\"authentication failed\"}'',
      ''{\"error\":\"authenticate with '' @ [CHR 0x27] @ ''hello'' @ [CHR 0x27] @ '' first\"}'',
      ''{\"error\":\"request line too long\"}'']"

definition only_refused :: "string list \<Rightarrow> client \<Rightarrow> bool" where
  "only_refused sent c \<longleftrightarrow> sent = [] \<or> cl_fd c < 0 \<and> length sent = 1 \<and> hd sent \<in> set refusals"

lemma handle_line_unauthenticated:
  assumes "token \<noteq> []" and "\<not> cl_authenticated c" and "\<not> presents_token io token line"
    and "handle_line io (Some token) line c b = (exit_now, sent, c', b')"
  shows "\<not> exit_now \<and> b' = b \<and> cl_fd c' < 0 \<and> \<not> cl_authenticated c' \<and> only_refused sent c'"
  using assms
  by (auto simp: only_refused_def refusals_def handle_line_def needs_auth_def hello_token_ok_def presents_token_def constant_time_equals_eq
      drop_client_def Let_def split: if_splits option.splits json.splits prod.splits)

lemma sublist_line: "line_end buf \<Longrightarrow> sublist (strip_cr (first_line buf)) buf"
proof -
  have "sublist (first_line buf) buf" by (simp add: first_line_def sublist_takeWhile)
  moreover have "sublist (strip_cr l) l" for l by (simp add: strip_cr_def sublist_butlast)
  ultimately show ?thesis using sublist_order.order_trans by blast
qed

lemma serve_lines_unauthenticated:
  assumes "token \<noteq> []" and "\<not> cl_authenticated c" and "\<forall>l. sublist l buf \<longrightarrow> \<not> presents_token io token l"
    and "serve_lines io (Some token) buf c b = (exit_now, sent, rest, c', b')"
  shows "\<not> exit_now \<and> b' = b \<and> \<not> cl_authenticated c' \<and> only_refused sent c'"
  using assms
proof (induction io "Some token" buf c b arbitrary: exit_now sent rest c' b' rule: serve_lines.induct)
  case (1 io buf c b)
  show ?case
  proof (cases "line_end buf")
    case False
    then show ?thesis using 1 by (simp add: serve_lines.simps [of io _ buf] only_refused_def)
  next
    case True
    obtain e1 s1 c1 b1 where l: "serve_line io (Some token) (first_line buf) c b = (e1, s1, c1, b1)"
      by (metis prod_cases4)
    have np: "\<not> presents_token io token (strip_cr (first_line buf))" using 1(4) sublist_line [OF True] by blast
    have s: "\<not> e1 \<and> b1 = b \<and> \<not> cl_authenticated c1 \<and> only_refused s1 c1"
      using l 1(3) handle_line_unauthenticated [OF 1(2,3) np, of b e1 s1 c1 b1]
      by (auto simp: serve_line_def only_refused_def Let_def split: if_splits)
    show ?thesis
    proof (cases "cl_fd c1 < 0")
      case True
      then show ?thesis using 1(5) s l \<open>line_end buf\<close> by (simp add: serve_lines.simps [of io _ buf])
    next
      case False
      have sub: "\<forall>l. sublist l (after_line buf) \<longrightarrow> \<not> presents_token io token l"
        using 1(4) sublist_drop sublist_order.order_trans unfolding after_line_def by blast
      obtain e2 s2 r2 c2 b2 where r: "serve_lines io (Some token) (after_line buf) c1 b1 = (e2, s2, r2, c2, b2)"
        by (metis prod_cases5)
      have "\<not> e2 \<and> b2 = b1 \<and> \<not> cl_authenticated c2 \<and> only_refused s2 c2"
        using 1(1) [OF _ l [symmetric] refl refl _ 1(2) _ sub r] True False s by simp
      then show ?thesis using 1(5) s l r True False
        by (auto simp: serve_lines.simps [of io _ buf] only_refused_def)
    qed
  qed
qed

lemma service_unauthenticated:
  assumes "token \<noteq> []" and "\<not> cl_authenticated c"
    and "\<forall>l. sublist l (cl_buf c @ got) \<longrightarrow> \<not> presents_token io token l"
    and "service_client io (Some token) got c b = (exit_now, sent, c', b')"
  shows "\<not> exit_now \<and> b' = b \<and> \<not> cl_authenticated c' \<and> only_refused sent c'"
proof -
  define chunk where "chunk = take (MAX_LINE - 1 - length (cl_buf c)) got"
  have "sublist (cl_buf c @ chunk) (cl_buf c @ got)"
    by (metis append_assoc append_take_drop_id chunk_def sublist_append_rightI)
  then have sub: "\<forall>l. sublist l (cl_buf c @ chunk) \<longrightarrow> \<not> presents_token io token l"
    using assms(3) sublist_order.order_trans by blast
  obtain e s r d b1 where l: "serve_lines io (Some token) (cl_buf c @ chunk) c b = (e, s, r, d, b1)"
    by (metis prod_cases5)
  from serve_lines_unauthenticated [OF assms(1,2) sub l] show ?thesis
    using assms(2,4) unfolding service_client_eq [OF chunk_def [symmetric]] l
    by (auto simp: drop_client_def only_refused_def refusals_def too_long_def split: if_splits)
qed

section \<open>Chunks\<close>

lemma line_end_append:
  assumes "line_end x" and "CHR 0x00 \<notin> set y"
  shows "line_end (x @ y)" "first_line (x @ y) = first_line x" "after_line (x @ y) = after_line x @ y"
proof -
  have lf: "CHR 0x0A \<in> set x" using assms(1) set_takeWhileD unfolding line_end_def by metis
  show "line_end (x @ y)"
  proof (cases "CHR 0x00 \<in> set x")
    case True
    then have "takeWhile (\<lambda>c. c \<noteq> CHR 0x00) (x @ y) = takeWhile (\<lambda>c. c \<noteq> CHR 0x00) x"
      by (rule takeWhile_append1) simp
    then show ?thesis using assms(1) by (simp only: line_end_def)
  next
    case False
    then have "takeWhile (\<lambda>c. c \<noteq> CHR 0x00) (x @ y) = x @ takeWhile (\<lambda>c. c \<noteq> CHR 0x00) y"
      by (intro takeWhile_append2) metis
    then show ?thesis using lf by (simp only: line_end_def set_append Un_iff simp_thms)
  qed
  show f: "first_line (x @ y) = first_line x" using lf by (simp add: first_line_def takeWhile_append1)
  have "length (first_line x) < length x" using lf by (induction x) (auto simp: first_line_def)
  then show "after_line (x @ y) = after_line x @ y" by (simp add: after_line_def f)
qed

lemma serve_lines_append:
  assumes "CHR 0x00 \<notin> set y" and "serve_lines io token x c b = (False, sent, rest, c', b')" and "\<not> cl_fd c' < 0"
  shows "serve_lines io token (x @ y) c b =
    (case serve_lines io token (rest @ y) c' b' of (e, later, r, d, b2) \<Rightarrow> (e, sent @ later, r, d, b2))"
  using assms
proof (induction io token x c b arbitrary: sent rest c' b' rule: serve_lines.induct)
  case (1 io token x c b)
  show ?case
  proof (cases "line_end x")
    case False
    then have "sent = []" "rest = x" "c' = c" "b' = b" using 1(3) by (simp_all add: serve_lines.simps [of io token x])
    then show ?thesis by (simp add: case_prod_unfold)
  next
    case True
    note a = line_end_append [OF True 1(2)]
    obtain e1 s1 c1 b1 where l: "serve_line io token (first_line x) c b = (e1, s1, c1, b1)" by (metis prod_cases4)
    have go: "\<not> (e1 \<or> cl_fd c1 < 0)"
      using 1(3,4) l True by (auto simp: serve_lines.simps [of io token x] split: if_splits)
    obtain s2 where r: "serve_lines io token (after_line x) c1 b1 = (False, s2, rest, c', b')" "sent = s1 @ s2"
      using 1(3) l True go by (auto simp: serve_lines.simps [of io token x] split: prod.splits)
    have "serve_lines io token (after_line x @ y) c1 b1 =
        (case serve_lines io token (rest @ y) c' b' of (e, later, r, d, b2) \<Rightarrow> (e, s2 @ later, r, d, b2))"
      using 1(1) [OF _ l [symmetric] refl refl go 1(2) r(1) 1(4)] True by simp
    then show ?thesis
      using l go a by (simp add: serve_lines.simps [of io token "x @ y"] r(2) case_prod_unfold)
  qed
qed

lemma serve_lines_rest: "serve_lines io token x c b = (e, sent, rest, c', b') \<Longrightarrow> length rest \<le> length x"
proof (induction io token x c b arbitrary: e sent rest c' b' rule: serve_lines.induct)
  case (1 io token x c b)
  show ?case
  proof (cases "line_end x")
    case False
    then show ?thesis using 1(2) by (simp add: serve_lines.simps [of io token x])
  next
    case True
    obtain e1 s1 c1 b1 where l: "serve_line io token (first_line x) c b = (e1, s1, c1, b1)" by (metis prod_cases4)
    obtain e2 s2 r2 c2 b2 where r: "serve_lines io token (after_line x) c1 b1 = (e2, s2, r2, c2, b2)" by (metis prod_cases5)
    have "\<not> (e1 \<or> cl_fd c1 < 0) \<Longrightarrow> length r2 \<le> length (after_line x)"
      using 1(1) [OF _ l [symmetric] refl refl _ r] True by simp
    then show ?thesis
      using 1(2) l r True after_line_shorter [OF True] by (auto simp: serve_lines.simps [of io token x] split: if_splits)
  qed
qed

text \<open>A client's buffer plays no part while its lines are served.\<close>

definition with_buf :: "string \<Rightarrow> client \<Rightarrow> client" where
  "with_buf z d = (if cl_fd d < 0 then d else d\<lparr>cl_buf := z\<rparr>)"

lemma drop_client_free [simp]:
  "drop_client c = free_client" "cl_fd free_client < 0" "cl_buf free_client = []" "Suc 0 < MAX_LINE"
  by (simp_all add: drop_client_def free_client_def MAX_LINE_def)

lemma serve_line_buf:
  assumes "\<not> cl_fd c < 0" and "serve_line io token l c b = (e, s, d, b2)"
  shows "serve_line io token l (c\<lparr>cl_buf := z\<rparr>) b = (e, s, with_buf z d, b2) \<and> (cl_fd d < 0 \<longrightarrow> d = free_client)"
  using assms by (auto simp: serve_line_def handle_line_def with_buf_def Let_def split: if_splits prod.splits)

lemma serve_lines_buf:
  assumes "\<not> cl_fd c < 0" and "serve_lines io token x c b = (e, s, r, d, b2)"
  shows "serve_lines io token x (c\<lparr>cl_buf := z\<rparr>) b = (e, s, r, with_buf z d, b2) \<and> (cl_fd d < 0 \<longrightarrow> d = free_client)"
  using assms
proof (induction io token x c b arbitrary: e s r d b2 rule: serve_lines.induct)
  case (1 io token x c b)
  show ?case
  proof (cases "line_end x")
    case False
    then have "serve_lines io token x k b = (False, [], x, k, b)" for k by (simp add: serve_lines.simps [of io token x])
    then show ?thesis using 1(2,3) by (auto simp: with_buf_def)
  next
    case True
    obtain e1 s1 c1 b1 where l: "serve_line io token (first_line x) c b = (e1, s1, c1, b1)" by (metis prod_cases4)
    note l' = serve_line_buf [OF 1(2) l, of z]
    show ?thesis
    proof (cases "e1 \<or> cl_fd c1 < 0")
      case stop: True
      then show ?thesis using 1(3) l l' True by (auto simp: serve_lines.simps [of io token x] with_buf_def split: if_splits)
    next
      case go: False
      obtain e2 s2 r2 c2 d2 where r: "serve_lines io token (after_line x) c1 b1 = (e2, s2, r2, c2, d2)" by (metis prod_cases5)
      have "serve_lines io token (after_line x) (c1\<lparr>cl_buf := z\<rparr>) b1 = (e2, s2, r2, with_buf z c2, d2) \<and>
          (cl_fd c2 < 0 \<longrightarrow> c2 = free_client)"
        using 1(1) [OF _ l [symmetric] refl refl go _ r] True go by simp
      then show ?thesis using 1(3) l l' r True go by (auto simp: serve_lines.simps [of io token x] with_buf_def)
    qed
  qed
qed

lemma service_chunks:
  assumes "CHR 0x00 \<notin> set y" and "x \<noteq> []" and "y \<noteq> []"
    and "length (cl_buf c) + length x + length y < MAX_LINE - 1" and "\<not> cl_fd c < 0"
    and "service_client io token x c b = (False, sent, c', b')" and "\<not> cl_fd c' < 0"
  shows "service_client io token (x @ y) c b =
    (case service_client io token y c' b' of (e, later, d, b2) \<Rightarrow> (e, sent @ later, d, b2))"
proof -
  have tx: "take (MAX_LINE - 1 - length (cl_buf c)) x = x" "take (MAX_LINE - 1 - length (cl_buf c)) (x @ y) = x @ y"
    using assms(4) by simp_all
  obtain e1 s1 rest c1 b1 where l: "serve_lines io token (cl_buf c @ x) c b = (e1, s1, rest, c1, b1)" by (metis prod_cases5)
  have go: "\<not> e1" "\<not> cl_fd c1 < 0" "c' = c1\<lparr>cl_buf := rest\<rparr>" "sent = s1" "b' = b1"
    using assms(2,6,7) unfolding service_client_eq [OF tx(1)] l by (auto split: if_splits)
  have "length rest \<le> length (cl_buf c) + length x" using serve_lines_rest [OF l] by simp
  then have ty: "take (MAX_LINE - 1 - length (cl_buf c')) y = y" using assms(4) go(3) by simp
  obtain e2 s2 r2 c2 b2 where r: "serve_lines io token (rest @ y) c1 b1 = (e2, s2, r2, c2, b2)" by (metis prod_cases5)
  note r' = serve_lines_buf [OF go(2) r, of rest]
  have "serve_lines io token ((cl_buf c @ x) @ y) c b = (e2, s1 @ s2, r2, c2, b2)"
    using serve_lines_append [OF assms(1) l [simplified go(1)] go(2)] r go(1) l by (cases e1) simp_all
  then show ?thesis
    using assms(2,3) r' unfolding service_client_eq [OF tx(2)] service_client_eq [OF ty]
    by (auto simp: go with_buf_def)
qed

section \<open>Clients stay within their buffers\<close>

definition client_ok :: "client \<Rightarrow> bool" where
  "client_ok c \<longleftrightarrow> length (cl_buf c) < MAX_LINE - 1 \<and> (cl_fd c < 0 \<longrightarrow> c = free_client)"

definition server_ok :: "'b server \<Rightarrow> bool" where
  "server_ok s \<longleftrightarrow> length (sv_clients s) = MAX_CLIENTS \<and> (\<forall>c\<in>set (sv_clients s). client_ok c)"

lemma free_client_ok [simp]: "client_ok free_client"
  by (simp add: client_ok_def free_client_def MAX_LINE_def)

lemma service_client_ok:
  assumes "\<not> cl_fd c < 0" and "service_client io token got c b = (e, sent, c', b')"
  shows "client_ok c'"
proof -
  define chunk where "chunk = take (MAX_LINE - 1 - length (cl_buf c)) got"
  obtain e1 s1 rest c1 b1 where l: "serve_lines io token (cl_buf c @ chunk) c b = (e1, s1, rest, c1, b1)" by (metis prod_cases5)
  then show ?thesis
    using assms(2) serve_lines_buf [OF assms(1) l]
    unfolding service_client_eq [OF chunk_def [symmetric]] l by (auto simp: client_ok_def split: if_splits)
qed

lemma serve_ready_ok:
  assumes "server_ok s" and "distinct (map fst rs)"
    and "\<forall>(i, got)\<in>set rs. i < length (sv_clients s) \<and> \<not> cl_fd (sv_clients s ! i) < 0"
  shows "server_ok (serve_ready io token rs s)"
  using assms
proof (induction io token rs s rule: serve_ready.induct)
  case (2 io token i got rs s)
  obtain e sent c b where l: "service_client io token got (sv_clients s ! i) (sv_service s) = (e, sent, c, b)"
    by (metis prod_cases4)
  have i: "i < length (sv_clients s)" "\<not> cl_fd (sv_clients s ! i) < 0" using 2(4) by auto
  let ?t = "s\<lparr>sv_clients := (sv_clients s)[i := c], sv_service := b, sv_exit := e\<rparr>"
  have "server_ok ?t"
    using 2(2) service_client_ok [OF i(2) l] set_update_subset_insert [of "sv_clients s" i c]
    by (auto simp: server_ok_def)
  moreover have "\<forall>(j, g)\<in>set rs. j < length (sv_clients ?t) \<and> \<not> cl_fd (sv_clients ?t ! j) < 0"
    using 2(3,4) by (force simp: nth_list_update)
  ultimately show ?case using 2(1) [OF _ l [symmetric] refl refl] 2(2,3) l by simp
qed simp

lemma polled_distinct:
  "distinct (map fst (concat (map (\<lambda>i. case f i of Some g \<Rightarrow> if P i then [(i, g)] else [] | None \<Rightarrow> []) [0..<n])))"
proof -
  let ?h = "\<lambda>i. case f i of Some g \<Rightarrow> if P i then [(i, g)] else [] | None \<Rightarrow> []"
  have "fst ` set (?h i) \<subseteq> {i}" for i by (auto split: option.splits)
  then have "set (map fst (concat (map ?h [0..<n]))) \<subseteq> {0..<n}" for n by (fastforce split: option.splits)
  then show ?thesis by (induction n) (force split: option.splits)+
qed

lemma accept_client_ok:
  assumes "length cs = MAX_CLIENTS" and "\<forall>c\<in>set cs. client_ok c"
  shows "length (snd (accept_client u allowed fd uid cs)) = MAX_CLIENTS \<and>
    (\<forall>c\<in>set (snd (accept_client u allowed fd uid cs)). client_ok c)"
proof -
  have "\<not> fd < 0 \<Longrightarrow> client_ok \<lparr>cl_fd = fd, cl_authenticated = False, cl_buf = []\<rparr>"
    by (simp add: client_ok_def MAX_LINE_def)
  then show ?thesis
    using assms set_update_subset_insert [of cs] by (auto simp: accept_client_def split: option.split)
qed

lemma accept_keeps_connected:
  assumes "i < length cs" and "\<not> cl_fd (cs ! i) < 0"
  shows "snd (accept_client u allowed fd uid cs) ! i = cs ! i"
proof -
  have "free_slot cs = Some j \<Longrightarrow> j \<noteq> i" for j using assms(2) by (auto simp: free_slot_def find_Some_iff)
  then show ?thesis by (auto simp: accept_client_def split: option.split)
qed

lemma round_ok:
  assumes "server_ok s"
  shows "server_ok (control_round io token u allowed r s)"
proof (cases "sv_exit s")
  case False
  define t where "t = (case pr_accept r of
      None \<Rightarrow> s
    | Some (fd, uid) \<Rightarrow> s\<lparr>sv_clients := snd (accept_client u allowed fd uid (sv_clients s))\<rparr>)"
  let ?rs = "concat (map (\<lambda>i. case pr_ready r i of
      Some got \<Rightarrow> if cl_fd (sv_clients s ! i) \<ge> 0 then [(i, got)] else [] | None \<Rightarrow> []) [0..<length (sv_clients s)])"
  have t: "server_ok t" "length (sv_clients t) = length (sv_clients s)"
    "\<And>i. i < length (sv_clients s) \<Longrightarrow> \<not> cl_fd (sv_clients s ! i) < 0 \<Longrightarrow> sv_clients t ! i = sv_clients s ! i"
    using assms accept_client_ok [of "sv_clients s"] accept_keeps_connected [of _ "sv_clients s"]
    by (auto simp: t_def server_ok_def split: option.split)
  have "\<forall>(i, got)\<in>set ?rs. i < length (sv_clients t) \<and> \<not> cl_fd (sv_clients t ! i) < 0"
    using t(2,3) by (auto split: option.splits if_splits)
  from serve_ready_ok [OF t(1) polled_distinct this] show ?thesis
    using False by (simp add: control_round_def t_def [symmetric] Let_def)
qed (use assms in \<open>simp add: control_round_def\<close>)

lemma start_ok: "server_ok (server_start b)"
  by (simp add: server_ok_def server_start_def)

interpretation server: invariant_machine "\<lambda>s. \<exists>b. s = server_start b" "control_round io token u allowed" server_ok
  for io token u allowed
  by unfold_locales (auto intro: round_ok start_ok)

section \<open>The service behind the protocol\<close>

text \<open>
  What the server asks of the service: a predicate on its state that no command breaks. The server
  then keeps it through any traffic.
\<close>

locale command_service =
  fixes command :: "string \<Rightarrow> 'b \<Rightarrow> string \<times> 'b"
    and good :: "'b \<Rightarrow> bool"
  assumes command_good: "good b \<Longrightarrow> good (snd (command line b))"
begin

lemma serve_line_good:
  assumes "s_command io = command" and "good b" and "serve_line io token l c b = (e, s, d, b')"
  shows "good b'"
  using assms command_good [of b "strip_cr l"]
  by (auto simp: serve_line_def handle_line_def Let_def split: if_splits prod.splits)

lemma serve_lines_good:
  assumes "s_command io = command" and "good b" and "serve_lines io token x c b = (e, s, r, d, b')"
  shows "good b'"
  using assms
proof (induction io token x c b arbitrary: e s r d b' rule: serve_lines.induct)
  case (1 io token x c b)
  show ?case
  proof (cases "line_end x")
    case False
    then show ?thesis using 1(3,4) by (simp add: serve_lines.simps [of io token x])
  next
    case True
    obtain e1 s1 c1 b1 where l: "serve_line io token (first_line x) c b = (e1, s1, c1, b1)" by (metis prod_cases4)
    have g: "good b1" using serve_line_good [OF 1(2,3) l] .
    obtain e2 s2 r2 c2 b2 where r: "serve_lines io token (after_line x) c1 b1 = (e2, s2, r2, c2, b2)" by (metis prod_cases5)
    have "\<not> (e1 \<or> cl_fd c1 < 0) \<Longrightarrow> good b2" using 1(1) [OF _ l [symmetric] refl refl _ 1(2) g r] True by simp
    then show ?thesis using 1(4) l r g True by (auto simp: serve_lines.simps [of io token x] split: if_splits)
  qed
qed

lemma service_client_good:
  assumes "s_command io = command" and "good b" and "service_client io token got c b = (e, s, d, b')"
  shows "good b'"
proof -
  define chunk where "chunk = take (MAX_LINE - 1 - length (cl_buf c)) got"
  obtain e1 s1 rest c1 b1 where l: "serve_lines io token (cl_buf c @ chunk) c b = (e1, s1, rest, c1, b1)" by (metis prod_cases5)
  from serve_lines_good [OF assms(1,2) l] show ?thesis
    using assms(2,3) unfolding service_client_eq [OF chunk_def [symmetric]] l by (auto split: if_splits)
qed

lemma serve_ready_good:
  assumes "s_command io = command" and "good (sv_service s)"
  shows "good (sv_service (serve_ready io token rs s))"
  using assms
proof (induction io token rs s rule: serve_ready.induct)
  case (2 io token i got rs s)
  obtain e sent c b where l: "service_client io token got (sv_clients s ! i) (sv_service s) = (e, sent, c, b)"
    by (metis prod_cases4)
  then show ?case using 2(1) [OF _ l [symmetric] refl refl] 2(2,3) service_client_good [OF 2(2,3) l] by simp
qed simp

lemma round_good:
  assumes "s_command io = command" and "good (sv_service s)"
  shows "good (sv_service (control_round io token u allowed r s))"
  using assms(2) serve_ready_good [OF assms(1)]
  by (auto simp: control_round_def Let_def split: option.split)

lemma run_good:
  assumes "s_command io = command" and "good b"
  shows "good (sv_service (fold (control_round io token u allowed) rs (server_start b)))"
proof -
  have "good (sv_service s) \<Longrightarrow> good (sv_service (fold (control_round io token u allowed) rs s))" for s
    by (induction rs arbitrary: s) (simp_all add: round_good [OF assms(1)])
  then show ?thesis using assms(2) by (simp add: server_start_def)
qed

end

section \<open>Properties\<close>

definition example_server_io :: "nat server_io" where
  "example_server_io =
     \<lparr>s_parse = (\<lambda>_. None), s_print = (\<lambda>_. None), s_command = (\<lambda>_ n. (''ok'', n + 1)), s_log = log_init\<rparr>"

definition example_client :: client where
  "example_client = \<lparr>cl_fd = 5, cl_authenticated = False, cl_buf = []\<rparr>"

text \<open>
  C12: with a token set, a client that has not authenticated cannot make the server run a command or
  exit, whatever it sends, as long as no line among the bytes it sent is a hello with that token. It
  stays unauthenticated, and it learns nothing: it is sent nothing at all, or one of three fixed error
  texts, neither the log nor the reply to a command, and is disconnected with that.
\<close>

theorem unauthenticated_clients_harmless:
  assumes "token \<noteq> []" and "\<not> cl_authenticated c"
    and "\<forall>l. sublist l (cl_buf c @ got) \<longrightarrow> \<not> presents_token io token l"
    and "service_client io (Some token) got c b = (exit_now, sent, c', b')"
  shows "\<not> exit_now \<and> b' = b \<and> \<not> cl_authenticated c' \<and>
    (sent = [] \<or>
     cl_fd c' < 0 \<and>
       (sent = [''{\"error\":\"authentication failed\"}''] \<or>
        sent = [''{\"error\":\"authenticate with '' @ [CHR 0x27] @ ''hello'' @ [CHR 0x27] @ '' first\"}''] \<or>
        sent = [''{\"error\":\"request line too long\"}'']))"
proof -
  have "\<exists>x. sent = [x] \<and> x \<in> set refusals" if "length sent = 1" "hd sent \<in> set refusals"
    using that by (cases sent) auto
  then show ?thesis using service_unauthenticated [OF assms] by (auto simp: only_refused_def refusals_def)
qed

text \<open>A client that asks for the log before its hello: the log is not what it gets.\<close>

definition logging_server_io :: "nat server_io" where
  "logging_server_io =
     \<lparr>s_parse = (\<lambda>l. if l = ''L'' then Some (J_obj [(''command'', J_str ''logs'')]) else None),
      s_print = (\<lambda>_. Some ''secret''), s_command = (\<lambda>_ n. (''ok'', n + 1)), s_log = log_init\<rparr>"

theorem unauthenticated_clients_harmless_witness:
  "\<exists>sent c'. service_client logging_server_io (Some ''t'') (''L'' @ [CHR 0x0A]) example_client 0 = (False, sent, c', 0) \<and>
     sent = [''{\"error\":\"authenticate with '' @ [CHR 0x27] @ ''hello'' @ [CHR 0x27] @ '' first\"}''] \<and>
     cl_fd c' < 0 \<and> \<not> cl_authenticated c'"
proof -
  let ?got = "''L'' @ [CHR 0x0A]"
  obtain e s c' b' where r: "service_client logging_server_io (Some ''t'') ?got example_client 0 = (e, s, c', b')"
    by (metis prod_cases4)
  have line: "line_end ?got" "first_line ?got = ''L''" "strip_cr ''L'' = ''L''"
    by (simp_all add: line_end_def first_line_def strip_cr_def)
  have "\<forall>l. \<not> presents_token logging_server_io ''t'' l"
    by (auto simp: presents_token_def command_name_def get_object_item_def logging_server_io_def)
  then have "\<forall>l. sublist l (cl_buf example_client @ ?got) \<longrightarrow> \<not> presents_token logging_server_io ''t'' l" by blast
  from unauthenticated_clients_harmless [OF _ _ this r] have "\<not> e \<and> b' = 0 \<and> \<not> cl_authenticated c'"
    by (simp add: example_client_def)
  moreover have "s = [''{\"error\":\"authenticate with '' @ [CHR 0x27] @ ''hello'' @ [CHR 0x27] @ '' first\"}''] \<and> cl_fd c' < 0"
    using r line
    by (auto simp: service_client_def serve_lines.simps [of _ _ "[CHR ''L'', CHR 0x0A]"] serve_line_def handle_line_def
        example_client_def logging_server_io_def command_name_def get_object_item_def needs_auth_def
        drop_client_def MAX_LINE_def Let_def)
  ultimately show ?thesis using r by auto
qed

text \<open>
  C32: how a client's bytes are split into reads does not matter: serving one read and then another
  gives the same replies, client and service state as serving both at once, while the client stays
  connected and the bytes fit its buffer.
\<close>

theorem chunks_do_not_matter:
  assumes "CHR 0x00 \<notin> set y" and "x \<noteq> []" and "y \<noteq> []"
    and "length (cl_buf c) + length x + length y < MAX_LINE - 1" and "\<not> cl_fd c < 0"
    and "service_client io token x c b = (False, sent, c', b')" and "\<not> cl_fd c' < 0"
  shows "service_client io token (x @ y) c b =
    (case service_client io token y c' b' of (e, later, d, b2) \<Rightarrow> (e, sent @ later, d, b2))"
  by (rule service_chunks [OF assms])

theorem chunks_do_not_matter_witness:
  "service_client example_server_io None (''st'' @ (''op'' @ [CHR 0x0A])) example_client 0 =
    (case service_client example_server_io None (''op'' @ [CHR 0x0A]) (example_client\<lparr>cl_buf := ''st''\<rparr>) 0 of
       (e, later, d, b2) \<Rightarrow> (e, [] @ later, d, b2))"
proof (rule chunks_do_not_matter)
  show "service_client example_server_io None ''st'' example_client 0 = (False, [], example_client\<lparr>cl_buf := ''st''\<rparr>, 0)"
    by (simp add: service_client_def serve_lines.simps [of _ _ "''st''"] example_client_def line_end_def MAX_LINE_def Let_def)
qed (simp_all add: example_client_def MAX_LINE_def)

text \<open>
  In every state the server reaches there are eight client slots, no client has more bytes
  pending than its buffer holds with its terminator, and a free slot keeps neither bytes nor the
  authentication of the client before.
\<close>

theorem server_clients_bounded:
  "let s = fold (control_round io token u allowed) rounds (server_start b)
   in length (sv_clients s) = 8 \<and>
      list_all (\<lambda>c. length (cl_buf c) < 65535 \<and> (cl_fd c < 0 \<longrightarrow> \<not> cl_authenticated c \<and> cl_buf c = [])) (sv_clients s)"
proof -
  have "server_ok (fold (control_round io token u allowed) rounds (server_start b))"
    by (rule server.run_init_inv) blast
  then show ?thesis
    by (auto simp: server_ok_def client_ok_def Let_def list_all_iff MAX_CLIENTS_def MAX_LINE_def free_client_def)
qed

theorem server_clients_bounded_witness:
  "length (sv_clients (fold (control_round example_server_io None True [0])
     [\<lparr>pr_accept = Some (5, Some 0), pr_ready = (\<lambda>_. None)\<rparr>] (server_start 0))) = 8"
  using server_clients_bounded [of example_server_io None True "[0]"
      "[\<lparr>pr_accept = Some (5, Some 0), pr_ready = (\<lambda>_. None)\<rparr>]" 0]
  by (simp only: Let_def)

text \<open>
  The server listens only locally: on a unix socket, whose peers must then run as the daemon's
  user, root or an allowed user, or on a loopback address with a non-empty token.
\<close>

theorem control_is_local:
  assumes "control_setup spec token euid allow_uids = Some allowed" and "open_listener bind spec = Some (fd, unix_listener)"
  shows "(unix_listener \<and> (\<exists>path. bind (Listen_unix path) = Some fd \<and> path \<noteq> [] \<and> length path < 108) \<or>
      \<not> unix_listener \<and> needs_auth token \<and>
        (\<exists>a port. bind (Listen_tcp a port) = Some fd \<and> is_loopback a \<and> port \<noteq> 0)) \<and>
    (\<forall>cfd uid cs. unix_listener \<and> uid \<notin> Some ` (insert euid (insert 0 (set allow_uids))) \<longrightarrow>
       snd (accept_client unix_listener allowed cfd uid cs) = cs)"
proof
  have al: "allowed = euid # 0 # allow_uids" and tok: "starts_with ''tcp:'' spec \<Longrightarrow> needs_auth token"
    using assms(1) by (auto simp: control_setup_def split: if_splits)
  have port: "0 < p \<Longrightarrow> p \<le> 65535 \<Longrightarrow> (of_int p :: u16) \<noteq> 0" for p
  proof
    assume p: "0 < p" "p \<le> 65535" and "(of_int p :: u16) = 0"
    then have "uint (of_int p :: u16) = 0" by simp
    then show False using p by (simp add: unsigned_of_int take_bit_int_eq_self)
  qed
  show "unix_listener \<and> (\<exists>path. bind (Listen_unix path) = Some fd \<and> path \<noteq> [] \<and> length path < 108) \<or>
      \<not> unix_listener \<and> needs_auth token \<and>
        (\<exists>a port. bind (Listen_tcp a port) = Some fd \<and> is_loopback a \<and> port \<noteq> 0)"
    using assms(2) tok port
    by (auto simp: open_listener_def is_loopback_def sun_path_size_def Let_def not_le split: if_splits option.splits prod.splits)
      (metis linorder_not_less)
  show "\<forall>cfd uid cs. unix_listener \<and> uid \<notin> Some ` (insert euid (insert 0 (set allow_uids))) \<longrightarrow>
       snd (accept_client unix_listener allowed cfd uid cs) = cs"
    by (auto simp: accept_client_def peer_allowed_def al split: option.split)
qed

theorem control_is_local_witness:
  "snd (accept_client True [1000, 0] 5 (Some 33) [free_client]) = [free_client]"
proof -
  have "control_setup ''unix:/run/e'' None 1000 [] = Some [1000, 0]"
    by (simp add: control_setup_def starts_with_def)
  moreover have "open_listener (\<lambda>_. Some 3) ''unix:/run/e'' = Some (3, True)"
    by (simp add: open_listener_def starts_with_def sun_path_size_def)
  ultimately show ?thesis
    using control_is_local [of "''unix:/run/e''" None 1000 "[]" "[1000, 0]" "\<lambda>_. Some 3" 3 True] by simp
qed

end
