(* ===== verification/Daemon.thy ===== *)
theory Daemon
  imports Commands Control Bus_Sound
begin

text \<open>
  The control server and the bus together. The masters a daemon holds keep, through any traffic on
  the control socket, the form that the configuration parser gave them: at most the allowed number,
  each well formed, each on an interface of its own. \<open>command_service\<close>, the interface between the
  two parts, is interpreted on the bus commands.
\<close>

section \<open>Commands and configurations\<close>

definition configs_ok :: "ecat_config list \<Rightarrow> bool" where
  "configs_ok cs \<longleftrightarrow>
     length cs \<le> ECAT_MAX_MASTERS \<and> distinct (map (\<lambda>c. interface (c_master c)) cs) \<and> list_all config_wf cs"

abbreviation master_configs :: "'d ecat_master_instance list \<Rightarrow> ecat_config list" where
  "master_configs ms \<equiv> map i_config ms"

definition daemon_ok :: "('d, 'w) daemon \<Rightarrow> bool" where
  "daemon_ok dm \<longleftrightarrow> configs_ok (master_configs (g_masters (dm_bus dm)))"

lemma start_masters_config:
  "master_configs (snd (snd (start_masters E ub ts h ms))) = master_configs ms"
proof (induction E ub ts h ms rule: start_masters.induct)
  case (2 E ub ts h inst ms)
  let ?t = "case ts of [] \<Rightarrow> (True, True) | x # _ \<Rightarrow> x"
  let ?one = "if exchanging (i_bus_state inst) then (True, h, inst)
    else if i_bus_state inst \<notin> {ECAT_STATE_IDLE, ECAT_STATE_STOPPED, ECAT_STATE_ERROR} then (False, h, inst)
    else start_single_master E ub (fst ?t) (snd ?t) h inst"
  obtain ok h1 x where one: "?one = (ok, h1, x)" by (metis prod_cases3)
  have c: "i_config x = i_config inst"
    using one start_result [of E ub "fst ?t" "snd ?t" h inst ok h1 x] by (simp split: if_splits)
  obtain n h2 xs where rest: "start_masters E ub (tl ts) h1 ms = (n, h2, xs)" by (metis prod_cases3)
  have "master_configs xs = master_configs ms" using 2 [OF refl one [symmetric] refl] rest by simp
  then show ?case using c rest unfolding start_masters.simps Let_def one by simp
qed simp

lemma stop_masters_config: "master_configs (snd (stop_masters E h ms)) = master_configs ms"
proof (induction E h ms rule: stop_masters.induct)
  case (2 E h inst ms)
  obtain h1 x where s: "stop_single_master E h inst = (h1, x)" by force
  then have "i_config x = i_config inst" using stop_result [OF s] by (auto split: if_splits)
  then show ?case using 2 [OF s [symmetric]] s by (simp add: case_prod_unfold)
qed simp

lemma open_sessions_config: "master_configs (snd (open_sessions x ep i ms)) = master_configs ms"
proof (induction x ep i ms rule: open_sessions.induct)
  case (2 x ep i inst ms)
  obtain r y where o: "ecat_data_open ep (x_sock x i) (x_session x i) inst = (r, y)" by force
  then have "i_config y = i_config inst"
    by (auto simp: ecat_data_open_def Let_def split: option.splits if_splits prod.splits)
  then show ?case using 2(1) 2(2) [OF _ o [symmetric]] o by (cases r) (simp_all add: case_prod_unfold)
qed simp

lemma configure_ok:
  assumes "ecat_bus_configure S mem pmem cJSON_Parse locks path file b = (ok, b')"
    and "configs_ok (master_configs (g_masters b))"
  shows "configs_ok (master_configs (g_masters b'))"
proof -
  define fresh where "fresh = (\<lambda>nc. set_bus_state ECAT_STATE_IDLE
    ((ecat_data_init (new_instance S nc))\<lparr>i_diag := diag_reset\<rparr>))"
  have f: "i_config (fresh nc) = snd nc" for nc
    by (simp add: fresh_def set_bus_state_def ecat_data_init_def new_instance_def)
  consider "b' = b" | "g_masters b' = []"
    | insts where "ecat_config_parse_all pmem cJSON_Parse file ECAT_MAX_MASTERS = Inr insts" "g_masters b' = map fresh insts"
    using assms(1) by (auto simp: ecat_bus_configure_def free_masters_def Let_def fresh_def split: if_splits sum.splits)
  then show ?thesis
  proof cases
    case (3 insts)
    have c: "master_configs (map fresh insts) = map snd insts" by (simp add: f comp_def)
    have "map (\<lambda>c. interface (c_master c)) (map snd insts) = map (\<lambda>(_, c). interface (c_master c)) insts"
      by (simp add: case_prod_unfold comp_def)
    then show ?thesis
      using parse_all_wf [OF 3(1)] unfolding 3(2) c configs_ok_def by (auto simp: list_all_iff case_prod_unfold comp_def)
  qed (use assms(2) in \<open>simp_all add: configs_ok_def\<close>)
qed

lemma query_effect_configs:
  assumes "query_effect dm dm'"
  shows "master_configs (g_masters (dm_bus dm')) = master_configs (g_masters (dm_bus dm))"
proof -
  have "list_all2 (\<lambda>a b. i_config b = i_config a) (g_masters (dm_bus dm)) (g_masters (dm_bus dm'))"
    using assms unfolding query_effect_def by (auto elim!: list_all2_mono simp: ctx_only_def)
  then show ?thesis by (simp add: list_all2_conv_all_nth list_eq_iff_nth_eq)
qed

lemma run_command_ok:
  assumes "daemon_ok dm"
  shows "daemon_ok (snd (run_command x name root dm))"
proof -
  have configure: "daemon_ok (snd (handle_configure_command x root dm))"
  proof -
    have "daemon_ok (snd (case ecat_bus_configure S mem pm pj lk path contents (dm_bus dm) of
        (False, b) \<Rightarrow> (r1, dm\<lparr>dm_bus := b\<rparr>) | (True, b) \<Rightarrow> (r2 b, dm\<lparr>dm_bus := b\<rparr>)))"
      for S mem pm pj lk path contents r1 and r2 :: "'a bus \<Rightarrow> string option"
      using configure_ok [of S mem pm pj lk path contents "dm_bus dm"] assms
      by (auto simp: daemon_ok_def split: prod.split bool.split)
    then show ?thesis using assms
      by (auto simp: handle_configure_command_def Let_def split: option.split json.split)
  qed
  have start: "daemon_ok (snd (handle_start_command x dm))"
    using assms start_masters_config [of "x_env x" "x_sdo_double x" "x_threads x" "dm_host dm" "g_masters (dm_bus dm)"]
    by (auto simp: handle_start_command_def ecat_bus_start_def daemon_ok_def split: prod.split)
  have stop: "daemon_ok (snd (handle_stop_command x dm))"
    using assms stop_masters_config [of "x_env x" "dm_host dm" "g_masters (dm_bus dm)"]
    by (simp add: handle_stop_command_def ecat_bus_stop_def daemon_ok_def case_prod_unfold)
  have open_data: "daemon_ok (snd (handle_open_data_command x root dm))"
    using assms open_sessions_config [of x]
    by (auto simp: handle_open_data_command_def daemon_ok_def case_prod_unfold split: option.split json.split)
  have close_data: "daemon_ok (snd (handle_close_data_command dm))"
    using assms by (simp add: handle_close_data_command_def daemon_ok_def ecat_data_close_def comp_def)
  have query: "daemon_ok dm'" if "query_effect dm dm'" for dm'
    using assms query_effect_configs [OF that] by (simp add: daemon_ok_def)
  show ?thesis
    using assms configure start stop open_data close_data query [OF scan_modules_effect] query [OF diagnostics_slave_effect]
    by (simp add: run_command_def)
qed

lemma bus_command_ok: "daemon_ok dm \<Longrightarrow> daemon_ok (snd (ecat_bus_command x line dm))"
proof -
  assume ok: "daemon_ok dm"
  then have "daemon_ok (snd (bus_command x line dm))"
    using run_command_ok [OF ok] by (simp add: bus_command_def split: option.split json.split)
  then show ?thesis by (simp add: ecat_bus_command_def case_prod_unfold split: option.split)
qed

interpretation bus_service: command_service "ecat_bus_command x" daemon_ok for x
  by unfold_locales (rule bus_command_ok)

section \<open>Properties\<close>

text \<open>
  C10: whatever the clients of the control socket send, in any number of connections, reads and
  rounds, the daemon holds at most the allowed number of masters, each with a well-formed
  configuration and an interface no other master has.
\<close>

theorem control_traffic_keeps_masters:
  assumes "s_command io = ecat_bus_command x" and "daemon_ok dm"
  shows "let ms = g_masters (dm_bus (sv_service (fold (control_round io token u allowed) rounds (server_start dm))))
    in length ms \<le> ECAT_MAX_MASTERS \<and> distinct (map (\<lambda>m. interface (c_master (i_config m))) ms) \<and>
       list_all (\<lambda>m. config_wf (i_config m)) ms"
proof -
  have "daemon_ok (sv_service (fold (control_round io token u allowed) rounds (server_start dm)))"
    by (rule bus_service.run_good [OF assms])
  then show ?thesis by (simp add: daemon_ok_def configs_ok_def Let_def comp_def list_all_iff)
qed

definition empty_daemon :: "(soem_call list, nat) daemon" where
  "empty_daemon = \<lparr>dm_bus = \<lparr>g_masters = [], g_config_path = [], g_leaked = []\<rparr>, dm_host = \<lparr>files = Map.empty, nic = 0\<rparr>\<rparr>"

definition daemon_io :: "(soem_call list, nat) daemon server_io" where
  "daemon_io =
     \<lparr>s_parse = (\<lambda>_. None), s_print = (\<lambda>_. None), s_command = ecat_bus_command example_io, s_log = log_init\<rparr>"

definition two_rounds :: "poll_round list" where
  "two_rounds =
     [\<lparr>pr_accept = Some (5, Some 0), pr_ready = (\<lambda>_. None)\<rparr>,
      \<lparr>pr_accept = None, pr_ready = (\<lambda>_. Some (''start'' @ [CHR 0x0A]))\<rparr>]"

theorem control_traffic_keeps_masters_witness:
  "length (g_masters (dm_bus (sv_service (fold (control_round daemon_io None True [0]) two_rounds (server_start empty_daemon)))))
   \<le> ECAT_MAX_MASTERS"
proof -
  have "s_command daemon_io = ecat_bus_command example_io" "daemon_ok empty_daemon"
    by (simp_all add: daemon_io_def empty_daemon_def daemon_ok_def configs_ok_def)
  from control_traffic_keeps_masters [OF this, of None True "[0]" two_rounds] show ?thesis by (simp only: Let_def)
qed

end
