(* ===== verification/Main_Entry.thy ===== *)
theory Main_Entry
  imports Daemon
begin

text \<open>
  The entry point (\<^verbatim>\<open>src/main.c\<close>) and the run of the control loop it enters (\<^verbatim>\<open>edog_control_run\<close> of
  \<^verbatim>\<open>src/control.c\<close>): the options, the token, and the order in which the parts of the daemon are brought up and taken down.
  The surroundings are arguments: standard input, the environment, what system calls return, and what
  each call of \<^verbatim>\<open>poll\<close> found; the list of those ends where a signal asks the daemon to stop. Handlers only set that flag,
  so signals have no other effect in the model; usage texts and log lines are left out.
\<close>

section \<open>Options\<close>

definition DEFAULT_CONTROL :: string where "DEFAULT_CONTROL = ''unix:/run/etherdog/etherdog.socket''"
definition MAX_ALLOW_UIDS :: nat where "MAX_ALLOW_UIDS = 8"

record main_options =
  mo_control :: string
  mo_token_stdin :: bool
  mo_allow_uids :: "u32 list"
  mo_state_dir :: string
  mo_config :: "string option"
  mo_log_socket :: "string option"
  mo_autostart :: bool
  mo_log :: log_state

definition default_options :: "log_state \<Rightarrow> main_options" where
  "default_options lg =
     \<lparr>mo_control = DEFAULT_CONTROL, mo_token_stdin = False, mo_allow_uids = [], mo_state_dir = ''/run/etherdog'',
      mo_config = None, mo_log_socket = None, mo_autostart = False, mo_log = lg\<rparr>"

definition allow_uid :: "string \<Rightarrow> u32 list \<Rightarrow> u32 list option" where
  "allow_uid arg uids =
     (case strtol 10 arg of
        None \<Rightarrow> None
      | Some (uid, rest) \<Rightarrow>
          if rest \<noteq> [] \<or> uid < 0 \<or> length uids \<ge> MAX_ALLOW_UIDS then None else Some (uids @ [of_int uid]))"

text \<open>
  One turn of the loop over the arguments: the exit status when the option ends the program, or whether the
  option took the argument behind it, and the options.
\<close>

definition one_option :: "string \<Rightarrow> string option \<Rightarrow> main_options \<Rightarrow> int + bool \<times> main_options" where
  "one_option a nxt opts =
     (if a = ''--help'' \<or> a = ''-h'' then Inl 0
      else if a = ''--version'' then Inl 0
      else if a = ''--start'' then Inr (False, opts\<lparr>mo_autostart := True\<rparr>)
      else if nxt \<noteq> None \<and> a = ''--control'' then Inr (True, opts\<lparr>mo_control := the nxt\<rparr>)
      else if a = ''--token-stdin'' then Inr (False, opts\<lparr>mo_token_stdin := True\<rparr>)
      else if nxt \<noteq> None \<and> a = ''--allow-uid'' then
        (case allow_uid (the nxt) (mo_allow_uids opts) of
           None \<Rightarrow> Inl 2
         | Some uids \<Rightarrow> Inr (True, opts\<lparr>mo_allow_uids := uids\<rparr>))
      else if nxt \<noteq> None \<and> a = ''--state-dir'' then Inr (True, opts\<lparr>mo_state_dir := the nxt\<rparr>)
      else if nxt \<noteq> None \<and> a = ''--log-socket'' then Inr (True, opts\<lparr>mo_log_socket := nxt\<rparr>)
      else if nxt \<noteq> None \<and> a = ''--config'' then Inr (True, opts\<lparr>mo_config := nxt\<rparr>)
      else if nxt \<noteq> None \<and> a = ''--log-level'' then
        (case edog_log_parse_level nxt of
           None \<Rightarrow> Inl 2
         | Some level \<Rightarrow> Inr (True, opts\<lparr>mo_log := edog_log_set_level level (mo_log opts)\<rparr>))
      else Inl 2)"

fun parse_options :: "string list \<Rightarrow> main_options \<Rightarrow> int + main_options" where
  "parse_options [] opts = Inr opts"
| "parse_options (a # args) opts =
     (case one_option a (case args of [] \<Rightarrow> None | nxt # _ \<Rightarrow> Some nxt) opts of
        Inl code \<Rightarrow> Inl code
      | Inr (two, opts) \<Rightarrow> parse_options (if two then tl args else args) opts)"

section \<open>The token\<close>

text \<open>\<^verbatim>\<open>fgets\<close> into a buffer of \<open>n\<close> bytes; \<open>None\<close> at the end of the input.\<close>

definition fgets :: "nat \<Rightarrow> string \<Rightarrow> string option" where
  "fgets n input =
     (if input = [] then None
      else Some (take (n - 1) (takeWhile (\<lambda>c. c \<noteq> CHR 0x0A) input @ (if CHR 0x0A \<in> set input then [CHR 0x0A] else []))))"

definition token_end :: "char \<Rightarrow> bool" where
  "token_end c \<longleftrightarrow> c = CHR 0x0A \<or> c = CHR 0x0D \<or> c = CHR '' ''"

definition read_token_line :: "string \<Rightarrow> nat \<Rightarrow> string option" where
  "read_token_line input n =
     (case fgets n input of
        None \<Rightarrow> None
      | Some line \<Rightarrow>
          let s = rev (dropWhile token_end (rev (takeWhile (\<lambda>c. c \<noteq> CHR 0x00) line)))
          in if s = [] then None else Some s)"

definition TOKEN_SIZE :: nat where "TOKEN_SIZE = 256"

definition choose_token :: "bool \<Rightarrow> string \<Rightarrow> string option \<Rightarrow> string option" where
  "choose_token token_stdin input env_token =
     (if token_stdin then read_token_line input TOKEN_SIZE
      else case env_token of Some t \<Rightarrow> if t \<noteq> [] then Some (c_copy TOKEN_SIZE t) else Some [] | None \<Rightarrow> Some [])"

section \<open>The control loop\<close>

text \<open>A call of \<^verbatim>\<open>poll\<close>: events, a time-out or interruption, or an error that ends the loop.\<close>

datatype poll_outcome = Polled poll_round | Poll_idle | Poll_failed

text \<open>
  Before every outcome comes what the other threads of the process did to the service while the call waited.
\<close>

fun control_loop ::
  "'b server_io \<Rightarrow> string option \<Rightarrow> bool \<Rightarrow> nat list \<Rightarrow> (('b \<Rightarrow> 'b) \<times> poll_outcome) list \<Rightarrow> 'b server \<Rightarrow> 'b server" where
  "control_loop io token unix_listener allowed [] s = s"
| "control_loop io token unix_listener allowed ((act, p) # ps) s =
     (if sv_exit s then s
      else let s = s\<lparr>sv_service := act (sv_service s)\<rparr>
           in case p of
             Polled r \<Rightarrow> control_loop io token unix_listener allowed ps (control_round io token unix_listener allowed r s)
           | Poll_idle \<Rightarrow> control_loop io token unix_listener allowed ps s
           | Poll_failed \<Rightarrow> s)"

definition edog_control_run ::
  "(listen_addr \<Rightarrow> int option) \<Rightarrow> 'b server_io \<Rightarrow> nat \<Rightarrow> string \<Rightarrow> string option \<Rightarrow> nat list \<Rightarrow> (('b \<Rightarrow> 'b) \<times> poll_outcome) list \<Rightarrow> 'b \<Rightarrow>
   int \<times> 'b server" where
  "edog_control_run bind io euid listen_spec token allow_uids polls b =
     (case control_setup listen_spec token euid allow_uids of
        None \<Rightarrow> (- 1, server_start b)
      | Some allowed \<Rightarrow>
          (case open_listener bind listen_spec of
             None \<Rightarrow> (- 1, server_start b)
           | Some (_, unix_listener) \<Rightarrow>
               let s = control_loop io token unix_listener allowed polls (server_start b)
               in (0, s\<lparr>sv_clients := map drop_client (sv_clients s)\<rparr>)))"

section \<open>The program\<close>

datatype mkdir_result = Dir_made | Dir_exists | Dir_failed

record 'b main_io =
  mi_stdin :: string
  mi_env_token :: "string option"
  mi_sink_thread :: bool
  mi_mkdir :: mkdir_result
  mi_bind :: "listen_addr \<Rightarrow> int option"
  mi_euid :: nat
  mi_polls :: "(('b \<Rightarrow> 'b) \<times> poll_outcome) list"

definition ecat_bus_set_state_dir :: "string \<Rightarrow> ('d, 'w) env \<Rightarrow> ('d, 'w) env" where
  "ecat_bus_set_state_dir dir E = (if dir \<noteq> [] then E\<lparr>e_dir := c_copy 256 dir\<rparr> else E)"

text \<open>
  The exit status, the daemon's state at the exit, the log sink, and whether the shutdown freed every
  master (\<open>None\<close> when the program ended before there was anything to shut down).
\<close>

record ('d, 'w) main_result =
  mr_status :: int
  mr_daemon :: "('d, 'w) daemon"
  mr_sink :: sink_state
  mr_freed :: "bool option"

definition startup_config :: "('d, 'w) cmd_io \<Rightarrow> main_options \<Rightarrow> ('d, 'w) daemon \<Rightarrow> bool \<times> ('d, 'w) daemon" where
  "startup_config x opts dm =
     (case mo_config opts of
        None \<Rightarrow> (True, dm)
      | Some path \<Rightarrow>
          (case ecat_bus_configure (e_soem (x_env x)) (e_mem (x_env x)) (x_parse_mem x) (x_parse x) (x_locks x)
                  (Some path) (files (dm_host dm) path) (dm_bus dm) of
             (False, b) \<Rightarrow> (False, dm\<lparr>dm_bus := b\<rparr>)
           | (True, b) \<Rightarrow>
               if mo_autostart opts then
                 (case ecat_bus_start (x_env x) (x_sdo_double x) (x_threads x) (dm_host dm) b of
                    (_, h, b) \<Rightarrow> (True, \<lparr>dm_bus = b, dm_host = h\<rparr>))
               else (True, dm\<lparr>dm_bus := b\<rparr>)))"

definition run_daemon ::
  "('d, 'w) cmd_io \<Rightarrow> ('d, 'w) daemon main_io \<Rightarrow> main_options \<Rightarrow> string \<Rightarrow> ('d, 'w) daemon \<Rightarrow> sink_state \<Rightarrow> ('d, 'w) main_result" where
  "run_daemon x mi opts token dm k =
     (let x = x\<lparr>x_env := ecat_bus_set_state_dir (mo_state_dir opts) (x_env x)\<rparr>
      in case startup_config x opts dm of
           (False, dm) \<Rightarrow> \<lparr>mr_status = 1, mr_daemon = dm, mr_sink = k, mr_freed = None\<rparr>
         | (True, dm) \<Rightarrow>
             let io = \<lparr>s_parse = x_parse x, s_print = x_print x, s_command = ecat_bus_command x, s_log = mo_log opts\<rparr>
             in case edog_control_run (mi_bind mi) io (mi_euid mi) (mo_control opts) (Some token)
                       (map unat (mo_allow_uids opts)) (mi_polls mi) dm of
                  (rc, s) \<Rightarrow>
                    let dm = sv_service s
                    in case ecat_bus_shutdown (x_env x) (dm_host dm) (dm_bus dm) of
                         (h, freed, b) \<Rightarrow>
                           \<lparr>mr_status = (if rc = 0 then 0 else 1), mr_daemon = \<lparr>dm_bus = b, dm_host = h\<rparr>,
                            mr_sink = edog_log_stop_sink k, mr_freed = Some freed\<rparr>)"

definition main ::
  "('d, 'w) cmd_io \<Rightarrow> ('d, 'w) daemon main_io \<Rightarrow> log_state \<Rightarrow> string list \<Rightarrow> ('d, 'w) daemon \<Rightarrow> sink_state \<Rightarrow> ('d, 'w) main_result" where
  "main x mi lg args dm k =
     (let quit = (\<lambda>code k. \<lparr>mr_status = code, mr_daemon = dm, mr_sink = k, mr_freed = None\<rparr>)
      in case parse_options args (default_options lg) of
           Inl code \<Rightarrow> quit code k
         | Inr opts \<Rightarrow>
             (case (if mo_log_socket opts = None then (True, k)
                    else edog_log_start_sink (mi_sink_thread mi) (mo_log_socket opts) k) of
                (False, k) \<Rightarrow> quit 2 k
              | (True, k) \<Rightarrow>
                  (case choose_token (mo_token_stdin opts) (mi_stdin mi) (mi_env_token mi) of
                     None \<Rightarrow> quit 2 k
                   | Some token \<Rightarrow>
                       if mi_mkdir mi = Dir_failed then quit 1 k
                       else run_daemon x mi opts token dm k)))"

section \<open>Masters at rest\<close>

text \<open>A master in a resting state has no thread.\<close>

definition at_rest :: "'d ecat_master_instance \<Rightarrow> bool" where
  "at_rest inst \<longleftrightarrow> (i_bus_state inst \<in> {ECAT_STATE_IDLE, ECAT_STATE_STOPPED} \<longrightarrow> \<not> i_bus_running inst \<and> \<not> i_monitor_running inst)"

text \<open>A master that a configure left behind: recovery had given up on it and a thread of it still runs.\<close>

definition leaked :: "'d ecat_master_instance \<Rightarrow> bool" where
  "leaked inst \<longleftrightarrow> i_bus_state inst = ECAT_STATE_ERROR \<and> (i_bus_running inst \<or> i_monitor_running inst)"

definition bus_at_rest :: "'d bus \<Rightarrow> bool" where
  "bus_at_rest b \<longleftrightarrow> list_all at_rest (g_masters b) \<and> list_all leaked (g_leaked b)"

definition daemon_at_rest :: "('d, 'w) daemon \<Rightarrow> bool" where
  "daemon_at_rest dm \<longleftrightarrow> bus_at_rest (dm_bus dm)"

lemmas at_rest_defs = daemon_at_rest_def bus_at_rest_def

lemma start_state:
  assumes "start_single_master E ub mon_ok bus_ok h inst = (ok, h', x)"
  shows "x = inst \<or> i_bus_state x \<in> {ECAT_STATE_OPERATIONAL, ECAT_STATE_ERROR}"
  using start_result [OF assms] by (auto simp: started_def split: if_splits)

lemma start_masters_rest: "list_all at_rest ms \<Longrightarrow> list_all at_rest (snd (snd (start_masters E ub ts h ms)))"
proof (induction E ub ts h ms rule: start_masters.induct)
  case (2 E ub ts h inst ms)
  let ?t = "case ts of [] \<Rightarrow> (True, True) | x # _ \<Rightarrow> x"
  let ?one = "if exchanging (i_bus_state inst) then (True, h, inst)
    else if i_bus_state inst \<notin> {ECAT_STATE_IDLE, ECAT_STATE_STOPPED, ECAT_STATE_ERROR} then (False, h, inst)
    else start_single_master E ub (fst ?t) (snd ?t) h inst"
  obtain ok h1 x where one: "?one = (ok, h1, x)" by (metis prod_cases3)
  have "at_rest x"
    using one start_state [of E ub "fst ?t" "snd ?t" h inst ok h1 x] 2(2) by (auto simp: at_rest_def split: if_splits)
  moreover obtain n h2 xs where rest: "start_masters E ub (tl ts) h1 ms = (n, h2, xs)" by (metis prod_cases3)
  have "list_all at_rest xs" using 2(1) [OF refl one [symmetric] refl] 2(2) rest by simp
  ultimately show ?case using rest unfolding start_masters.simps Let_def one by simp
qed simp

lemma stop_masters_rest:
  "list_all at_rest ms \<Longrightarrow>
   list_all (\<lambda>x. at_rest x \<and> \<not> i_bus_running x \<and> \<not> i_monitor_running x) (snd (stop_masters E h ms))"
proof (induction E h ms rule: stop_masters.induct)
  case (2 E h inst ms)
  obtain h1 x where s: "stop_single_master E h inst = (h1, x)" by force
  have "\<not> i_bus_running x \<and> \<not> i_monitor_running x" using stop_result [OF s] 2(2) by (auto simp: at_rest_def split: if_splits)
  then show ?case using 2(1) [OF s [symmetric]] 2(2) s by (simp add: case_prod_unfold at_rest_def)
qed simp

lemma open_sessions_rest: "list_all at_rest ms \<Longrightarrow> list_all at_rest (snd (open_sessions x ep i ms))"
proof (induction x ep i ms rule: open_sessions.induct)
  case (2 x ep i inst ms)
  obtain r y where o: "ecat_data_open ep (x_sock x i) (x_session x i) inst = (r, y)" by force
  then have "at_rest y" using 2(3)
    by (auto simp: ecat_data_open_def at_rest_def Let_def split: option.splits if_splits prod.splits)
  then show ?case using 2(1) 2(2) [OF _ o [symmetric]] 2(3) o by (cases r) (simp_all add: case_prod_unfold)
qed simp

lemma free_masters_rest:
  assumes "free_masters b = (freed, b')" and "bus_at_rest b" and "\<not> ecat_bus_any_active b"
  shows "g_masters b' = []" and "list_all leaked (g_leaked b')"
proof -
  have "leaked inst" if "inst \<in> set (g_masters b)" "destroy_instance inst = None" for inst
    using that assms(2,3) by (auto simp: bus_at_rest_def at_rest_def leaked_def ecat_bus_any_active_def list_ex_iff list_all_iff
        destroy_instance_def split: if_splits)
  then show "g_masters b' = []" "list_all leaked (g_leaked b')"
    using assms(1,2) by (auto simp: free_masters_def bus_at_rest_def list_all_iff Let_def)
qed

lemma configure_rest:
  assumes "ecat_bus_configure S mem pmem cJSON_Parse locks path contents b = (ok, b')" and "bus_at_rest b"
  shows "bus_at_rest b'"
proof -
  obtain freed f where f: "free_masters b = (freed, f)" by force
  have fresh: "at_rest (set_bus_state ECAT_STATE_IDLE ((ecat_data_init (new_instance S nc))\<lparr>i_diag := diag_reset\<rparr>))" for nc
    by (simp add: at_rest_def set_bus_state_def ecat_data_init_def new_instance_def zero_instance_def)
  have "b' = b \<or> \<not> ecat_bus_any_active b \<and> g_leaked b' = g_leaked f \<and> list_all at_rest (g_masters b')"
    using assms(1) f free_masters_rest(1) [OF f assms(2)] fresh
    by (auto simp: ecat_bus_configure_def Let_def list_all_iff split: if_splits sum.splits)
  then show ?thesis using assms(2) free_masters_rest(2) [OF f assms(2)] by (auto simp: bus_at_rest_def)
qed

lemma query_rest: "query_effect dm dm' \<Longrightarrow> daemon_at_rest dm \<Longrightarrow> daemon_at_rest dm'"
  unfolding query_effect_def at_rest_defs list_all2_conv_all_nth list_all_length
  by (auto simp: ctx_only_def at_rest_def)

lemma run_command_rest:
  assumes "daemon_at_rest dm"
  shows "daemon_at_rest (snd (run_command x name root dm))"
proof -
  have configure: "daemon_at_rest (snd (handle_configure_command x root dm))"
    using assms configure_rest unfolding handle_configure_command_def Let_def daemon_at_rest_def
    by (auto split: option.split json.split prod.split bool.split)
  have start: "daemon_at_rest (snd (handle_start_command x dm))"
    using assms start_masters_rest [of "g_masters (dm_bus dm)" "x_env x" "x_sdo_double x" "x_threads x" "dm_host dm"]
    by (auto simp: handle_start_command_def ecat_bus_start_def at_rest_defs split: prod.split)
  have stop: "daemon_at_rest (snd (handle_stop_command x dm))"
    using assms stop_masters_rest [of "g_masters (dm_bus dm)" "x_env x" "dm_host dm"]
    by (simp add: handle_stop_command_def ecat_bus_stop_def at_rest_defs case_prod_unfold list_all_iff)
  have open_data: "daemon_at_rest (snd (handle_open_data_command x root dm))"
    using assms open_sessions_rest [of "g_masters (dm_bus dm)" x]
    by (auto simp: handle_open_data_command_def at_rest_defs case_prod_unfold split: option.split json.split)
  have close_data: "daemon_at_rest (snd (handle_close_data_command dm))"
    using assms by (simp add: handle_close_data_command_def at_rest_defs ecat_data_close_def list_all_iff at_rest_def)
  show ?thesis
    using assms configure start stop open_data close_data query_rest [OF scan_modules_effect assms]
      query_rest [OF diagnostics_slave_effect assms] by (simp add: run_command_def)
qed

lemma bus_command_rest: "daemon_at_rest dm \<Longrightarrow> daemon_at_rest (snd (ecat_bus_command x line dm))"
proof -
  assume rest: "daemon_at_rest dm"
  then have "daemon_at_rest (snd (bus_command x line dm))"
    using run_command_rest [OF rest] by (simp add: bus_command_def split: option.split json.split)
  then show ?thesis by (simp add: ecat_bus_command_def case_prod_unfold split: option.split)
qed

interpretation resting_service: command_service "ecat_bus_command x" daemon_at_rest for x
  by unfold_locales (rule bus_command_rest)

section \<open>The loop over a service\<close>

context command_service
begin

lemma loop_good:
  assumes "s_command io = command" and "good (sv_service s)" and "\<forall>(act, p)\<in>set ps. \<forall>b. good b \<longrightarrow> good (act b)"
  shows "good (sv_service (control_loop io token u allowed ps s))"
  using assms(2,3)
proof (induction ps arbitrary: s)
  case (Cons rp ps)
  obtain act p where rp: "rp = (act, p)" by force
  have "good (act (sv_service s))" using Cons.prems rp by auto
  then show ?case using Cons.IH Cons.prems round_good [OF assms(1), of "s\<lparr>sv_service := act (sv_service s)\<rparr>"]
    by (simp add: rp Let_def split: poll_outcome.split)
qed simp

lemma control_run_good:
  assumes "s_command io = command" and "good b" and "\<forall>(act, p)\<in>set ps. \<forall>b. good b \<longrightarrow> good (act b)"
  shows "good (sv_service (snd (edog_control_run bind io euid spec token uids ps b)))"
  using assms(2) loop_good [OF assms(1) _ assms(3), of "server_start b"]
  by (simp add: edog_control_run_def server_start_def Let_def split: option.split prod.split)

end

lemma bus_start_kept:
  assumes "ecat_bus_start E ub ts h b = (n, h', b')"
  shows "bus_at_rest b \<Longrightarrow> bus_at_rest b'"
    and "master_configs (g_masters b') = master_configs (g_masters b)"
  using assms start_masters_rest [of "g_masters b" E ub ts h] start_masters_config [of E ub ts h "g_masters b"]
  by (auto simp: ecat_bus_start_def bus_at_rest_def split: prod.splits if_splits)

lemma configure_failed: "ecat_bus_configure S mem pm pj lk path contents b = (False, b') \<Longrightarrow> b' = b"
  by (auto simp: ecat_bus_configure_def Let_def split: if_splits sum.splits)

lemma startup_kept:
  assumes "startup_config x opts dm = (ok, dm')"
  shows "daemon_at_rest dm \<Longrightarrow> daemon_at_rest dm'" and "daemon_ok dm \<Longrightarrow> daemon_ok dm'"
    and "\<not> ok \<Longrightarrow> dm' = dm"
proof -
  have "(daemon_at_rest dm \<longrightarrow> daemon_at_rest dm') \<and> (daemon_ok dm \<longrightarrow> daemon_ok dm') \<and> (\<not> ok \<longrightarrow> dm' = dm)"
  proof (cases "mo_config opts")
    case None
    then show ?thesis using assms by (simp add: startup_config_def)
  next
    case (Some path)
    obtain good b where c: "ecat_bus_configure (e_soem (x_env x)) (e_mem (x_env x)) (x_parse_mem x) (x_parse x) (x_locks x)
        (Some path) (files (dm_host dm) path) (dm_bus dm) = (good, b)" by force
    obtain n h b2 where s: "ecat_bus_start (x_env x) (x_sdo_double x) (x_threads x) (dm_host dm) b = (n, h, b2)"
      by (metis prod_cases3)
    have "dm' = (if \<not> good \<or> \<not> mo_autostart opts then dm\<lparr>dm_bus := b\<rparr> else \<lparr>dm_bus = b2, dm_host = h\<rparr>) \<and> ok = good"
      using assms Some c s by (auto simp: startup_config_def split: bool.splits if_splits)
    then show ?thesis
      using configure_rest [OF c] configure_ok [OF c] configure_failed [of _ _ _ _ _ _ _ "dm_bus dm" b] c bus_start_kept [OF s]
      by (cases good) (auto simp: daemon_at_rest_def daemon_ok_def)
  qed
  then show "daemon_at_rest dm \<Longrightarrow> daemon_at_rest dm'" "daemon_ok dm \<Longrightarrow> daemon_ok dm'" "\<not> ok \<Longrightarrow> dm' = dm" by auto
qed

lemma shutdown_frees:
  assumes "ecat_bus_shutdown E h b = (h', freed, b')" and "bus_at_rest b"
  shows "freed" "g_masters b' = []" "g_leaked b' = g_leaked b"
  using assms stop_masters_rest [of "g_masters b" E h]
  by (auto simp: ecat_bus_shutdown_def ecat_bus_stop_def free_masters_def destroy_instance_def bus_at_rest_def list_all_iff
      Let_def filter_empty_conv split: prod.splits if_splits)

text \<open>What the threads of the masters, the leaked ones included, may have done while the control thread waited.\<close>

definition threads_ran :: "('d, 'w) daemon \<Rightarrow> ('d, 'w) daemon \<Rightarrow> bool" where
  "threads_ran dm dm' \<longleftrightarrow>
     list_all2 master_ran (g_masters (dm_bus dm)) (g_masters (dm_bus dm')) \<and>
     list_all2 master_ran (g_leaked (dm_bus dm)) (g_leaked (dm_bus dm'))"

lemma threads_ran_rest: "threads_ran dm dm' \<Longrightarrow> daemon_at_rest dm \<Longrightarrow> daemon_at_rest dm'"
proof -
  assume r: "threads_ran dm dm'" and d: "daemon_at_rest dm"
  have a: "at_rest y" if "master_ran x y" "at_rest x" for x y :: "'a ecat_master_instance"
    using that by (auto simp: master_ran_def at_rest_def thread_flags_def exchanging_def)
  have l: "leaked y" if "master_ran x y" "leaked x" for x y :: "'a ecat_master_instance"
    using that by (auto simp: master_ran_def leaked_def thread_flags_def exchanging_def)
  show "daemon_at_rest dm'"
    using r d unfolding threads_ran_def at_rest_defs list_all2_conv_all_nth list_all_length by (metis a l)
qed

lemma run_daemon_end:
  assumes "g_masters (dm_bus dm) = []" and "g_leaked (dm_bus dm) = []"
    and "\<forall>(act, p)\<in>set (mi_polls mi). \<forall>d. threads_ran d (act d)"
  shows "let r = run_daemon x mi opts token dm k
    in g_masters (dm_bus (mr_daemon r)) = [] \<and> mr_freed r \<noteq> Some False \<and> (mr_freed r = None \<longrightarrow> mr_daemon r = dm) \<and>
       (\<forall>inst\<in>set (g_leaked (dm_bus (mr_daemon r))). leaked inst)"
proof -
  let ?x = "x\<lparr>x_env := ecat_bus_set_state_dir (mo_state_dir opts) (x_env x)\<rparr>"
  let ?io = "\<lparr>s_parse = x_parse ?x, s_print = x_print ?x, s_command = ecat_bus_command ?x, s_log = mo_log opts\<rparr>"
  obtain ok d where u: "startup_config ?x opts dm = (ok, d)" by force
  have d: "daemon_at_rest d" using startup_kept(1) [OF u] assms by (simp add: at_rest_defs)
  obtain rc s where r: "edog_control_run (mi_bind mi) ?io (mi_euid mi) (mo_control opts) (Some token)
      (map unat (mo_allow_uids opts)) (mi_polls mi) d = (rc, s)" by force
  have acts: "\<forall>(act, p)\<in>set (mi_polls mi). \<forall>b. daemon_at_rest b \<longrightarrow> daemon_at_rest (act b)"
    using assms(3) threads_ran_rest by blast
  have "s_command ?io = ecat_bus_command ?x" by simp
  from resting_service.control_run_good [OF this d acts, of "mi_bind mi" "mi_euid mi" "mo_control opts" "Some token"
      "map unat (mo_allow_uids opts)"]
  have s: "bus_at_rest (dm_bus (sv_service s))" unfolding r snd_conv daemon_at_rest_def .
  obtain h freed b where e: "ecat_bus_shutdown (x_env ?x) (dm_host (sv_service s)) (dm_bus (sv_service s)) = (h, freed, b)"
    by (metis prod_cases3)
  note f = shutdown_frees [OF e s]
  have "list_all leaked (g_leaked b)" using s f(3) by (simp add: bus_at_rest_def)
  then have l: "\<forall>inst\<in>set (g_leaked b). leaked inst" by (simp add: list_all_iff)
  show ?thesis
  proof (cases ok)
    case True
    then show ?thesis using u r e f l by (simp add: run_daemon_def Let_def)
  next
    case False
    then show ?thesis using u startup_kept(3) [OF u] assms(1,2) by (simp add: run_daemon_def Let_def)
  qed
qed


section \<open>Options\<close>

lemma one_option_uids:
  "one_option a nxt opts = Inr (two, opts') \<Longrightarrow> length (mo_allow_uids opts) \<le> MAX_ALLOW_UIDS \<Longrightarrow>
   length (mo_allow_uids opts') \<le> MAX_ALLOW_UIDS"
  by (auto simp: one_option_def allow_uid_def split: if_splits option.splits prod.splits)

lemma parse_options_uids:
  "parse_options args opts = Inr opts' \<Longrightarrow> length (mo_allow_uids opts) \<le> MAX_ALLOW_UIDS \<Longrightarrow>
   length (mo_allow_uids opts') \<le> MAX_ALLOW_UIDS"
proof (induction args opts rule: parse_options.induct)
  case (2 a args opts)
  then show ?case using one_option_uids [of a "case args of [] \<Rightarrow> None | nxt # _ \<Rightarrow> Some nxt" opts]
    by (auto split: sum.splits)
qed simp

text \<open>The arguments that stand for given options.\<close>

definition flag :: "string \<Rightarrow> bool \<Rightarrow> string list" where
  "flag name b = (if b then [name] else [])"

definition setting :: "string \<Rightarrow> string option \<Rightarrow> string list" where
  "setting name v = (case v of None \<Rightarrow> [] | Some arg \<Rightarrow> [name, arg])"

definition option_args :: "string \<Rightarrow> main_options \<Rightarrow> string list" where
  "option_args level opts =
     [''--log-level'', level, ''--control'', mo_control opts, ''--state-dir'', mo_state_dir opts] @
     flag ''--token-stdin'' (mo_token_stdin opts) @ flag ''--start'' (mo_autostart opts) @
     setting ''--config'' (mo_config opts) @ setting ''--log-socket'' (mo_log_socket opts) @
     concat (map (\<lambda>uid. [''--allow-uid'', fmt_dec (uint uid)]) (mo_allow_uids opts))"

lemma uint_range: "0 \<le> uint (w :: u32)" "uint (w :: u32) < 4294967296"
  using uint_bounded [of w] by simp_all

lemma strtol_natural: "0 \<le> n \<Longrightarrow> n < 9223372036854775808 \<Longrightarrow> strtol 10 (fmt_dec n) = Some (n, [])"
  by (rule strtol_fmt_dec) simp_all

lemma allow_uid_dec:
  assumes "length uids < MAX_ALLOW_UIDS"
  shows "allow_uid (fmt_dec (uint uid)) uids = Some (uids @ [uid])"
proof -
  have "strtol 10 (fmt_dec (uint uid)) = Some (uint uid, [])"
    by (rule strtol_natural) (use uint_range [of uid] in linarith)+
  then show ?thesis using assms by (simp add: allow_uid_def)
qed

lemma parse_uids:
  "length (mo_allow_uids opts) + length uids \<le> MAX_ALLOW_UIDS \<Longrightarrow>
   parse_options (concat (map (\<lambda>uid. [''--allow-uid'', fmt_dec (uint uid)]) uids)) opts =
   Inr (opts\<lparr>mo_allow_uids := mo_allow_uids opts @ uids\<rparr>)"
proof (induction uids arbitrary: opts)
  case (Cons uid uids)
  then show ?case using allow_uid_dec [of "mo_allow_uids opts" uid] Cons.IH [of "opts\<lparr>mo_allow_uids := mo_allow_uids opts @ [uid]\<rparr>"]
    by (simp add: one_option_def)
qed simp

text \<open>
  The command line can express every setting. For any options with at most eight users and a level
  the logger knows, the arguments that stand for them are parsed to exactly those options.
\<close>

theorem options_roundtrip:
  assumes "edog_log_parse_level (Some name) = Some level" and "length (mo_allow_uids opts) \<le> MAX_ALLOW_UIDS"
    and "mo_log opts = edog_log_set_level level lg"
  shows "parse_options (option_args name opts) (default_options lg) = Inr opts"
  using assms parse_uids [of _ "mo_allow_uids opts"]
  by (cases opts; cases "mo_config opts"; cases "mo_log_socket opts")
    (simp_all add: option_args_def flag_def setting_def default_options_def one_option_def)

lemma main_control_setup:
  assumes "parse_options args (default_options lg) = Inr opts"
  shows "control_setup (mo_control opts) (Some token) euid (map unat (mo_allow_uids opts)) = None \<longleftrightarrow>
    starts_with ''tcp:'' (mo_control opts) \<and> token = []"
  using parse_options_uids [OF assms]
  by (simp add: control_setup_def needs_auth_def default_options_def MAX_ALLOW_UIDS_def MAX_ALLOWED_UIDS_def)

text \<open>
  C36: a tcp control socket is never open without a token. If the options ask for one and there is no token, the
  program ends with a status other than 0, and nothing that clients attempt makes a difference.
\<close>

theorem main_tcp_needs_token:
  assumes "parse_options args (default_options lg) = Inr opts" and "starts_with ''tcp:'' (mo_control opts)"
    and "choose_token (mo_token_stdin opts) (mi_stdin mi) (mi_env_token mi) = Some []"
  shows "mr_status (main x mi lg args dm k) \<noteq> 0 \<and> main x (mi\<lparr>mi_polls := polls\<rparr>) lg args dm k = main x mi lg args dm k"
  using assms main_control_setup [OF assms(1), of "[]"]
  by (auto simp: main_def run_daemon_def edog_control_run_def Let_def split: prod.split bool.split)

section \<open>The token\<close>

lemma strip_end: "t \<noteq> [] \<Longrightarrow> \<not> token_end (last t) \<Longrightarrow> list_all token_end ws \<Longrightarrow> rev (dropWhile token_end (rev (t @ ws))) = t"
proof -
  assume t: "t \<noteq> []" "\<not> token_end (last t)" and ws: "list_all token_end ws"
  have "dropWhile token_end (rev ws @ rev t) = dropWhile token_end (rev t)"
    by (rule dropWhile_append2) (use ws in \<open>simp add: list_all_iff\<close>)
  also have "\<dots> = rev t" using t by (simp add: dropWhile_eq_self_iff hd_rev)
  finally show ?thesis by simp
qed

lemma fgets_first_line:
  assumes "CHR 0x0A \<notin> set t"
  shows "fgets n (t @ CHR 0x0A # rest) = Some (take (n - 1) (t @ [CHR 0x0A]))"
proof -
  have "takeWhile (\<lambda>c. c \<noteq> CHR 0x0A) (t @ CHR 0x0A # rest) = t" using assms by (subst takeWhile_append2) auto
  then show ?thesis by (simp add: fgets_def)
qed

text \<open>
  The token on standard input. A first line of at most 254 characters without NUL, that does not end in a
  blank or a carriage return, is the token, whatever follows it and whether the line ends in a newline or
  a carriage return and a newline.
\<close>

theorem token_line_read:
  assumes "t \<noteq> []" and "CHR 0x00 \<notin> set t" and "CHR 0x0A \<notin> set t" and "\<not> token_end (last t)" and "length t + 1 < TOKEN_SIZE"
    and "eol = [CHR 0x0A] \<or> eol = [CHR 0x0D, CHR 0x0A]"
  shows "read_token_line (t @ eol @ rest) TOKEN_SIZE = Some t"
proof -
  obtain ws where ws: "fgets TOKEN_SIZE (t @ eol @ rest) = Some (t @ ws)" "list_all token_end ws"
    using assms(6)
  proof
    assume "eol = [CHR 0x0A]"
    then show ?thesis using that [of eol] fgets_first_line [OF assms(3), of TOKEN_SIZE rest] assms(5) by (simp add: token_end_def)
  next
    assume eol: "eol = [CHR 0x0D, CHR 0x0A]"
    then have "fgets TOKEN_SIZE (t @ eol @ rest) = Some (t @ take (TOKEN_SIZE - 1 - length t) eol)"
      using fgets_first_line [of "t @ [CHR 0x0D]" TOKEN_SIZE rest] assms(3,5) by simp
    moreover have "list_all token_end (take n eol)" for n using eol by (cases n; cases "n - 1") (simp_all add: token_end_def)
    ultimately show ?thesis using that by blast
  qed
  have "\<not> token_end (CHR 0x00)" by (simp add: token_end_def)
  then have "CHR 0x00 \<notin> set (t @ ws)" using assms(2) ws(2) by (auto simp: list_all_iff)
  then have whole: "takeWhile (\<lambda>c. c \<noteq> CHR 0x00) (t @ ws) = t @ ws" by (auto simp: takeWhile_eq_all_conv)
  show ?thesis unfolding read_token_line_def ws(1) option.case whole Let_def strip_end [OF assms(1,4) ws(2)]
    using assms(1) by simp
qed

text \<open>
  A longer token is cut without notice: with a token of more than 255 characters in the environment, the
  token that clients must present is its first 255 characters, and the token itself is refused.
\<close>

lemma long_token_cut:
  assumes "255 < length t"
  shows "choose_token False input (Some t) = Some (take 255 t)" and "\<not> constant_time_equals t (take 255 t)"
proof -
  show "choose_token False input (Some t) = Some (take 255 t)"
    using assms by (auto simp: choose_token_def c_copy_def TOKEN_SIZE_def)
  have "length t \<noteq> length (take 255 t)" using assms by simp
  then show "\<not> constant_time_equals t (take 255 t)" by (metis constant_time_equals_eq)
qed

text \<open>Numbers past the range of user ids are reduced to it: 4294968296 stands for the user 1000.\<close>

lemma allow_uid_wraps:
  assumes "length uids < MAX_ALLOW_UIDS" and "i < 2 ^ 31"
  shows "allow_uid (fmt_dec (uint uid + 2 ^ 32 * int i)) uids = Some (uids @ [uid])"
proof -
  let ?n = "uint uid + 2 ^ 32 * int i"
  have i: "0 \<le> int i" "int i < 2147483648" using assms(2) by simp_all
  have n: "0 \<le> ?n" "?n < 9223372036854775808" using uint_range [of uid] i by simp_all
  then have "strtol 10 (fmt_dec ?n) = Some (?n, [])" by (rule strtol_natural)
  moreover have zero: "(4294967296 :: u32) = 0" by simp
  have "(of_int ?n :: u32) = uid + 4294967296 * of_nat i" by simp
  then have "(of_int ?n :: u32) = uid" unfolding zero by simp
  moreover have "\<not> ?n < 0" using n(1) by linarith
  ultimately show ?thesis using assms(1) unfolding allow_uid_def by simp
qed

section \<open>Examples\<close>

text \<open>While the first call of poll waits, the monitor gives up on every master that is RECOVERING.\<close>

definition monitors_gave_up :: "('d, 'w) daemon \<Rightarrow> ('d, 'w) daemon" where
  "monitors_gave_up dm =
     (let give_up = (\<lambda>m. if i_bus_state m = ECAT_STATE_RECOVERING then monitor_store (- 1) m else m)
      in dm\<lparr>dm_bus := (dm_bus dm)\<lparr>g_masters := map give_up (g_masters (dm_bus dm))\<rparr>\<rparr>)"

definition example_main_io :: "(soem_call list, nat) daemon main_io" where
  "example_main_io =
     \<lparr>mi_stdin = [], mi_env_token = None, mi_sink_thread = True, mi_mkdir = Dir_exists, mi_bind = (\<lambda>_. Some 3),
      mi_euid = 0, mi_polls = [(monitors_gave_up, Poll_idle),
                              (\<lambda>d. d, Polled \<lparr>pr_accept = Some (5, Some 0), pr_ready = (\<lambda>_. None)\<rparr>)]\<rparr>"

definition no_sink :: sink_state where
  "no_sink = \<lparr>g_sink_spec = [], g_sink_started = False, g_sink_run = False\<rparr>"

definition tcp_args :: "string list" where
  "tcp_args = [''--start'', ''--control'', ''tcp:127.0.0.1:4000'']"

lemma example_threads_ran: "\<forall>(act, p)\<in>set (mi_polls example_main_io). \<forall>d. threads_ran d (act d)"
proof -
  have "threads_ran d d" for d :: "(soem_call list, nat) daemon"
    by (simp add: threads_ran_def master_ran_def list_all2_same)
  moreover have "threads_ran d (monitors_gave_up d)" for d :: "(soem_call list, nat) daemon"
    by (auto simp: threads_ran_def monitors_gave_up_def master_ran_def monitor_store_def exchanging_def thread_flags_def
        list_all2_conv_all_nth Let_def)
  ultimately show ?thesis by (simp add: example_main_io_def)
qed


theorem main_tcp_needs_token_witness:
  "mr_status (main example_io example_main_io log_init tcp_args empty_daemon no_sink) \<noteq> 0"
proof -
  have "parse_options tcp_args (default_options log_init) =
      Inr ((default_options log_init)\<lparr>mo_autostart := True, mo_control := ''tcp:127.0.0.1:4000''\<rparr>)"
    by (simp add: tcp_args_def one_option_def)
  from main_tcp_needs_token [OF this, of example_main_io example_io empty_daemon no_sink "[]"] show ?thesis
    by (simp add: starts_with_def default_options_def choose_token_def example_main_io_def)
qed

theorem options_roundtrip_witness:
  "parse_options (option_args ''debug'' ((default_options log_init)\<lparr>mo_allow_uids := [1000], mo_log := edog_log_set_level EDOG_LOG_DEBUG log_init\<rparr>))
     (default_options log_init) =
   Inr ((default_options log_init)\<lparr>mo_allow_uids := [1000], mo_log := edog_log_set_level EDOG_LOG_DEBUG log_init\<rparr>)"
  by (rule options_roundtrip [of _ EDOG_LOG_DEBUG])
    (simp_all add: default_options_def edog_log_parse_level_def level_names_def MAX_ALLOW_UIDS_def)

theorem token_line_read_witness: "read_token_line (''secret'' @ [CHR 0x0D, CHR 0x0A] @ ''more'') TOKEN_SIZE = Some ''secret''"
  by (rule token_line_read) (simp_all add: token_end_def TOKEN_SIZE_def)

end
