(* ===== verification/Proc.thy ===== *)
theory Proc
  imports Iface_State
begin

text \<open>
  Running a helper program (\<^verbatim>\<open>src/proc.c\<close>, Linux build): the descriptors of the parent and of the
  child around \<^verbatim>\<open>fork\<close>, the loop that captures the child's output in a buffer of fixed size, the loop that drains what
  does not fit, and the exit status. A process's descriptors are a map from numbers to open files; the
  system's part, whether a call succeeds, what arrives on the pipe and how the child ends, is the argument
  \<open>child\<close>.
\<close>

section \<open>Descriptors\<close>

datatype open_file = F_pipe_read | F_pipe_write | F_null | F_other nat

type_synonym descriptors = "nat \<Rightarrow> open_file option"

definition STDOUT_FILENO :: nat where "STDOUT_FILENO = 1"
definition STDERR_FILENO :: nat where "STDERR_FILENO = 2"

text \<open>A new descriptor is the lowest free one below the limit of the process.\<close>

definition lowest_free :: "nat \<Rightarrow> descriptors \<Rightarrow> nat option" where
  "lowest_free limit fds = find (\<lambda>i. fds i = None) [0..<limit]"

definition open_file_fd :: "nat \<Rightarrow> open_file \<Rightarrow> descriptors \<Rightarrow> (nat \<times> descriptors) option" where
  "open_file_fd limit f fds = map_option (\<lambda>i. (i, fds(i \<mapsto> f))) (lowest_free limit fds)"

definition pipe :: "nat \<Rightarrow> descriptors \<Rightarrow> (nat \<times> nat \<times> descriptors) option" where
  "pipe limit fds =
     (case open_file_fd limit F_pipe_read fds of
        None \<Rightarrow> None
      | Some (r, fds') \<Rightarrow>
          map_option (\<lambda>(w, fds''). (r, w, fds'')) (open_file_fd limit F_pipe_write fds'))"

definition close_fd :: "nat \<Rightarrow> descriptors \<Rightarrow> descriptors" where
  "close_fd i fds = fds(i := None)"

definition dup2 :: "nat \<Rightarrow> nat \<Rightarrow> descriptors \<Rightarrow> descriptors" where
  "dup2 i j fds = (if fds i = None then fds else fds(j := fds i))"

text \<open>The child between \<^verbatim>\<open>fork\<close> and \<^verbatim>\<open>execvp\<close>: \<open>null_ok\<close> says whether \<^verbatim>\<open>/dev/null\<close> is there.\<close>

definition child_descriptors :: "nat \<Rightarrow> bool \<Rightarrow> (nat \<times> nat) option \<Rightarrow> descriptors \<Rightarrow> descriptors" where
  "child_descriptors limit null_ok pipefd fds =
     (let (devnull, fds) =
            (case (if null_ok then open_file_fd limit F_null fds else None) of
               None \<Rightarrow> (None, fds) | Some (n, fds') \<Rightarrow> (Some n, fds'));
          fds =
            (case pipefd of
               Some (r, w) \<Rightarrow>
                 let fds = close_fd r fds
                 in if w \<noteq> STDOUT_FILENO then close_fd w (dup2 w STDOUT_FILENO fds) else fds
             | None \<Rightarrow> (case devnull of Some n \<Rightarrow> dup2 n STDOUT_FILENO fds | None \<Rightarrow> fds))
      in case devnull of
           None \<Rightarrow> fds
         | Some n \<Rightarrow>
             let fds = dup2 n STDERR_FILENO fds
             in if n > STDERR_FILENO then close_fd n fds else fds)"

section \<open>Capturing\<close>

text \<open>
  What the reads on the pipe meet: data as it arrives, or an error such as an interruption. The end of the
  list is the end of the stream.
\<close>

datatype pipe_event = P_data string | P_error

fun read_pipe :: "nat \<Rightarrow> pipe_event list \<Rightarrow> string option \<times> pipe_event list" where
  "read_pipe n [] = (Some [], [])"
| "read_pipe n (P_error # es) = (None, es)"
| "read_pipe n (P_data s # es) = (Some (take n s), if length s \<le> n then es else P_data (drop n s) # es)"

function capture_loop :: "nat \<Rightarrow> string \<Rightarrow> pipe_event list \<Rightarrow> string \<times> pipe_event list" where
  "capture_loop capture_size captured es =
     (if length captured + 1 < capture_size then
        (case read_pipe (capture_size - 1 - length captured) es of
           (None, es) \<Rightarrow> (captured, es)
         | (Some s, es) \<Rightarrow> if s = [] then (captured, es) else capture_loop capture_size (captured @ s) es)
      else (captured, es))"
  by pat_completeness auto
termination
  by (relation "measure (\<lambda>(n, s, es). n - length s)") (auto simp: neq_Nil_conv)

declare capture_loop.simps [simp del]

fun bytes_of :: "pipe_event list \<Rightarrow> nat" where
  "bytes_of [] = 0"
| "bytes_of (P_error # es) = 1 + bytes_of es"
| "bytes_of (P_data s # es) = 1 + length s + bytes_of es"

lemma read_pipe_less: "read_pipe n es = (Some s, es') \<Longrightarrow> s \<noteq> [] \<Longrightarrow> bytes_of es' < bytes_of es"
  by (induction n es rule: read_pipe.induct) (auto split: if_splits)

function drain_loop :: "pipe_event list \<Rightarrow> pipe_event list" where
  "drain_loop es =
     (case read_pipe 256 es of
        (None, es') \<Rightarrow> es'
      | (Some s, es') \<Rightarrow> if s = [] then es' else drain_loop es')"
  by pat_completeness auto
termination
  by (relation "measure bytes_of") (auto dest: read_pipe_less [OF sym])

declare drain_loop.simps [simp del]

section \<open>Running a program\<close>

datatype wait_status = W_exited nat | W_signaled nat | W_failed

record child =
  ch_forked :: bool
  ch_null :: bool
  ch_output :: "pipe_event list"
  ch_status :: wait_status

text \<open>
  The result, what the buffer holds, the part of the output left unread, the parent's descriptors and
  those the child was started with. \<open>capture_size\<close> is \<open>None\<close> for a null buffer.
\<close>

record run_result =
  rr_status :: int
  rr_captured :: "string option"
  rr_unread :: "pipe_event list"
  rr_fds :: descriptors
  rr_child :: "descriptors option"

definition wait_result :: "wait_status \<Rightarrow> int" where
  "wait_result s = (case s of W_exited n \<Rightarrow> int n | _ \<Rightarrow> - 1)"

definition ecat_run_argv ::
  "nat \<Rightarrow> child \<Rightarrow> string option \<Rightarrow> string list option \<Rightarrow> nat option \<Rightarrow> descriptors \<Rightarrow> run_result" where
  "ecat_run_argv limit c bin argv capture_size fds =
     (let failed = (\<lambda>fds. \<lparr>rr_status = - 1, rr_captured = None, rr_unread = ch_output c, rr_fds = fds,
             rr_child = None\<rparr>)
      in if bin = None \<or> argv = None then failed fds
         else
           case capture_size of
             Some (Suc n) \<Rightarrow>
               (case pipe limit fds of
                  None \<Rightarrow> failed fds
                | Some (r, w, fds) \<Rightarrow>
                    if \<not> ch_forked c then failed (close_fd w (close_fd r fds))
                    else
                      let child = child_descriptors limit (ch_null c) (Some (r, w)) fds;
                          fds = close_fd w fds;
                          (captured, es) = capture_loop (Suc n) [] (ch_output c);
                          es = drain_loop es
                      in \<lparr>rr_status = wait_result (ch_status c), rr_captured = Some captured, rr_unread = es,
                          rr_fds = close_fd r fds, rr_child = Some child\<rparr>)
           | _ \<Rightarrow>
               if \<not> ch_forked c then failed fds
               else \<lparr>rr_status = wait_result (ch_status c), rr_captured = None, rr_unread = ch_output c, rr_fds = fds,
                     rr_child = Some (child_descriptors limit (ch_null c) None fds)\<rparr>)"

text \<open>The helper as the NIC tuning uses it: the output when the program ended with status 0.\<close>

definition run_helper ::
  "nat \<Rightarrow> descriptors \<Rightarrow> nat option \<Rightarrow> (string list \<Rightarrow> 'w \<Rightarrow> child \<times> 'w) \<Rightarrow> 'w run_argv" where
  "run_helper limit fds capture_size spawn argv w =
     (case spawn argv w of
        (c, w') \<Rightarrow>
          let r = ecat_run_argv limit c (Some (hd argv)) (Some argv) capture_size fds
          in (if rr_status r = 0 then Some (case rr_captured r of Some s \<Rightarrow> s | None \<Rightarrow> []) else None, w'))"

section \<open>Descriptors of parent and child\<close>

lemma lowest_freeD:
  assumes "lowest_free limit fds = Some i"
  shows "fds i = None" and "\<And>j. j < i \<Longrightarrow> fds j \<noteq> None"
  using assms by (auto simp: lowest_free_def find_Some_iff)

lemma pipeD:
  assumes "pipe limit fds = Some (r, w, fds')"
  shows "fds r = None" "fds w = None" "r < w" "fds' = fds(r \<mapsto> F_pipe_read, w \<mapsto> F_pipe_write)"
    "\<And>j. j < w \<Longrightarrow> fds' j \<noteq> None"
proof -
  let ?one = "fds(r \<mapsto> F_pipe_read)"
  have r: "lowest_free limit fds = Some r" and w: "lowest_free limit ?one = Some w"
    and f: "fds' = ?one(w \<mapsto> F_pipe_write)"
    using assms by (auto simp: pipe_def open_file_fd_def split: option.splits)
  show "fds r = None" using lowest_freeD(1) [OF r] .
  have "w \<noteq> r" using lowest_freeD(1) [OF w] by auto
  then show "fds w = None" using lowest_freeD(1) [OF w] by auto
  then show "r < w" using lowest_freeD(2) [OF r, of w] \<open>w \<noteq> r\<close> by (cases "w < r") auto
  show "fds' = fds(r \<mapsto> F_pipe_read, w \<mapsto> F_pipe_write)" using f .
  show "fds' j \<noteq> None" if "j < w" for j using lowest_freeD(2) [OF w that] by (simp add: f)
qed

text \<open>
  No descriptor of the daemon leaks through a helper program. On every path, a failed pipe or fork
  included, the parent's descriptors afterwards are those before.
\<close>

theorem run_argv_keeps_descriptors: "rr_fds (ecat_run_argv limit c bin argv capture_size fds) = fds"
proof -
  have restore: "close_fd r (close_fd w fds') = fds" "close_fd w (close_fd r fds') = fds"
    if "pipe limit fds = Some (r, w, fds')" for r w fds'
    using pipeD [OF that] by (auto simp: close_fd_def fun_eq_iff)
  show ?thesis
    by (cases capture_size) (auto simp: ecat_run_argv_def Let_def restore split: option.split nat.split prod.split)
qed

text \<open>A table with no trace of the new files, and three descriptors free below the limit.\<close>

definition fresh_files :: "descriptors \<Rightarrow> bool" where
  "fresh_files fds \<longleftrightarrow> (\<forall>i. fds i \<notin> {Some F_pipe_read, Some F_pipe_write, Some F_null})"

definition three_free :: "nat \<Rightarrow> descriptors \<Rightarrow> bool" where
  "three_free limit fds \<longleftrightarrow> (\<exists>i j k. i < j \<and> j < k \<and> k < limit \<and> fds i = None \<and> fds j = None \<and> fds k = None)"

lemma lowest_free_exists: "i < limit \<Longrightarrow> fds i = None \<Longrightarrow> \<exists>n. lowest_free limit fds = Some n"
  by (cases "lowest_free limit fds") (auto simp: lowest_free_def find_None_iff)

lemma third_free:
  assumes "three_free limit fds" and "pipe limit fds = Some (r, w, fds')"
  shows "\<exists>n. lowest_free limit fds' = Some n"
proof -
  obtain i j k where f: "i < j" "j < k" "k < limit" "fds i = None" "fds j = None" "fds k = None"
    using assms(1) by (auto simp: three_free_def)
  define x where "x = (if i \<noteq> r \<and> i \<noteq> w then i else if j \<noteq> r \<and> j \<noteq> w then j else k)"
  have "x < limit" "fds x = None" "x \<noteq> r" "x \<noteq> w" using f by (auto simp: x_def)
  then show ?thesis using lowest_free_exists [of x limit fds'] pipeD(4) [OF assms(2)] by simp
qed

text \<open>The end of the child's preparation: the error output, over the table \<open>fds\<close> with \<^verbatim>\<open>/dev/null\<close> at \<open>n\<close>.\<close>

definition to_null :: "nat \<Rightarrow> descriptors \<Rightarrow> descriptors" where
  "to_null n fds = (if n > 2 then (fds(2 \<mapsto> F_null))(n := None) else fds(2 \<mapsto> F_null))"

lemma to_null_apply: "fds n = Some F_null \<Longrightarrow>
  to_null n fds i = (if i = 2 then Some F_null else if i = n \<and> n > 2 then None else fds i)"
  by (simp add: to_null_def)

definition with_pipe :: "nat \<Rightarrow> nat \<Rightarrow> descriptors \<Rightarrow> descriptors" where
  "with_pipe r w fds = (if w = 1 then fds(r := None) else (fds(r := None, 1 := fds w))(w := None))"

lemmas child_defs = child_descriptors_def open_file_fd_def close_fd_def dup2_def Let_def STDOUT_FILENO_def STDERR_FILENO_def

lemma child_capturing:
  assumes "fds w = Some F_pipe_write" "r < w" "fds r \<noteq> None" "w = 1 \<or> fds 1 \<noteq> None"
  shows "child_descriptors limit ok (Some (r, w)) fds =
    (case if ok then lowest_free limit fds else None of
       None \<Rightarrow> with_pipe r w fds
     | Some n \<Rightarrow> to_null n (with_pipe r w (fds(n \<mapsto> F_null))))"
proof (cases "if ok then lowest_free limit fds else None")
  case None
  then show ?thesis using assms by (auto simp: child_defs with_pipe_def)
next
  case (Some n)
  then have "ok" "lowest_free limit fds = Some n" by (auto split: if_splits)
  moreover have none: "fds n = None" by (rule lowest_freeD(1) [OF calculation(2)])
  moreover have "n \<noteq> r" "n \<noteq> w" using none assms(1,3) by auto
  moreover have "n \<noteq> 1" using none assms(1,4) by force
  ultimately show ?thesis using assms unfolding child_defs with_pipe_def to_null_def by auto
qed

lemma capturing_child:
  assumes "fresh_files fds" and "pipe limit fds = Some (r, w, fds')"
    and t: "t = child_descriptors limit ok (Some (r, w)) fds'"
  shows "t 1 = Some F_pipe_write" "t i \<noteq> Some F_pipe_read" "t i = Some F_pipe_write \<Longrightarrow> i = 1"
    "ok \<Longrightarrow> three_free limit fds \<Longrightarrow> t 2 = Some F_null"
proof -
  note p = pipeD [OF assms(2)]
  have fresh: "fds x \<noteq> Some F_pipe_read" "fds x \<noteq> Some F_pipe_write" for x using assms(1) by (auto simp: fresh_files_def)
  have one: "w = 1 \<or> fds' 1 \<noteq> None" using p(3) p(5) [of 1] by linarith
  have ends: "fds' w = Some F_pipe_write" "fds' r = Some F_pipe_read" using p(3,4) by simp_all
  have n: "n \<noteq> r \<and> n \<noteq> w \<and> n \<noteq> 1" if "lowest_free limit fds' = Some n" for n
    using lowest_freeD(1) [OF that] one ends by auto
  let ?wp = "with_pipe r w fds'"
  have wp: "?wp 1 = Some F_pipe_write" "?wp x \<noteq> Some F_pipe_read" "?wp x = Some F_pipe_write \<Longrightarrow> x = 1" for x
    using p(1-4) fresh by (auto simp: with_pipe_def split: if_splits)
  have pass: "with_pipe r w (fds'(n \<mapsto> F_null)) = ?wp(n \<mapsto> F_null)" if "lowest_free limit fds' = Some n" for n
    using n [OF that] by (auto simp: with_pipe_def fun_eq_iff)
  have c: "t = (case if ok then lowest_free limit fds' else None of
      None \<Rightarrow> ?wp | Some n \<Rightarrow> to_null n (with_pipe r w (fds'(n \<mapsto> F_null))))"
    unfolding t by (rule child_capturing) (use ends p(3) one in simp_all)
  have t': "t = (case if ok then lowest_free limit fds' else None of None \<Rightarrow> ?wp | Some n \<Rightarrow> to_null n (?wp(n \<mapsto> F_null)))"
    unfolding c by (cases ok; cases "lowest_free limit fds'") (simp_all add: pass)
  show "t 1 = Some F_pipe_write" "t i \<noteq> Some F_pipe_read" "t i = Some F_pipe_write \<Longrightarrow> i = 1"
    using n wp(1) wp(2,3) [of i] unfolding t'
    by (cases ok; cases "lowest_free limit fds'"; auto simp: to_null_apply split: if_splits)+
  show "t 2 = Some F_null" if "ok" "three_free limit fds"
    using third_free [OF that(2) assms(2)] that(1) unfolding t' by (auto simp: to_null_apply)
qed

lemma silent_child:
  assumes "fresh_files fds" and t: "t = child_descriptors limit ok None fds"
  shows "t i \<noteq> Some F_pipe_read" "t i \<noteq> Some F_pipe_write"
    "ok \<Longrightarrow> three_free limit fds \<Longrightarrow> t 1 = Some F_null \<and> t 2 = Some F_null"
proof -
  have t': "t = (case if ok then lowest_free limit fds else None of
      None \<Rightarrow> fds | Some n \<Rightarrow> to_null n (fds(n \<mapsto> F_null, 1 \<mapsto> F_null)))"
    unfolding t by (auto simp: child_defs to_null_def split: option.split)
  show "t i \<noteq> Some F_pipe_read" "t i \<noteq> Some F_pipe_write"
    using assms(1) unfolding t' by (auto simp: to_null_apply fresh_files_def split: option.splits if_splits)
  assume "ok" "three_free limit fds"
  moreover from this obtain n where "lowest_free limit fds = Some n"
    unfolding three_free_def using lowest_free_exists by blast
  ultimately show "t 1 = Some F_null \<and> t 2 = Some F_null" unfolding t' by (simp add: to_null_apply)
qed

lemma run_argv_child:
  assumes "rr_child (ecat_run_argv limit c bin argv capture_size fds) = Some t"
  obtains (capture) r w fds' where "pipe limit fds = Some (r, w, fds')"
      "t = child_descriptors limit (ch_null c) (Some (r, w)) fds'"
      "rr_captured (ecat_run_argv limit c bin argv capture_size fds) \<noteq> None"
    | (silent) "t = child_descriptors limit (ch_null c) None fds"
      "rr_captured (ecat_run_argv limit c bin argv capture_size fds) = None"
proof (cases "\<exists>n. capture_size = Some (Suc n)")
  case True
  then show ?thesis using assms that(1)
    by (cases "pipe limit fds") (auto simp: ecat_run_argv_def Let_def split: if_splits prod.splits)
next
  case False
  then have "capture_size = None \<or> capture_size = Some 0" by (metis not0_implies_Suc option.exhaust)
  then show ?thesis using assms that(2) by (auto simp: ecat_run_argv_def Let_def split: if_splits)
qed

text \<open>
  C39: the helper program starts with the descriptors the daemon meant, whichever of the standard ones were
  closed. Its output goes to the pipe when it is captured and nowhere else; otherwise it goes to
  \<^verbatim>\<open>/dev/null\<close>, as the error output always does, when that is there and descriptors are to
  be had; no end of the pipe stays open besides.
\<close>

theorem child_descriptors_ok:
  assumes "fresh_files fds" and "rr_child (ecat_run_argv limit c bin argv capture_size fds) = Some t"
  shows "let capturing = rr_captured (ecat_run_argv limit c bin argv capture_size fds) \<noteq> None
    in (capturing \<longrightarrow> t STDOUT_FILENO = Some F_pipe_write) \<and>
       (\<forall>i. t i \<noteq> Some F_pipe_read \<and> (t i = Some F_pipe_write \<longrightarrow> capturing \<and> i = STDOUT_FILENO)) \<and>
       (ch_null c \<and> three_free limit fds \<longrightarrow>
          t STDERR_FILENO = Some F_null \<and> (\<not> capturing \<longrightarrow> t STDOUT_FILENO = Some F_null))"
  using assms(2)
proof (cases rule: run_argv_child)
  case (capture r w fds')
  show ?thesis using capturing_child [OF assms(1) capture(1,2)] capture(3)
    unfolding Let_def STDOUT_FILENO_def STDERR_FILENO_def by blast
next
  case silent
  show ?thesis using silent_child [OF assms(1) silent(1)] silent(2)
    unfolding Let_def STDOUT_FILENO_def STDERR_FILENO_def by blast
qed

section \<open>What is captured\<close>

text \<open>The whole output of a child, when no read fails: chunks are never empty.\<close>

fun stream :: "pipe_event list \<Rightarrow> string option" where
  "stream [] = Some []"
| "stream (P_error # es) = None"
| "stream (P_data s # es) = (if s = [] then None else map_option ((@) s) (stream es))"

lemma read_stream:
  assumes "stream es = Some s" and "0 < n"
  shows "\<exists>u es' s'. read_pipe n es = (Some u, es') \<and> (u = [] \<longleftrightarrow> s = []) \<and> length u \<le> n \<and>
    stream es' = Some s' \<and> s = u @ s' \<and> (u = [] \<longrightarrow> es' = [])"
proof (cases es)
  case (Cons e es0)
  then obtain c s0 where c: "e = P_data c" "c \<noteq> []" "stream es0 = Some s0" "s = c @ s0"
    using assms(1) by (cases e) (auto split: if_splits)
  show ?thesis
  proof (cases "length c \<le> n")
    case False
    then have "take n c \<noteq> [] \<and> drop n c \<noteq> []" using assms(2) c(2) by auto
    then show ?thesis using Cons c False by (simp add: append_assoc [symmetric] del: append_assoc)
  qed (use Cons c in simp)
qed (use assms in simp)

lemma capture_stream:
  assumes "stream es = Some s" and "length b < cap"
  shows "\<exists>es' s'. capture_loop cap b es = (take (cap - 1) (b @ s), es') \<and> stream es' = Some s'"
  using assms
proof (induction cap b es arbitrary: s rule: capture_loop.induct)
  case (1 cap b es)
  show ?case
  proof (cases "length b + 1 < cap")
    case False
    then show ?thesis using 1(2,3) by (subst capture_loop.simps) simp
  next
    case True
    let ?n = "cap - 1 - length b"
    have "0 < ?n" using True by simp
    from read_stream [OF 1(2) this] obtain u es' s'
      where u: "read_pipe ?n es = (Some u, es')" "u = [] \<longleftrightarrow> s = []" "length u \<le> ?n" "stream es' = Some s'" "s = u @ s'"
      by blast
    show ?thesis
    proof (cases "u = []")
      case True
      then have "s = []" using u(2) by simp
      then show ?thesis using True u(1,4) \<open>length b + 1 < cap\<close> by (subst capture_loop.simps) simp
    next
      case False
      have "length (b @ u) < cap" using u(3) True by simp
      from 1(1) [OF True u(1) [symmetric] refl False u(4) this] show ?thesis using u(1) True False
        unfolding u(5) by (subst capture_loop.simps) simp
    qed
  qed
qed

lemma drain_stream: "stream es = Some s \<Longrightarrow> drain_loop es = []"
proof (induction es arbitrary: s rule: drain_loop.induct)
  case (1 es)
  from read_stream [OF 1(2), of 256] obtain u es' s'
    where u: "read_pipe 256 es = (Some u, es')" "stream es' = Some s'" "u = [] \<Longrightarrow> es' = []" by auto
  then show ?case using 1(1) [OF u(1) [symmetric] refl _ u(2)] by (subst drain_loop.simps) auto
qed

lemma capture_bound: "length b < cap \<Longrightarrow> length (fst (capture_loop cap b es)) < cap"
proof (induction cap b es rule: capture_loop.induct)
  case (1 cap b es)
  show ?case
  proof (cases "length b + 1 < cap")
    case True
    have "length u \<le> cap - 1 - length b" if "read_pipe (cap - 1 - length b) es = (Some u, es')" for u es'
      using that by (cases "(cap - 1 - length b, es)" rule: read_pipe.cases) auto
    then show ?thesis using 1 True
      by (subst capture_loop.simps) (force split: prod.split option.split)
  qed (use 1(2) in \<open>subst capture_loop.simps, simp\<close>)
qed

text \<open>
  Output is captured without overrun. Whatever arrives on the pipe, in whatever pieces, and wherever
  a read fails, the captured text and its terminator fit the buffer.
\<close>

theorem run_argv_capture_fits:
  "(case rr_captured (ecat_run_argv limit c bin argv (Some cap) fds) of None \<Rightarrow> True | Some s \<Rightarrow> length s < cap)"
  using capture_bound [of "[]" cap "ch_output c"]
  by (auto simp: ecat_run_argv_def Let_def split: option.split prod.split nat.split)

text \<open>
  When no read fails, the buffer holds the start of the child's output, as much of it as fits, however
  the output was split into pieces, and all the rest has been drained, so that the child never waits
  on a full pipe; the status is the child's.
\<close>

theorem run_argv_captures:
  assumes "stream (ch_output c) = Some s" and "rr_captured (ecat_run_argv limit c bin argv (Some cap) fds) = Some t"
  shows "t = c_copy cap s \<and> rr_unread (ecat_run_argv limit c bin argv (Some cap) fds) = [] \<and>
    rr_status (ecat_run_argv limit c bin argv (Some cap) fds) = wait_result (ch_status c)"
proof -
  obtain n where n: "cap = Suc n" using assms(2) by (cases cap) (auto simp: ecat_run_argv_def Let_def split: if_splits)
  obtain es' s' where e: "capture_loop cap [] (ch_output c) = (take (cap - 1) s, es')" "stream es' = Some s'"
    using capture_stream [OF assms(1), of "[]" cap] n by auto
  show ?thesis using assms(2) e drain_stream [OF e(2)]
    by (auto simp: ecat_run_argv_def Let_def n c_copy_def split: option.splits if_splits)
qed

definition example_child :: child where
  "example_child =
     \<lparr>ch_forked = True, ch_null = True, ch_output = [P_data ''rx-us'', P_data ''ecs: 3''], ch_status = W_exited 0\<rparr>"

definition example_fds :: descriptors where
  "example_fds = [0 \<mapsto> F_other 0, 2 \<mapsto> F_other 2]"

theorem run_argv_captures_witness:
  "rr_status (ecat_run_argv 16 example_child (Some ''ethtool'') (Some [''ethtool'']) (Some 8) example_fds) = 0"
proof -
  have "rr_captured (ecat_run_argv 16 example_child (Some ''ethtool'') (Some [''ethtool'']) (Some 8) example_fds) = Some ''rx-usec''"
    by code_simp
  moreover have "stream (ch_output example_child) = Some ''rx-usecs: 3''" by code_simp
  ultimately show ?thesis using run_argv_captures by (force simp: example_child_def wait_result_def)
qed

theorem child_descriptors_ok_witness:
  "(the (rr_child (ecat_run_argv 16 example_child (Some ''ethtool'') (Some [''ethtool'']) (Some 8) example_fds))) 1 = Some F_pipe_write"
proof -
  let ?r = "ecat_run_argv 16 example_child (Some ''ethtool'') (Some [''ethtool'']) (Some 8) example_fds"
  have "fresh_files example_fds" by (simp add: fresh_files_def example_fds_def)
  moreover have "rr_child ?r \<noteq> None" "rr_captured ?r \<noteq> None" by code_simp+
  then obtain t where "rr_child ?r = Some t" by blast
  ultimately show ?thesis using child_descriptors_ok [of example_fds 16 example_child] \<open>rr_captured ?r \<noteq> None\<close>
    by (metis STDOUT_FILENO_def option.sel)
qed

section \<open>The NIC tuning over the helper\<close>

text \<open>The reference: a program that ended with status 0 yields its whole output.\<close>

definition whole_output :: "(string list \<Rightarrow> 'w \<Rightarrow> child \<times> 'w) \<Rightarrow> 'w run_argv" where
  "whole_output spawn argv w =
     (case spawn argv w of
        (c, w') \<Rightarrow> (if ch_forked c \<and> ch_status c = W_exited 0 then stream (ch_output c) else None, w'))"

lemma run_helper_output:
  assumes "stream (ch_output (fst (spawn argv w))) \<noteq> None" and "pipe limit fds \<noteq> None" and "0 < n"
  shows "run_helper limit fds (Some n) spawn argv w = map_prod (map_option (c_copy n)) id (whole_output spawn argv w)"
proof -
  obtain c w' where c: "spawn argv w = (c, w')" by force
  obtain s where s: "stream (ch_output c) = Some s" using assms(1) c by auto
  obtain r v fds' where p: "pipe limit fds = Some (r, v, fds')" using assms(2) by auto
  obtain m where m: "n = Suc m" using assms(3) by (cases n) auto
  obtain es' s' where e: "capture_loop n [] (ch_output c) = (take (n - 1) s, es')"
    using capture_stream [OF s, of "[]" n] assms(3) by auto
  show ?thesis
    using c s p e unfolding run_helper_def whole_output_def m
    by (cases "ch_status c") (auto simp: ecat_run_argv_def Let_def wait_result_def c_copy_def)
qed

text \<open>
  Composition of the helper with the NIC tuning. Over \<^verbatim>\<open>ecat_run_argv\<close> and its buffer
  of 2048 bytes, the settings captured are those read from the start of the whole output of
  \<^verbatim>\<open>ethtool\<close>, however its output arrived in pieces.
\<close>

theorem capture_over_helper:
  assumes "\<forall>argv w. stream (ch_output (fst (spawn argv w))) \<noteq> None" and "pipe limit fds \<noteq> None"
  shows "capture_nic_settings (run_helper limit fds (Some 2048) spawn) s h = capture_nic_settings (whole_output spawn) s h"
proof -
  have run: "run_host (run_helper limit fds (Some 2048) spawn) argv h =
      map_prod (map_option (c_copy 2048)) id (run_host (whole_output spawn) argv h)" for argv h
    using run_helper_output [of spawn argv "nic h" limit fds 2048] assms by (simp add: run_host_def case_prod_unfold)
  have idem: "c_copy 2048 (c_copy 2048 t) = c_copy 2048 t" for t by (simp add: c_copy_def)
  show ?thesis unfolding capture_nic_settings_def run
    by (simp add: case_prod_unfold Let_def idem split: option.split)
qed

theorem capture_over_helper_witness:
  "capture_nic_settings (run_helper 16 example_fds (Some 2048) (\<lambda>_ w. (example_child, w))) zero_iface_state
     \<lparr>files = Map.empty, nic = 0 :: nat\<rparr> =
   capture_nic_settings (whole_output (\<lambda>_ w. (example_child, w))) zero_iface_state \<lparr>files = Map.empty, nic = 0\<rparr>"
  by (rule capture_over_helper) (simp_all add: example_child_def pipe_def open_file_fd_def lowest_free_def example_fds_def upt_rec)

end
