(* ===== verification/Json_Parse.thy ===== *)
theory Json_Parse
  imports Json "HOL-Library.Monad_Syntax"
begin

text \<open>
  The JSON text parser of \<^verbatim>\<open>src/cjson/cJSON.c\<close>, over the bytes of its buffer. A function of this theory
  returns \<open>None\<close> when it reads or writes outside an object or runs out of fuel, so that a theorem
  that it returns \<open>Some\<close> is a theorem about memory and about termination; the success flag of the C
  function is the optional item inside. The n-th allocation, of a given size, succeeds as \<open>hooks\<close> says, and
  \<open>pb_live\<close> counts the blocks that are allocated and not released.
\<close>

section \<open>Buffers\<close>

definition CJSON_NESTING_LIMIT :: nat where "CJSON_NESTING_LIMIT = 1000"

abbreviation QUOTE :: char where "QUOTE \<equiv> CHR 0x22"
abbreviation BACKSLASH :: char where "BACKSLASH \<equiv> CHR 0x5C"
abbreviation NUL :: char where "NUL \<equiv> CHR 0x00"

type_synonym alloc_hooks = "nat \<Rightarrow> nat \<Rightarrow> bool"

record parse_buffer =
  pb_content :: string
  pb_offset :: nat
  pb_depth :: nat
  pb_calls :: nat
  pb_live :: int

type_synonym 'a reading = "('a \<times> parse_buffer) option"

definition read_at :: "string \<Rightarrow> nat \<Rightarrow> char option" where
  "read_at s i = (if i < length s then Some (s ! i) else None)"

definition can_read :: "parse_buffer \<Rightarrow> nat \<Rightarrow> bool" where
  "can_read b n \<longleftrightarrow> pb_offset b + n \<le> length (pb_content b)"

definition can_access_at_index :: "parse_buffer \<Rightarrow> nat \<Rightarrow> bool" where
  "can_access_at_index b i \<longleftrightarrow> pb_offset b + i < length (pb_content b)"

definition buffer_at :: "parse_buffer \<Rightarrow> nat \<Rightarrow> char option" where
  "buffer_at b i = read_at (pb_content b) (pb_offset b + i)"

definition advance :: "nat \<Rightarrow> parse_buffer \<Rightarrow> parse_buffer" where
  "advance n b = b\<lparr>pb_offset := pb_offset b + n\<rparr>"

definition step_back :: "parse_buffer \<Rightarrow> parse_buffer" where
  "step_back b = b\<lparr>pb_offset := pb_offset b - 1\<rparr>"

text \<open>The test \<^verbatim>\<open>can_access_at_index(b, 0) && buffer_at_offset(b)[0] == c\<close>.\<close>

definition is_at :: "parse_buffer \<Rightarrow> char \<Rightarrow> bool option" where
  "is_at b c = (if can_access_at_index b 0 then do { x \<leftarrow> buffer_at b 0; Some (x = c) } else Some False)"

text \<open>Allocation and release of blocks; \<open>sizeof (cJSON)\<close> is 64 on the 64-bit targets.\<close>

definition SIZEOF_CJSON :: nat where "SIZEOF_CJSON = 64"

definition allocate :: "alloc_hooks \<Rightarrow> nat \<Rightarrow> parse_buffer \<Rightarrow> bool \<times> parse_buffer" where
  "allocate hooks n b =
     (if hooks (pb_calls b) n then (True, b\<lparr>pb_calls := pb_calls b + 1, pb_live := pb_live b + 1\<rparr>)
      else (False, b\<lparr>pb_calls := pb_calls b + 1\<rparr>))"

definition deallocate :: "int \<Rightarrow> parse_buffer \<Rightarrow> parse_buffer" where
  "deallocate n b = b\<lparr>pb_live := pb_live b - n\<rparr>"

definition cJSON_New_Item :: "alloc_hooks \<Rightarrow> parse_buffer \<Rightarrow> bool \<times> parse_buffer" where
  "cJSON_New_Item hooks b = allocate hooks SIZEOF_CJSON b"

text \<open>The number of blocks that the deletion of an item without a name releases, and of a chain of them.\<close>

fun cJSON_Delete :: "json \<Rightarrow> int" where
  "cJSON_Delete (J_str s) = 2"
| "cJSON_Delete (J_arr xs) = 1 + sum_list (map cJSON_Delete xs)"
| "cJSON_Delete (J_obj kvs) = 1 + sum_list (map (\<lambda>(k, v). 1 + cJSON_Delete v) kvs)"
| "cJSON_Delete j = 1"

definition delete_items :: "json list \<Rightarrow> parse_buffer \<Rightarrow> parse_buffer" where
  "delete_items xs b = deallocate (sum_list (map cJSON_Delete xs)) b"

definition delete_members :: "(string \<times> json) list \<Rightarrow> parse_buffer \<Rightarrow> parse_buffer" where
  "delete_members kvs b = deallocate (sum_list (map (\<lambda>(k, v). 1 + cJSON_Delete v) kvs)) b"

section \<open>Whitespace and the byte order mark\<close>

text \<open>The loop over the blanks reads a byte only behind its bound test; a read past the end is the fault.\<close>

function skip_from :: "string \<Rightarrow> nat \<Rightarrow> nat option" where
  "skip_from s i =
     (if i < length s then do {
        c \<leftarrow> read_at s i;
        if code_of c \<le> 32 then skip_from s (i + 1) else Some i
      } else Some i)"
  by pat_completeness auto

termination
  by (relation "measure (\<lambda>(s, i). length s - i)") auto

declare skip_from.simps [simp del]

definition buffer_skip_whitespace :: "parse_buffer \<Rightarrow> parse_buffer option" where
  "buffer_skip_whitespace b =
     (if \<not> can_access_at_index b 0 then Some b
      else do {
        i \<leftarrow> skip_from (pb_content b) (pb_offset b);
        Some (b\<lparr>pb_offset := (if i = length (pb_content b) then i - 1 else i)\<rparr>)
      })"

text \<open>
  \<^verbatim>\<open>strncmp\<close> against a literal of as many characters, none of them NUL: it reads byte after byte up to
  the first difference, and faults where the object ends before that. The second definition is the test
  \<^verbatim>\<open>can_read(b, n) && strncmp(buffer_at_offset(b), w, n) == 0\<close>.
\<close>

fun strncmp_at :: "string \<Rightarrow> nat \<Rightarrow> string \<Rightarrow> bool option" where
  "strncmp_at s i [] = Some True"
| "strncmp_at s i (c # w) = do { x \<leftarrow> read_at s i; if x = c then strncmp_at s (i + 1) w else Some False }"

definition literal_at :: "parse_buffer \<Rightarrow> nat \<Rightarrow> string \<Rightarrow> bool option" where
  "literal_at b n w = (if can_read b n then strncmp_at (pb_content b) (pb_offset b) w else Some False)"

text \<open>The inner \<open>None\<close> is the null pointer the function returns when the buffer is not at its start.\<close>

definition skip_utf8_bom :: "parse_buffer \<Rightarrow> parse_buffer option option" where
  "skip_utf8_bom b =
     (if pb_offset b \<noteq> 0 then Some None
      else do {
        bom \<leftarrow> (if can_access_at_index b 4
               then strncmp_at (pb_content b) (pb_offset b) [CHR 0xEF, CHR 0xBB, CHR 0xBF] else Some False);
        Some (Some (if bom then advance 3 b else b))
      })"

section \<open>Numbers\<close>

definition number_char :: "char \<Rightarrow> bool" where
  "number_char c \<longleftrightarrow> isdigit c \<or> c \<in> {CHR ''+'', CHR ''-'', CHR ''e'', CHR ''E'', CHR ''.''}"

text \<open>The loop that copies a number into its buffer of 64 bytes, with room for \<open>n\<close> more characters.\<close>

fun copy_number :: "parse_buffer \<Rightarrow> nat \<Rightarrow> nat \<Rightarrow> string option" where
  "copy_number b i 0 = Some []"
| "copy_number b i (Suc n) =
     (if can_access_at_index b i then do {
        c \<leftarrow> buffer_at b i;
        if number_char c then do { cs \<leftarrow> copy_number b (i + 1) n; Some (c # cs) } else Some []
      } else Some [])"

definition parse_number :: "parse_buffer \<Rightarrow> json option reading" where
  "parse_number b = do {
     s \<leftarrow> copy_number b 0 63;
     case strtod s of
       None \<Rightarrow> Some (None, b)
     | Some (number, after_end) \<Rightarrow> Some (Some (J_num number), advance (length s - length after_end) b)
   }"

section \<open>Strings\<close>

text \<open>A bad digit ends the loop with the value 0.\<close>

definition hex_digit :: "char \<Rightarrow> nat option" where
  "hex_digit c =
     (if 48 \<le> code_of c \<and> code_of c \<le> 57 then Some (code_of c - 48)
      else if 65 \<le> code_of c \<and> code_of c \<le> 70 then Some (10 + code_of c - 65)
      else if 97 \<le> code_of c \<and> code_of c \<le> 102 then Some (10 + code_of c - 97)
      else None)"

fun hex4_from :: "string \<Rightarrow> nat \<Rightarrow> nat \<Rightarrow> nat \<Rightarrow> nat option" where
  "hex4_from s p h 0 = Some h"
| "hex4_from s p h (Suc left) = do {
     c \<leftarrow> read_at s p;
     case hex_digit c of
       None \<Rightarrow> Some 0
     | Some d \<Rightarrow> hex4_from s (p + 1) (if left > 0 then push_bit 4 (h + d) else h + d) left
   }"

definition parse_hex4 :: "string \<Rightarrow> nat \<Rightarrow> nat option" where
  "parse_hex4 s p = hex4_from s p 0 4"

text \<open>The bytes after the first, written from the last one down, and what is left of the code point.\<close>

fun utf8_rest :: "nat \<Rightarrow> nat \<Rightarrow> nat \<times> string" where
  "utf8_rest 0 codepoint = (codepoint, [])"
| "utf8_rest (Suc n) codepoint =
     (let c = char_of ((codepoint OR 0x80) AND 0xBF); (first, cs) = utf8_rest n (drop_bit 6 codepoint)
      in (first, cs @ [c]))"

definition utf8_bytes :: "nat \<Rightarrow> nat \<Rightarrow> nat \<Rightarrow> string" where
  "utf8_bytes utf8_length first_byte_mark codepoint =
     (let (first, cs) = utf8_rest (utf8_length - 1) codepoint
      in char_of (if utf8_length > 1 then (first OR first_byte_mark) AND 0xFF else first AND 0x7F) # cs)"

definition utf8_encode :: "nat \<Rightarrow> string option" where
  "utf8_encode codepoint =
     (if codepoint < 0x80 then Some (utf8_bytes 1 0 codepoint)
      else if codepoint < 0x800 then Some (utf8_bytes 2 0xC0 codepoint)
      else if codepoint < 0x10000 then Some (utf8_bytes 3 0xE0 codepoint)
      else if codepoint \<le> 0x10FFFF then Some (utf8_bytes 4 0xF0 codepoint)
      else None)"

text \<open>The length of the literal, 0 on failure, and the bytes it stands for.\<close>

definition finish_literal :: "nat \<Rightarrow> nat \<Rightarrow> nat \<times> string" where
  "finish_literal sequence_length codepoint =
     (case utf8_encode codepoint of None \<Rightarrow> (0, []) | Some cs \<Rightarrow> (sequence_length, cs))"

definition utf16_literal_to_utf8 :: "string \<Rightarrow> nat \<Rightarrow> nat \<Rightarrow> (nat \<times> string) option" where
  "utf16_literal_to_utf8 s p e =
     (if e - p < 6 then Some (0, [])
      else do {
        first_code \<leftarrow> parse_hex4 s (p + 2);
        if 0xDC00 \<le> first_code \<and> first_code \<le> 0xDFFF then Some (0, [])
        else if 0xD800 \<le> first_code \<and> first_code \<le> 0xDBFF then
          (if e - (p + 6) < 6 then Some (0, [])
           else do {
             c \<leftarrow> read_at s (p + 6);
             if c \<noteq> BACKSLASH then Some (0, [])
             else do {
               u \<leftarrow> read_at s (p + 7);
               if u \<noteq> CHR ''u'' then Some (0, [])
               else do {
                 second_code \<leftarrow> parse_hex4 s (p + 8);
                 if second_code < 0xDC00 \<or> second_code > 0xDFFF then Some (0, [])
                 else Some (finish_literal 12
                        (0x10000 + (push_bit 10 (first_code AND 0x3FF) OR (second_code AND 0x3FF))))
               }
             }
           })
        else Some (finish_literal 6 first_code)
      })"

text \<open>The position of the closing quote and the number of escapes before it.\<close>

function scan_close :: "string \<Rightarrow> nat \<Rightarrow> nat \<Rightarrow> (nat \<times> nat) option option" where
  "scan_close s p skipped =
     (if p < length s then do {
        c \<leftarrow> read_at s p;
        if c = QUOTE then Some (Some (p, skipped))
        else if c = BACKSLASH then
          (if p + 1 \<ge> length s then Some None else scan_close s (p + 2) (skipped + 1))
        else scan_close s (p + 1) skipped
      } else Some None)"
  by pat_completeness auto

termination
  by (relation "measure (\<lambda>(s, p, _). length s - p)") auto

declare scan_close.simps [simp del]

text \<open>A write of characters at the end of an output block of \<open>cap\<close> bytes.\<close>

definition put :: "nat \<Rightarrow> string \<Rightarrow> string \<Rightarrow> string option" where
  "put cap out cs = (if length out + length cs \<le> cap then Some (out @ cs) else None)"

definition simple_escape :: "char \<Rightarrow> char option" where
  "simple_escape c =
     (if c = CHR ''b'' then Some (CHR 0x08)
      else if c = CHR ''f'' then Some (CHR 0x0C)
      else if c = CHR ''n'' then Some (CHR 0x0A)
      else if c = CHR ''r'' then Some (CHR 0x0D)
      else if c = CHR ''t'' then Some (CHR 0x09)
      else if c = QUOTE \<or> c = BACKSLASH \<or> c = CHR ''/'' then Some c
      else None)"

text \<open>The loop over the literal between \<open>p\<close> and the closing quote at \<open>e\<close>; \<open>Inl\<close> is where it failed.\<close>

function unescape :: "string \<Rightarrow> nat \<Rightarrow> nat \<Rightarrow> nat \<Rightarrow> string \<Rightarrow> (nat + string) option" where
  "unescape s p e cap out =
     (if p < e then do {
        c \<leftarrow> read_at s p;
        if c \<noteq> BACKSLASH then do { out \<leftarrow> put cap out [c]; unescape s (p + 1) e cap out }
        else do {
          c \<leftarrow> read_at s (p + 1);
          case simple_escape c of
            Some x \<Rightarrow> do { out \<leftarrow> put cap out [x]; unescape s (p + 2) e cap out }
          | None \<Rightarrow>
              if c = CHR ''u'' then do {
                (n, cs) \<leftarrow> utf16_literal_to_utf8 s p e;
                if n = 0 then Some (Inl p)
                else do { out \<leftarrow> put cap out cs; unescape s (p + n) e cap out }
              } else Some (Inl p)
        }
      } else Some (Inr out))"
  by pat_completeness auto

termination
  by (relation "measure (\<lambda>(s, p, e, _). e - p)") auto

declare unescape.simps [simp del]

definition c_string :: "string \<Rightarrow> string" where
  "c_string s = takeWhile (\<lambda>c. c \<noteq> NUL) s"

definition parse_string :: "alloc_hooks \<Rightarrow> parse_buffer \<Rightarrow> string option reading" where
  "parse_string hooks b = do {
     c \<leftarrow> buffer_at b 0;
     if c \<noteq> QUOTE then Some (None, advance 1 b)
     else do {
       close \<leftarrow> scan_close (pb_content b) (pb_offset b + 1) 0;
       case close of
         None \<Rightarrow> Some (None, advance 1 b)
       | Some (input_end, skipped_bytes) \<Rightarrow>
           (let allocation_length = input_end - pb_offset b - skipped_bytes
            in case allocate hooks (allocation_length + 1) b of
                 (False, b) \<Rightarrow> Some (None, advance 1 b)
               | (True, b) \<Rightarrow> do {
                   r \<leftarrow> unescape (pb_content b) (pb_offset b + 1) input_end (allocation_length + 1) [];
                   case r of
                     Inl p \<Rightarrow> Some (None, (deallocate 1 b)\<lparr>pb_offset := p\<rparr>)
                   | Inr out \<Rightarrow> do {
                       out \<leftarrow> put (allocation_length + 1) out [NUL];
                       Some (Some (c_string out), b\<lparr>pb_offset := input_end + 1\<rparr>)
                     }
                 })
     }
   }"

section \<open>Values, arrays and objects\<close>

text \<open>
  The mutual recursion of the parser, with fuel for the calls that are nested or chained. \<open>items\<close> and \<open>members\<close>
  are the linked children read so far; when the parser fails it deletes them and the child it works on.
\<close>

definition close_container :: "json \<Rightarrow> parse_buffer \<Rightarrow> json option reading" where
  "close_container j b = Some (Some j, advance 1 (b\<lparr>pb_depth := pb_depth b - 1\<rparr>))"

fun parse_value :: "alloc_hooks \<Rightarrow> nat \<Rightarrow> parse_buffer \<Rightarrow> json option reading"
  and parse_array :: "alloc_hooks \<Rightarrow> nat \<Rightarrow> parse_buffer \<Rightarrow> json option reading"
  and array_items :: "alloc_hooks \<Rightarrow> nat \<Rightarrow> json list \<Rightarrow> parse_buffer \<Rightarrow> json option reading"
  and parse_object :: "alloc_hooks \<Rightarrow> nat \<Rightarrow> parse_buffer \<Rightarrow> json option reading"
  and object_members :: "alloc_hooks \<Rightarrow> nat \<Rightarrow> (string \<times> json) list \<Rightarrow> parse_buffer \<Rightarrow> json option reading"
where
  "parse_value hooks 0 b = None"
| "parse_value hooks (Suc n) b =
     do {
       null_here \<leftarrow> literal_at b 4 ''null'';
       if null_here then Some (Some J_null, advance 4 b)
       else do {
         false_here \<leftarrow> literal_at b 5 ''false'';
         if false_here then Some (Some (J_bool False), advance 5 b)
         else do {
           true_here \<leftarrow> literal_at b 4 ''true'';
           if true_here then Some (Some (J_bool True), advance 4 b)
           else if \<not> can_access_at_index b 0 then Some (None, b)
           else do {
             c \<leftarrow> buffer_at b 0;
             if c = QUOTE then do { (s, b) \<leftarrow> parse_string hooks b; Some (map_option J_str s, b) }
             else if c = CHR ''-'' \<or> isdigit c then parse_number b
             else if c = CHR ''['' then parse_array hooks n b
             else if c = CHR ''{'' then parse_object hooks n b
             else Some (None, b)
           }
         }
       }
     }"
| "parse_array hooks 0 b = None"
| "parse_array hooks (Suc n) b =
     (if pb_depth b \<ge> CJSON_NESTING_LIMIT then Some (None, b)
      else
        let b = b\<lparr>pb_depth := pb_depth b + 1\<rparr>
        in do {
          c \<leftarrow> buffer_at b 0;
          if c \<noteq> CHR ''['' then Some (None, b)
          else
            do {
              b \<leftarrow> buffer_skip_whitespace (advance 1 b);
              empty \<leftarrow> is_at b CHR '']'';
              if empty then close_container (J_arr []) b
              else if \<not> can_access_at_index b 0 then Some (None, step_back b)
              else array_items hooks n [] (step_back b)
            }
        })"
| "array_items hooks 0 items b = None"
| "array_items hooks (Suc n) items b =
     (case cJSON_New_Item hooks b of
        (False, b) \<Rightarrow> Some (None, delete_items items b)
      | (True, b) \<Rightarrow> do {
          b \<leftarrow> buffer_skip_whitespace (advance 1 b);
          (v, b) \<leftarrow> parse_value hooks n b;
          case v of
            None \<Rightarrow> Some (None, delete_items items (deallocate 1 b))
          | Some j \<Rightarrow>
              let items = items @ [j]
              in do {
                b \<leftarrow> buffer_skip_whitespace b;
                comma \<leftarrow> is_at b CHR '','';
                if comma then array_items hooks n items b
                else do {
                  close \<leftarrow> is_at b CHR '']'';
                  if close then close_container (J_arr items) b else Some (None, delete_items items b)
                }
              }
        })"
| "parse_object hooks 0 b = None"
| "parse_object hooks (Suc n) b =
     (if pb_depth b \<ge> CJSON_NESTING_LIMIT then Some (None, b)
      else
        let b = b\<lparr>pb_depth := pb_depth b + 1\<rparr>
        in do {
          opening \<leftarrow> is_at b CHR ''{'';
          if \<not> opening then Some (None, b)
          else
            do {
              b \<leftarrow> buffer_skip_whitespace (advance 1 b);
              empty \<leftarrow> is_at b CHR ''}'';
              if empty then close_container (J_obj []) b
              else if \<not> can_access_at_index b 0 then Some (None, step_back b)
              else object_members hooks n [] (step_back b)
            }
        })"
| "object_members hooks 0 members b = None"
| "object_members hooks (Suc n) members b =
     (case cJSON_New_Item hooks b of
        (False, b) \<Rightarrow> Some (None, delete_members members b)
      | (True, b) \<Rightarrow>
          if \<not> can_access_at_index b 1 then Some (None, delete_members members (deallocate 1 b))
          else do {
            b \<leftarrow> buffer_skip_whitespace (advance 1 b);
            (name, b) \<leftarrow> parse_string hooks b;
            case name of
              None \<Rightarrow> Some (None, delete_members members (deallocate 1 b))
            | Some k \<Rightarrow>
                do {
                  b \<leftarrow> buffer_skip_whitespace b;
                  colon \<leftarrow> is_at b CHR '':'';
                  if \<not> colon then Some (None, delete_members members (deallocate 2 b))
                  else do {
                    b \<leftarrow> buffer_skip_whitespace (advance 1 b);
                    (v, b) \<leftarrow> parse_value hooks n b;
                    case v of
                      None \<Rightarrow> Some (None, delete_members members (deallocate 2 b))
                    | Some j \<Rightarrow>
                        let members = members @ [(k, j)]
                        in do {
                          b \<leftarrow> buffer_skip_whitespace b;
                          comma \<leftarrow> is_at b CHR '','';
                          if comma then object_members hooks n members b
                          else do {
                            close \<leftarrow> is_at b CHR ''}'';
                            if close then close_container (J_obj members) b
                            else Some (None, delete_members members b)
                          }
                        }
                  }
                }
          })"

declare parse_value.simps [simp del] parse_array.simps [simp del] array_items.simps [simp del]
  parse_object.simps [simp del] object_members.simps [simp del]

section \<open>Entry points\<close>

text \<open>
  What a parse leaves: the item, where it stopped, the position in the global error record when it
  failed, and the blocks still allocated. The fuel is three calls for each byte and one more.
\<close>

record parse_result =
  ps_item :: "json option"
  ps_end :: nat
  ps_error :: "nat option"
  ps_live :: int

definition parse_failed :: "parse_buffer \<Rightarrow> parse_result" where
  "parse_failed b =
     (let position =
            (if pb_offset b < length (pb_content b) then pb_offset b
             else if length (pb_content b) > 0 then length (pb_content b) - 1 else 0)
      in \<lparr>ps_item = None, ps_end = position, ps_error = Some position, ps_live = pb_live b\<rparr>)"

definition cJSON_ParseWithLengthOpts :: "alloc_hooks \<Rightarrow> string \<Rightarrow> bool \<Rightarrow> parse_result option" where
  "cJSON_ParseWithLengthOpts hooks value require_null_terminated =
     (if value = [] then Some \<lparr>ps_item = None, ps_end = 0, ps_error = Some 0, ps_live = 0\<rparr>
      else
        let b = \<lparr>pb_content = value, pb_offset = 0, pb_depth = 0, pb_calls = 0, pb_live = 0\<rparr>
        in case cJSON_New_Item hooks b of
             (False, b) \<Rightarrow> Some (parse_failed b)
           | (True, b) \<Rightarrow> do {
               start \<leftarrow> skip_utf8_bom b;
               (case start of
                  None \<Rightarrow> Some (parse_failed (deallocate 1 b))
                | Some b \<Rightarrow> do {
                    b \<leftarrow> buffer_skip_whitespace b;
                    (v, b) \<leftarrow> parse_value hooks (3 * length value + 1) b;
                    case v of
                      None \<Rightarrow> Some (parse_failed (deallocate 1 b))
                    | Some j \<Rightarrow>
                        if require_null_terminated then
                          do {
                            b \<leftarrow> buffer_skip_whitespace b;
                            at_end \<leftarrow> is_at b NUL;
                            if at_end
                            then Some \<lparr>ps_item = Some j, ps_end = pb_offset b, ps_error = None, ps_live = pb_live b\<rparr>
                            else Some (parse_failed (delete_items [j] b))
                          }
                        else Some \<lparr>ps_item = Some j, ps_end = pb_offset b, ps_error = None, ps_live = pb_live b\<rparr>
                  })
             })"

definition cJSON_ParseWithOpts :: "alloc_hooks \<Rightarrow> string \<Rightarrow> bool \<Rightarrow> parse_result option" where
  "cJSON_ParseWithOpts hooks value require_null_terminated =
     cJSON_ParseWithLengthOpts hooks (c_string value @ [NUL]) require_null_terminated"

definition cJSON_Parse :: "alloc_hooks \<Rightarrow> string \<Rightarrow> json option" where
  "cJSON_Parse hooks value =
     (case cJSON_ParseWithOpts hooks value False of None \<Rightarrow> None | Some r \<Rightarrow> ps_item r)"

definition cJSON_ParseWithLength :: "alloc_hooks \<Rightarrow> string \<Rightarrow> parse_result option" where
  "cJSON_ParseWithLength hooks value = cJSON_ParseWithLengthOpts hooks value False"


end
