(* ===== verification/Json_Print.thy ===== *)
theory Json_Print
  imports Json_Parse
begin

text \<open>
  The JSON printer of \<^verbatim>\<open>src/cjson/cJSON.c\<close>, over the memory of its growing buffer. A byte of a block
  is \<open>None\<close> until it is written. As in the parser, a function returns \<open>None\<close> when it touches memory
  outside a block or reads a byte that was never written; the flag inside is the result of the C function.
  \<^verbatim>\<open>fmt_g\<close> is the conversion \<^verbatim>\<open>%1.<P>g\<close> of C.
\<close>

section \<open>Numbers as text\<close>

text \<open>The magnitude of a finite double as a quotient.\<close>

fun d_ratio :: "cdouble \<Rightarrow> nat \<times> nat" where
  "d_ratio (D_fin s m e) = (if e \<ge> 0 then (m * 2 ^ nat e, 1) else (m, 2 ^ nat (- e)))"
| "d_ratio _ = (0, 1)"

fun d_neg :: "cdouble \<Rightarrow> bool" where
  "d_neg (D_fin s m e) = s"
| "d_neg (D_inf s) = s"
| "d_neg D_nan = False"

function neg_exp10 :: "nat \<Rightarrow> nat \<Rightarrow> nat" where
  "neg_exp10 num den = (if num = 0 \<or> num \<ge> den then 0 else Suc (neg_exp10 (num * 10) den))"
  by pat_completeness auto

termination
  by (relation "measure (\<lambda>(num, den). den - num)") auto

declare neg_exp10.simps [simp del]

definition dec_exponent :: "nat \<Rightarrow> nat \<Rightarrow> int" where
  "dec_exponent num den =
     (if num \<ge> den then int (length (dec_chars (num div den))) - 1 else - int (neg_exp10 num den))"

definition round_half_even :: "nat \<Rightarrow> nat \<Rightarrow> nat" where
  "round_half_even a b =
     (let q = a div b in if 2 * (a mod b) > b \<or> 2 * (a mod b) = b \<and> odd q then q + 1 else q)"

text \<open>The \<open>prec\<close> significant digits as a number, and the decimal exponent of the first.\<close>

definition significant :: "nat \<Rightarrow> nat \<Rightarrow> nat \<Rightarrow> nat \<times> int" where
  "significant prec num den =
     (let x = dec_exponent num den;
          k = int prec - 1 - x;
          d = (if k \<ge> 0 then round_half_even (num * 10 ^ nat k) den else round_half_even num (den * 10 ^ nat (- k)))
      in if d = 10 ^ prec then (10 ^ (prec - 1), x + 1) else (d, x))"

definition strip_zeros :: "string \<Rightarrow> string" where
  "strip_zeros s = rev (dropWhile (\<lambda>c. c = CHR ''0'') (rev s))"

definition with_point :: "string \<Rightarrow> string \<Rightarrow> string" where
  "with_point whole frac = (let f = strip_zeros frac in if f = [] then whole else whole @ CHR ''.'' # f)"

definition fmt_exponent :: "int \<Rightarrow> string" where
  "fmt_exponent x =
     (let ds = dec_chars (nat \<bar>x\<bar>)
      in CHR ''e'' # (if x < 0 then CHR ''-'' else CHR ''+'') # (if length ds < 2 then CHR ''0'' # ds else ds))"

definition fmt_g :: "nat \<Rightarrow> cdouble \<Rightarrow> string" where
  "fmt_g prec d =
     (let (num, den) = d_ratio d;
          (digits, x) = significant prec num den;
          ds = dec_chars digits
      in (if d_neg d then [CHR ''-''] else []) @
         (if num = 0 then ''0''
          else if - 4 \<le> x \<and> x < int prec then
            (if x \<ge> 0 then with_point (take (nat x + 1) ds) (drop (nat x + 1) ds)
             else with_point ''0'' (replicate (nat (- x) - 1) CHR ''0'' @ ds))
          else with_point (take 1 ds) (drop 1 ds) @ fmt_exponent x))"

text \<open>Arithmetic of the comparison: difference, magnitude, product with \<^verbatim>\<open>DBL_EPSILON\<close>, order.\<close>

fun d_abs :: "cdouble \<Rightarrow> cdouble" where
  "d_abs (D_fin s m e) = D_fin False m e"
| "d_abs (D_inf s) = D_inf False"
| "d_abs D_nan = D_nan"

definition signed_ratio :: "cdouble \<Rightarrow> int \<times> nat" where
  "signed_ratio d = (let (num, den) = d_ratio d in (if d_neg d then - int num else int num, den))"

fun d_sub :: "cdouble \<Rightarrow> cdouble \<Rightarrow> cdouble" where
  "d_sub D_nan b = D_nan"
| "d_sub a D_nan = D_nan"
| "d_sub (D_inf s) (D_inf t) = (if s = t then D_nan else D_inf s)"
| "d_sub (D_inf s) b = D_inf s"
| "d_sub a (D_inf t) = D_inf (\<not> t)"
| "d_sub a b =
     (let (n1, d1) = signed_ratio a; (n2, d2) = signed_ratio b; n = n1 * int d2 - n2 * int d1
      in double_round (n < 0) (nat \<bar>n\<bar>) (d1 * d2))"

fun d_times_epsilon :: "cdouble \<Rightarrow> cdouble" where
  "d_times_epsilon (D_fin s m e) =
     (let (num, den) = d_ratio (D_fin s m e) in double_round s num (den * 2 ^ 52))"
| "d_times_epsilon d = d"

fun d_leq :: "cdouble \<Rightarrow> cdouble \<Rightarrow> bool" where
  "d_leq D_nan b = False"
| "d_leq a D_nan = False"
| "d_leq (D_inf s) (D_inf t) = (s \<or> \<not> t)"
| "d_leq (D_inf s) b = s"
| "d_leq a (D_inf t) = (\<not> t)"
| "d_leq a b =
     (let (n1, d1) = signed_ratio a; (n2, d2) = signed_ratio b in n1 * int d2 \<le> n2 * int d1)"

definition compare_double :: "cdouble \<Rightarrow> cdouble \<Rightarrow> bool" where
  "compare_double a b =
     (let maxVal = (if d_leq (d_abs b) (d_abs a) \<and> \<not> d_leq (d_abs a) (d_abs b) then d_abs a else d_abs b)
      in d_leq (d_abs (d_sub a b)) (d_times_epsilon maxVal))"

text \<open>\<^verbatim>\<open>sprintf\<close> into the temporary buffer of 26 bytes.\<close>

definition sprintf26 :: "string \<Rightarrow> string option" where
  "sprintf26 t = (if length t < 26 then Some t else None)"

definition number_text :: "cdouble \<Rightarrow> string option" where
  "number_text d =
     (if d = D_nan \<or> d = D_inf False \<or> d = D_inf True then sprintf26 ''null''
      else if d_le d (valueint d) \<and> d_ge d (valueint d) then sprintf26 (fmt_dec (valueint d))
      else do {
        t \<leftarrow> sprintf26 (fmt_g 15 d);
        case strtod t of
          None \<Rightarrow> sprintf26 (fmt_g 17 d)
        | Some (test, _) \<Rightarrow> if compare_double test d then Some t else sprintf26 (fmt_g 17 d)
      })"

section \<open>The output buffer\<close>

definition INT_MAX :: nat where "INT_MAX = 2147483647"

text \<open>The block is \<open>None\<close> after a failed reallocation. \<open>pt_realloc\<close>: whether the hooks offer \<^verbatim>\<open>realloc\<close>.\<close>

record printbuffer =
  pt_block :: "char option list option"
  pt_offset :: nat
  pt_depth :: nat
  pt_noalloc :: bool
  pt_format :: bool
  pt_realloc :: bool
  pt_calls :: nat

type_synonym 'a printing = "('a \<times> printbuffer) option"

definition new_block :: "nat \<Rightarrow> char option list" where
  "new_block n = replicate n None"

definition grow :: "bool \<Rightarrow> nat \<Rightarrow> nat \<Rightarrow> char option list \<Rightarrow> char option list option" where
  "grow have_realloc offset n block =
     (if have_realloc then Some (take n block @ new_block (n - length block))
      else if offset + 1 \<le> length block then Some (take (offset + 1) block @ new_block (n - (offset + 1)))
      else None)"

definition grown_size :: "nat \<Rightarrow> nat option" where
  "grown_size needed =
     (if needed > INT_MAX div 2 then (if needed \<le> INT_MAX then Some INT_MAX else None) else Some (needed * 2))"

definition ensure :: "alloc_hooks \<Rightarrow> nat \<Rightarrow> printbuffer \<Rightarrow> bool printing" where
  "ensure hooks needed p =
     (case pt_block p of
        None \<Rightarrow> Some (False, p)
      | Some block \<Rightarrow>
          if length block > 0 \<and> pt_offset p \<ge> length block then Some (False, p)
          else if needed > INT_MAX then Some (False, p)
          else if needed + pt_offset p + 1 \<le> length block then Some (True, p)
          else if pt_noalloc p then Some (False, p)
          else
            case grown_size (needed + pt_offset p + 1) of
              None \<Rightarrow> Some (False, p)
            | Some newsize \<Rightarrow>
                if hooks (pt_calls p) newsize then do {
                  block \<leftarrow> grow (pt_realloc p) (pt_offset p) newsize block;
                  Some (True, p\<lparr>pt_block := Some block, pt_calls := pt_calls p + 1\<rparr>)
                } else Some (False, p\<lparr>pt_block := None, pt_calls := pt_calls p + 1\<rparr>))"

text \<open>Writing characters from \<open>i\<close> bytes behind the offset, and the length of the string at the offset.\<close>

definition write_block :: "nat \<Rightarrow> string \<Rightarrow> char option list \<Rightarrow> char option list option" where
  "write_block i cs block =
     (if i + length cs \<le> length block then Some (take i block @ map Some cs @ drop (i + length cs) block) else None)"

definition poke :: "nat \<Rightarrow> string \<Rightarrow> printbuffer \<Rightarrow> printbuffer option" where
  "poke i cs p = do {
     block \<leftarrow> pt_block p;
     block \<leftarrow> write_block (pt_offset p + i) cs block;
     Some (p\<lparr>pt_block := Some block\<rparr>)
   }"

fun strlen_block :: "char option list \<Rightarrow> nat option" where
  "strlen_block (Some c # cs) = (if c = NUL then Some 0 else map_option Suc (strlen_block cs))"
| "strlen_block _ = None"

definition update_offset :: "printbuffer \<Rightarrow> printbuffer option" where
  "update_offset p =
     (case pt_block p of
        None \<Rightarrow> Some p
      | Some block \<Rightarrow> do { n \<leftarrow> strlen_block (drop (pt_offset p) block); Some (p\<lparr>pt_offset := pt_offset p + n\<rparr>) })"

definition move_on :: "nat \<Rightarrow> printbuffer \<Rightarrow> printbuffer" where
  "move_on n p = p\<lparr>pt_offset := pt_offset p + n\<rparr>"

text \<open>Room for \<open>needed\<close> bytes and then \<open>cs\<close> written there; the step of every function below.\<close>

definition emit :: "alloc_hooks \<Rightarrow> nat \<Rightarrow> string \<Rightarrow> printbuffer \<Rightarrow> bool printing" where
  "emit hooks needed cs p = do {
     (ok, p) \<leftarrow> ensure hooks needed p;
     if ok then do { p \<leftarrow> poke 0 cs p; Some (True, p) } else Some (False, p)
   }"
definition and_then :: "bool printing \<Rightarrow> (printbuffer \<Rightarrow> bool printing) \<Rightarrow> bool printing" where
  "and_then m f = do { (ok, p) \<leftarrow> m; if ok then f p else Some (False, p) }"

lemma and_then_cong [fundef_cong]:
  "m = m' \<Longrightarrow> (\<And>p. m' = Some (True, p) \<Longrightarrow> f p = g p) \<Longrightarrow> and_then m f = and_then m' g"
  by (cases m') (auto simp: and_then_def)

section \<open>Scalars\<close>

definition print_number :: "alloc_hooks \<Rightarrow> cdouble \<Rightarrow> printbuffer \<Rightarrow> bool printing" where
  "print_number hooks d p = do {
     t \<leftarrow> number_text d;
     and_then (emit hooks (length t + 1) (t @ [NUL]) p) (\<lambda>p. Some (True, move_on (length t) p))
   }"

definition short_escape :: "char \<Rightarrow> char option" where
  "short_escape c =
     (if c = BACKSLASH \<or> c = QUOTE then Some c
      else if c = CHR 0x08 then Some (CHR ''b'')
      else if c = CHR 0x0C then Some (CHR ''f'')
      else if c = CHR 0x0A then Some (CHR ''n'')
      else if c = CHR 0x0D then Some (CHR ''r'')
      else if c = CHR 0x09 then Some (CHR ''t'')
      else None)"

text \<open>The characters an escape adds, as the first loop over the string counts them.\<close>

definition escape_characters :: "string \<Rightarrow> nat" where
  "escape_characters s =
     sum_list (map (\<lambda>c. if short_escape c \<noteq> None then 1 else if code_of c < 32 then 5 else 0) s)"

definition hex_small :: "nat \<Rightarrow> char" where
  "hex_small d = ''0123456789abcdef'' ! (d mod 16)"

text \<open>What the second loop writes for a character; \<^verbatim>\<open>sprintf\<close> adds a terminator to the last form.\<close>

definition escaped :: "char \<Rightarrow> string" where
  "escaped c =
     (if code_of c > 31 \<and> c \<noteq> QUOTE \<and> c \<noteq> BACKSLASH then [c]
      else case short_escape c of
             Some x \<Rightarrow> [BACKSLASH, x]
           | None \<Rightarrow> [BACKSLASH, CHR ''u'', CHR ''0'', CHR ''0'', hex_small (code_of c div 16), hex_small (code_of c)])"

definition escape_writes :: "char \<Rightarrow> string" where
  "escape_writes c = (if length (escaped c) = 6 then escaped c @ [NUL] else escaped c)"

fun print_escapes :: "string \<Rightarrow> nat \<Rightarrow> printbuffer \<Rightarrow> printbuffer option" where
  "print_escapes [] i p = Some p"
| "print_escapes (c # cs) i p = do {
     p \<leftarrow> poke i (escape_writes c) p;
     print_escapes cs (i + length (escaped c)) p
   }"

definition print_string_ptr :: "alloc_hooks \<Rightarrow> string option \<Rightarrow> printbuffer \<Rightarrow> bool printing" where
  "print_string_ptr hooks input p =
     (case input of
        None \<Rightarrow> emit hooks 3 [QUOTE, QUOTE, NUL] p
      | Some s \<Rightarrow>
          (let output_length = length s + escape_characters s
           in and_then (ensure hooks (output_length + 3) p) (\<lambda>p. do {
                p \<leftarrow> poke 0 [QUOTE] p;
                p \<leftarrow> (if escape_characters s = 0 then poke 1 s p else print_escapes s 1 p);
                p \<leftarrow> poke (output_length + 1) [QUOTE, NUL] p;
                Some (True, p)
              })))"

section \<open>Values\<close>

definition TAB :: char where "TAB = CHR 0x09"
definition NEWLINE :: char where "NEWLINE = CHR 0x0A"

abbreviation deeper :: "printbuffer \<Rightarrow> printbuffer" where "deeper p \<equiv> p\<lparr>pt_depth := pt_depth p + 1\<rparr>"
abbreviation shallower :: "printbuffer \<Rightarrow> printbuffer" where "shallower p \<equiv> p\<lparr>pt_depth := pt_depth p - 1\<rparr>"

text \<open>Text for formatted output only.\<close>

definition fmt_only :: "printbuffer \<Rightarrow> string \<Rightarrow> string" where
  "fmt_only p cs = (if pt_format p then cs else [])"

fun print_value :: "alloc_hooks \<Rightarrow> json \<Rightarrow> printbuffer \<Rightarrow> bool printing"
  and print_elements :: "alloc_hooks \<Rightarrow> json list \<Rightarrow> printbuffer \<Rightarrow> bool printing"
  and print_members :: "alloc_hooks \<Rightarrow> (string \<times> json) list \<Rightarrow> printbuffer \<Rightarrow> bool printing"
where
  "print_value hooks J_null p = emit hooks 5 (''null'' @ [NUL]) p"
| "print_value hooks (J_bool b) p =
     (if b then emit hooks 5 (''true'' @ [NUL]) p else emit hooks 6 (''false'' @ [NUL]) p)"
| "print_value hooks (J_num d) p = print_number hooks d p"
| "print_value hooks (J_str s) p = print_string_ptr hooks (Some s) p"
| "print_value hooks (J_arr xs) p =
     and_then (emit hooks 1 ''['' p) (\<lambda>p.
     and_then (print_elements hooks xs (deeper (move_on 1 p))) (\<lambda>p.
     and_then (emit hooks 2 ('']'' @ [NUL]) p) (\<lambda>p. Some (True, shallower p))))"
| "print_value hooks (J_obj kvs) p =
     (let opening = CHR ''{'' # fmt_only p [NEWLINE]
      in and_then (emit hooks (length opening + 1) opening p) (\<lambda>p.
         and_then (print_members hooks kvs (move_on (length opening) (deeper p))) (\<lambda>p.
         let closing = fmt_only p (replicate (pt_depth p - 1) TAB) @ ''}'' @ [NUL]
         in and_then (emit hooks (if pt_format p then pt_depth p + 1 else 2) closing p) (\<lambda>p.
            Some (True, shallower p)))))"
| "print_elements hooks [] p = Some (True, p)"
| "print_elements hooks (x # xs) p =
     and_then (print_value hooks x p) (\<lambda>p. do {
       p \<leftarrow> update_offset p;
       if xs = [] then print_elements hooks xs p
       else
         let separator = CHR '','' # fmt_only p '' ''
         in and_then (emit hooks (length separator + 1) (separator @ [NUL]) p) (\<lambda>p.
              print_elements hooks xs (move_on (length separator) p))
     })"
| "print_members hooks [] p = Some (True, p)"
| "print_members hooks ((k, v) # kvs) p =
     and_then
       (if pt_format p then
          and_then (emit hooks (pt_depth p) (replicate (pt_depth p) TAB) p) (\<lambda>p. Some (True, move_on (pt_depth p) p))
        else Some (True, p)) (\<lambda>p.
     and_then (print_string_ptr hooks (Some k) p) (\<lambda>p. do {
       p \<leftarrow> update_offset p;
       let colon = CHR '':'' # fmt_only p [TAB]
       in and_then (emit hooks (length colon) colon p) (\<lambda>p.
          and_then (print_value hooks v (move_on (length colon) p)) (\<lambda>p. do {
            p \<leftarrow> update_offset p;
            let ending = (if kvs = [] then [] else '','') @ fmt_only p [NEWLINE]
            in and_then (emit hooks (length ending + 1) (ending @ [NUL]) p) (\<lambda>p.
                 print_members hooks kvs (move_on (length ending) p))
          }))
     }))"

declare print_value.simps [simp del] print_elements.simps [simp del] print_members.simps [simp del]

section \<open>Entry points\<close>

text \<open>The bytes of a block up to \<open>n\<close>, all of which must have been written.\<close>

definition block_text :: "nat \<Rightarrow> char option list \<Rightarrow> string option" where
  "block_text n block =
     (if n \<le> length block \<and> None \<notin> set (take n block) then Some (map the (take n block)) else None)"

definition print :: "alloc_hooks \<Rightarrow> bool \<Rightarrow> bool \<Rightarrow> json \<Rightarrow> string option option" where
  "print hooks have_realloc format j =
     (if \<not> hooks 0 256 then Some None
      else
        let p = \<lparr>pt_block = Some (new_block 256), pt_offset = 0, pt_depth = 0, pt_noalloc = False,
                 pt_format = format, pt_realloc = have_realloc, pt_calls = 1\<rparr>
        in do {
          (ok, p) \<leftarrow> print_value hooks j p;
          if \<not> ok then Some None
          else do {
            p \<leftarrow> update_offset p;
            if \<not> hooks (pt_calls p) (pt_offset p + 1) then Some None
            else do {
              block \<leftarrow> pt_block p;
              t \<leftarrow> block_text (pt_offset p) block;
              Some (Some t)
            }
          }
        })"

definition cJSON_Print :: "alloc_hooks \<Rightarrow> json \<Rightarrow> string option option" where
  "cJSON_Print hooks j = print hooks True True j"

definition cJSON_PrintUnformatted :: "alloc_hooks \<Rightarrow> json \<Rightarrow> string option option" where
  "cJSON_PrintUnformatted hooks j = print hooks True False j"

text \<open>Printing into a block of the caller: whether it fitted, and the block.\<close>

definition cJSON_PrintPreallocated ::
  "json \<Rightarrow> char option list \<Rightarrow> bool \<Rightarrow> (bool \<times> char option list option) option" where
  "cJSON_PrintPreallocated j block format = do {
     (ok, p) \<leftarrow> print_value (\<lambda>_ _. False) j
       \<lparr>pt_block = Some block, pt_offset = 0, pt_depth = 0, pt_noalloc = True, pt_format = format,
        pt_realloc = True, pt_calls = 0\<rparr>;
     Some (ok, pt_block p)
   }"

end
