(* ===== verification/Json_Number.thy ===== *)
theory Json_Number
  imports Json_Print
begin

text \<open>
  The numbers of the JSON printer: the text of every double fits the temporary buffer of
  \<^verbatim>\<open>print_number\<close>, and an integer of up to fifteen digits is printed as its digits and read back exactly.
\<close>

section \<open>Decimal exponents\<close>

lemma neg_exp10_props:
  "0 < num \<Longrightarrow> den \<le> num * 10 ^ neg_exp10 num den \<and>
     (0 < neg_exp10 num den \<longrightarrow> num * 10 ^ (neg_exp10 num den - 1) < den)"
proof (induction num den rule: neg_exp10.induct)
  case (1 num den)
  show ?case
  proof (cases "num \<ge> den")
    case True
    then show ?thesis by (simp add: neg_exp10.simps [of num den])
  next
    case False
    let ?k = "neg_exp10 (num * 10) den"
    have ih: "den \<le> num * 10 * 10 ^ ?k" "0 < ?k \<Longrightarrow> num * 10 * 10 ^ (?k - 1) < den"
      using 1 False by auto
    have e: "neg_exp10 num den = Suc ?k" using 1(2) False by (subst neg_exp10.simps) simp
    have "num * 10 ^ ?k < den"
    proof (cases ?k)
      case (Suc m)
      then show ?thesis using ih(2) by (simp add: mult_ac)
    qed (use False in simp)
    then show ?thesis using ih(1) by (simp add: e mult_ac)
  qed
qed

lemma neg_exp10_le: "0 < num \<Longrightarrow> den \<le> num * 10 ^ k \<Longrightarrow> neg_exp10 num den \<le> k"
proof (rule ccontr)
  assume a: "0 < num" "den \<le> num * 10 ^ k" "\<not> neg_exp10 num den \<le> k"
  then have "num * 10 ^ (neg_exp10 num den - 1) < den" using neg_exp10_props [of num den] by simp
  moreover have "(10::nat) ^ k \<le> 10 ^ (neg_exp10 num den - 1)" using a(3) by (intro power_increasing) auto
  ultimately show False using a(1,2) by (metis linorder_not_less mult_le_mono2 order_le_less_trans)
qed

text \<open>Scaled by its exponent, a number has the wanted digits before the point.\<close>

definition scaled :: "nat \<Rightarrow> nat \<Rightarrow> int \<Rightarrow> nat \<times> nat" where
  "scaled num den k = (if k \<ge> 0 then (num * 10 ^ nat k, den) else (num, den * 10 ^ nat (- k)))"

lemma scaled_less:
  assumes "0 < num" and "0 < den" and "0 < prec" and "scaled num den (int prec - 1 - dec_exponent num den) = (a, b)"
  shows "a < 10 ^ prec * b" and "0 < b"
proof -
  let ?x = "dec_exponent num den" and ?k = "int prec - 1 - dec_exponent num den"
  show "0 < b" using assms by (auto simp: scaled_def split: if_splits)
  show "a < 10 ^ prec * b"
  proof (cases "num \<ge> den")
    case True
    let ?l = "length (dec_chars (num div den))"
    have l: "0 < ?l" using dec_chars_digits(2) by simp
    have x: "?x = int ?l - 1" using True by (simp add: dec_exponent_def)
    have "num div den < 10 ^ ?l" using dec_chars_bounds by blast
    then have n: "num < 10 ^ ?l * den" using assms(2) by (simp add: div_less_iff_less_mult)
    show ?thesis
    proof (cases "?l \<le> prec")
      case True
      then have "?k = int (prec - ?l)" using x by simp
      then have ab: "a = num * 10 ^ (prec - ?l)" "b = den" using assms(4) by (auto simp: scaled_def)
      have "num * 10 ^ (prec - ?l) < 10 ^ ?l * den * 10 ^ (prec - ?l)" using n by simp
      also have "\<dots> = 10 ^ (?l + (prec - ?l)) * den" by (simp only: power_add mult_ac)
      finally show ?thesis using True by (simp add: ab)
    next
      case False
      then have "nat (- ?k) = ?l - prec" "\<not> 0 \<le> ?k" using x by simp_all
      then have ab: "a = num" "b = den * 10 ^ (?l - prec)" using assms(4) by (auto simp: scaled_def)
      have "10 ^ prec * b = 10 ^ (prec + (?l - prec)) * den" by (simp only: ab power_add mult_ac)
      then have "10 ^ prec * b = 10 ^ ?l * den" using False by simp
      then show ?thesis using n ab(1) by simp
    qed
  next
    case False
    let ?n = "neg_exp10 num den"
    have x: "?x = - int ?n" using False by (simp add: dec_exponent_def)
    have n: "0 < ?n" using False assms(1) by (subst neg_exp10.simps) simp
    have "nat ?k = prec + (?n - 1)" "0 \<le> ?k" using x n assms(3) by simp_all
    then have ab: "a = num * 10 ^ (prec + (?n - 1))" "b = den" using assms(4) by (auto simp: scaled_def)
    have "num * 10 ^ (?n - 1) < den" using neg_exp10_props [OF assms(1), of den] n by simp
    then show ?thesis by (simp add: ab power_add mult_ac)
  qed
qed

lemma round_half_even_le: "a < n * b \<Longrightarrow> round_half_even a b \<le> n"
proof -
  assume "a < n * b"
  then have "a div b < n" by (simp add: less_mult_imp_div_less)
  then show ?thesis by (simp add: round_half_even_def Let_def)
qed

lemma significant_scaled:
  "significant prec num den =
    (let x = dec_exponent num den; (a, b) = scaled num den (int prec - 1 - x); d = round_half_even a b
     in if d = 10 ^ prec then (10 ^ (prec - 1), x + 1) else (d, x))"
  by (simp add: significant_def scaled_def Let_def)

lemma significant_digits:
  assumes "0 < num" and "0 < den" and "0 < prec" and "significant prec num den = (digits, x)"
  shows "digits < 10 ^ prec" and "x = dec_exponent num den \<or> x = dec_exponent num den + 1"
proof -
  obtain a b where ab: "scaled num den (int prec - 1 - dec_exponent num den) = (a, b)" by force
  have "round_half_even a b \<le> 10 ^ prec" using scaled_less(1) [OF assms(1-3) ab] by (rule round_half_even_le)
  moreover have "(10::nat) ^ (prec - 1) < 10 ^ prec" using assms(3) by simp
  ultimately show "digits < 10 ^ prec" "x = dec_exponent num den \<or> x = dec_exponent num den + 1"
    using assms(4) by (auto simp: significant_scaled ab Let_def split: if_splits)
qed

section \<open>The temporary buffer\<close>

lemma dec_exponent_bounds:
  assumes "double_wf d" and "d = D_fin s m e" and "0 < m" and "d_ratio d = (num, den)"
  shows "- 324 \<le> dec_exponent num den" and "dec_exponent num den \<le> 308" and "0 < num" and "0 < den"
proof -
  have w: "m < 2 ^ 53" "- 1074 \<le> e" "e \<le> 971" using assms(1,2) by (simp_all add: double_wf_def)
  show nd: "0 < num" "0 < den" using assms(2-4) by (auto split: if_splits)
  have "num div den < 10 ^ 309 \<and> den \<le> num * 10 ^ 324"
  proof (cases "e \<ge> 0")
    case True
    have "m * 2 ^ nat e < 2 ^ 53 * 2 ^ nat e" using w(1) by simp
    also have "\<dots> \<le> 2 ^ 53 * 2 ^ 971" using w(3) by (intro mult_left_mono power_increasing) auto
    also have "\<dots> < 10 ^ 309" by simp
    finally have "num < 10 ^ 309" "den = 1" using assms(2,4) True by simp_all
    then show ?thesis using nd(1) by simp
  next
    case False
    then have nm: "num = m" "den = 2 ^ nat (- e)" using assms(2,4) by simp_all
    have "den \<le> 2 ^ 1074" using w(2) False unfolding nm by (intro power_increasing) auto
    also have "\<dots> \<le> 10 ^ 324" by simp
    also have "\<dots> \<le> num * 10 ^ 324" using nd(1) by simp
    finally have "den \<le> num * 10 ^ 324" .
    moreover have "num div den \<le> m" using div_le_dividend [of m den] by (simp add: nm)
    moreover have "(2::nat) ^ 53 < 10 ^ 309" by simp
    ultimately show ?thesis using w(1) by linarith
  qed
  then show "- 324 \<le> dec_exponent num den" "dec_exponent num den \<le> 308"
    using dec_chars_length [of 309 "num div den"] neg_exp10_le [OF nd(1), of den 324]
    by (simp_all add: dec_exponent_def)
qed

lemma strip_zeros_length: "length (strip_zeros s) \<le> length s"
  using length_dropWhile_le [of "\<lambda>c. c = CHR ''0''" "rev s"] by (simp add: strip_zeros_def)

lemma with_point_length: "length (with_point w f) \<le> length w + 1 + length f"
  using strip_zeros_length [of f] by (simp add: with_point_def Let_def)

lemma with_point_split: "length (with_point (take k ds) (drop k ds)) \<le> length ds + 1"
  using with_point_length [of "take k ds" "drop k ds"] by simp

lemma fmt_exponent_length: "\<bar>x\<bar> < 1000 \<Longrightarrow> length (fmt_exponent x) \<le> 5"
  using dec_chars_length [of 3 "nat \<bar>x\<bar>"] by (auto simp: fmt_exponent_def Let_def)

lemma fmt_g_length:
  assumes "double_wf d" and "0 < prec"
  shows "length (fmt_g prec d) \<le> prec + 7"
proof -
  obtain num den where r: "d_ratio d = (num, den)" by force
  obtain digits x where s: "significant prec num den = (digits, x)" by force
  show ?thesis
  proof (cases "num = 0")
    case True
    then show ?thesis using assms(2) by (simp add: fmt_g_def r s Let_def)
  next
    case False
    then obtain sg m e where d: "d = D_fin sg m e" "0 < m" using r by (cases d) (auto split: if_splits)
    note b = dec_exponent_bounds [OF assms(1) d r]
    note sd = significant_digits [OF b(3,4) assms(2) s]
    have ds: "length (dec_chars digits) \<le> prec" using dec_chars_length [OF assms(2) sd(1)] .
    have fe: "length (fmt_exponent x) \<le> 5" using sd(2) b(1,2) by (intro fmt_exponent_length) auto
    show ?thesis
      using ds fe False with_point_split [of "nat x + 1" "dec_chars digits"] with_point_split [of 1 "dec_chars digits"]
        with_point_length [of "''0''" "replicate (nat (- x) - 1) CHR ''0'' @ dec_chars digits"]
      by (auto simp: fmt_g_def r s Let_def)
  qed
qed

lemma number_text_total:
  assumes "double_wf d"
  obtains t where "number_text d = Some t" "length t < 26"
proof -
  have "nat \<bar>valueint d\<bar> < 10 ^ 10" using valueint_bounds [of d] by (auto simp: nat_less_iff abs_if)
  then have "length (fmt_dec (valueint d)) < 26"
    using dec_chars_length [of 10 "nat \<bar>valueint d\<bar>"] by (auto simp: fmt_dec_def abs_if split: if_splits)
  then have "sprintf26 (fmt_dec (valueint d)) = Some (fmt_dec (valueint d))" by (simp add: sprintf26_def)
  moreover have "sprintf26 (fmt_g 15 d) = Some (fmt_g 15 d)" "sprintf26 (fmt_g 17 d) = Some (fmt_g 17 d)"
    using fmt_g_length [OF assms, of 15] fmt_g_length [OF assms, of 17] by (simp_all add: sprintf26_def)
  ultimately have "\<exists>t. number_text d = Some t"
    by (auto simp: number_text_def sprintf26_def [of "''null''"] split: option.split)
  moreover have "length t < 26" if "number_text d = Some t" for t
    using that by (auto simp: number_text_def sprintf26_def split: if_splits option.splits bind_splits)
  ultimately show ?thesis using that by blast
qed

section \<open>Integers\<close>

lemma double_round_int:
  assumes "0 < n" and "n < 2 ^ 53"
  shows "\<exists>k. double_round neg n 1 = D_fin neg (n * 2 ^ k) (- int k)"
proof -
  let ?b = "bit_len n"
  note b = bit_len_props [OF assms(1)]
  have b53: "?b \<le> 53"
  proof (rule ccontr)
    assume "\<not> ?b \<le> 53"
    then have "(2::nat) ^ 53 \<le> 2 ^ (?b - 1)" by (intro power_increasing) auto
    then show False using b assms(2) by linarith
  qed
  have b1: "bit_len 1 = 1" by (simp add: bit_len.simps)
  have e0: "max (- 1074) (int ?b - int (bit_len 1) - int 53) = int ?b - 54" using b b53 by (simp add: b1 del: One_nat_def)
  have s0: "scale_ratio n 1 (int ?b - 54) = (n * 2 ^ (54 - ?b), 1)"
    using b53 by (simp add: scale_ratio_def nat_diff_distrib')
  have "(2::nat) ^ (?b - 1) * 2 ^ (54 - ?b) = 2 ^ 53" using b b53 by (simp flip: power_add)
  then have big: "2 ^ 53 \<le> n * 2 ^ (54 - ?b)" using b mult_right_mono [of "2 ^ (?b - 1)" n "2 ^ (54 - ?b)"] by simp
  have s1: "scale_ratio n 1 (int ?b - 53) = (n * 2 ^ (53 - ?b), 1)"
    using b53 by (auto simp: scale_ratio_def nat_diff_distrib')
  have "n * 2 ^ (53 - ?b) < 2 ^ ?b * 2 ^ (53 - ?b)" using b by simp
  also have "(2::nat) ^ ?b * 2 ^ (53 - ?b) = 2 ^ 53" using b53 by (simp flip: power_add)
  finally have small: "n * 2 ^ (53 - ?b) < 2 ^ 53" .
  have "double_round neg n 1 = D_fin neg (n * 2 ^ (53 - ?b)) (int ?b - 53)"
    using assms(1) big small b53 unfolding double_round_def ieee_round_def e0
    by (simp add: s0 s1 Let_def del: power_numeral One_nat_def)
  then show ?thesis using b53 by (intro exI [of _ "53 - ?b"]) simp
qed

lemma double_of_int_exact:
  assumes "\<bar>i\<bar> < 2 ^ 53"
  obtains k where "double_of_int i = D_fin (i < 0) (nat \<bar>i\<bar> * 2 ^ k) (- int k)"
proof (cases "i = 0")
  case True
  then show ?thesis using that [of 1074] by (simp add: double_of_int_def double_round_def ieee_round_def)
next
  case False
  then show ?thesis using that double_round_int [of "nat \<bar>i\<bar>" "i < 0"] assms
    by (auto simp: double_of_int_def nat_less_iff)
qed

lemma double_of_int_facts:
  assumes "\<bar>i\<bar> < 2 ^ 53"
  shows "d_le (double_of_int i) j \<longleftrightarrow> i \<le> j" and "d_ge (double_of_int i) j \<longleftrightarrow> j \<le> i"
    and "d_trunc (double_of_int i) = i" and "d_neg (double_of_int i) \<longleftrightarrow> i < 0"
    and "\<exists>k. d_ratio (double_of_int i) = (nat \<bar>i\<bar> * 2 ^ k, 2 ^ k)"
proof -
  obtain k where k: "double_of_int i = D_fin (i < 0) (nat \<bar>i\<bar> * 2 ^ k) (- int k)"
    using double_of_int_exact [OF assms] .
  have sm: "(if i < 0 then - int (nat \<bar>i\<bar> * 2 ^ k) else int (nat \<bar>i\<bar> * 2 ^ k)) = i * 2 ^ k" by simp
  show "d_le (double_of_int i) j \<longleftrightarrow> i \<le> j" "d_ge (double_of_int i) j \<longleftrightarrow> j \<le> i"
    by (cases "k = 0"; simp add: k Let_def sm del: of_nat_mult)+
  show "d_trunc (double_of_int i) = i" by (simp add: k Let_def)
  show "d_neg (double_of_int i) \<longleftrightarrow> i < 0" by (simp add: k)
  show "\<exists>k. d_ratio (double_of_int i) = (nat \<bar>i\<bar> * 2 ^ k, 2 ^ k)" by (intro exI [of _ k]) (simp add: k)
qed

lemma compare_double_refl:
  assumes "d = D_fin s m e"
  shows "compare_double d d"
proof -
  obtain n k where r: "signed_ratio d = (n, k)" by force
  have "d_sub d d = D_fin False 0 (- 1074)" using r by (simp add: assms double_round_def ieee_round_def)
  moreover have "d_leq (D_fin False 0 (- 1074)) (double_round False a b)" for a b
    by (cases "double_round False a b")
      (auto simp: double_round_def ieee_round_def Let_def signed_ratio_def split: if_splits prod.splits)
  ultimately show ?thesis by (simp add: compare_double_def assms case_prod_unfold Let_def)
qed

lemma digits_of_dec_chars:
  "scan_mantissa 10 (dec_chars n) = (fst (scan_digits 10 (dec_chars n)), [], [])"
  using scan_dec_chars [of n] by (cases "scan_digits 10 (dec_chars n)") (simp add: scan_mantissa_def)

lemma strtod_fmt_dec: "strtod (fmt_dec i) = Some (double_of_int i, [])"
proof -
  let ?n = "nat \<bar>i\<bar>"
  obtain c cs where cs: "dec_chars ?n = c # cs" using dec_chars_digits(2) by (cases "dec_chars ?n") auto
  then have c: "isdigit c" "list_all isdigit cs" using dec_chars_digits(1) [of ?n] by simp_all
  have sk: "skip_sign (dropWhile isspace (fmt_dec i)) = (i < 0, dec_chars ?n)"
    using cs c by (auto simp: fmt_dec_def skip_sign_def isspace_def isdigit_def)
  have "\<not> lower_prefix (CHR ''i'' # p) (dec_chars ?n)" "\<not> lower_prefix (CHR ''n'' # p) (dec_chars ?n)" for p
    using c(1) by (simp_all add: cs lower_prefix_def tolower_def isdigit_def)
  moreover have "\<not> starts_with ''0x'' (dec_chars ?n)" "\<not> starts_with ''0X'' (dec_chars ?n)"
    using c(2) by (cases cs; auto simp: cs starts_with_def isdigit_def)+
  ultimately show ?thesis using scan_dec_chars [of ?n]
    by (simp add: strtod_def sk digits_of_dec_chars scan_exponent_def Let_def case_prod_unfold double_of_int_def)
qed

lemma fmt_g_int:
  assumes "0 < \<bar>i\<bar>" and "\<bar>i\<bar> < 10 ^ 15"
  shows "fmt_g 15 (double_of_int i) = fmt_dec i"
proof -
  let ?n = "nat \<bar>i\<bar>" and ?d = "double_of_int i"
  let ?l = "length (dec_chars ?n)"
  have i53: "\<bar>i\<bar> < 2 ^ 53" using assms(2) by simp
  obtain k where k: "d_ratio ?d = (?n * 2 ^ k, 2 ^ k)" using double_of_int_facts(5) [OF i53] by blast
  have n: "0 < ?n" "?n < 10 ^ 15" using assms by (simp_all add: nat_less_iff)
  have l: "0 < ?l" "?l \<le> 15" using dec_chars_digits(2) dec_chars_length [OF _ n(2)] by simp_all
  have x: "dec_exponent (?n * 2 ^ k) (2 ^ k) = int ?l - 1" 
    unfolding dec_exponent_def using n(1) by (simp add: Suc_le_eq)
  have "?n * 10 ^ (15 - ?l) < 10 ^ ?l * 10 ^ (15 - ?l)" using dec_chars_bounds [of ?n] by simp
  also have "(10::nat) ^ ?l * 10 ^ (15 - ?l) = 10 ^ 15" using l by (simp flip: power_add)
  finally have ne: "?n * 10 ^ (15 - ?l) \<noteq> 10 ^ 15" by simp
  have "round_half_even (?n * 2 ^ k * 10 ^ (15 - ?l)) (2 ^ k) = ?n * 10 ^ (15 - ?l)"
    by (simp add: round_half_even_def Let_def mult.commute mult.left_commute)
  moreover have "nat (int 15 - 1 - (int ?l - 1)) = 15 - ?l" "0 \<le> int 15 - 1 - (int ?l - 1)" using l by simp_all
  ultimately have sig: "significant 15 (?n * 2 ^ k) (2 ^ k) = (?n * 10 ^ (15 - ?l), int ?l - 1)"
    using ne unfolding significant_def x Let_def by (simp only: if_True if_False simp_thms)
  have "strip_zeros (replicate j CHR ''0'') = []" for j by (simp add: strip_zeros_def)
  then have wp: "with_point w (replicate j CHR ''0'') = w" for w j by (simp add: with_point_def)
  have "nat (int ?l - 1) + 1 = ?l" using l(1) by linarith
  then show ?thesis using n(1) l double_of_int_facts(4) [OF i53]
    by (simp add: fmt_g_def k sig dec_chars_shift wp fmt_dec_def del: One_nat_def)
qed

lemma number_text_int:
  assumes "\<bar>i\<bar> < 10 ^ 15"
  shows "number_text (double_of_int i) = Some (fmt_dec i)"
proof -
  let ?d = "double_of_int i"
  have i53: "\<bar>i\<bar> < 2 ^ 53" using assms by simp
  note f = double_of_int_facts [OF i53]
  obtain k where k: "?d = D_fin (i < 0) (nat \<bar>i\<bar> * 2 ^ k) (- int k)" using double_of_int_exact [OF i53] .
  have nat: "nat \<bar>i\<bar> < 10 ^ 15" using assms by (simp add: nat_less_iff)
  have len: "length (fmt_dec i) < 26"
    using dec_chars_length [OF _ nat] by (auto simp: fmt_dec_def abs_if split: if_splits)
  have fin: "\<not> (?d = D_nan \<or> ?d = D_inf False \<or> ?d = D_inf True)" by (simp add: k)
  show ?thesis
  proof (cases "- 2147483648 \<le> i \<and> i \<le> 2147483647")
    case True
    then have "valueint ?d = i" by (auto simp: valueint_def f)
    then show ?thesis using len fin by (simp add: number_text_def f sprintf26_def)
  next
    case False
    then have "\<not> (d_le ?d (valueint ?d) \<and> d_ge ?d (valueint ?d))" by (auto simp: valueint_def f)
    moreover have "fmt_g 15 ?d = fmt_dec i" using False assms by (intro fmt_g_int) auto
    moreover have "compare_double ?d ?d" using k by (rule compare_double_refl)
    ultimately show ?thesis using fin len
      unfolding number_text_def by (auto simp: sprintf26_def strtod_fmt_dec)
  qed
qed

end
