(* ===== verification/Json_Parse_Sound.thy ===== *)
theory Json_Parse_Sound
  imports Json_Parse
begin

text \<open>
  The JSON parser on arbitrary bytes: it never leaves its buffers, it ends, it releases what it
  allocated when it fails, and what it returns is nested within the limit of the library.
\<close>

section \<open>Moves of the buffer\<close>

lemma moves [simp]:
  "pb_content (advance n b) = pb_content b" "pb_depth (advance n b) = pb_depth b"
  "pb_live (advance n b) = pb_live b" "pb_offset (advance n b) = pb_offset b + n"
  "pb_content (step_back b) = pb_content b" "pb_depth (step_back b) = pb_depth b"
  "pb_live (step_back b) = pb_live b" "pb_offset (step_back b) = pb_offset b - 1"
  "pb_content (deallocate k b) = pb_content b" "pb_depth (deallocate k b) = pb_depth b"
  "pb_live (deallocate k b) = pb_live b - k" "pb_offset (deallocate k b) = pb_offset b"
  by (simp_all add: advance_def step_back_def deallocate_def)

lemma delete_moves [simp]:
  "pb_content (delete_items xs b) = pb_content b" "pb_depth (delete_items xs b) = pb_depth b"
  "pb_offset (delete_items xs b) = pb_offset b"
  "pb_live (delete_items xs b) = pb_live b - sum_list (map cJSON_Delete xs)"
  "pb_content (delete_members kvs b) = pb_content b" "pb_depth (delete_members kvs b) = pb_depth b"
  "pb_offset (delete_members kvs b) = pb_offset b"
  "pb_live (delete_members kvs b) = pb_live b - sum_list (map (\<lambda>(k, v). 1 + cJSON_Delete v) kvs)"
  by (simp_all add: delete_items_def delete_members_def)

lemma allocate_cases:
  obtains b' where "allocate hooks n b = (True, b')" "pb_content b' = pb_content b"
    "pb_offset b' = pb_offset b" "pb_depth b' = pb_depth b" "pb_live b' = pb_live b + 1"
  | b' where "allocate hooks n b = (False, b')" "pb_content b' = pb_content b"
    "pb_offset b' = pb_offset b" "pb_depth b' = pb_depth b" "pb_live b' = pb_live b"
  by (cases "hooks (pb_calls b) n") (simp_all add: allocate_def)

text \<open>
  No read of a blank and no read of a literal leaves the buffer: the operations that can fault are total, and
  equal to these functions over the lists of bytes.
\<close>

definition blank_end :: "string \<Rightarrow> nat \<Rightarrow> nat" where
  "blank_end s i = i + length (takeWhile (\<lambda>c. code_of c \<le> 32) (drop i s))"

definition skipped :: "parse_buffer \<Rightarrow> parse_buffer" where
  "skipped b =
     (if \<not> can_access_at_index b 0 then b
      else
        let i = blank_end (pb_content b) (pb_offset b)
        in b\<lparr>pb_offset := (if i = length (pb_content b) then i - 1 else i)\<rparr>)"

definition literal_here :: "parse_buffer \<Rightarrow> string \<Rightarrow> bool" where
  "literal_here b w \<longleftrightarrow> take (length w) (drop (pb_offset b) (pb_content b)) = w"

lemma skip_from_total: "skip_from s i = Some (blank_end s i)"
proof (induction s i rule: skip_from.induct)
  case (1 s i)
  show ?case
  proof (cases "i < length s")
    case True
    then have "drop i s = s ! i # drop (Suc i) s" by (simp add: Cons_nth_drop_Suc)
    then show ?thesis using 1 True by (subst skip_from.simps) (simp add: read_at_def blank_end_def)
  qed (simp add: skip_from.simps blank_end_def)
qed

lemma skip_total [simp]: "buffer_skip_whitespace b = Some (skipped b)"
  by (simp add: buffer_skip_whitespace_def skipped_def skip_from_total)

lemma strncmp_total: "i + length w \<le> length s \<Longrightarrow> strncmp_at s i w = Some (take (length w) (drop i s) = w)"
proof (induction w arbitrary: i)
  case (Cons c w)
  then have "drop i s = s ! i # drop (Suc i) s" by (simp add: Cons_nth_drop_Suc)
  then show ?case using Cons by (auto simp: read_at_def)
qed simp

lemma literal_total: "length w = n \<Longrightarrow> literal_at b n w = Some (can_read b n \<and> literal_here b w)"
  using strncmp_total [of "pb_offset b" w "pb_content b"] by (auto simp: literal_at_def can_read_def literal_here_def)

lemma literals [simp]:
  "literal_at b 4 ''null'' = Some (can_read b 4 \<and> literal_here b ''null'')"
  "literal_at b 5 ''false'' = Some (can_read b 5 \<and> literal_here b ''false'')"
  "literal_at b 4 ''true'' = Some (can_read b 4 \<and> literal_here b ''true'')"
  by (simp_all add: literal_total)

lemma bom_total [simp]:
  "skip_utf8_bom b =
     Some (if pb_offset b \<noteq> 0 then None
           else Some (if can_access_at_index b 4 \<and> literal_here b [CHR 0xEF, CHR 0xBB, CHR 0xBF] then advance 3 b else b))"
  using strncmp_total [of "pb_offset b" "[CHR 0xEF, CHR 0xBB, CHR 0xBF]" "pb_content b"]
  by (auto simp: skip_utf8_bom_def can_access_at_index_def literal_here_def simp del: strncmp_at.simps)

lemmas parse_value_eq = parse_value.simps [unfolded literals bind.bind_lunit]
lemmas parse_array_eq = parse_array.simps [unfolded skip_total bind.bind_lunit]
lemmas array_items_eq = array_items.simps [unfolded skip_total bind.bind_lunit]
lemmas parse_object_eq = parse_object.simps [unfolded skip_total bind.bind_lunit]
lemmas object_members_eq = object_members.simps [unfolded skip_total bind.bind_lunit]

lemma blank_end_bounds: "i \<le> length s \<Longrightarrow> i \<le> blank_end s i \<and> blank_end s i \<le> length s"
  using length_takeWhile_le [of "\<lambda>c. code_of c \<le> 32" "drop i s"] by (auto simp: blank_end_def)

lemma skip_moves [simp]:
  "pb_content (skipped b) = pb_content b"
  "pb_depth (skipped b) = pb_depth b"
  "pb_live (skipped b) = pb_live b"
  by (simp_all add: skipped_def Let_def)

lemma skip_offset:
  assumes "pb_offset b \<le> length (pb_content b)"
  shows "pb_offset b \<le> pb_offset (skipped b)"
    and "pb_offset (skipped b) \<le> length (pb_content b)"
    and "pb_offset b < length (pb_content b) \<Longrightarrow> pb_offset (skipped b) < length (pb_content b)"
  using blank_end_bounds [OF assms] assms
  by (auto simp: skipped_def can_access_at_index_def Let_def)

lemma is_at_total: "is_at b c = Some (pb_offset b < length (pb_content b) \<and> pb_content b ! pb_offset b = c)"
  by (simp add: is_at_def buffer_at_def read_at_def can_access_at_index_def)

lemma buffer_at_0: "pb_offset b < length (pb_content b) \<Longrightarrow> buffer_at b 0 = Some (pb_content b ! pb_offset b)"
  by (simp add: buffer_at_def read_at_def)

section \<open>Numbers\<close>

lemma copy_number_total:
  "\<exists>s. copy_number b i n = Some s \<and> (s = [] \<or> pb_offset b + i + length s \<le> length (pb_content b))"
proof (induction n arbitrary: i)
  case (Suc n)
  obtain s where s: "copy_number b (i + 1) n = Some s"
      "s = [] \<or> pb_offset b + (i + 1) + length s \<le> length (pb_content b)"
    using Suc by blast
  show ?case using s by (auto simp: can_access_at_index_def buffer_at_def read_at_def)
qed simp

lemma scan_digits_length: "scan_digits b s = (ds, r) \<Longrightarrow> length r \<le> length s"
  by (induction s arbitrary: ds r) (auto split: option.splits if_splits prod.splits intro: le_SucI)

lemma skip_sign_length: "skip_sign s = (neg, t) \<Longrightarrow> length t \<le> length s"
  by (auto simp: skip_sign_def split: list.splits if_splits)

lemma scan_exponent_length: "scan_exponent marks s = (x, r) \<Longrightarrow> length r \<le> length s"
  by (auto simp: scan_exponent_def split: list.splits if_splits prod.splits
      dest!: scan_digits_length skip_sign_length)

lemma scan_mantissa_length: "scan_mantissa k s = (ds, fs, r) \<Longrightarrow> length r \<le> length s"
  by (auto simp: scan_mantissa_def split: list.splits if_splits prod.splits dest!: scan_digits_length)

lemma nan_payload_length: "length (nan_payload s) \<le> length s"
proof (cases s)
  case (Cons c t)
  have "length r \<le> Suc (length t)" if "dropWhile P t = d # r" for P d r
    using length_dropWhile_le [of P t] that by simp
  then show ?thesis by (auto simp: nan_payload_def Cons split: list.splits)
qed (simp add: nan_payload_def)

lemma strtod_length: "strtod s = Some (v, r) \<Longrightarrow> length r \<le> length s"
proof -
  assume a: "strtod s = Some (v, r)"
  obtain neg t where t: "skip_sign (dropWhile isspace s) = (neg, t)" by force
  have l: "length t \<le> length s" using skip_sign_length [OF t] length_dropWhile_le [of isspace s] by simp
  obtain hs hf hr where h: "scan_mantissa 16 (drop 2 t) = (hs, hf, hr)" by (metis prod_cases3)
  obtain ds fs r0 where d: "scan_mantissa 10 t = (ds, fs, r0)" by (metis prod_cases3)
  obtain x q where x: "scan_exponent {CHR ''p'', CHR ''P''} hr = (x, q)" by force
  obtain y w where y: "scan_exponent {CHR ''e'', CHR ''E''} r0 = (y, w)" by force
  have "length (nan_payload (drop 3 t)) \<le> length s" using nan_payload_length [of "drop 3 t"] l by simp
  moreover have "length q \<le> length s" using scan_exponent_length [OF x] scan_mantissa_length [OF h] l by simp
  moreover have "length w \<le> length s" using scan_exponent_length [OF y] scan_mantissa_length [OF d] l by simp
  ultimately show ?thesis using a l by (auto simp: strtod_def Let_def t h d x y split: if_splits)
qed

section \<open>Escapes\<close>

lemma hex_digit_bound: "hex_digit c = Some d \<Longrightarrow> d < 16"
  by (auto simp: hex_digit_def split: if_splits)

lemma hex4_from_total:
  assumes "p + left \<le> length s" and "left \<le> 4"
    and "if left = 0 then h < 16 ^ 4 else h + 16 \<le> 16 ^ (5 - left)"
  shows "\<exists>v. hex4_from s p h left = Some v \<and> v < 16 ^ 4"
  using assms
proof (induction left arbitrary: p h)
  case (Suc left)
  have r: "read_at s p = Some (s ! p)" using Suc.prems by (simp add: read_at_def)
  show ?case
  proof (cases "hex_digit (s ! p)")
    case (Some d)
    let ?h = "if left > 0 then push_bit 4 (h + d) else h + d"
    have d: "h + d < h + 16" using hex_digit_bound [OF Some] by simp
    have "if left = 0 then ?h < 16 ^ 4 else ?h + 16 \<le> 16 ^ (5 - left)"
    proof (cases left)
      case 0
      then show ?thesis using Suc.prems d by simp
    next
      case (Suc l)
      have "16 * (h + 16) \<le> 16 * 16 ^ (5 - Suc left)" using Suc.prems by simp
      also have "\<dots> = 16 ^ (5 - left)" using Suc.prems(2) by (simp flip: power_Suc add: Suc_diff_le)
      finally show ?thesis using d Suc by (simp add: push_bit_nat_def)
    qed
    from Suc.IH [OF _ _ this, of "p + 1"] show ?thesis using Suc.prems by (simp add: r Some)
  qed (simp add: r)
qed simp

lemma parse_hex4_total: "p + 4 \<le> length s \<Longrightarrow> \<exists>v. parse_hex4 s p = Some v \<and> v < 0x10000"
  using hex4_from_total [of p 4 s 0] by (simp add: parse_hex4_def)

lemma utf8_rest_length: "length (snd (utf8_rest n c)) = n"
  by (induction n arbitrary: c) (simp_all add: case_prod_unfold Let_def)

lemma utf8_bytes_length: "0 < n \<Longrightarrow> length (utf8_bytes n m c) = n"
  by (simp add: utf8_bytes_def Let_def case_prod_unfold utf8_rest_length)

lemma utf8_encode_length:
  "utf8_encode c = Some cs \<Longrightarrow> length cs \<le> 4 \<and> (c < 0x10000 \<longrightarrow> length cs \<le> 3)"
  by (auto simp: utf8_encode_def utf8_bytes_length split: if_splits)

lemma utf16_total:
  assumes "e < length s" and "p < e"
  obtains n cs where "utf16_literal_to_utf8 s p e = Some (n, cs)"
    "n = 0 \<or> n = 6 \<and> p + 6 \<le> e \<and> length cs \<le> 3 \<or> n = 12 \<and> p + 12 \<le> e \<and> length cs \<le> 4"
proof -
  obtain v where v: "p + 6 \<le> e \<Longrightarrow> parse_hex4 s (p + 2) = Some v \<and> v < 0x10000"
    using parse_hex4_total [of "p + 2" s] assms by force
  obtain w where w: "p + 12 \<le> e \<Longrightarrow> parse_hex4 s (p + 8) = Some w"
    using parse_hex4_total [of "p + 8" s] assms by force
  have f: "\<exists>m cs. finish_literal n c = (m, cs) \<and> (m = 0 \<or> m = n \<and> length cs \<le> 4 \<and> (c < 0x10000 \<longrightarrow> length cs \<le> 3))"
    for n c by (auto simp: finish_literal_def split: option.splits dest: utf8_encode_length)
  let ?cp = "0x10000 + (push_bit 10 (v AND 0x3FF) OR (w AND 0x3FF))"
  obtain m cs where m: "finish_literal 12 ?cp = (m, cs)" "m = 0 \<or> m = 12 \<and> length cs \<le> 4" using f [of 12 ?cp] by blast
  obtain m' cs' where m': "finish_literal 6 v = (m', cs')" "m' = 0 \<or> m' = 6 \<and> (v < 0x10000 \<longrightarrow> length cs' \<le> 3)"
    using f [of 6 v] by blast
  show ?thesis
  proof (cases "p + 6 \<le> e")
    case False
    then have "e - p < 6" by simp
    then have "utf16_literal_to_utf8 s p e = Some (0, [])" by (simp add: utf16_literal_to_utf8_def)
    then show ?thesis using that by blast
  next
    case True
    have r: "read_at s (p + i) = Some (s ! (p + i))" if "p + i < e" for i
      using that assms by (simp add: read_at_def)
    have "utf16_literal_to_utf8 s p e \<in> {Some (0, []), Some (finish_literal 6 v)} \<or>
        p + 12 \<le> e \<and> utf16_literal_to_utf8 s p e = Some (finish_literal 12 ?cp)"
      using True v w r [of 6] r [of 7] by (cases "p + 12 \<le> e") (simp_all add: utf16_literal_to_utf8_def)
    then show ?thesis using that m m' True v by auto
  qed
qed

section \<open>String literals\<close>

text \<open>The closing quote found from \<open>q\<close> is at \<open>e\<close>, with \<open>r\<close> escapes before it.\<close>

inductive closes :: "string \<Rightarrow> nat \<Rightarrow> nat \<Rightarrow> nat \<Rightarrow> bool" for s where
  closing: "e < length s \<Longrightarrow> s ! e = QUOTE \<Longrightarrow> closes s e e 0"
| escape: "s ! q = BACKSLASH \<Longrightarrow> closes s (q + 2) e r \<Longrightarrow> closes s q e (r + 1)"
| plain: "s ! q \<noteq> QUOTE \<Longrightarrow> s ! q \<noteq> BACKSLASH \<Longrightarrow> closes s (q + 1) e r \<Longrightarrow> closes s q e r"

lemma closes_bounds: "closes s q e r \<Longrightarrow> q + 2 * r \<le> e \<and> e < length s \<and> s ! e = QUOTE"
  by (induction rule: closes.induct) auto

lemma scan_close_total:
  "\<exists>v. scan_close s q k = Some v \<and> (\<forall>e r. v = Some (e, r) \<longrightarrow> k \<le> r \<and> closes s q e (r - k))"
proof (induction s q k rule: scan_close.induct)
  case (1 s q k)
  show ?case
  proof (cases "q < length s \<and> s ! q \<noteq> QUOTE")
    case True
    then have r: "read_at s q = Some (s ! q)" by (simp add: read_at_def)
    show ?thesis
    proof (cases "s ! q = BACKSLASH")
      case b: True
      show ?thesis
      proof (cases "q + 1 < length s")
        case l: True
        then obtain v where v: "scan_close s (q + 2) (k + 1) = Some v"
            "\<And>e r. v = Some (e, r) \<Longrightarrow> k + 1 \<le> r \<and> closes s (q + 2) e (r - (k + 1))"
          using 1(1) [OF _ r _ b] True b by force
        have "k \<le> r \<and> closes s q e (r - k)" if "v = Some (e, r)" for e r
          using closes.escape [OF b, of e "r - (k + 1)"] v(2) [OF that] by (simp add: Suc_diff_Suc)
        then show ?thesis using v(1) True r b l by (subst scan_close.simps) simp
      qed (use True r b in \<open>subst scan_close.simps; simp\<close>)
    next
      case b: False
      then obtain v where v: "scan_close s (q + 1) k = Some v"
          "\<And>e r. v = Some (e, r) \<Longrightarrow> k \<le> r \<and> closes s (q + 1) e (r - k)"
        using 1(2) [OF _ r _ b] True by force
      have "k \<le> r \<and> closes s q e (r - k)" if "v = Some (e, r)" for e r
        using closes.plain [OF _ b, of e "r - k"] v(2) [OF that] True by simp
      then show ?thesis using v(1) True r b by (subst scan_close.simps) simp
    qed
  next
    case False
    then show ?thesis by (subst scan_close.simps) (auto simp: read_at_def intro: closes.closing)
  qed
qed

text \<open>
  The decoder may lose step with the scanner after a malformed escape: it then stands in the middle of
  a two-character escape. From any position the scanner has passed, it stands at that
  position or one further, and it has not seen more escapes than half of the characters.
\<close>

lemma closes_progress:
  assumes "closes s q e r" and "q \<le> t" and "t \<le> e"
  shows "\<exists>q' r'. (q' = t \<or> q' = t + 1) \<and> closes s q' e r' \<and> r' \<le> r \<and> 2 * (r - r') \<le> t - q + 1"
  using assms
proof (induction rule: closes.induct)
  case (closing e)
  then show ?case using closes.closing [of e s] by (intro exI [of _ e] exI [of _ 0]) simp
next
  case (escape q e r)
  consider "t = q" | "t = q + 1" | "q + 2 \<le> t" using escape.prems by linarith
  then show ?case
  proof cases
    case 1
    then show ?thesis using closes.escape [OF escape.hyps] by fastforce
  next
    case 2
    then show ?thesis using escape.hyps by (intro exI [of _ "q + 2"] exI [of _ r]) simp
  next
    case 3
    then obtain q' r' where "q' = t \<or> q' = t + 1" "closes s q' e r'" "r' \<le> r" "2 * (r - r') \<le> t - (q + 2) + 1"
      using escape.IH escape.prems by blast
    then show ?thesis using 3 by (intro exI [of _ q'] exI [of _ r']) auto
  qed
next
  case (plain q e r)
  show ?case
  proof (cases "t = q")
    case True
    then show ?thesis using closes.plain [OF plain.hyps] by fastforce
  next
    case False
    then obtain q' r' where "q' = t \<or> q' = t + 1" "closes s q' e r'" "r' \<le> r" "2 * (r - r') \<le> t - (q + 1) + 1"
      using plain.IH plain.prems by force
    then show ?thesis using False plain.prems by (intro exI [of _ q'] exI [of _ r']) auto
  qed
qed

text \<open>
  The decoder at \<open>p\<close> with the scanner at \<open>q\<close>: the room left in the output covers the characters left in the
  literal less the escapes among them.
\<close>

definition in_step :: "string \<Rightarrow> nat \<Rightarrow> nat \<Rightarrow> nat \<Rightarrow> nat \<Rightarrow> bool" where
  "in_step s p e cap n \<longleftrightarrow>
     p = e + 1 \<and> n \<le> cap \<or>
     (\<exists>q r. (q = p \<or> q = p + 1) \<and> p \<le> e \<and> closes s q e r \<and> n + (e - p) \<le> cap + r)"

lemma in_step_room: "in_step s p e cap n \<Longrightarrow> n \<le> cap"
  by (auto simp: in_step_def dest: closes_bounds)

lemma in_step_move:
  assumes "in_step s p e cap n" and "p + 2 * k \<le> e" and "0 < k" and "m \<le> k"
  shows "in_step s (p + 2 * k) e cap (n + m)"
proof -
  obtain q r where q: "q = p \<or> q = p + 1" "closes s q e r" "n + (e - p) \<le> cap + r"
    using assms by (auto simp: in_step_def)
  have "q \<le> p + 2 * k" using q(1) assms(3) by auto
  from closes_progress [OF q(2) this assms(2)]
  obtain q' r' where "q' = p + 2 * k \<or> q' = p + 2 * k + 1" "closes s q' e r'" "r' \<le> r"
      "2 * (r - r') \<le> p + 2 * k - q + 1" by blast
  then show ?thesis unfolding in_step_def using q assms by (intro disjI2 exI [of _ q'] exI [of _ r']) auto
qed

lemma in_step_plain:
  assumes "in_step s p e cap n" "p < e" "s ! p \<noteq> BACKSLASH"
  shows "in_step s (p + 1) e cap (n + 1)"
proof -
  obtain q r where q: "q = p \<or> q = p + 1" "closes s q e r" "n + (e - p) \<le> cap + r"
    using assms by (auto simp: in_step_def)
  from q(2) have "closes s (p + 1) e r"
    by (cases rule: closes.cases) (use q(1,2) assms in auto)
  then show ?thesis unfolding in_step_def using q assms(2) by (intro disjI2 exI [of _ "p + 1"] exI [of _ r]) auto
qed

lemma in_step_escape:
  assumes "in_step s p e cap n" "p < e" "s ! p = BACKSLASH"
  shows "in_step s (p + 2) e cap (n + 1)"
proof (cases "p + 2 \<le> e")
  case True
  then show ?thesis using in_step_move [OF assms(1), of 1 1] by simp
next
  case False
  then have e: "e = p + 1" using assms(2) by simp
  obtain q r where q: "q = p \<or> q = p + 1" "closes s q e r" "n + (e - p) \<le> cap + r"
    using assms by (auto simp: in_step_def)
  have "q \<noteq> p"
  proof
    assume "q = p"
    with q(2) obtain r' where "closes s (p + 2) e r'" by (cases rule: closes.cases) (use assms in auto)
    then show False using e by (auto dest: closes_bounds)
  qed
  then have "r = 0" using q(1) e closes_bounds [OF q(2)] by auto
  then show ?thesis using q(3) e by (simp add: in_step_def)
qed

lemma unescape_total:
  assumes "in_step s p e lim (length out)" "e < length s" "lim \<le> cap"
  shows "\<exists>v. unescape s p e cap out = Some v \<and> (\<forall>i. v = Inl i \<longrightarrow> p \<le> i \<and> i < e) \<and> (\<forall>cs. v = Inr cs \<longrightarrow> length cs \<le> lim)"
  using assms
proof (induction s p e cap out rule: unescape.induct)
  case (1 s p e cap out)
  show ?case
  proof (cases "p < e")
    case True
    have r: "read_at s p = Some (s ! p)" "read_at s (p + 1) = Some (s ! (p + 1))"
      using True 1(5) by (simp_all add: read_at_def)
    have put: "put cap out cs = Some (out @ cs)" if "in_step s p' e lim (length out + length cs)" for cs p'
      using in_step_room [OF that] 1(6) by (simp add: put_def)
    show ?thesis
    proof (cases "s ! p = BACKSLASH")
      case False
      have i: "in_step s (p + 1) e lim (length (out @ [s ! p]))" using in_step_plain [OF 1(4) True False] by simp
      show ?thesis using 1(1) [OF True r(1) False put, OF i [unfolded length_append] i 1(5,6)] True r False put [of "p + 1" "[s ! p]"] i
        by (subst unescape.simps) fastforce
    next
      case b: True
      show ?thesis
      proof (cases "simple_escape (s ! (p + 1))")
        case (Some x)
        have i: "in_step s (p + 2) e lim (length (out @ [x]))" using in_step_escape [OF 1(4) True b] by simp
        have p: "put cap out [x] = Some (out @ [x])" using put [of "p + 2" "[x]"] i by simp
        obtain v where v: "unescape s (p + 2) e cap (out @ [x]) = Some v"
            "\<forall>i. v = Inl i \<longrightarrow> p + 2 \<le> i \<and> i < e" "\<forall>cs. v = Inr cs \<longrightarrow> length cs \<le> lim"
          using 1(3) [OF True r(1) _ r(2) Some p i 1(5,6)] b by blast
        show ?thesis using v True r b Some p by (subst unescape.simps) (auto dest: add_leD1)
      next
        case None
        obtain n cs where u: "utf16_literal_to_utf8 s p e = Some (n, cs)"
          "n = 0 \<or> n = 6 \<and> p + 6 \<le> e \<and> length cs \<le> 3 \<or> n = 12 \<and> p + 12 \<le> e \<and> length cs \<le> 4"
          using utf16_total [OF 1(5) True] by blast
        show ?thesis
        proof (cases "s ! (p + 1) = CHR ''u'' \<and> n \<noteq> 0")
          case un: True
          have i: "in_step s (p + n) e lim (length (out @ cs))"
            using u(2) un in_step_move [OF 1(4), of 3 "length cs"] in_step_move [OF 1(4), of 6 "length cs"] by auto
          have p: "put cap out cs = Some (out @ cs)" using put [of "p + n" cs] i by simp
          obtain v where v: "unescape s (p + n) e cap (out @ cs) = Some v"
              "\<forall>i. v = Inl i \<longrightarrow> p + n \<le> i \<and> i < e" "\<forall>cs. v = Inr cs \<longrightarrow> length cs \<le> lim"
            using 1(2) [OF True r(1) _ r(2) None _ u(1) refl _ p i 1(5,6)] b un by blast
          show ?thesis using v True r b None p un u(1) by (subst unescape.simps) (auto dest: add_leD1)
        next
          case False
          then show ?thesis using True r b None u(1) by (subst unescape.simps) auto
        qed
      qed
    qed
  qed (use 1 in_step_room in \<open>subst unescape.simps; auto\<close>)
qed

text \<open>What a run of the parser on \<open>b\<close> leaves, in terms of the blocks the result holds.\<close>

definition reads_on :: "parse_buffer \<Rightarrow> parse_buffer \<Rightarrow> bool" where
  "reads_on b b' \<longleftrightarrow>
     pb_content b' = pb_content b \<and> pb_offset b \<le> pb_offset b' \<and> pb_offset b' \<le> length (pb_content b)"

lemma reads_on_trans: "reads_on a b \<Longrightarrow> reads_on b c \<Longrightarrow> reads_on a c"
  by (auto simp: reads_on_def)

lemma skip_reads_on: "pb_offset b \<le> length (pb_content b) \<Longrightarrow> reads_on b (skipped b)"
  by (simp add: reads_on_def skip_offset)

lemma parse_string_total:
  assumes "pb_offset b < length (pb_content b)"
  obtains v b' where "parse_string hooks b = Some (v, b')" "reads_on b b'" "pb_depth b' = pb_depth b"
    "pb_live b' = pb_live b + (if v = None then 0 else 1)" "\<And>s. v = Some s \<Longrightarrow> NUL \<notin> set s"
proof -
  let ?s = "pb_content b" and ?o = "pb_offset b"
  note at = buffer_at_0 [OF assms]
  obtain w where w: "scan_close ?s (?o + 1) 0 = Some w" "\<And>e r. w = Some (e, r) \<Longrightarrow> closes ?s (?o + 1) e r"
    using scan_close_total [of ?s "?o + 1" 0] by auto
  show ?thesis
  proof (cases "?s ! ?o = QUOTE \<and> w \<noteq> None")
    case False
    then have "parse_string hooks b = Some (None, advance 1 b)" by (cases w) (auto simp: parse_string_def at w(1) simp del: One_nat_def)
    from that [OF this] show ?thesis using assms by (simp add: reads_on_def)
  next
    case True
    then obtain e r where er: "w = Some (e, r)" by auto
    note c = w(2) [OF er] and cb = closes_bounds [OF w(2) [OF er]]
    let ?n = "e - ?o - r"
    show ?thesis
    proof (cases hooks "?n + 1" b rule: allocate_cases)
      case (1 b')
      have "in_step ?s (?o + 1) e ?n 0" unfolding in_step_def
        using c cb by (intro disjI2 exI [of _ "?o + 1"] exI [of _ r]) auto
      from unescape_total [of ?s "?o + 1" e ?n "[]" "?n + 1"] this cb obtain v where
        v: "unescape ?s (?o + 1) e (?n + 1) [] = Some v" "\<And>i. v = Inl i \<Longrightarrow> ?o + 1 \<le> i \<and> i < e"
          "\<And>cs. v = Inr cs \<Longrightarrow> length cs \<le> ?n"
        by auto
      show ?thesis
      proof (cases v)
        case (Inl i)
        have "parse_string hooks b = Some (None, (deallocate 1 b')\<lparr>pb_offset := i\<rparr>)"
          using True er 1 v(1) Inl by (simp add: parse_string_def at w(1) Let_def del: One_nat_def)
        from that [OF this] show ?thesis using 1 v(2) [OF Inl] cb by (simp add: reads_on_def)
      next
        case (Inr cs)
        have "put (?n + 1) cs [NUL] = Some (cs @ [NUL])" using v(3) [OF Inr] by (simp add: put_def)
        then have "parse_string hooks b = Some (Some (c_string (cs @ [NUL])), b'\<lparr>pb_offset := e + 1\<rparr>)"
          using True er 1 v(1) Inr by (simp add: parse_string_def at w(1) Let_def del: One_nat_def)
        from that [OF this] show ?thesis using 1 cb by (auto simp: reads_on_def c_string_def dest: set_takeWhileD)
      qed
    next
      case (2 b')
      then have "parse_string hooks b = Some (None, advance 1 b')"
        using True er by (simp add: parse_string_def at w(1) Let_def del: One_nat_def)
      from that [OF this] show ?thesis using assms 2 by (simp add: reads_on_def)
    qed
  qed
qed

section \<open>The recursion\<close>

text \<open>Containers nested at most \<open>n\<close> deep, with names and strings that are C strings and numbers that are doubles.\<close>

fun json_within :: "nat \<Rightarrow> json \<Rightarrow> bool" where
  "json_within n (J_num d) \<longleftrightarrow> double_wf d"
| "json_within n (J_str s) \<longleftrightarrow> NUL \<notin> set s"
| "json_within n (J_arr xs) \<longleftrightarrow> 0 < n \<and> list_all (json_within (n - 1)) xs"
| "json_within n (J_obj kvs) \<longleftrightarrow> 0 < n \<and> list_all (\<lambda>(k, v). NUL \<notin> set k \<and> json_within (n - 1) v) kvs"
| "json_within n j \<longleftrightarrow> True"

definition held :: "json option \<Rightarrow> int" where
  "held v = (case v of None \<Rightarrow> 0 | Some j \<Rightarrow> cJSON_Delete j - 1)"

lemma held_simps [simp]: "held None = 0" "held (Some j) = cJSON_Delete j - 1"
  by (simp_all add: held_def)

definition result_from :: "int \<Rightarrow> nat \<Rightarrow> parse_buffer \<Rightarrow> json option \<Rightarrow> parse_buffer \<Rightarrow> bool" where
  "result_from live depth b v b' \<longleftrightarrow>
     reads_on b b' \<and> pb_live b' = live + held v \<and>
     (\<forall>j. v = Some j \<longrightarrow> pb_depth b' = depth \<and> json_within (CJSON_NESTING_LIMIT - depth) j)"

abbreviation left :: "parse_buffer \<Rightarrow> nat" where "left b \<equiv> length (pb_content b) - pb_offset b"

abbreviation inside :: "parse_buffer \<Rightarrow> bool" where "inside b \<equiv> pb_offset b < length (pb_content b)"

definition value_ok :: "alloc_hooks \<Rightarrow> nat \<Rightarrow> bool" where
  "value_ok hooks n \<longleftrightarrow> (\<forall>b. pb_offset b \<le> length (pb_content b) \<and> 3 * left b + 1 \<le> n \<longrightarrow>
     (\<exists>v b'. parse_value hooks n b = Some (v, b') \<and> result_from (pb_live b) (pb_depth b) b v b'))"

definition container_ok :: "(nat \<Rightarrow> parse_buffer \<Rightarrow> json option reading) \<Rightarrow> nat \<Rightarrow> bool" where
  "container_ok parse n \<longleftrightarrow> (\<forall>b. inside b \<and> 3 * left b \<le> n \<longrightarrow>
     (\<exists>v b'. parse n b = Some (v, b') \<and> result_from (pb_live b) (pb_depth b) b v b'))"

definition items_ok :: "alloc_hooks \<Rightarrow> nat \<Rightarrow> bool" where
  "items_ok hooks n \<longleftrightarrow> (\<forall>b items. inside b \<and> 3 * left b \<le> n + 1 \<and> 0 < pb_depth b \<and>
     pb_depth b \<le> CJSON_NESTING_LIMIT \<and> list_all (json_within (CJSON_NESTING_LIMIT - pb_depth b)) items \<longrightarrow>
     (\<exists>v b'. array_items hooks n items b = Some (v, b') \<and>
        result_from (pb_live b - sum_list (map cJSON_Delete items)) (pb_depth b - 1) b v b'))"

definition members_ok :: "alloc_hooks \<Rightarrow> nat \<Rightarrow> bool" where
  "members_ok hooks n \<longleftrightarrow> (\<forall>b kvs. inside b \<and> 3 * left b \<le> n + 1 \<and> 0 < pb_depth b \<and>
     pb_depth b \<le> CJSON_NESTING_LIMIT \<and>
     list_all (\<lambda>(k, v). NUL \<notin> set k \<and> json_within (CJSON_NESTING_LIMIT - pb_depth b) v) kvs \<longrightarrow>
     (\<exists>v b'. object_members hooks n kvs b = Some (v, b') \<and>
        result_from (pb_live b - sum_list (map (\<lambda>(k, v). 1 + cJSON_Delete v) kvs)) (pb_depth b - 1) b v b'))"

lemma items_okD:
  assumes "items_ok hooks n" "inside b" "3 * left b \<le> n + 1" "0 < pb_depth b" "pb_depth b \<le> CJSON_NESTING_LIMIT"
    "list_all (json_within (CJSON_NESTING_LIMIT - pb_depth b)) items"
  shows "\<exists>v b'. array_items hooks n items b = Some (v, b') \<and>
    result_from (pb_live b - sum_list (map cJSON_Delete items)) (pb_depth b - 1) b v b'"
  using assms by (simp add: items_ok_def)

lemma members_okD:
  assumes "members_ok hooks n" "inside b" "3 * left b \<le> n + 1" "0 < pb_depth b" "pb_depth b \<le> CJSON_NESTING_LIMIT"
    "list_all (\<lambda>(k, v). NUL \<notin> set k \<and> json_within (CJSON_NESTING_LIMIT - pb_depth b) v) kvs"
  shows "\<exists>v b'. object_members hooks n kvs b = Some (v, b') \<and>
    result_from (pb_live b - sum_list (map (\<lambda>(k, v). 1 + cJSON_Delete v) kvs)) (pb_depth b - 1) b v b'"
  using assms by (simp add: members_ok_def)

definition constant_at :: "parse_buffer \<Rightarrow> bool" where
  "constant_at b \<longleftrightarrow> can_read b 4 \<and> literal_here b ''null'' \<or> can_read b 5 \<and> literal_here b ''false'' \<or>
     can_read b 4 \<and> literal_here b ''true''"

lemma parse_value_constant:
  assumes "constant_at b"
  shows "\<exists>v b'. parse_value hooks (Suc n) b = Some (v, b') \<and> result_from (pb_live b) (pb_depth b) b v b'"
  using assms unfolding constant_at_def
  by (auto simp: parse_value_eq result_from_def reads_on_def can_read_def)

lemma parse_value_inside:
  assumes "\<not> constant_at b" and "inside b" and "pb_content b ! pb_offset b = c"
  shows "parse_value hooks (Suc n) b =
    (if c = QUOTE then do { (s, b) \<leftarrow> parse_string hooks b; Some (map_option J_str s, b) }
     else if c = CHR ''-'' \<or> isdigit c then parse_number b
     else if c = CHR ''['' then parse_array hooks n b
     else if c = CHR ''{'' then parse_object hooks n b
     else Some (None, b))"
proof -
  have "\<not> (can_read b 4 \<and> literal_here b ''null'')" "\<not> (can_read b 5 \<and> literal_here b ''false'')"
    "\<not> (can_read b 4 \<and> literal_here b ''true'')" "can_access_at_index b 0" "buffer_at b 0 = Some c"
    using assms buffer_at_0 [OF assms(2)] by (simp_all add: constant_at_def can_access_at_index_def)
  then show ?thesis unfolding parse_value_eq
    by (simp only: if_False not_True_eq_False bind.bind_lunit cong: if_cong)
qed

lemma parse_number_total:
  assumes "inside b"
  shows "\<exists>v b'. parse_number b = Some (v, b') \<and> result_from (pb_live b) (pb_depth b) b v b'"
proof -
  obtain s where s: "copy_number b 0 63 = Some s" "s = [] \<or> pb_offset b + length s \<le> length (pb_content b)"
    using copy_number_total [of b 0 63] by auto
  show ?thesis
  proof (cases "strtod s")
    case None
    then show ?thesis using s assms by (simp add: parse_number_def result_from_def reads_on_def)
  next
    case (Some vr)
    then show ?thesis using s assms
      by (cases vr) (auto simp: parse_number_def result_from_def reads_on_def dest: strtod_wf)
  qed
qed

lemma value_step:
  assumes "container_ok (parse_array hooks) n" and "container_ok (parse_object hooks) n"
  shows "value_ok hooks (Suc n)"
  unfolding value_ok_def
proof (intro allI impI, elim conjE)
  fix b assume o: "pb_offset b \<le> length (pb_content b)" and f: "3 * left b + 1 \<le> Suc n"
  let ?c = "pb_content b ! pb_offset b"
  show "\<exists>v b'. parse_value hooks (Suc n) b = Some (v, b') \<and> result_from (pb_live b) (pb_depth b) b v b'"
  proof (cases "constant_at b")
    case True
    then show ?thesis by (rule parse_value_constant)
  next
    case nc: False
    show ?thesis
    proof (cases "inside b")
      case False
      then show ?thesis using nc o
        by (simp add: parse_value_eq constant_at_def can_access_at_index_def result_from_def reads_on_def)
    next
      case True
      note eq = parse_value_inside [OF nc True refl, of hooks n]
      obtain v b' where "parse_string hooks b = Some (v, b')" "reads_on b b'" "pb_depth b' = pb_depth b"
          "pb_live b' = pb_live b + (if v = None then 0 else 1)" "\<And>s. v = Some s \<Longrightarrow> NUL \<notin> set s"
        using parse_string_total [OF True] by blast
      then have str: "\<exists>v b'. do { (s, b) \<leftarrow> parse_string hooks b; Some (map_option J_str s, b) } = Some (v, b') \<and>
          result_from (pb_live b) (pb_depth b) b v b'"
        by (cases v) (auto simp: result_from_def)
      have "3 * left b \<le> n" using f by simp
      then show ?thesis
        using eq str parse_number_total [OF True] assms True
        by (auto simp: container_ok_def result_from_def reads_on_def)
    qed
  qed
qed

lemma result_close:
  assumes "inside b" and "reads_on a b" and "json_within (CJSON_NESTING_LIMIT - (pb_depth b - 1)) j"
    and "live + cJSON_Delete j - 1 = pb_live b"
  shows "\<exists>v b'. close_container j b = Some (v, b') \<and> result_from live (pb_depth b - 1) a v b'"
  using assms by (auto simp: close_container_def result_from_def reads_on_def)

lemma result_from_trans: "reads_on a b \<Longrightarrow> result_from live depth b v b' \<Longrightarrow> result_from live depth a v b'"
  by (auto simp: result_from_def intro: reads_on_trans)

text \<open>The part that arrays and objects share: from the opening bracket to the first child.\<close>

abbreviation opened :: "parse_buffer \<Rightarrow> parse_buffer" where
  "opened b \<equiv> skipped (advance 1 (b\<lparr>pb_depth := pb_depth b + 1\<rparr>))"

lemma opened_props:
  assumes "inside b" and "s = opened b"
  shows "pb_content s = pb_content b" "pb_depth s = pb_depth b + 1" "pb_live s = pb_live b"
    "pb_offset b < pb_offset s" "pb_offset s \<le> length (pb_content b)"
  using assms skip_offset [of "advance 1 (b\<lparr>pb_depth := pb_depth b + 1\<rparr>)"] by simp_all

lemma opened_fuel:
  assumes "inside b" and "s = opened b" and "inside s" and "3 * left b \<le> Suc n"
  shows "inside (step_back s)" and "3 * left (step_back s) \<le> n + 1"
  using opened_props [OF assms(1,2)] assms(3,4) by simp_all

lemma container_body:
  assumes "inside b" and "pb_depth b < CJSON_NESTING_LIMIT" and s: "s = opened b"
    and j: "json_within (CJSON_NESTING_LIMIT - pb_depth b) j" "cJSON_Delete j = 1"
    and rest: "inside s \<Longrightarrow> \<exists>v b'. rest (step_back s) = Some (v, b') \<and>
      result_from (pb_live b) (pb_depth b) (step_back s) v b'"
  shows "\<exists>v b'. do {
      empty \<leftarrow> is_at s close;
      if empty then close_container j s
      else if \<not> can_access_at_index s 0 then Some (None, step_back s)
      else rest (step_back s) } = Some (v, b') \<and> result_from (pb_live b) (pb_depth b) b v b'"
proof -
  note sp = opened_props [OF assms(1) s]
  have bs: "reads_on b s" and bb: "reads_on b (step_back s)" using sp by (auto simp: reads_on_def)
  show ?thesis
  proof (cases "inside s")
    case False
    then show ?thesis using bb sp by (auto simp: is_at_total can_access_at_index_def result_from_def)
  next
    case True
    have "\<exists>v b'. close_container j s = Some (v, b') \<and> result_from (pb_live b) (pb_depth s - 1) b v b'"
      by (rule result_close [OF True bs]) (use sp j in auto)
    then show ?thesis using rest [OF True] True sp result_from_trans [OF bb]
      by (auto simp: is_at_total can_access_at_index_def)
  qed
qed

lemma array_step:
  assumes "items_ok hooks n"
  shows "container_ok (parse_array hooks) (Suc n)"
  unfolding container_ok_def
proof (intro allI impI, elim conjE)
  fix b assume i: "inside b" and f: "3 * left b \<le> Suc n"
  have at: "buffer_at (b\<lparr>pb_depth := pb_depth b + 1\<rparr>) 0 = Some (pb_content b ! pb_offset b)"
    using i by (simp add: buffer_at_0)
  show "\<exists>v b'. parse_array hooks (Suc n) b = Some (v, b') \<and> result_from (pb_live b) (pb_depth b) b v b'"
  proof (cases "pb_depth b \<ge> CJSON_NESTING_LIMIT \<or> pb_content b ! pb_offset b \<noteq> CHR ''[''")
    case True
    then show ?thesis using i at by (auto simp: parse_array_eq result_from_def reads_on_def)
  next
    case False
    define s where s: "s = opened b"
    note sp = opened_props [OF i s]
    have "\<exists>v b'. array_items hooks n [] (step_back s) = Some (v, b') \<and>
        result_from (pb_live b) (pb_depth b) (step_back s) v b'" if "inside s"
      using items_okD [OF assms opened_fuel [OF i s that f], of "[]"] sp False by simp
    moreover have "parse_array hooks (Suc n) b = do {
        empty \<leftarrow> is_at s CHR '']'';
        if empty then close_container (J_arr []) s
        else if \<not> can_access_at_index s 0 then Some (None, step_back s)
        else array_items hooks n [] (step_back s) }"
      using False at unfolding parse_array_eq Let_def s by (simp del: One_nat_def)
    ultimately show ?thesis
      using container_body [OF i _ s, of "J_arr []" "array_items hooks n []" "CHR '']''"] False by simp
  qed
qed

lemma object_step:
  assumes "members_ok hooks n"
  shows "container_ok (parse_object hooks) (Suc n)"
  unfolding container_ok_def
proof (intro allI impI, elim conjE)
  fix b assume i: "inside b" and f: "3 * left b \<le> Suc n"
  have at: "is_at (b\<lparr>pb_depth := pb_depth b + 1\<rparr>) CHR ''{'' = Some (pb_content b ! pb_offset b = CHR ''{'')"
    using i by (simp add: is_at_total)
  show "\<exists>v b'. parse_object hooks (Suc n) b = Some (v, b') \<and> result_from (pb_live b) (pb_depth b) b v b'"
  proof (cases "pb_depth b \<ge> CJSON_NESTING_LIMIT \<or> pb_content b ! pb_offset b \<noteq> CHR ''{''")
    case True
    then show ?thesis using i at by (auto simp: parse_object_eq result_from_def reads_on_def)
  next
    case False
    define s where s: "s = opened b"
    note sp = opened_props [OF i s]
    have "\<exists>v b'. object_members hooks n [] (step_back s) = Some (v, b') \<and>
        result_from (pb_live b) (pb_depth b) (step_back s) v b'" if "inside s"
      using members_okD [OF assms opened_fuel [OF i s that f], of "[]"] sp False by simp
    moreover have "parse_object hooks (Suc n) b = do {
        empty \<leftarrow> is_at s CHR ''}'';
        if empty then close_container (J_obj []) s
        else if \<not> can_access_at_index s 0 then Some (None, step_back s)
        else object_members hooks n [] (step_back s) }"
      using False at unfolding parse_object_eq Let_def s by (simp del: One_nat_def)
    ultimately show ?thesis
      using container_body [OF i _ s, of "J_obj []" "object_members hooks n []" "CHR ''}''"] False by simp
  qed
qed

text \<open>The part they share after a child: another one, the closing bracket, or failure.\<close>

lemma after_child:
  assumes "reads_on a t" and "json_within (CJSON_NESTING_LIMIT - (pb_depth t - 1)) j"
    and "live + cJSON_Delete j - 1 = pb_live t"
    and "reads_on a t'" and "pb_live t' = live"
    and "inside t \<Longrightarrow> \<exists>v b'. again = Some (v, b') \<and> result_from live (pb_depth t - 1) t v b'"
  shows "\<exists>v b'. do {
      comma \<leftarrow> is_at t CHR '','';
      if comma then again
      else do { close \<leftarrow> is_at t c; if close then close_container j t else Some (None, t') } } = Some (v, b') \<and>
    result_from live (pb_depth t - 1) a v b'"
proof (cases "inside t")
  case False
  then show ?thesis using assms by (auto simp: is_at_total result_from_def)
next
  case True
  have "result_from live (pb_depth t - 1) a None t'" using assms(4,5) by (simp add: result_from_def)
  then show ?thesis
    using assms(6) [OF True] result_close [OF True assms(1-3)] result_from_trans [OF assms(1)]
    by (auto simp: is_at_total)
qed

lemma value_okD:
  assumes "value_ok hooks n" and "pb_offset b \<le> length (pb_content b)" and "3 * left b + 1 \<le> n"
  obtains v b' where "parse_value hooks n b = Some (v, b')" "result_from (pb_live b) (pb_depth b) b v b'"
  using assms by (auto simp: value_ok_def)

text \<open>Stepping over the bracket or comma before a child, or over the colon.\<close>

lemma next_props:
  assumes "inside b" and "s = skipped (advance 1 b)"
  shows "pb_content s = pb_content b" "pb_depth s = pb_depth b" "pb_live s = pb_live b" "reads_on b s"
    "pb_offset b < pb_offset s" "pb_offset s \<le> length (pb_content s)" "3 * left b \<le> n + 2 \<Longrightarrow> 3 * left s + 1 \<le> n"
  using assms skip_offset [of "advance 1 b"] by (simp_all add: reads_on_def)

lemma items_step:
  assumes v: "value_ok hooks n" and again: "items_ok hooks n"
  shows "items_ok hooks (Suc n)"
  unfolding items_ok_def
proof (intro allI impI, elim conjE)
  fix b items
  assume i: "inside b" and f: "3 * left b \<le> Suc n + 1" and d: "0 < pb_depth b" "pb_depth b \<le> CJSON_NESTING_LIMIT"
    and w: "list_all (json_within (CJSON_NESTING_LIMIT - pb_depth b)) items"
  let ?live = "pb_live b - sum_list (map cJSON_Delete items)"
  show "\<exists>v b'. array_items hooks (Suc n) items b = Some (v, b') \<and> result_from ?live (pb_depth b - 1) b v b'"
  proof (cases hooks SIZEOF_CJSON b rule: allocate_cases)
    case (2 b1)
    then show ?thesis using i by (simp add: array_items_eq cJSON_New_Item_def result_from_def reads_on_def)
  next
    case (1 b1)
    define s where s: "s = skipped (advance 1 b1)"
    have i1: "inside b1" using i 1 by simp
    note sp = next_props [OF i1 s]
    have "3 * left s + 1 \<le> n" using sp(7) f 1 by simp
    from value_okD [OF v sp(6) this]
    obtain x b2 where x: "parse_value hooks n s = Some (x, b2)" "result_from (pb_live s) (pb_depth s) s x b2" by blast
    have r2: "reads_on b b2" using sp(4) x(2) 1 by (auto simp: result_from_def reads_on_def)
    show ?thesis
    proof (cases x)
      case None
      then have "array_items hooks (Suc n) items b = Some (None, delete_items items (deallocate 1 b2))"
        using 1 x(1) by (simp add: array_items_eq cJSON_New_Item_def s del: One_nat_def)
      then show ?thesis using None x(2) r2 sp 1 by (simp add: result_from_def reads_on_def)
    next
      case (Some j)
      define t where t: "t = skipped b2"
      have x2: "pb_depth b2 = pb_depth b" "json_within (CJSON_NESTING_LIMIT - pb_depth b) j"
          "pb_live b2 = pb_live b + cJSON_Delete j" "reads_on s b2"
        using x(2) Some sp 1 by (simp_all add: result_from_def)
      have st: "reads_on s t" "reads_on b t" using x2(4) r2 skip_reads_on [of b2] unfolding t
        by (auto simp: reads_on_def)
      have "3 * left t \<le> n + 1" if "inside t"
        using st f sp(5) 1 by (auto simp: reads_on_def)
      then have ag: "\<exists>v b'. array_items hooks n (items @ [j]) t = Some (v, b') \<and>
          result_from ?live (pb_depth t - 1) t v b'" if "inside t"
        using items_okD [OF again that, of "items @ [j]"] that d w x2 by (simp add: t algebra_simps)
      have eq: "array_items hooks (Suc n) items b = do {
            comma \<leftarrow> is_at t CHR '','';
            if comma then array_items hooks n (items @ [j]) t
            else do { close \<leftarrow> is_at t CHR '']'';
              if close then close_container (J_arr (items @ [j])) t else Some (None, delete_items (items @ [j]) t) } }"
        unfolding array_items_eq Let_def t using 1 x(1) [unfolded s] Some
        by (simp add: cJSON_New_Item_def del: One_nat_def)
      have "json_within (CJSON_NESTING_LIMIT - (pb_depth t - 1)) (J_arr (items @ [j]))"
        using w x2 d by (simp add: t)
      then show ?thesis unfolding eq
        using after_child [OF st(2) _ _ _ _ ag, of "J_arr (items @ [j])" "delete_items (items @ [j]) t"] st x2
        by (simp add: t reads_on_def)
    qed
  qed
qed

text \<open>A name and the colon after it, from the bracket or comma at \<open>b\<close>, with the block of the item allocated.\<close>

lemma member_name:
  assumes "inside b" and "can_access_at_index b 1" and s: "s = skipped (advance 1 b)"
  obtains x b2 where "parse_string hooks s = Some (x, b2)" "reads_on b b2" "pb_offset b < pb_offset b2"
    "pb_depth b2 = pb_depth b" "pb_live b2 = pb_live b + (if x = None then 0 else 1)"
    "\<And>k. x = Some k \<Longrightarrow> NUL \<notin> set k"
proof -
  note sp = next_props [OF assms(1) s]
  have "pb_offset (advance 1 b) < length (pb_content (advance 1 b))"
    using assms(2) by (simp add: can_access_at_index_def)
  then have "inside s" using skip_offset(3) [of "advance 1 b"] s by simp
  then obtain x b2 where x: "parse_string hooks s = Some (x, b2)" "reads_on s b2" "pb_depth b2 = pb_depth s"
      "pb_live b2 = pb_live s + (if x = None then 0 else 1)" "\<And>k. x = Some k \<Longrightarrow> NUL \<notin> set k"
    using parse_string_total by blast
  show ?thesis by (rule that [OF x(1)]) (use x sp in \<open>auto simp: reads_on_def\<close>)
qed

lemma members_step:
  assumes v: "value_ok hooks n" and again: "members_ok hooks n"
  shows "members_ok hooks (Suc n)"
  unfolding members_ok_def
proof (intro allI impI, elim conjE)
  fix b kvs
  assume i: "inside b" and f: "3 * left b \<le> Suc n + 1" and d: "0 < pb_depth b" "pb_depth b \<le> CJSON_NESTING_LIMIT"
    and w: "list_all (\<lambda>(k, v). NUL \<notin> set k \<and> json_within (CJSON_NESTING_LIMIT - pb_depth b) v) kvs"
  let ?live = "pb_live b - sum_list (map (\<lambda>(k, v). 1 + cJSON_Delete v) kvs)"
  let ?R = "\<lambda>v b'. object_members hooks (Suc n) kvs b = Some (v, b') \<and> result_from ?live (pb_depth b - 1) b v b'"
  show "\<exists>v b'. ?R v b'"
  proof (cases hooks SIZEOF_CJSON b rule: allocate_cases)
    case (2 b1)
    then show ?thesis using i by (simp add: object_members_eq cJSON_New_Item_def result_from_def reads_on_def)
  next
    case (1 b1)
    have i1: "inside b1" using i 1 by simp
    have bb: "reads_on b b1" using i 1 by (simp add: reads_on_def)
    show ?thesis
    proof (cases "can_access_at_index b1 1")
      case False
      then show ?thesis using 1 bb
        by (simp add: object_members_eq cJSON_New_Item_def result_from_def reads_on_def del: One_nat_def)
    next
      case True
      define s where s: "s = skipped (advance 1 b1)"
      obtain x b2 where x: "parse_string hooks s = Some (x, b2)" "reads_on b1 b2" "pb_offset b1 < pb_offset b2"
          "pb_depth b2 = pb_depth b1" "pb_live b2 = pb_live b1 + (if x = None then 0 else 1)"
          "\<And>k. x = Some k \<Longrightarrow> NUL \<notin> set k"
        using member_name [OF i1 True s] by blast
      define c where c: "c = skipped b2"
      have bc: "reads_on b b2" "reads_on b c" "pb_offset b < pb_offset c"
        using x(2,3) bb 1 skip_reads_on [of b2] by (auto simp: reads_on_def c)
      show ?thesis
      proof (cases "\<exists>k. x = Some k \<and> is_at c CHR '':'' = Some True")
        case no: False
        then have "object_members hooks (Suc n) kvs b = Some (None, delete_members kvs (deallocate 1 b2)) \<and> x = None \<or>
            object_members hooks (Suc n) kvs b = Some (None, delete_members kvs (deallocate 2 c)) \<and> x \<noteq> None"
          using 1 True x(1) by (cases x) (auto simp: object_members_eq cJSON_New_Item_def s c is_at_total simp del: One_nat_def)
        then show ?thesis using bc x(5) 1 by (auto simp: result_from_def reads_on_def c)
      next
        case yes: True
        then obtain k where k: "x = Some k" "is_at c CHR '':'' = Some True" by blast
        have ic: "inside c" using k(2) by (simp add: is_at_total)
        define e where e: "e = skipped (advance 1 c)"
        note ep = next_props [OF ic e]
        have "3 * left c \<le> n + 2" using bc f by (auto simp: reads_on_def)
        from value_okD [OF v ep(6) ep(7) [OF this]]
        obtain y b3 where y: "parse_value hooks n e = Some (y, b3)" "result_from (pb_live e) (pb_depth e) e y b3" by blast
        have r3: "reads_on b b3" using y(2) ep(4) bc(2) by (auto simp: result_from_def reads_on_def)
        have live: "pb_live e = pb_live b + 2" "pb_depth e = pb_depth b" using ep x(4,5) k 1 by (simp_all add: c)
        show ?thesis
        proof (cases y)
          case None
          then have "object_members hooks (Suc n) kvs b = Some (None, delete_members kvs (deallocate 2 b3))"
            unfolding object_members_eq Let_def using 1 True x(1) [unfolded s] k [unfolded c] y(1) [unfolded e c]
            by (simp add: cJSON_New_Item_def del: One_nat_def)
          then show ?thesis using None y(2) r3 live by (simp add: result_from_def reads_on_def)
        next
          case (Some j)
          define t where t: "t = skipped b3"
          have y2: "pb_depth t = pb_depth b" "json_within (CJSON_NESTING_LIMIT - pb_depth b) j"
              "pb_live t = pb_live b + cJSON_Delete j + 1" "reads_on c b3"
            using y(2) Some ep live by (auto simp: result_from_def t intro: reads_on_trans)
          have bt: "reads_on b t" "reads_on c t" using y2(4) r3 skip_reads_on [of b3] by (auto simp: reads_on_def t)
          have "3 * left t \<le> n + 1" using bt(2) bc f by (auto simp: reads_on_def)
          then have ag: "\<exists>v b'. object_members hooks n (kvs @ [(k, j)]) t = Some (v, b') \<and>
              result_from ?live (pb_depth t - 1) t v b'" if "inside t"
            using members_okD [OF again that, of "kvs @ [(k, j)]"] d w y2 x(6) k by (simp add: algebra_simps)
          have eq: "object_members hooks (Suc n) kvs b = do {
              comma \<leftarrow> is_at t CHR '','';
              if comma then object_members hooks n (kvs @ [(k, j)]) t
              else do { close \<leftarrow> is_at t CHR ''}'';
                if close then close_container (J_obj (kvs @ [(k, j)])) t
                else Some (None, delete_members (kvs @ [(k, j)]) t) } }"
            unfolding object_members_eq Let_def t using 1 True x(1) [unfolded s] k [unfolded c] y(1) [unfolded e c] Some
            by (simp add: cJSON_New_Item_def del: One_nat_def)
          have "json_within (CJSON_NESTING_LIMIT - (pb_depth t - 1)) (J_obj (kvs @ [(k, j)]))"
            using w y2 d x(6) k by simp
          then show ?thesis unfolding eq
            using after_child [OF bt(1) _ _ _ _ ag, of "J_obj (kvs @ [(k, j)])" "delete_members (kvs @ [(k, j)]) t"] bt y2
            by (simp add: reads_on_def)
        qed
      qed
    qed
  qed
qed

theorem parser_ok:
  "value_ok hooks n \<and> container_ok (parse_array hooks) n \<and> items_ok hooks n \<and>
   container_ok (parse_object hooks) n \<and> members_ok hooks n"
proof (induction n)
  case 0
  show ?case by (auto simp: value_ok_def container_ok_def items_ok_def members_ok_def)
next
  case (Suc n)
  then show ?case using value_step array_step items_step object_step members_step by blast
qed

section \<open>Entry points\<close>

lemma parse_opts_cases:
  obtains r where "cJSON_ParseWithLengthOpts hooks input req = Some r" "ps_item r = None" "ps_live r = 0"
    "ps_error r = Some (ps_end r)" "input \<noteq> [] \<Longrightarrow> ps_end r < length input" "input = [] \<Longrightarrow> ps_end r = 0"
  | r j where "cJSON_ParseWithLengthOpts hooks input req = Some r" "ps_item r = Some j" "ps_live r = cJSON_Delete j"
    "ps_error r = None" "ps_end r \<le> length input" "json_within CJSON_NESTING_LIMIT j"
proof (cases "input = []")
  case True
  show ?thesis by (rule that(1) [of "\<lparr>ps_item = None, ps_end = 0, ps_error = Some 0, ps_live = 0\<rparr>"])
      (use True in \<open>simp_all add: cJSON_ParseWithLengthOpts_def\<close>)
next
  case ne: False
  let ?b = "\<lparr>pb_content = input, pb_offset = 0, pb_depth = 0, pb_calls = 0, pb_live = 0\<rparr>"
  have failed: "ps_item (parse_failed x) = None" "ps_error (parse_failed x) = Some (ps_end (parse_failed x))"
    "ps_live (parse_failed x) = pb_live x" "pb_content x = input \<Longrightarrow> ps_end (parse_failed x) < length input" for x
    using ne by (simp_all add: parse_failed_def Let_def)
  show ?thesis
  proof (cases hooks SIZEOF_CJSON ?b rule: allocate_cases)
    case (2 b1)
    then show ?thesis using that(1) [of "parse_failed b1"] failed [of b1] ne
      by (simp add: cJSON_ParseWithLengthOpts_def cJSON_New_Item_def)
  next
    case (1 b1)
    define m where m: "m = (if can_access_at_index b1 4 \<and> literal_here b1 [CHR 0xEF, CHR 0xBB, CHR 0xBF] then advance 3 b1 else b1)"
    have bom: "skip_utf8_bom b1 = Some (Some m)" using 1 by (simp add: m)
    have mp: "pb_content m = input" "pb_depth m = 0" "pb_live m = 1" "pb_offset m \<le> length input"
      using 1 ne by (auto simp: m can_access_at_index_def)
    define s where s: "s = skipped m"
    have sp: "pb_content s = input" "pb_depth s = 0" "pb_live s = 1" "pb_offset s \<le> length input"
      using mp skip_offset [of m] by (simp_all add: s)
    obtain v b2 where v: "parse_value hooks (3 * length input + 1) s = Some (v, b2)"
        "result_from (pb_live s) (pb_depth s) s v b2"
      by (rule value_okD [of hooks "3 * length input + 1" s]) (use parser_ok sp in auto)
    have b2: "pb_content b2 = input" "pb_offset b2 \<le> length input" "pb_live b2 = 1 + held v"
      "\<And>j. v = Some j \<Longrightarrow> json_within CJSON_NESTING_LIMIT j"
      using v(2) sp by (simp_all add: result_from_def reads_on_def)
    define t where t: "t = skipped b2"
    have tp: "pb_content t = input" "pb_offset t \<le> length input" "pb_live t = pb_live b2"
      using b2 skip_offset [of b2] by (simp_all add: t)
    have eq: "cJSON_ParseWithLengthOpts hooks input req =
      (case v of
         None \<Rightarrow> Some (parse_failed (deallocate 1 b2))
       | Some j \<Rightarrow>
           if req \<and> is_at t NUL \<noteq> Some True then Some (parse_failed (delete_items [j] t))
           else Some \<lparr>ps_item = Some j, ps_end = pb_offset (if req then t else b2), ps_error = None, ps_live = pb_live b2\<rparr>)"
      using ne 1 bom v(1) tp unfolding s t
      by (simp add: cJSON_ParseWithLengthOpts_def cJSON_New_Item_def is_at_total Let_def split: option.split)
    show ?thesis
    proof (cases v)
      case None
      then show ?thesis using that(1) [of "parse_failed (deallocate 1 b2)"] eq failed [of "deallocate 1 b2"] b2 ne by simp
    next
      case (Some j)
      show ?thesis
      proof (cases "req \<and> is_at t NUL \<noteq> Some True")
        case True
        then show ?thesis
          using that(1) [of "parse_failed (delete_items [j] t)"] eq failed [of "delete_items [j] t"] Some b2 tp ne by simp
      next
        case False
        show ?thesis by (rule that(2)) (use eq Some False b2 tp in auto)
      qed
    qed
  qed
qed


text \<open>
  C25: the parser leaks nothing. When it returns no item every block it allocated is released; otherwise
  the blocks still allocated are those that deleting the item releases.
\<close>

theorem json_parse_balanced:
  "map_option ps_live (cJSON_ParseWithLengthOpts hooks input req) =
   map_option (\<lambda>r. case ps_item r of None \<Rightarrow> 0 | Some j \<Rightarrow> cJSON_Delete j) (cJSON_ParseWithLengthOpts hooks input req)"
  by (rule parse_opts_cases [of hooks input req]) auto

lemma parse_within: "cJSON_Parse hooks input = Some j \<Longrightarrow> json_within CJSON_NESTING_LIMIT j"
  by (rule parse_opts_cases [of hooks "c_string input @ [NUL]" False])
    (simp_all add: cJSON_Parse_def cJSON_ParseWithOpts_def)

end
