(* ===== verification/Json_Print_Sound.thy ===== *)
theory Json_Print_Sound
  imports Json_Number Json_Parse_Sound
begin

text \<open>
  The printer against a specification: \<open>json_text\<close> is the text of a tree, written down without buffers. The
  printer returns exactly that text or gives up for lack of memory; it touches no byte outside its block and
  reads none it has not written.
\<close>

section \<open>The text of a tree\<close>

definition quoted_text :: "string \<Rightarrow> string" where
  "quoted_text s = QUOTE # concat (map escaped s) @ [QUOTE]"

definition pretty :: "bool \<Rightarrow> string \<Rightarrow> string" where
  "pretty fmt cs = (if fmt then cs else [])"

fun json_text :: "bool \<Rightarrow> nat \<Rightarrow> json \<Rightarrow> string"
  and elements_text :: "bool \<Rightarrow> nat \<Rightarrow> json list \<Rightarrow> string"
  and members_text :: "bool \<Rightarrow> nat \<Rightarrow> (string \<times> json) list \<Rightarrow> string"
where
  "json_text fmt d J_null = ''null''"
| "json_text fmt d (J_bool b) = (if b then ''true'' else ''false'')"
| "json_text fmt d (J_num n) = (case number_text n of Some t \<Rightarrow> t | None \<Rightarrow> [])"
| "json_text fmt d (J_str s) = quoted_text s"
| "json_text fmt d (J_arr xs) = ''['' @ elements_text fmt (d + 1) xs @ '']''"
| "json_text fmt d (J_obj kvs) =
     ''{'' @ pretty fmt [NEWLINE] @ members_text fmt (d + 1) kvs @ pretty fmt (replicate d TAB) @ ''}''"
| "elements_text fmt d [] = []"
| "elements_text fmt d (x # xs) =
     json_text fmt d x @ (if xs = [] then [] else '','' @ pretty fmt '' '') @ elements_text fmt d xs"
| "members_text fmt d [] = []"
| "members_text fmt d ((k, v) # kvs) =
     pretty fmt (replicate d TAB) @ quoted_text k @ '':'' @ pretty fmt [TAB] @ json_text fmt d v @
     (if kvs = [] then [] else '','') @ pretty fmt [NEWLINE] @ members_text fmt d kvs"

text \<open>The trees a C program can hold: C strings and doubles.\<close>

fun json_wf :: "json \<Rightarrow> bool" where
  "json_wf (J_num d) \<longleftrightarrow> double_wf d"
| "json_wf (J_str s) \<longleftrightarrow> NUL \<notin> set s"
| "json_wf (J_arr xs) \<longleftrightarrow> list_all json_wf xs"
| "json_wf (J_obj kvs) \<longleftrightarrow> list_all (\<lambda>(k, v). NUL \<notin> set k \<and> json_wf v) kvs"
| "json_wf j \<longleftrightarrow> True"

section \<open>The buffer\<close>

text \<open>The block holds \<open>s\<close> up to the offset and \<open>u\<close> behind it; the block's size.\<close>

definition filled :: "printbuffer \<Rightarrow> string \<Rightarrow> string \<Rightarrow> bool" where
  "filled p s u \<longleftrightarrow> pt_offset p = length s \<and>
     (\<exists>block. pt_block p = Some block \<and> take (length s + length u) block = map Some (s @ u))"

definition room :: "printbuffer \<Rightarrow> nat" where
  "room p = (case pt_block p of None \<Rightarrow> 0 | Some block \<Rightarrow> length block)"

definition holds :: "printbuffer \<Rightarrow> string \<Rightarrow> bool" where
  "holds p s \<longleftrightarrow> filled p s [] \<and> length s < room p"

definition ended :: "printbuffer \<Rightarrow> string \<Rightarrow> bool" where
  "ended p s \<longleftrightarrow> (\<exists>a b. s = a @ b \<and> filled p a (b @ [NUL]) \<and> length s < room p)"

definition flags :: "printbuffer \<Rightarrow> bool \<times> bool \<times> bool \<times> nat" where
  "flags p = (pt_noalloc p, pt_format p, pt_realloc p, pt_depth p)"

lemma filled_prefix:
  assumes "filled p s (u @ v)"
  shows "filled p s u"
proof -
  obtain block where b: "pt_offset p = length s" "pt_block p = Some block"
      "take (length s + length (u @ v)) block = map Some (s @ u @ v)" using assms by (auto simp: filled_def)
  have "take (length s + length u) block = take (length s + length u) (take (length s + length (u @ v)) block)" by simp
  also have "\<dots> = map Some (s @ u)" unfolding b(3) by simp
  finally show ?thesis using b by (simp add: filled_def)
qed

lemma filled_length:
  assumes "filled p s u"
  shows "length s + length u \<le> room p"
proof -
  obtain block where b: "pt_block p = Some block" "take (length s + length u) block = map Some (s @ u)"
    using assms by (auto simp: filled_def)
  from b(2) have "length (take (length s + length u) block) = length (map Some (s @ u))" by (rule arg_cong)
  then show ?thesis using b(1) by (simp add: room_def)
qed

lemma poke_filled:
  assumes "filled p s u" and "length s + length u + length cs \<le> room p" and "i = length u"
  obtains p' where "poke i cs p = Some p'" "filled p' s (u @ cs)" "room p' = room p" "flags p' = flags p"
proof -
  obtain block where b: "pt_offset p = length s" "pt_block p = Some block"
      "take (length s + length u) block = map Some (s @ u)" using assms(1) by (auto simp: filled_def)
  let ?block = "take (length s + length u) block @ map Some cs @ drop (length s + length u + length cs) block"
  have l: "length s + length u + length cs \<le> length block" using assms(2) b by (simp add: room_def)
  then have "poke i cs p = Some (p\<lparr>pt_block := Some ?block\<rparr>)" using b assms(3) by (simp add: poke_def write_block_def)
  moreover have "take (length s + length (u @ cs)) ?block = map Some (s @ u @ cs)" using b(3) by simp
  moreover have "length ?block = length block" using l by simp
  ultimately show ?thesis using that b by (simp add: filled_def room_def flags_def)
qed

lemma move_on_filled: "filled p s (u @ v) \<Longrightarrow> filled (move_on (length u) p) (s @ u) v"
  by (auto simp: filled_def move_on_def add.assoc)

lemma move_on_simps [simp]: "room (move_on n p) = room p" "flags (move_on n p) = flags p"
  "pt_format (move_on n p) = pt_format p" "pt_depth (move_on n p) = pt_depth p"
  "pt_noalloc (move_on n p) = pt_noalloc p" "pt_realloc (move_on n p) = pt_realloc p"
  by (simp_all add: room_def flags_def move_on_def)

lemma strlen_terminated: "NUL \<notin> set b \<Longrightarrow> strlen_block (map Some b @ Some NUL # r) = Some (length b)"
  by (induction b) auto

lemma update_offset_ended:
  assumes "ended p s" and "NUL \<notin> set s"
  obtains p' where "update_offset p = Some p'" "holds p' s" "flags p' = flags p"
proof -
  obtain a b where ab: "s = a @ b" "filled p a (b @ [NUL])" "length s < room p" using assms(1) by (auto simp: ended_def)
  then obtain block where b: "pt_offset p = length a" "pt_block p = Some block"
      "take (length a + length (b @ [NUL])) block = map Some (a @ b @ [NUL])" by (auto simp: filled_def)
  have "block = map Some (a @ b @ [NUL]) @ drop (length a + length (b @ [NUL])) block"
    by (subst b(3) [symmetric]) simp
  then have "drop (length a) block = map Some (b @ [NUL]) @ drop (length a + length (b @ [NUL])) block"
    by (metis append.assoc append_eq_conv_conj length_map map_append)
  then have "update_offset p = Some (move_on (length b) p)"
    using b(1,2) assms(2) ab(1) by (simp add: update_offset_def strlen_terminated move_on_def)
  moreover have "filled (move_on (length b) p) s []"
    using move_on_filled [OF filled_prefix, of p a b "[]"] ab(1,2) filled_prefix [of p a b "[NUL]"] by simp
  ultimately show ?thesis using that ab(3) by (simp add: holds_def)
qed

section \<open>A calculus of printing steps\<close>

text \<open>
  The step neither faults nor leaves the flags and the depth changed, it establishes \<open>Q\<close> when it succeeds, and
  it does succeed if memory can be had for \<open>n\<close> bytes.
\<close>

definition can_grow :: "alloc_hooks \<Rightarrow> bool \<Rightarrow> nat \<Rightarrow> bool" where
  "can_grow hooks noalloc n \<longleftrightarrow> (\<forall>i m. hooks i m) \<and> \<not> noalloc \<and> n \<le> INT_MAX"

definition prints ::
  "alloc_hooks \<Rightarrow> nat \<Rightarrow> printbuffer \<Rightarrow> bool printing \<Rightarrow> (printbuffer \<Rightarrow> bool) \<Rightarrow> bool" where
  "prints hooks n p m Q \<longleftrightarrow>
     (\<exists>ok p'. m = Some (ok, p') \<and> (ok \<longrightarrow> flags p' = flags p \<and> Q p') \<and> (can_grow hooks (pt_noalloc p) n \<longrightarrow> ok))"

lemma prints_and_then:
  assumes "prints hooks n p m Q" and "\<And>p'. flags p' = flags p \<Longrightarrow> Q p' \<Longrightarrow> prints hooks n p' (f p') R"
  shows "prints hooks n p (and_then m f) R"
proof -
  obtain ok p' where m: "m = Some (ok, p')" "ok \<longrightarrow> flags p' = flags p \<and> Q p'"
      "can_grow hooks (pt_noalloc p) n \<longrightarrow> ok" using assms(1) by (auto simp: prints_def)
  show ?thesis
  proof (cases ok)
    case True
    then show ?thesis using m assms(2) [of p'] by (auto simp: prints_def and_then_def flags_def)
  next
    case False
    then show ?thesis using m by (auto simp: prints_def and_then_def)
  qed
qed

lemma prints_update:
  assumes "ended p s" and "NUL \<notin> set s" and "\<And>p'. flags p' = flags p \<Longrightarrow> holds p' s \<Longrightarrow> prints hooks n p' (f p') R"
  shows "prints hooks n p (do { p \<leftarrow> update_offset p; f p }) R"
proof -
  obtain p' where p': "update_offset p = Some p'" "holds p' s" "flags p' = flags p"
    using update_offset_ended [OF assms(1,2)] .
  then show ?thesis using assms(3) [of p'] by (auto simp: prints_def flags_def)
qed

lemma prints_done: "Q p \<Longrightarrow> prints hooks n p (Some (True, p)) Q"
  by (auto simp: prints_def)

lemma prints_fail: "\<not> can_grow hooks (pt_noalloc p) n \<Longrightarrow> prints hooks n p (Some (False, p')) Q"
  by (auto simp: prints_def)

lemma grown_size_ge: "grown_size n = Some m \<Longrightarrow> n \<le> m"
  by (auto simp: grown_size_def split: if_splits)

lemma grow_filled:
  assumes "take (length s) block = map Some s" and "length s < length block" and "length block \<le> m"
  shows "\<exists>block'. grow r (length s) m block = Some block' \<and> take (length s) block' = map Some s \<and> length block' = m"
proof -
  have "take (length s) (take (Suc (length s)) block) = map Some s" using assms(1) by (simp add: min_def)
  then show ?thesis using assms by (auto simp: grow_def new_block_def min_def)
qed

lemma prints_ensure:
  assumes "holds p s" and "length s + needed + 1 \<le> n"
  shows "prints hooks n p (ensure hooks needed p) (\<lambda>p'. holds p' s \<and> length s + needed < room p')"
proof -
  obtain block where b: "pt_offset p = length s" "pt_block p = Some block" "take (length s) block = map Some s"
      "length s < length block" using assms(1) by (auto simp: holds_def filled_def room_def)
  show ?thesis
  proof (cases "needed > INT_MAX")
    case True
    then show ?thesis using b assms(2) by (auto simp: prints_def ensure_def can_grow_def)
  next
    case small: False
    show ?thesis
    proof (cases "needed + length s + 1 \<le> length block")
      case True
      then show ?thesis using b small assms(1) by (auto simp: prints_def ensure_def room_def holds_def)
    next
      case False
      show ?thesis
      proof (cases "pt_noalloc p \<or> grown_size (needed + length s + 1) = None")
        case True
        have "INT_MAX < needed + length s + 1" if "grown_size (needed + length s + 1) = None"
          using that by (auto simp: grown_size_def split: if_splits)
        then have "\<not> can_grow hooks (pt_noalloc p) n" using True assms(2) by (auto simp: can_grow_def)
        moreover have "ensure hooks needed p = Some (False, p)"
          using True b small False by (auto simp: ensure_def not_less_eq_eq)
        ultimately show ?thesis by (simp add: prints_fail)
      next
        case g: False
        then obtain m where m: "grown_size (needed + length s + 1) = Some m" by auto
        have mb: "length block \<le> m" "needed + length s + 1 \<le> m" using grown_size_ge [OF m] False by simp_all
        obtain block' where b': "grow (pt_realloc p) (length s) m block = Some block'" "take (length s) block' = map Some s"
            "length block' = m" using grow_filled [OF b(3,4) mb(1)] by blast
        let ?p = "p\<lparr>pt_block := Some block', pt_calls := pt_calls p + 1\<rparr>"
        have e: "ensure hooks needed p = (if hooks (pt_calls p) m then Some (True, ?p)
            else Some (False, p\<lparr>pt_block := None, pt_calls := pt_calls p + 1\<rparr>))"
          using b small False g m b'(1) by (auto simp: ensure_def)
        have "holds ?p s \<and> length s + needed < room ?p" "flags ?p = flags p"
          using b' mb b(1) by (simp_all add: holds_def filled_def room_def flags_def)
        then show ?thesis unfolding e by (auto simp: prints_def can_grow_def)
      qed
    qed
  qed
qed

lemma prints_emit:
  assumes "holds p s" and "length cs \<le> needed" and "length s + needed + 1 \<le> n"
  shows "prints hooks n p (emit hooks needed cs p) (\<lambda>p'. filled p' s cs \<and> length s + needed < room p')"
proof -
  have "emit hooks needed cs p = and_then (ensure hooks needed p) (\<lambda>p. do { p \<leftarrow> poke 0 cs p; Some (True, p) })"
    by (simp add: emit_def and_then_def)
  moreover have "prints hooks n p' (do { p \<leftarrow> poke 0 cs p'; Some (True, p) }) (\<lambda>p'. filled p' s cs \<and> length s + needed < room p')"
    if p': "holds p' s \<and> length s + needed < room p'" for p'
  proof -
    obtain q where "poke 0 cs p' = Some q" "filled q s cs" "room q = room p'" "flags q = flags p'"
      using poke_filled [of p' s "[]" cs 0] p' assms(2) by (auto simp: holds_def)
    then show ?thesis using p' by (auto simp: prints_def)
  qed
  ultimately show ?thesis using prints_and_then [OF prints_ensure [OF assms(1,3)]] by simp
qed

lemma holds_move: "filled p s cs \<Longrightarrow> length s + length cs < room p \<Longrightarrow> holds (move_on (length cs) p) (s @ cs)"
  using move_on_filled [of p s cs "[]"] by (simp add: holds_def)

lemma ended_intro: "filled p s (cs @ [NUL]) \<Longrightarrow> ended p (s @ cs)"
  using filled_length [of p s "cs @ [NUL]"] by (auto simp: ended_def)

text \<open>The two uses of a written piece: to go on behind it, or to stop at its terminator.\<close>

lemma prints_piece:
  assumes "holds p s" and "length cs + length ds \<le> needed" and "length s + needed + 1 \<le> n"
    and "\<And>p'. flags p' = flags p \<Longrightarrow> holds (move_on (length cs) p') (s @ cs) \<Longrightarrow> prints hooks n p' (f p') R"
  shows "prints hooks n p (and_then (emit hooks needed (cs @ ds) p) f) R"
proof (rule prints_and_then [OF prints_emit [OF assms(1) _ assms(3)]])
  show "length (cs @ ds) \<le> needed" using assms(2) by simp
  fix p' assume p': "flags p' = flags p" "filled p' s (cs @ ds) \<and> length s + needed < room p'"
  have "holds (move_on (length cs) p') (s @ cs)"
    by (rule holds_move) (use p' filled_prefix [of p' s cs ds] assms(2) in auto)
  then show "prints hooks n p' (f p') R" using assms(4) p'(1) by blast
qed

lemma prints_last:
  assumes "holds p s" and "length cs + 1 \<le> needed" and "length s + needed + 1 \<le> n"
  shows "prints hooks n p (emit hooks needed (cs @ [NUL]) p) (\<lambda>p'. ended p' (s @ cs))"
proof -
  have "prints hooks n p (emit hooks needed (cs @ [NUL]) p)
      (\<lambda>p'. filled p' s (cs @ [NUL]) \<and> length s + needed < room p')"
    by (rule prints_emit) (use assms in auto)
  then show ?thesis by (auto simp: prints_def intro: ended_intro)
qed

section \<open>Strings and numbers\<close>

lemma short_escape_code: "short_escape c = Some x \<Longrightarrow> c = QUOTE \<or> c = BACKSLASH \<or> code_of c < 32"
  by (auto simp: short_escape_def split: if_splits)

lemma short_escape_x: "short_escape c = Some x \<Longrightarrow> x \<noteq> NUL"
  by (auto simp: short_escape_def split: if_splits)

lemma escaped_simps:
  "short_escape c = Some x \<Longrightarrow> escaped c = [BACKSLASH, x]"
  "short_escape c = None \<Longrightarrow> code_of c \<ge> 32 \<Longrightarrow> escaped c = [c]"
  "short_escape c = None \<Longrightarrow> code_of c < 32 \<Longrightarrow>
     escaped c = [BACKSLASH, CHR ''u'', CHR ''0'', CHR ''0'', hex_small (code_of c div 16), hex_small (code_of c)]"
proof -
  show "escaped c = [BACKSLASH, x]" if "short_escape c = Some x"
    using short_escape_code [OF that] that by (auto simp: escaped_def)
  have "c \<noteq> QUOTE \<and> c \<noteq> BACKSLASH" if "short_escape c = None"
    using that by (auto simp: short_escape_def split: if_splits)
  then show "escaped c = [c]" if "short_escape c = None" "code_of c \<ge> 32"
    using that by (simp add: escaped_def)
  show "escaped c = [BACKSLASH, CHR ''u'', CHR ''0'', CHR ''0'', hex_small (code_of c div 16), hex_small (code_of c)]"
    if "short_escape c = None" "code_of c < 32"
    using that by (simp add: escaped_def)
qed

lemma escaped_cases:
  obtains x where "short_escape c = Some x" "escaped c = [BACKSLASH, x]"
  | "short_escape c = None" "code_of c \<ge> 32" "escaped c = [c]"
  | "short_escape c = None" "code_of c < 32"
    "escaped c = [BACKSLASH, CHR ''u'', CHR ''0'', CHR ''0'', hex_small (code_of c div 16), hex_small (code_of c)]"
  using escaped_simps by (cases "short_escape c"; cases "code_of c < 32") (metis not_le)+

lemma escaped_length:
  "length (escaped c) = 1 + (if short_escape c \<noteq> None then 1 else if code_of c < 32 then 5 else 0)"
  by (rule escaped_cases [of c]) simp_all

lemma escaped_text_length: "length (concat (map escaped s)) = length s + escape_characters s"
  by (induction s) (simp_all add: escape_characters_def escaped_length)

lemma no_escapes: "escape_characters s = 0 \<Longrightarrow> concat (map escaped s) = s"
  by (induction s) (auto simp: escape_characters_def escaped_simps split: if_splits)

lemma print_escapes_filled:
  assumes "filled p s u" and "length s + length u + length (concat (map escaped cs)) + 1 \<le> room p" and "i = length u"
  obtains p' where "print_escapes cs i p = Some p'" "filled p' s (u @ concat (map escaped cs))"
    "room p' = room p" "flags p' = flags p"
  using assms
proof (induction cs arbitrary: p u i thesis)
  case Nil
  then show ?case by simp
next
  case (Cons c cs)
  have "length (escape_writes c) \<le> length (escaped c) + 1" by (simp add: escape_writes_def)
  then obtain q where q: "poke i (escape_writes c) p = Some q" "filled q s (u @ escape_writes c)"
      "room q = room p" "flags q = flags p"
    using poke_filled [OF Cons.prems(2) _ Cons.prems(4), of "escape_writes c"] Cons.prems(3) by auto
  have "\<exists>v. escape_writes c = escaped c @ v" by (simp add: escape_writes_def)
  then have f: "filled q s (u @ escaped c)" using q(2) by (metis append.assoc filled_prefix)
  show ?case
  proof (rule Cons.IH [OF _ f])
    show "length s + length (u @ escaped c) + length (concat (map escaped cs)) + 1 \<le> room q"
      using Cons.prems(3) q(3) by simp
    show "i + length (escaped c) = length (u @ escaped c)" using Cons.prems(4) by simp
    fix p' assume "print_escapes cs (i + length (escaped c)) q = Some p'"
      "filled p' s ((u @ escaped c) @ concat (map escaped cs))" "room p' = room q" "flags p' = flags q"
    then show thesis using Cons.prems(1) [of p'] q by simp
  qed
qed

lemma prints_string:
  assumes "holds p s" and "length s + length (quoted_text t) + 2 \<le> n"
  shows "prints hooks n p (print_string_ptr hooks (Some t) p) (\<lambda>p'. ended p' (s @ quoted_text t))"
proof -
  let ?e = "concat (map escaped t)" and ?l = "length t + escape_characters t"
  let ?rest = "\<lambda>p. do {
      p \<leftarrow> poke 0 [QUOTE] p;
      p \<leftarrow> (if escape_characters t = 0 then poke 1 t p else print_escapes t 1 p);
      p \<leftarrow> poke (?l + 1) [QUOTE, NUL] p;
      Some (True, p) }"
  have el: "length ?e = ?l" by (rule escaped_text_length)
  have "prints hooks n p' (?rest p') (\<lambda>p'. ended p' (s @ quoted_text t))"
    if p': "holds p' s \<and> length s + (?l + 3) < room p'" for p'
  proof -
    obtain a where a: "poke 0 [QUOTE] p' = Some a" "filled a s [QUOTE]" "room a = room p'" "flags a = flags p'"
      using poke_filled [of p' s "[]" "[QUOTE]" 0] p' by (auto simp: holds_def)
    obtain b where b: "(if escape_characters t = 0 then poke 1 t a else print_escapes t 1 a) = Some b"
        "filled b s ([QUOTE] @ ?e)" "room b = room p'" "flags b = flags p'"
    proof (cases "escape_characters t = 0")
      case True
      then show ?thesis using that poke_filled [OF a(2), of t 1] no_escapes [OF True] a p' by auto
    next
      case False
      show ?thesis by (rule print_escapes_filled [OF a(2), of t 1]) (use that False a p' el in auto)
    qed
    obtain c where c: "poke (?l + 1) [QUOTE, NUL] b = Some c" "filled c s (([QUOTE] @ ?e) @ [QUOTE, NUL])"
        "flags c = flags b"
      using poke_filled [OF b(2), of "[QUOTE, NUL]" "?l + 1"] b(3) p' el by auto
    have "ended c (s @ quoted_text t)" using ended_intro [of c s "quoted_text t"] c(2) by (simp add: quoted_text_def)
    then show ?thesis using a b c by (auto simp: prints_def simp del: One_nat_def)
  qed
  moreover have "length s + (?l + 3) + 1 \<le> n" using assms(2) el by (simp add: quoted_text_def)
  ultimately show ?thesis
    using prints_and_then [OF prints_ensure [OF assms(1)], of "?l + 3" n hooks ?rest]
    by (simp add: print_string_ptr_def Let_def del: One_nat_def)
qed

lemma ended_move: "filled p s (cs @ [NUL]) \<Longrightarrow> ended (move_on (length cs) p) (s @ cs)"
  using move_on_filled [of p s cs "[NUL]"] filled_length [of p s "cs @ [NUL]"]
  by (auto simp: ended_def intro: exI [of _ "s @ cs"])

lemma prints_number:
  assumes "holds p s" and "number_text d = Some t" and "length s + length t + 2 \<le> n"
  shows "prints hooks n p (print_number hooks d p) (\<lambda>p'. ended p' (s @ t))"
proof -
  have "prints hooks n p (emit hooks (length t + 1) (t @ [NUL]) p)
      (\<lambda>p'. filled p' s (t @ [NUL]) \<and> length s + (length t + 1) < room p')"
    by (rule prints_emit) (use assms in auto)
  then have "prints hooks n p (and_then (emit hooks (length t + 1) (t @ [NUL]) p) (\<lambda>p. Some (True, move_on (length t) p)))
      (\<lambda>p'. ended p' (s @ t))"
    by (rule prints_and_then) (auto simp: prints_def intro: ended_move)
  then show ?thesis by (simp add: print_number_def assms(2))
qed

section \<open>No terminator inside the text\<close>

lemma char_no_nul: "isdigit c \<Longrightarrow> c \<noteq> NUL"
  by (auto simp: isdigit_def)

lemma dec_chars_no_nul: "NUL \<notin> set (dec_chars n)"
  using dec_chars_digits(1) [of n] by (auto simp: list_all_iff dest: char_no_nul)

lemma with_point_no_nul: "NUL \<notin> set w \<Longrightarrow> NUL \<notin> set f \<Longrightarrow> NUL \<notin> set (with_point w f)"
  by (auto simp: with_point_def strip_zeros_def Let_def dest: set_dropWhileD)

lemma fmt_g_no_nul: "NUL \<notin> set (fmt_g prec d)"
proof -
  have "NUL \<notin> set (with_point (take k (dec_chars n)) (drop k (dec_chars n)))" for k n
    using dec_chars_no_nul by (intro with_point_no_nul) (auto dest: in_set_takeD in_set_dropD)
  moreover have "NUL \<notin> set (with_point ''0'' (replicate k CHR ''0'' @ dec_chars n))" for k n
    using dec_chars_no_nul by (intro with_point_no_nul) auto
  moreover have "NUL \<notin> set (fmt_exponent x)" for x using dec_chars_no_nul by (auto simp: fmt_exponent_def Let_def)
  ultimately show ?thesis by (auto simp: fmt_g_def Let_def split: prod.splits simp del: One_nat_def)
qed

lemma number_text_no_nul: "number_text d = Some t \<Longrightarrow> NUL \<notin> set t"
  using fmt_g_no_nul dec_chars_no_nul
  by (auto simp: number_text_def sprintf26_def fmt_dec_def split: if_splits option.splits bind_splits)

lemma hex_small_props: "hex_digit (hex_small n) = Some (n mod 16)" "hex_small n \<noteq> NUL"
proof -
  have "\<forall>i\<in>{..<16}. hex_digit (''0123456789abcdef'' ! i) = Some i \<and> ''0123456789abcdef'' ! i \<noteq> NUL"
    by (simp add: lessThan_nat_numeral lessThan_Suc hex_digit_def)
  then show "hex_digit (hex_small n) = Some (n mod 16)" "hex_small n \<noteq> NUL" by (simp_all add: hex_small_def)
qed

lemma nul_hex: "(NUL = hex_small n) = False"
  using hex_small_props(2) [of n] by metis

lemma escaped_no_nul:
  assumes "NUL \<in> set (escaped c)"
  shows "c = NUL"
proof (cases rule: escaped_cases [of c])
  case (1 x)
  then show ?thesis using assms short_escape_x [OF 1(1)] by auto
next
  case 2
  show ?thesis using assms unfolding 2(3) by simp
next
  case 3
  show ?thesis using assms unfolding 3(3) by (simp add: nul_hex)
qed

lemma quoted_no_nul: "NUL \<notin> set s \<Longrightarrow> NUL \<notin> set (quoted_text s)"
  by (auto simp: quoted_text_def dest: escaped_no_nul)

lemma pretty_no_nul: "NUL \<notin> set cs \<Longrightarrow> NUL \<notin> set (pretty fmt cs)"
  by (simp add: pretty_def)

lemma json_text_no_nul:
  "json_wf j \<Longrightarrow> NUL \<notin> set (json_text fmt d j)"
  "list_all json_wf xs \<Longrightarrow> NUL \<notin> set (elements_text fmt d xs)"
  "list_all (\<lambda>(k, v). NUL \<notin> set k \<and> json_wf v) kvs \<Longrightarrow> NUL \<notin> set (members_text fmt d kvs)"
  by (induction fmt d j and fmt d xs and fmt d kvs rule: json_text_elements_text_members_text.induct)
    (auto simp: quoted_no_nul NEWLINE_def TAB_def pretty_def split: option.split dest: number_text_no_nul [OF sym])

section \<open>Values\<close>

lemma json_text_total: "json_wf (J_num d) \<Longrightarrow> number_text d = Some (json_text fmt k (J_num d))"
  by (rule number_text_total [of d]) simp_all

lemma flags_eqD:
  "flags p = flags q \<Longrightarrow> pt_format p = pt_format q \<and> pt_depth p = pt_depth q \<and> pt_noalloc p = pt_noalloc q"
  by (simp add: flags_def)

lemma fmt_only_pretty: "fmt_only p cs = pretty (pt_format p) cs"
  by (simp add: fmt_only_def pretty_def)

lemma depth_irrelevant [simp]:
  "holds (p\<lparr>pt_depth := k\<rparr>) s \<longleftrightarrow> holds p s" "ended (p\<lparr>pt_depth := k\<rparr>) s \<longleftrightarrow> ended p s"
  "move_on n (p\<lparr>pt_depth := k\<rparr>) = (move_on n p)\<lparr>pt_depth := k\<rparr>"
  by (simp_all add: holds_def ended_def filled_def room_def move_on_def)

lemma prints_flags: "flags p = flags q \<Longrightarrow> prints hooks n p m Q \<longleftrightarrow> prints hooks n q m Q"
  by (simp add: prints_def flags_def)

text \<open>Between the brackets the depth is one more.\<close>

lemma prints_nested:
  assumes "prints hooks n (deeper p) m Q"
    and "\<And>p'. flags p' = flags (deeper p) \<Longrightarrow> Q p' \<Longrightarrow>
      prints hooks n p' (f p') (\<lambda>p''. R (shallower p''))"
  shows "prints hooks n p (and_then m (\<lambda>p. and_then (f p) (\<lambda>p. Some (True, shallower p)))) R"
proof -
  obtain ok p1 where m: "m = Some (ok, p1)" "ok \<longrightarrow> flags p1 = flags (deeper p) \<and> Q p1"
      "can_grow hooks (pt_noalloc p) n \<longrightarrow> ok" using assms(1) by (auto simp: prints_def)
  show ?thesis
  proof (cases ok)
    case True
    then have f1: "flags p1 = flags (deeper p)" and q: "Q p1" using m by auto
    obtain ok2 p2 where f: "f p1 = Some (ok2, p2)" "ok2 \<longrightarrow> flags p2 = flags p1 \<and> R (shallower p2)"
        "can_grow hooks (pt_noalloc p1) n \<longrightarrow> ok2" using assms(2) [OF f1 q] by (auto simp: prints_def)
    have e: "and_then m (\<lambda>p. and_then (f p) (\<lambda>p. Some (True, shallower p))) = Some (ok2, if ok2 then shallower p2 else p2)"
      using m(1) True f(1) by (cases ok2) (simp_all add: and_then_def)
    have "flags (shallower p2) = flags p" if "flags p2 = flags p1" using that f1 by (simp add: flags_def)
    moreover have "pt_noalloc p1 = pt_noalloc p" using f1 by (simp add: flags_def)
    ultimately show ?thesis unfolding e prints_def using f(2,3) by auto
  next
    case False
    then show ?thesis using m by (auto simp: prints_def and_then_def)
  qed
qed

definition value_prints :: "alloc_hooks \<Rightarrow> bool \<Rightarrow> nat \<Rightarrow> json \<Rightarrow> bool" where
  "value_prints hooks fmt d j \<longleftrightarrow> (\<forall>p s n. holds p s \<and> NUL \<notin> set s \<and> pt_format p = fmt \<and> pt_depth p = d \<and>
     length s + length (json_text fmt d j) + 5 \<le> n \<longrightarrow>
     prints hooks n p (print_value hooks j p) (\<lambda>p'. ended p' (s @ json_text fmt d j)))"

definition elements_print :: "alloc_hooks \<Rightarrow> bool \<Rightarrow> nat \<Rightarrow> json list \<Rightarrow> bool" where
  "elements_print hooks fmt d xs \<longleftrightarrow> (\<forall>p s n. holds p s \<and> NUL \<notin> set s \<and> pt_format p = fmt \<and> pt_depth p = d \<and>
     length s + length (elements_text fmt d xs) + 5 \<le> n \<longrightarrow>
     prints hooks n p (print_elements hooks xs p) (\<lambda>p'. holds p' (s @ elements_text fmt d xs)))"

definition members_print :: "alloc_hooks \<Rightarrow> bool \<Rightarrow> nat \<Rightarrow> (string \<times> json) list \<Rightarrow> bool" where
  "members_print hooks fmt d kvs \<longleftrightarrow> (\<forall>p s n. holds p s \<and> NUL \<notin> set s \<and> pt_format p = fmt \<and> pt_depth p = d \<and>
     length s + length (members_text fmt d kvs) + 5 \<le> n \<longrightarrow>
     prints hooks n p (print_members hooks kvs p) (\<lambda>p'. holds p' (s @ members_text fmt d kvs)))"

lemma array_prints:
  assumes "elements_print hooks fmt (d + 1) xs"
  shows "value_prints hooks fmt d (J_arr xs)"
  unfolding value_prints_def
proof (intro allI impI, elim conjE)
  fix p s n assume p: "holds p s" "NUL \<notin> set s" "pt_format p = fmt" "pt_depth p = d"
    and n: "length s + length (json_text fmt d (J_arr xs)) + 5 \<le> n"
  let ?t = "elements_text fmt (d + 1) xs"
  show "prints hooks n p (print_value hooks (J_arr xs) p) (\<lambda>p'. ended p' (s @ json_text fmt d (J_arr xs)))"
    unfolding print_value.simps
  proof (rule prints_piece [where cs = "''[''" and ds = "[]", simplified append_Nil2])
    fix p1 assume p1: "flags p1 = flags p" "holds (move_on (length ''['') p1) (s @ ''['')"
    show "prints hooks n p1 (and_then (print_elements hooks xs (deeper (move_on 1 p1)))
        (\<lambda>p. and_then (emit hooks 2 ('']'' @ [NUL]) p) (\<lambda>p. Some (True, shallower p))))
        (\<lambda>p'. ended p' (s @ json_text fmt d (J_arr xs)))"
    proof (rule prints_nested [where Q = "\<lambda>p'. holds p' (s @ ''['' @ ?t)"])
      have "prints hooks n (deeper (move_on 1 p1)) (print_elements hooks xs (deeper (move_on 1 p1)))
          (\<lambda>p'. holds p' ((s @ ''['') @ ?t))"
        using assms [unfolded elements_print_def, rule_format, of "deeper (move_on 1 p1)" "s @ ''[''" n]
          p1 p n flags_eqD [OF p1(1)] by simp
      then show "prints hooks n (deeper p1) (print_elements hooks xs (deeper (move_on 1 p1)))
          (\<lambda>p'. holds p' (s @ ''['' @ ?t))"
        using prints_flags [of "deeper (move_on 1 p1)" "deeper p1"] by (simp add: flags_def)
    next
      fix p2 assume p2: "holds p2 (s @ ''['' @ ?t)"
      have "prints hooks n p2 (emit hooks 2 ('']'' @ [NUL]) p2) (\<lambda>p'. ended p' ((s @ ''['' @ ?t) @ '']''))"
        by (rule prints_last [OF p2]) (use n in auto)
      then show "prints hooks n p2 (emit hooks 2 ('']'' @ [NUL]) p2)
          (\<lambda>p''. ended (shallower p'') (s @ json_text fmt d (J_arr xs)))" by simp
    qed
  qed (use p n in auto)
qed

lemma object_prints:
  assumes "members_print hooks fmt (d + 1) kvs"
  shows "value_prints hooks fmt d (J_obj kvs)"
  unfolding value_prints_def
proof (intro allI impI, elim conjE)
  fix p s n assume p: "holds p s" "NUL \<notin> set s" "pt_format p = fmt" "pt_depth p = d"
    and n: "length s + length (json_text fmt d (J_obj kvs)) + 5 \<le> n"
  let ?t = "members_text fmt (d + 1) kvs" and ?o = "CHR ''{'' # pretty fmt [NEWLINE]"
  let ?c = "pretty fmt (replicate d TAB) @ ''}''"
  have o: "CHR ''{'' # fmt_only p [NEWLINE] = ?o" using p(3) by (simp add: fmt_only_pretty)
  show "prints hooks n p (print_value hooks (J_obj kvs) p) (\<lambda>p'. ended p' (s @ json_text fmt d (J_obj kvs)))"
    unfolding print_value.simps Let_def o
  proof (rule prints_piece [where cs = ?o and ds = "[]", simplified append_Nil2])
    show "length ?o + length [] \<le> length ?o + 1" by simp
    show "length s + (length ?o + 1) + 1 \<le> n" using n by simp
    fix p1 assume p1: "flags p1 = flags p" "holds (move_on (length ?o) p1) (s @ ?o)"
    let ?d = "deeper (move_on (length ?o) p1)"
    show "prints hooks n p1 (and_then (print_members hooks kvs (move_on (length ?o) (deeper p1)))
        (\<lambda>p. and_then (emit hooks (if pt_format p then pt_depth p + 1 else 2)
            (fmt_only p (replicate (pt_depth p - 1) TAB) @ ''}'' @ [NUL]) p) (\<lambda>p. Some (True, shallower p))))
        (\<lambda>p'. ended p' (s @ json_text fmt d (J_obj kvs)))"
    proof (rule prints_nested [where Q = "\<lambda>p'. holds p' ((s @ ?o) @ ?t)"])
      have "NUL \<notin> set (s @ ?o)" using p(2) by (simp add: pretty_def NEWLINE_def)
      then have "prints hooks n ?d (print_members hooks kvs ?d) (\<lambda>p'. holds p' ((s @ ?o) @ ?t))"
        using assms [unfolded members_print_def, rule_format, of ?d "s @ ?o" n] p1(2) p n flags_eqD [OF p1(1)]
        by simp
      then show "prints hooks n (deeper p1) (print_members hooks kvs (move_on (length ?o) (deeper p1)))
          (\<lambda>p'. holds p' ((s @ ?o) @ ?t))"
        using prints_flags [of ?d "deeper p1"] by (simp add: flags_def)
    next
      fix p2 assume f2: "flags p2 = flags (deeper p1)" and p2: "holds p2 ((s @ ?o) @ ?t)"
      have fd: "pt_format p2 = fmt" "pt_depth p2 = d + 1" using f2 p1(1) p by (simp_all add: flags_def)
      have "prints hooks n p2 (emit hooks (if fmt then d + 2 else 2) (?c @ [NUL]) p2)
          (\<lambda>p'. ended p' (((s @ ?o) @ ?t) @ ?c))"
        by (rule prints_last [OF p2]) (use n in \<open>auto simp: pretty_def\<close>)
      then show "prints hooks n p2 (emit hooks (if pt_format p2 then pt_depth p2 + 1 else 2)
            (fmt_only p2 (replicate (pt_depth p2 - 1) TAB) @ ''}'' @ [NUL]) p2)
          (\<lambda>p''. ended (shallower p'') (s @ json_text fmt d (J_obj kvs)))"
        by (cases fmt) (simp_all add: fd fmt_only_pretty)
    qed
  qed (rule p(1))
qed

lemma elements_print_Cons:
  assumes x: "value_prints hooks fmt d x" "NUL \<notin> set (json_text fmt d x)" and xs: "elements_print hooks fmt d xs"
  shows "elements_print hooks fmt d (x # xs)"
  unfolding elements_print_def
proof (intro allI impI, elim conjE)
  fix p s n assume p: "holds p s" "NUL \<notin> set s" "pt_format p = fmt" "pt_depth p = d"
    and n: "length s + length (elements_text fmt d (x # xs)) + 5 \<le> n"
  let ?t = "json_text fmt d x" and ?sep = "CHR '','' # pretty fmt '' ''"
  have "prints hooks n p (print_value hooks x p) (\<lambda>p'. ended p' (s @ ?t))"
    using x(1) [unfolded value_prints_def, rule_format, of p s n] p n by simp
  then show "prints hooks n p (print_elements hooks (x # xs) p) (\<lambda>p'. holds p' (s @ elements_text fmt d (x # xs)))"
    unfolding print_elements.simps
  proof (rule prints_and_then)
    fix p1 assume p1: "flags p1 = flags p" "ended p1 (s @ ?t)"
    show "prints hooks n p1 (do {
        p \<leftarrow> update_offset p1;
        if xs = [] then print_elements hooks xs p
        else let separator = CHR '','' # fmt_only p '' ''
             in and_then (emit hooks (length separator + 1) (separator @ [NUL]) p) (\<lambda>p.
                  print_elements hooks xs (move_on (length separator) p)) })
        (\<lambda>p'. holds p' (s @ elements_text fmt d (x # xs)))"
    proof (rule prints_update [OF p1(2)])
      show "NUL \<notin> set (s @ ?t)" using p(2) x(2) by simp
      fix p2 assume p2: "flags p2 = flags p1" "holds p2 (s @ ?t)"
      have fd: "pt_format p2 = fmt" "pt_depth p2 = d" using p2(1) p1(1) p flags_eqD by metis+
      show "prints hooks n p2 (if xs = [] then print_elements hooks xs p2
          else let separator = CHR '','' # fmt_only p2 '' ''
               in and_then (emit hooks (length separator + 1) (separator @ [NUL]) p2) (\<lambda>p.
                    print_elements hooks xs (move_on (length separator) p)))
          (\<lambda>p'. holds p' (s @ elements_text fmt d (x # xs)))"
      proof (cases "xs = []")
        case True
        then show ?thesis using p2(2) by (simp add: print_elements.simps prints_done)
      next
        case False
        have "prints hooks n p2 (and_then (emit hooks (length ?sep + 1) (?sep @ [NUL]) p2) (\<lambda>p.
            print_elements hooks xs (move_on (length ?sep) p))) (\<lambda>p'. holds p' (s @ elements_text fmt d (x # xs)))"
        proof (rule prints_piece [OF p2(2)])
          show "length ?sep + length [NUL] \<le> length ?sep + 1" by simp
          show "length (s @ ?t) + (length ?sep + 1) + 1 \<le> n" using n False by simp
          fix p3 assume p3: "flags p3 = flags p2" "holds (move_on (length ?sep) p3) ((s @ ?t) @ ?sep)"
          have "NUL \<notin> set ((s @ ?t) @ ?sep)" using p(2) x(2) by (simp add: pretty_def)
          then have "prints hooks n (move_on (length ?sep) p3) (print_elements hooks xs (move_on (length ?sep) p3))
              (\<lambda>p'. holds p' (((s @ ?t) @ ?sep) @ elements_text fmt d xs))"
            using xs [unfolded elements_print_def, rule_format, of "move_on (length ?sep) p3" "(s @ ?t) @ ?sep" n]
              p3(2) fd flags_eqD [OF p3(1)] n False by simp
          then show "prints hooks n p3 (print_elements hooks xs (move_on (length ?sep) p3))
              (\<lambda>p'. holds p' (s @ elements_text fmt d (x # xs)))"
            using prints_flags [of "move_on (length ?sep) p3" p3] False by simp
        qed
        then show ?thesis using False fd by (simp add: fmt_only_pretty Let_def)
      qed
    qed
  qed
qed

text \<open>The text of a member without its indentation, and the steps that print it.\<close>

lemma member_prints:
  assumes v: "value_prints hooks fmt d v" "NUL \<notin> set (json_text fmt d v)" and k: "NUL \<notin> set k"
    and p: "holds p s" "NUL \<notin> set s" "pt_format p = fmt" "pt_depth p = d"
    and n: "length s + length (quoted_text k @ '':'' @ pretty fmt [TAB] @ json_text fmt d v) + 5 \<le> n"
    and rest: "\<And>p'. flags p' = flags p \<Longrightarrow> holds p' (s @ quoted_text k @ '':'' @ pretty fmt [TAB] @ json_text fmt d v) \<Longrightarrow>
      prints hooks n p' (rest p') R"
  shows "prints hooks n p (and_then (print_string_ptr hooks (Some k) p) (\<lambda>p. do {
       p \<leftarrow> update_offset p;
       let colon = CHR '':'' # fmt_only p [TAB]
       in and_then (emit hooks (length colon) colon p) (\<lambda>p.
          and_then (print_value hooks v (move_on (length colon) p)) (\<lambda>p. do { p \<leftarrow> update_offset p; rest p })) })) R"
proof (rule prints_and_then [OF prints_string [OF p(1)]])
  let ?k = "quoted_text k" and ?c = "CHR '':'' # pretty fmt [TAB]" and ?t = "json_text fmt d v"
  show "length s + length ?k + 2 \<le> n" using n by simp
  fix p1 assume p1: "flags p1 = flags p" "ended p1 (s @ ?k)"
  show "prints hooks n p1 (do { p \<leftarrow> update_offset p1;
      let colon = CHR '':'' # fmt_only p [TAB]
      in and_then (emit hooks (length colon) colon p) (\<lambda>p.
         and_then (print_value hooks v (move_on (length colon) p)) (\<lambda>p. do { p \<leftarrow> update_offset p; rest p })) }) R"
  proof (rule prints_update [OF p1(2)])
    show nk: "NUL \<notin> set (s @ ?k)" using p(2) quoted_no_nul [OF k] by simp
    fix p2 assume p2: "flags p2 = flags p1" "holds p2 (s @ ?k)"
    have fd: "pt_format p2 = fmt" "pt_depth p2 = d" using p2(1) p1(1) p flags_eqD by metis+
    have "prints hooks n p2 (and_then (emit hooks (length ?c) (?c @ []) p2) (\<lambda>p.
         and_then (print_value hooks v (move_on (length ?c) p)) (\<lambda>p. do { p \<leftarrow> update_offset p; rest p }))) R"
    proof (rule prints_piece [OF p2(2)])
      show "length ?c + length [] \<le> length ?c" by simp
      show "length (s @ ?k) + length ?c + 1 \<le> n" using n by simp
      fix p3 assume p3: "flags p3 = flags p2" "holds (move_on (length ?c) p3) ((s @ ?k) @ ?c)"
      let ?p = "move_on (length ?c) p3" and ?s = "((s @ ?k) @ ?c) @ ?t"
      have nc: "NUL \<notin> set ((s @ ?k) @ ?c)" using nk by (simp add: pretty_def TAB_def)
      have "prints hooks n ?p (print_value hooks v ?p) (\<lambda>p'. ended p' ?s)"
        using v(1) [unfolded value_prints_def, rule_format, of ?p "(s @ ?k) @ ?c" n] p3(2) fd flags_eqD [OF p3(1)] n nc
        by simp
      then have "prints hooks n ?p (and_then (print_value hooks v ?p) (\<lambda>p. do { p \<leftarrow> update_offset p; rest p })) R"
      proof (rule prints_and_then)
        fix p4 assume p4: "flags p4 = flags ?p" "ended p4 ?s"
        show "prints hooks n p4 (do { p \<leftarrow> update_offset p4; rest p }) R"
          by (rule prints_update [OF p4(2)]) (use rest p4 p3 p2 p1 nc v(2) in simp_all)
      qed
      then show "prints hooks n p3 (and_then (print_value hooks v ?p) (\<lambda>p. do { p \<leftarrow> update_offset p; rest p })) R"
        using prints_flags [of ?p p3] by simp
    qed
    then show "prints hooks n p2 (let colon = CHR '':'' # fmt_only p2 [TAB]
      in and_then (emit hooks (length colon) colon p2) (\<lambda>p.
         and_then (print_value hooks v (move_on (length colon) p)) (\<lambda>p. do { p \<leftarrow> update_offset p; rest p }))) R"
      by (simp add: fmt_only_pretty fd Let_def)
  qed
qed

lemma members_print_Cons:
  assumes v: "value_prints hooks fmt d v" "NUL \<notin> set (json_text fmt d v)" and k: "NUL \<notin> set k"
    and kvs: "members_print hooks fmt d kvs"
  shows "members_print hooks fmt d ((k, v) # kvs)"
  unfolding members_print_def
proof (intro allI impI, elim conjE)
  fix p s n assume p: "holds p s" "NUL \<notin> set s" "pt_format p = fmt" "pt_depth p = d"
    and n: "length s + length (members_text fmt d ((k, v) # kvs)) + 5 \<le> n"
  let ?i = "pretty fmt (replicate d TAB)" and ?m = "quoted_text k @ '':'' @ pretty fmt [TAB] @ json_text fmt d v"
  let ?e = "(if kvs = [] then [] else '','') @ pretty fmt [NEWLINE]"
  show "prints hooks n p (print_members hooks ((k, v) # kvs) p) (\<lambda>p'. holds p' (s @ members_text fmt d ((k, v) # kvs)))"
    unfolding print_members.simps
  proof (rule prints_and_then [where Q = "\<lambda>p'. holds p' (s @ ?i)"])
    show "prints hooks n p (if pt_format p then and_then (emit hooks (pt_depth p) (replicate (pt_depth p) TAB) p)
        (\<lambda>p. Some (True, move_on (pt_depth p) p)) else Some (True, p)) (\<lambda>p'. holds p' (s @ ?i))"
    proof (cases fmt)
      case True
      have "prints hooks n p (and_then (emit hooks d (replicate d TAB @ []) p) (\<lambda>p. Some (True, move_on (pt_depth p) p)))
          (\<lambda>p'. holds p' (s @ ?i))"
      proof (rule prints_piece [OF p(1)])
        show "length (replicate d TAB) + length [] \<le> d" "length s + d + 1 \<le> n" using n True by (simp_all add: pretty_def)
        fix p' assume p': "flags p' = flags p" "holds (move_on (length (replicate d TAB)) p') (s @ replicate d TAB)"
        then show "prints hooks n p' (Some (True, move_on (pt_depth p') p')) (\<lambda>p'. holds p' (s @ ?i))"
          using p(4) flags_eqD [OF p'(1)] True by (auto simp: prints_def pretty_def)
      qed
      then show ?thesis using True p by simp
    qed (use p in \<open>simp add: prints_done pretty_def\<close>)
  next
    fix p1 assume p1: "flags p1 = flags p" "holds p1 (s @ ?i)"
    have fd: "pt_format p1 = fmt" "pt_depth p1 = d" using p1(1) p flags_eqD by metis+
    have ni: "NUL \<notin> set (s @ ?i)" using p(2) by (simp add: pretty_def TAB_def)
    show "prints hooks n p1 (and_then (print_string_ptr hooks (Some k) p1) (\<lambda>p. do {
       p \<leftarrow> update_offset p;
       let colon = CHR '':'' # fmt_only p [TAB]
       in and_then (emit hooks (length colon) colon p) (\<lambda>p.
          and_then (print_value hooks v (move_on (length colon) p)) (\<lambda>p. do {
            p \<leftarrow> update_offset p;
            let ending = (if kvs = [] then [] else '','') @ fmt_only p [NEWLINE]
            in and_then (emit hooks (length ending + 1) (ending @ [NUL]) p) (\<lambda>p.
                 print_members hooks kvs (move_on (length ending) p)) })) }))
      (\<lambda>p'. holds p' (s @ members_text fmt d ((k, v) # kvs)))"
    proof (rule member_prints [OF v k p1(2) ni fd])
      show "length (s @ ?i) + length ?m + 5 \<le> n" using n by simp
      fix p2 assume p2: "flags p2 = flags p1" "holds p2 ((s @ ?i) @ ?m)"
      have fd2: "pt_format p2 = fmt" "pt_depth p2 = d" using fd flags_eqD [OF p2(1)] by simp_all
      have "prints hooks n p2 (and_then (emit hooks (length ?e + 1) (?e @ [NUL]) p2) (\<lambda>p.
            print_members hooks kvs (move_on (length ?e) p)))
          (\<lambda>p'. holds p' (s @ members_text fmt d ((k, v) # kvs)))"
      proof (rule prints_piece [OF p2(2)])
        show "length ?e + length [NUL] \<le> length ?e + 1" by simp
        show "length ((s @ ?i) @ ?m) + (length ?e + 1) + 1 \<le> n" using n by simp
        fix p3 assume p3: "flags p3 = flags p2" "holds (move_on (length ?e) p3) (((s @ ?i) @ ?m) @ ?e)"
        let ?p = "move_on (length ?e) p3" and ?s = "((s @ ?i) @ ?m) @ ?e"
        have "NUL \<notin> set ?s" using ni v(2) quoted_no_nul [OF k] by (simp add: pretty_def TAB_def NEWLINE_def)
        moreover have "length ?s + length (members_text fmt d kvs) + 5 \<le> n" using n by simp
        ultimately have "prints hooks n ?p (print_members hooks kvs ?p) (\<lambda>p'. holds p' (?s @ members_text fmt d kvs))"
          using kvs [unfolded members_print_def, rule_format, of ?p ?s n] p3(2) fd2 flags_eqD [OF p3(1)]
          by (simp only: move_on_simps simp_thms)
        then show "prints hooks n p3 (print_members hooks kvs ?p) (\<lambda>p'. holds p' (s @ members_text fmt d ((k, v) # kvs)))"
          using prints_flags [of ?p p3] by simp
      qed
      then show "prints hooks n p2 (let ending = (if kvs = [] then [] else '','') @ fmt_only p2 [NEWLINE]
            in and_then (emit hooks (length ending + 1) (ending @ [NUL]) p2) (\<lambda>p.
                 print_members hooks kvs (move_on (length ending) p)))
          (\<lambda>p'. holds p' (s @ members_text fmt d ((k, v) # kvs)))" by (simp add: fmt_only_pretty fd2 Let_def)
    qed
  qed
qed

lemma print_sound:
  "json_wf j \<Longrightarrow> value_prints hooks fmt d j"
  "list_all json_wf xs \<Longrightarrow> elements_print hooks fmt d xs"
  "list_all (\<lambda>(k, v). NUL \<notin> set k \<and> json_wf v) kvs \<Longrightarrow> members_print hooks fmt d kvs"
proof (induction fmt d j and fmt d xs and fmt d kvs rule: json_text_elements_text_members_text.induct)
  case (1 fmt d)
  show ?case unfolding value_prints_def print_value.simps json_text.simps by (intro allI impI prints_last) auto
next
  case (2 fmt d b)
  show ?case unfolding value_prints_def print_value.simps json_text.simps
    by (cases b; simp only: if_True if_False; intro allI impI prints_last) auto
next
  case (3 fmt d x)
  then show ?case unfolding value_prints_def print_value.simps
    using prints_number [OF _ json_text_total [OF 3]] by simp
next
  case (4 fmt d s)
  show ?case unfolding value_prints_def print_value.simps json_text.simps using prints_string by simp
next
  case (5 fmt d xs)
  then show ?case using array_prints by simp
next
  case (6 fmt d kvs)
  then show ?case using object_prints by simp
next
  case (7 fmt d)
  show ?case by (simp add: elements_print_def print_elements.simps prints_done)
next
  case (8 fmt d x xs)
  then show ?case by (simp add: elements_print_Cons json_text_no_nul)
next
  case (9 fmt d)
  show ?case by (simp add: members_print_def print_members.simps prints_done)
next
  case (10 fmt d k v kvs)
  then show ?case by (simp add: members_print_Cons json_text_no_nul)
qed

section \<open>Entry points\<close>

lemma print_result:
  assumes "json_wf j"
  shows "print hooks r fmt j \<in> {Some None, Some (Some (json_text fmt 0 j))} \<and>
    ((\<forall>i m. hooks i m) \<and> length (json_text fmt 0 j) + 5 \<le> INT_MAX \<longrightarrow>
       print hooks r fmt j = Some (Some (json_text fmt 0 j)))"
proof (cases "hooks 0 256")
  case False
  then show ?thesis by (auto simp: print_def)
next
  case True
  let ?t = "json_text fmt 0 j"
  let ?p = "\<lparr>pt_block = Some (new_block 256), pt_offset = 0, pt_depth = 0, pt_noalloc = False, pt_format = fmt,
      pt_realloc = r, pt_calls = 1\<rparr>"
  have "holds ?p []" by (simp add: holds_def filled_def room_def new_block_def)
  then have "prints hooks (length ?t + 5) ?p (print_value hooks j ?p) (\<lambda>p'. ended p' ?t)"
    using print_sound(1) [OF assms, of hooks fmt 0, unfolded value_prints_def, rule_format, of ?p "[]" "length ?t + 5"]
    by simp
  then obtain ok p1 where p1: "print_value hooks j ?p = Some (ok, p1)" "ok \<Longrightarrow> ended p1 ?t"
      "can_grow hooks False (length ?t + 5) \<Longrightarrow> ok" by (auto simp: prints_def)
  show ?thesis
  proof (cases ok)
    case False
    then show ?thesis using True p1 by (auto simp: print_def Let_def can_grow_def)
  next
    case ok: True
    obtain p2 where p2: "update_offset p1 = Some p2" "holds p2 ?t" 
      using update_offset_ended [OF p1(2) [OF ok] json_text_no_nul(1) [OF assms]] .
    then obtain block where b: "pt_block p2 = Some block" "pt_offset p2 = length ?t" "take (length ?t) block = map Some ?t"
        "length ?t < length block" by (auto simp: holds_def filled_def room_def)
    have "block_text (length ?t) block = Some ?t" using b(3,4) by (auto simp: block_text_def comp_def)
    then show ?thesis using True p1(1) ok p2(1) b by (auto simp: print_def Let_def)
  qed
qed

text \<open>
  C16: the printer implements the specification \<open>json_text\<close> of the text of a tree. Formatted or not, with or without
  \<^verbatim>\<open>realloc\<close>, whatever allocations fail, it returns that text or none, reads and writes only bytes of
  its blocks that it may, and it returns the text when allocations succeed and the text stays
  below the library's limit on buffers.
\<close>

theorem json_print_refines:
  assumes "json_wf j"
  shows "(print hooks r fmt j = Some None \<or> print hooks r fmt j = Some (Some (json_text fmt 0 j))) \<and>
    ((\<forall>i m. hooks i m) \<and> length (json_text fmt 0 j) + 5 \<le> INT_MAX \<longrightarrow>
       print hooks r fmt j = Some (Some (json_text fmt 0 j)))"
  using print_result [OF assms] by simp

theorem json_print_refines_witness:
  "print (\<lambda>_ _. True) True False (J_obj [(''a'', J_num (double_of_int 1))]) = Some None \<or>
   print (\<lambda>_ _. True) True False (J_obj [(''a'', J_num (double_of_int 1))]) = Some (Some ''{\"a\":1}'')"
proof -
  let ?j = "J_obj [(''a'', J_num (double_of_int 1))]"
  have "quoted_text ''a'' = ''\"a\"''" "fmt_dec 1 = ''1''" by code_simp+
  then have "json_text False 0 ?j = ''{\"a\":1}''" using number_text_int [of 1] by (simp add: pretty_def)
  moreover have "json_wf ?j" by (simp add: double_of_int_wf)
  ultimately show ?thesis using json_print_refines [of ?j "\<lambda>_ _. True" True False] by auto
qed

end
