(* ===== verification/Json_Roundtrip.thy ===== *)
theory Json_Roundtrip
  imports Json_Print_Sound
begin

text \<open>
  Parsing what was printed: the parser reads the text of a tree back as the same tree, formatted or not, for trees
  whose numbers are integers of at most fifteen digits, as all numbers of the program's replies are up
  to counters of that size.
\<close>

section \<open>Positions in the text\<close>

lemma drop_step: "drop p t = c # r \<Longrightarrow> drop (p + 1) t = r"
  by (metis Suc_eq_plus1 drop_Suc list.sel(3) tl_drop)

lemma drop_steps: "drop p t = u @ r \<Longrightarrow> drop (p + length u) t = r"
  by (metis add.commute append_eq_conv_conj drop_drop)

lemma drop_read: "drop p t = c # r \<Longrightarrow> p < length t \<and> t ! p = c \<and> read_at t p = Some c"
proof -
  assume a: "drop p t = c # r"
  then have l: "p < length t" by (metis drop_all linorder_not_le list.distinct(1))
  moreover have "t ! p = c" using a l by (metis Cons_nth_drop_Suc list.inject)
  ultimately show ?thesis by (simp add: read_at_def)
qed

section \<open>Strings\<close>

lemma scan_plain:
  assumes "drop p t = c # r" "c \<noteq> QUOTE" "c \<noteq> BACKSLASH"
  shows "scan_close t p k = scan_close t (p + 1) k"
  using drop_read [OF assms(1)] assms(2,3) by (subst scan_close.simps) simp

lemma scan_escape:
  assumes "drop p t = BACKSLASH # x # r"
  shows "scan_close t p k = scan_close t (p + 2) (k + 1)"
proof -
  have "p + 1 < length t" using drop_read [OF drop_step [OF assms]] by simp
  then show ?thesis using drop_read [OF assms] by (subst scan_close.simps) simp
qed

lemma scan_quote: "drop p t = QUOTE # r \<Longrightarrow> scan_close t p k = Some (Some (p, k))"
  using drop_read [of p t QUOTE r] by (subst scan_close.simps) simp

lemma hex_small_plain: "hex_small n \<noteq> QUOTE" "hex_small n \<noteq> BACKSLASH"
  using hex_small_props(1) [of n] by (auto simp: hex_digit_def)

lemma plain_char: "short_escape c = None \<Longrightarrow> c \<noteq> QUOTE \<and> c \<noteq> BACKSLASH"
  by (auto simp: short_escape_def split: if_splits)

definition escapes :: "string \<Rightarrow> nat" where
  "escapes s = length (filter (\<lambda>c. length (escaped c) > 1) s)"

lemma scan_escaped_char:
  assumes "drop p t = escaped c @ r"
  shows "scan_close t p k = scan_close t (p + length (escaped c)) (k + (if length (escaped c) > 1 then 1 else 0))"
proof (cases rule: escaped_cases [of c])
  case (1 x)
  then show ?thesis using scan_escape [of p t x r k] assms by simp
next
  case 2
  then show ?thesis using scan_plain [of p t c r k] assms plain_char [OF 2(1)] by simp
next
  case 3
  let ?h = "hex_small (code_of c div 16)" and ?l = "hex_small (code_of c)"
  have d: "drop p t = BACKSLASH # CHR ''u'' # CHR ''0'' # CHR ''0'' # ?h # ?l # r" using assms 3(3) by simp
  have d2: "drop (p + 2) t = CHR ''0'' # CHR ''0'' # ?h # ?l # r" using drop_steps [of p t "[BACKSLASH, CHR ''u'']"] d by simp
  note d3 = drop_step [OF d2] note d4 = drop_step [OF d3] note d5 = drop_step [OF d4]
  have "scan_close t p k = scan_close t (p + 2 + 1 + 1 + 1 + 1) (k + 1)"
    using scan_escape [OF d] scan_plain [OF d2] scan_plain [OF d3] scan_plain [OF d4] scan_plain [OF d5]
      hex_small_plain by simp
  then show ?thesis using 3(3) by simp
qed

lemma scan_escaped:
  "drop p t = concat (map escaped s) @ QUOTE # r \<Longrightarrow>
   scan_close t p k = Some (Some (p + length (concat (map escaped s)), k + escapes s))"
proof (induction s arbitrary: p k)
  case Nil
  then show ?case by (simp add: scan_quote escapes_def)
next
  case (Cons c s)
  have d: "drop p t = escaped c @ concat (map escaped s) @ QUOTE # r" using Cons.prems by simp
  show ?case using scan_escaped_char [OF d, of k] Cons.IH [OF drop_steps [OF d]] by (simp add: escapes_def)
qed

lemma simple_of_short: "short_escape c = Some x \<Longrightarrow> simple_escape x = Some c"
  by (auto simp: short_escape_def simple_escape_def split: if_splits)

lemma hex4_of_byte:
  assumes "drop p t = CHR ''0'' # CHR ''0'' # hex_small (c div 16) # hex_small c # r" and "c < 256"
  shows "parse_hex4 t p = Some c"
proof -
  note d1 = assms(1) note d2 = drop_step [OF d1] note d3 = drop_step [OF d2] note d4 = drop_step [OF d3]
  have z: "hex_digit CHR ''0'' = Some 0" by (simp add: hex_digit_def)
  have four: "(4::nat) = Suc (Suc (Suc (Suc 0)))" by simp
  have m: "c div 16 mod 16 = c div 16" using assms(2) by simp
  have "hex4_from t p 0 (Suc (Suc (Suc (Suc 0)))) = Some (push_bit 4 (c div 16) + c mod 16)"
    using drop_read [OF d1] drop_read [OF d2] drop_read [OF d3] drop_read [OF d4]
    by (simp add: z hex_small_props(1) m)
  then show ?thesis unfolding parse_hex4_def four by (simp add: push_bit_nat_def)
qed

lemma byte_literal:
  assumes "drop p t = BACKSLASH # CHR ''u'' # CHR ''0'' # CHR ''0'' # hex_small (code_of c div 16) # hex_small (code_of c) # r"
    and "code_of c < 32" and "p + 6 \<le> e"
  shows "utf16_literal_to_utf8 t p e = Some (6, [c])"
proof -
  have "drop (p + 2) t = CHR ''0'' # CHR ''0'' # hex_small (code_of c div 16) # hex_small (code_of c) # r"
    using drop_steps [of p t "[BACKSLASH, CHR ''u'']"] assms(1) by simp
  from hex4_of_byte [OF this] have h: "parse_hex4 t (p + 2) = Some (code_of c)" using assms(2) by simp
  have "code_of c AND mask 7 = code_of c" using assms(2) by (simp flip: take_bit_eq_mask add: take_bit_nat_eq_self)
  then have "code_of c AND 0x7F = code_of c" by (simp add: mask_eq_exp_minus_1)
  moreover have "finish_literal 6 (code_of c) = (6, [char_of (code_of c AND 0x7F)])"
    using assms(2) by (simp add: finish_literal_def utf8_encode_def utf8_bytes_def)
  moreover have "\<not> e - p < 6" using assms(3) by simp
  ultimately show ?thesis using h assms(2) by (simp add: utf16_literal_to_utf8_def)
qed

lemma unescape_char:
  assumes "drop p t = escaped c @ r" and "p + length (escaped c) \<le> e" and "length out < cap"
  shows "unescape t p e cap out = unescape t (p + length (escaped c)) e cap (out @ [c])"
proof (cases rule: escaped_cases [of c])
  case (1 x)
  have "drop p t = BACKSLASH # x # r" using assms(1) 1(2) by simp
  from drop_read [OF this] drop_read [OF drop_step [OF this]] show ?thesis
    using 1 assms(2,3) simple_of_short [OF 1(1)] by (subst unescape.simps) (simp add: put_def)
next
  case 2
  have "drop p t = c # r" using assms(1) 2(3) by simp
  from drop_read [OF this] show ?thesis
    using 2 assms(2,3) plain_char [OF 2(1)] by (subst unescape.simps) (simp add: put_def)
next
  case 3
  have d: "drop p t = BACKSLASH # CHR ''u'' # CHR ''0'' # CHR ''0'' # hex_small (code_of c div 16) # hex_small (code_of c) # r"
    using assms(1) 3(3) by simp
  have l: "length (escaped c) = 6" using 3(3) by simp
  have "simple_escape CHR ''u'' = None" by (simp add: simple_escape_def)
  then show ?thesis
    using drop_read [OF d] drop_read [OF drop_step [OF d]] byte_literal [OF d 3(2), of e] assms(2,3)
    unfolding l by (subst unescape.simps) (simp add: put_def)
qed

lemma unescape_escaped:
  "drop p t = concat (map escaped s) @ r \<Longrightarrow> e = p + length (concat (map escaped s)) \<Longrightarrow>
   length out + length s \<le> cap \<Longrightarrow> unescape t p e cap out = Some (Inr (out @ s))"
proof (induction s arbitrary: p out)
  case Nil
  then show ?case by (subst unescape.simps) simp
next
  case (Cons c s)
  have d: "drop p t = escaped c @ concat (map escaped s) @ r" using Cons.prems by simp
  show ?case using unescape_char [OF d, of e out cap] Cons.IH [OF drop_steps [OF d], of "out @ [c]"] Cons.prems by simp
qed

lemma escapes_bound: "length s + escapes s \<le> length (concat (map escaped s))"
proof (induction s)
  case (Cons c s)
  have "1 + (if length (escaped c) > 1 then 1 else 0) \<le> length (escaped c)" by (rule escaped_cases [of c]) simp_all
  then show ?case using Cons by (simp add: escapes_def)
qed (simp add: escapes_def)

text \<open>The buffer stands before \<open>u\<close>; it moved on and kept its depth.\<close>

definition stands_at :: "parse_buffer \<Rightarrow> string \<Rightarrow> bool" where
  "stands_at b u \<longleftrightarrow> drop (pb_offset b) (pb_content b) = u"

lemma c_string_terminated: "NUL \<notin> set s \<Longrightarrow> c_string (s @ NUL # r) = s"
  by (induction s) (auto simp: c_string_def)

lemma parse_string_quoted:
  assumes "stands_at b (quoted_text s @ r)" and "NUL \<notin> set s" and "\<And>i m. hooks i m"
  obtains b' where "parse_string hooks b = Some (Some s, b')" "stands_at b' r" "pb_content b' = pb_content b"
    "pb_depth b' = pb_depth b" "pb_offset b < pb_offset b'"
proof -
  let ?t = "pb_content b" and ?o = "pb_offset b" and ?e = "concat (map escaped s)"
  have d: "drop ?o ?t = QUOTE # ?e @ QUOTE # r" using assms(1) by (simp add: stands_at_def quoted_text_def)
  note d1 = drop_step [OF d]
  have q: "buffer_at b 0 = Some QUOTE" using drop_read [OF d] by (simp add: buffer_at_def)
  define e where "e = ?o + 1 + length ?e"
  have sc: "scan_close ?t (?o + 1) 0 = Some (Some (e, escapes s))" using scan_escaped [OF d1, of 0] by (simp add: e_def)
  define n where "n = e - ?o - escapes s"
  have n: "length s + 1 \<le> n" using escapes_bound [of s] by (simp add: n_def e_def)
  obtain a where a: "allocate hooks (n + 1) b = (True, a)" "pb_content a = ?t" "pb_offset a = ?o" "pb_depth a = pb_depth b"
    using assms(3) by (simp add: allocate_def)
  have un: "unescape ?t (?o + 1) e (n + 1) [] = Some (Inr s)"
    using unescape_escaped [OF d1 e_def, of "[]" "n + 1"] n by simp
  have "put (n + 1) s [NUL] = Some (s @ [NUL])" using n by (simp add: put_def)
  moreover have "c_string (s @ [NUL]) = s" using assms(2) by (rule c_string_terminated)
  ultimately have "parse_string hooks b = Some (Some s, a\<lparr>pb_offset := e + 1\<rparr>)"
    using a un unfolding parse_string_def q sc by (simp add: Let_def n_def [symmetric] del: One_nat_def diff_diff_left)
  moreover have "drop (e + 1) ?t = r" using drop_step [OF drop_steps [OF d1]] by (simp add: e_def)
  ultimately show ?thesis using that a by (simp add: stands_at_def e_def)
qed

section \<open>Moves over text\<close>

definition whitespace :: "string \<Rightarrow> bool" where
  "whitespace ws \<longleftrightarrow> list_all (\<lambda>c. code_of c \<le> 32) ws"

lemma stands_left: "stands_at b u \<Longrightarrow> left b = length u"
  by (auto simp: stands_at_def)

lemma stands_inside: "stands_at b (x # u) \<Longrightarrow> inside b \<and> pb_content b ! pb_offset b = x"
  using drop_read [of "pb_offset b" "pb_content b" x u] by (simp add: stands_at_def)

lemma stands_advance: "stands_at b (x # u) \<Longrightarrow> stands_at (advance 1 b) u"
  using drop_step [of "pb_offset b" "pb_content b" x u] by (simp add: stands_at_def)

lemma stands_depth [simp]: "stands_at (b\<lparr>pb_depth := k\<rparr>) u \<longleftrightarrow> stands_at b u"
  by (simp add: stands_at_def)

lemma stands_is_at: "stands_at b (x # u) \<Longrightarrow> is_at b c = Some (x = c)"
  using stands_inside [of b x u] by (simp add: is_at_total)

lemma blank_end_text:
  "drop i t = ws @ c # r \<Longrightarrow> whitespace ws \<Longrightarrow> code_of c > 32 \<Longrightarrow> blank_end t i = i + length ws"
  by (auto simp: blank_end_def whitespace_def list_all_iff takeWhile_append2)

lemma stands_skip:
  assumes "stands_at b (ws @ c # r)" and "whitespace ws" and "code_of c > 32"
  shows "stands_at (skipped b) (c # r)"
proof -
  let ?t = "pb_content b" and ?o = "pb_offset b"
  have d: "drop ?o ?t = ws @ c # r" using assms(1) by (simp add: stands_at_def)
  have d2: "drop (?o + length ws) ?t = c # r" using drop_steps [OF d] .
  have "?o + length ws < length ?t" using drop_read [OF d2] by simp
  then show ?thesis using blank_end_text [OF d assms(2,3)] d2
    by (simp add: stands_at_def skipped_def can_access_at_index_def)
qed

lemma stands_close:
  assumes "stands_at b (x # u)"
  obtains b' where "close_container j b = Some (Some j, b')" "stands_at b' u" "pb_content b' = pb_content b"
    "pb_depth b' = pb_depth b - 1"
  using that [of "advance 1 (b\<lparr>pb_depth := pb_depth b - 1\<rparr>)"] stands_advance [of "b\<lparr>pb_depth := pb_depth b - 1\<rparr>" x u] assms
  by (simp add: close_container_def)

section \<open>Numbers\<close>

lemma copy_number_text:
  "copy_number b i n = Some (takeWhile number_char (take n (drop (pb_offset b + i) (pb_content b))))"
proof (induction n arbitrary: i)
  case (Suc n)
  show ?case
  proof (cases "drop (pb_offset b + i) (pb_content b)")
    case Nil
    then show ?thesis by (simp add: can_access_at_index_def)
  next
    case (Cons c r)
    have "drop (pb_offset b + (i + 1)) (pb_content b) = r" using drop_step [OF Cons] by (simp add: add.assoc)
    then show ?thesis using Suc [of "i + 1"] Cons drop_read [OF Cons]
      by (simp add: can_access_at_index_def buffer_at_def)
  qed
qed simp

lemma fmt_dec_number_chars: "list_all number_char (fmt_dec i)"
  using dec_chars_digits(1) by (auto simp: fmt_dec_def list_all_iff number_char_def)

lemma parse_number_text:
  assumes "stands_at b (fmt_dec i @ c # r)" and "\<not> number_char c" and "\<bar>i\<bar> < 10 ^ 15"
  obtains b' where "parse_number b = Some (Some (J_num (double_of_int i)), b')" "stands_at b' (c # r)"
    "pb_content b' = pb_content b" "pb_depth b' = pb_depth b"
proof -
  have "nat \<bar>i\<bar> < 10 ^ 15" using assms(3) by (simp add: nat_less_iff)
  then have len: "length (fmt_dec i) \<le> 62"
    using dec_chars_length [of 15 "nat \<bar>i\<bar>"] by (auto simp: fmt_dec_def abs_if split: if_splits)
  then obtain m where "63 - length (fmt_dec i) = Suc m" by (cases "63 - length (fmt_dec i)") auto
  then have "takeWhile number_char (take 63 (fmt_dec i @ c # r)) = fmt_dec i"
    using fmt_dec_number_chars [of i] assms(2) by (simp add: takeWhile_append2 list_all_iff)
  then have "copy_number b 0 63 = Some (fmt_dec i)"
    using assms(1) by (simp add: copy_number_text stands_at_def)
  then have "parse_number b = Some (Some (J_num (double_of_int i)), advance (length (fmt_dec i)) b)"
    by (simp add: parse_number_def strtod_fmt_dec)
  moreover have "stands_at (advance (length (fmt_dec i)) b) (c # r)"
    using drop_steps [of "pb_offset b" "pb_content b" "fmt_dec i" "c # r"] assms(1) by (simp add: stands_at_def)
  ultimately show ?thesis using that by simp
qed

section \<open>Values\<close>

text \<open>Integers of at most fifteen digits.\<close>

fun int_json :: "json \<Rightarrow> bool" where
  "int_json (J_num d) \<longleftrightarrow> d = double_of_int (d_trunc d) \<and> \<bar>d_trunc d\<bar> < 10 ^ 15"
| "int_json (J_arr xs) \<longleftrightarrow> list_all int_json xs"
| "int_json (J_obj kvs) \<longleftrightarrow> list_all (\<lambda>(k, v). int_json v) kvs"
| "int_json j \<longleftrightarrow> True"

lemma int_json_text: "int_json (J_num d) \<Longrightarrow> json_text fmt k (J_num d) = fmt_dec (d_trunc d)"
  using number_text_int [of "d_trunc d"] by simp

lemma fmt_dec_head: "\<exists>x u. fmt_dec i = x # u \<and> (x = CHR ''-'' \<or> isdigit x)"
  using dec_chars_digits [of "nat i"] by (cases "dec_chars (nat i)") (auto simp: fmt_dec_def)

lemma json_text_head:
  assumes "int_json j"
  obtains x u where "json_text fmt d j = x # u" "code_of x > 32" "x \<noteq> CHR '']''" "x \<noteq> CHR 0xEF"
proof (cases j)
  case (J_num n)
  obtain x u where x: "fmt_dec (d_trunc n) = x # u" "x = CHR ''-'' \<or> isdigit x" using fmt_dec_head by blast
  show ?thesis by (rule that [of x u]) (use x int_json_text [of n fmt d] assms J_num in \<open>auto simp: isdigit_def\<close>)
next
  case (J_bool t)
  then show ?thesis using that by (cases t) auto
qed (use that in \<open>auto simp: quoted_text_def\<close>)

text \<open>The members without the indentation of the first.\<close>

definition members_body :: "bool \<Rightarrow> nat \<Rightarrow> (string \<times> json) list \<Rightarrow> string" where
  "members_body fmt d kvs = drop (length (pretty fmt (replicate d TAB))) (members_text fmt d kvs)"

lemma members_body_Cons:
  "members_text fmt d ((k, v) # kvs) = pretty fmt (replicate d TAB) @ members_body fmt d ((k, v) # kvs)"
  "members_body fmt d ((k, v) # kvs) = quoted_text k @ CHR '':'' # pretty fmt [TAB] @ json_text fmt d v @
     (if kvs = [] then [] else '','') @ pretty fmt [NEWLINE] @ members_text fmt d kvs"
  by (simp_all add: members_body_def)

definition value_reads :: "alloc_hooks \<Rightarrow> bool \<Rightarrow> nat \<Rightarrow> json \<Rightarrow> bool" where
  "value_reads hooks fmt d j \<longleftrightarrow> (\<forall>b c r n.
     stands_at b (json_text fmt d j @ c # r) \<and> \<not> number_char c \<and> json_within (CJSON_NESTING_LIMIT - pb_depth b) j \<and>
     3 * left b + 1 \<le> n \<longrightarrow>
     (\<exists>b'. parse_value hooks n b = Some (Some j, b') \<and> stands_at b' (c # r) \<and> pb_content b' = pb_content b \<and>
        pb_depth b' = pb_depth b))"

definition items_read :: "alloc_hooks \<Rightarrow> bool \<Rightarrow> nat \<Rightarrow> json list \<Rightarrow> bool" where
  "items_read hooks fmt d xs \<longleftrightarrow> (\<forall>b x ws items r n.
     xs \<noteq> [] \<and> stands_at b (x # ws @ elements_text fmt d xs @ CHR '']'' # r) \<and> whitespace ws \<and>
     list_all (json_within (CJSON_NESTING_LIMIT - pb_depth b)) xs \<and> 3 * left b \<le> n + 1 \<longrightarrow>
     (\<exists>b'. array_items hooks n items b = Some (Some (J_arr (items @ xs)), b') \<and> stands_at b' r \<and>
        pb_content b' = pb_content b \<and> pb_depth b' = pb_depth b - 1))"

definition members_read :: "alloc_hooks \<Rightarrow> bool \<Rightarrow> nat \<Rightarrow> (string \<times> json) list \<Rightarrow> bool" where
  "members_read hooks fmt d kvs \<longleftrightarrow> (\<forall>b x ws members ws' r n.
     kvs \<noteq> [] \<and> stands_at b (x # ws @ members_body fmt d kvs @ ws' @ CHR ''}'' # r) \<and> whitespace ws \<and> whitespace ws' \<and>
     list_all (\<lambda>(k, v). NUL \<notin> set k \<and> json_within (CJSON_NESTING_LIMIT - pb_depth b) v) kvs \<and> 3 * left b \<le> n + 1 \<longrightarrow>
     (\<exists>b'. object_members hooks n members b = Some (Some (J_obj (members @ kvs)), b') \<and> stands_at b' r \<and>
        pb_content b' = pb_content b \<and> pb_depth b' = pb_depth b - 1))"

lemma stands_literal:
  assumes "stands_at b (w @ u)" and "w \<noteq> []"
  shows "can_read b (length w)" "literal_here b w" "stands_at (advance (length w) b) u"
proof -
  have "length w \<le> left b" "0 < length w" using stands_left [OF assms(1)] assms(2) by simp_all
  then show "can_read b (length w)" unfolding can_read_def by arith
  show "literal_here b w" using assms(1) by (simp add: literal_here_def stands_at_def)
  show "stands_at (advance (length w) b) u"
    using drop_steps [of "pb_offset b" "pb_content b" w u] assms(1) by (simp add: stands_at_def)
qed

lemma not_literal: "stands_at b (w @ u) \<Longrightarrow> length v \<le> length w \<Longrightarrow> take (length v) w \<noteq> v \<Longrightarrow> \<not> literal_here b v"
  by (simp add: literal_here_def stands_at_def)

lemma not_constant:
  assumes "stands_at b (x # u)" and "x \<notin> {CHR ''n'', CHR ''f'', CHR ''t''}"
  shows "\<not> constant_at b"
proof -
  have "x = y" if "take (length (y # w)) (x # u) = y # w" for y w using that by simp
  then show ?thesis using assms unfolding constant_at_def literal_here_def stands_at_def by fastforce
qed

lemma stands_value:
  assumes "stands_at b (x # u)" and "x \<notin> {CHR ''n'', CHR ''f'', CHR ''t''}" and "3 * left b + 1 \<le> n"
  obtains m where "n = Suc m" "3 * left b \<le> m" "parse_value hooks n b =
    (if x = QUOTE then do { (s, b) \<leftarrow> parse_string hooks b; Some (map_option J_str s, b) }
     else if x = CHR ''-'' \<or> isdigit x then parse_number b
     else if x = CHR ''['' then parse_array hooks m b
     else if x = CHR ''{'' then parse_object hooks m b
     else Some (None, b))"
proof -
  obtain m where "n = Suc m" "3 * left b \<le> m" using assms(3) by (cases n) auto
  then show ?thesis
    using that parse_value_inside [OF not_constant [OF assms(1,2)], of x hooks m] stands_inside [OF assms(1)] by blast
qed

lemma constants_read: "value_reads hooks fmt d J_null" "value_reads hooks fmt d (J_bool t)"
proof -
  have len: "length ''null'' = 4" "length ''false'' = 5" "length ''true'' = 4" by simp_all
  have null: "parse_value hooks n b = Some (Some J_null, advance 4 b) \<and> stands_at (advance 4 b) u"
    if "stands_at b (''null'' @ u)" "3 * left b + 1 \<le> n" for b u n
    using stands_literal [OF that(1), unfolded len] that(2) by (cases n) (simp_all add: parse_value_eq)
  have false: "parse_value hooks n b = Some (Some (J_bool False), advance 5 b) \<and> stands_at (advance 5 b) u"
    if "stands_at b (''false'' @ u)" "3 * left b + 1 \<le> n" for b u n
    using stands_literal [OF that(1), unfolded len] not_literal [OF that(1), of "''null''"] that(2)
    by (cases n) (simp_all add: parse_value_eq)
  have true: "parse_value hooks n b = Some (Some (J_bool True), advance 4 b) \<and> stands_at (advance 4 b) u"
    if "stands_at b (''true'' @ u)" "3 * left b + 1 \<le> n" for b u n
  proof -
    have "\<not> literal_here b ''false''" using that(1) by (cases u) (auto simp: literal_here_def stands_at_def)
    then show ?thesis using stands_literal [OF that(1), unfolded len] not_literal [OF that(1), of "''null''"] that(2)
      by (cases n) (simp_all add: parse_value_eq)
  qed
  show "value_reads hooks fmt d J_null" unfolding value_reads_def json_text.simps
    using null by fastforce
  show "value_reads hooks fmt d (J_bool t)" unfolding value_reads_def json_text.simps
    using true false by (cases t) fastforce+
qed

lemma number_reads:
  assumes "int_json (J_num x)"
  shows "value_reads hooks fmt d (J_num x)"
  unfolding value_reads_def
proof (intro allI impI, elim conjE)
  fix b c r n assume b: "stands_at b (json_text fmt d (J_num x) @ c # r)" "\<not> number_char c" and n: "3 * left b + 1 \<le> n"
  let ?i = "d_trunc x"
  have st: "stands_at b (fmt_dec ?i @ c # r)" using b(1) int_json_text [OF assms] by simp
  obtain h u where h: "fmt_dec ?i = h # u" "h = CHR ''-'' \<or> isdigit h" using fmt_dec_head by blast
  have "stands_at b (h # u @ c # r)" using st h by simp
  moreover have "h \<notin> {CHR ''n'', CHR ''f'', CHR ''t''}" "h \<noteq> QUOTE" using h(2) by (auto simp: isdigit_def)
  ultimately have "parse_value hooks n b = parse_number b" using h(2) n stands_value [of b h "u @ c # r" n hooks] by metis
  moreover obtain b' where "parse_number b = Some (Some (J_num (double_of_int ?i)), b')" "stands_at b' (c # r)"
      "pb_content b' = pb_content b" "pb_depth b' = pb_depth b"
    using parse_number_text [OF st b(2)] assms by auto
  ultimately show "\<exists>b'. parse_value hooks n b = Some (Some (J_num x), b') \<and> stands_at b' (c # r) \<and>
      pb_content b' = pb_content b \<and> pb_depth b' = pb_depth b" using assms by simp
qed

lemma string_reads:
  assumes "\<And>i m. hooks i m"
  shows "value_reads hooks fmt d (J_str s)"
  unfolding value_reads_def
proof (intro allI impI, elim conjE)
  fix b c r n assume b: "stands_at b (json_text fmt d (J_str s) @ c # r)" and w: "json_within (CJSON_NESTING_LIMIT - pb_depth b) (J_str s)"
    and n: "3 * left b + 1 \<le> n"
  have st: "stands_at b (quoted_text s @ c # r)" using b by simp
  then have "stands_at b (QUOTE # (concat (map escaped s) @ [QUOTE]) @ c # r)" by (simp add: quoted_text_def)
  then have "parse_value hooks n b = do { (s, b) \<leftarrow> parse_string hooks b; Some (map_option J_str s, b) }"
    by (rule stands_value [OF _ _ n, of _ _ hooks]) simp_all
  moreover obtain b' where "parse_string hooks b = Some (Some s, b')" "stands_at b' (c # r)" "pb_content b' = pb_content b"
      "pb_depth b' = pb_depth b"
    by (rule parse_string_quoted [of b s "c # r" hooks]) (use st w assms in auto)
  ultimately show "\<exists>b'. parse_value hooks n b = Some (Some (J_str s), b') \<and> stands_at b' (c # r) \<and>
      pb_content b' = pb_content b \<and> pb_depth b' = pb_depth b" by simp
qed

section \<open>Containers\<close>

lemma new_item:
  assumes "\<And>i m. hooks i m"
  obtains b' where "cJSON_New_Item hooks b = (True, b')" "pb_content b' = pb_content b" "pb_depth b' = pb_depth b"
    "pb_offset b' = pb_offset b"
  using assms by (simp add: cJSON_New_Item_def allocate_def)

lemma stands_cong: "pb_content b' = pb_content b \<Longrightarrow> pb_offset b' = pb_offset b \<Longrightarrow> stands_at b' u \<longleftrightarrow> stands_at b u"
  by (simp add: stands_at_def)

lemma stands_back: "stands_at b u \<Longrightarrow> 0 < pb_offset b \<Longrightarrow> u \<noteq> [] \<Longrightarrow> \<exists>y. stands_at (step_back b) (y # u)"
proof -
  assume b: "stands_at b u" "0 < pb_offset b" "u \<noteq> []"
  let ?o = "pb_offset b - 1"
  have "?o < length (pb_content b)" using stands_left [OF b(1)] b(2,3) by (cases u) auto
  then have "drop ?o (pb_content b) = pb_content b ! ?o # drop (pb_offset b) (pb_content b)"
    using Cons_nth_drop_Suc [of ?o "pb_content b"] b(2) by simp
  then show ?thesis using b(1) by (simp add: stands_at_def)
qed

lemma stands_container:
  assumes "stands_at b (x # u)" and "3 * left b + 1 \<le> n"
  shows "x = CHR ''['' \<Longrightarrow> \<exists>m. 3 * left b \<le> Suc m \<and> parse_value hooks n b = parse_array hooks (Suc m) b"
    and "x = CHR ''{'' \<Longrightarrow> \<exists>m. 3 * left b \<le> Suc m \<and> parse_value hooks n b = parse_object hooks (Suc m) b"
proof -
  obtain m where m: "n = Suc (Suc m)" "3 * left b \<le> Suc m"
    using stands_left [OF assms(1)] assms(2) by (cases n; cases "n - 1") auto
  have "x \<notin> {CHR ''n'', CHR ''f'', CHR ''t''} \<Longrightarrow> \<not> constant_at b" using not_constant [OF assms(1)] by blast
  from parse_value_inside [OF this, of x hooks "Suc m"] stands_inside [OF assms(1)] m
  show "x = CHR ''['' \<Longrightarrow> \<exists>m. 3 * left b \<le> Suc m \<and> parse_value hooks n b = parse_array hooks (Suc m) b"
    and "x = CHR ''{'' \<Longrightarrow> \<exists>m. 3 * left b \<le> Suc m \<and> parse_value hooks n b = parse_object hooks (Suc m) b"
    by (simp_all add: isdigit_def) blast+
qed

lemma array_reads:
  assumes items: "items_read hooks fmt (d + 1) xs" and ints: "list_all int_json xs"
  shows "value_reads hooks fmt d (J_arr xs)"
  unfolding value_reads_def
proof (intro allI impI, elim conjE)
  fix b c r n
  assume b: "stands_at b (json_text fmt d (J_arr xs) @ c # r)" and w: "json_within (CJSON_NESTING_LIMIT - pb_depth b) (J_arr xs)"
    and n: "3 * left b + 1 \<le> n"
  let ?e = "elements_text fmt (d + 1) xs @ CHR '']'' # c # r" and ?d = "b\<lparr>pb_depth := pb_depth b + 1\<rparr>"
  have st: "stands_at b (CHR ''['' # ?e)" using b by simp
  obtain m where m: "3 * left b \<le> Suc m" "parse_value hooks n b = parse_array hooks (Suc m) b"
    using stands_container(1) [OF st n refl] by blast
  have depth: "pb_depth b < CJSON_NESTING_LIMIT" using w by simp
  define s where s: "s = opened b"
  have sp: "pb_content s = pb_content b" "pb_depth s = pb_depth b + 1" "pb_offset b < pb_offset s"
    using opened_props [OF _ s] stands_inside [OF st] by simp_all
  have "\<exists>x u. ?e = x # u \<and> code_of x > 32 \<and> (x = CHR '']'' \<longleftrightarrow> xs = [])"
  proof (cases xs)
    case (Cons j js)
    then show ?thesis using json_text_head [of j fmt "d + 1"] ints by fastforce
  qed simp
  then obtain x u where xu: "?e = x # u" "code_of x > 32" "x = CHR '']'' \<longleftrightarrow> xs = []" by blast
  have "stands_at (advance 1 ?d) (x # u)" using stands_advance [of ?d] st xu by simp
  then have ss: "stands_at s (x # u)" using stands_skip [of "advance 1 ?d" "[]" x u] xu(2) by (simp add: s whitespace_def)
  have eq: "parse_array hooks (Suc m) b =
      (if xs = [] then close_container (J_arr []) s else array_items hooks m [] (step_back s))"
    using depth stands_inside [OF st] stands_inside [OF ss] stands_is_at [OF ss] xu(3) unfolding parse_array_eq Let_def
    by (simp add: buffer_at_0 s can_access_at_index_def del: One_nat_def)
  show "\<exists>b'. parse_value hooks n b = Some (Some (J_arr xs), b') \<and> stands_at b' (c # r) \<and>
      pb_content b' = pb_content b \<and> pb_depth b' = pb_depth b"
  proof (cases "xs = []")
    case True
    then have "u = c # r" using xu by simp
    then show ?thesis using stands_close [OF ss, of "J_arr []"] eq True m(2) sp by auto
  next
    case False
    obtain y where y: "stands_at (step_back s) (y # ?e)" using stands_back [OF ss] sp(3) xu(1) by auto
    have "3 * left (step_back s) \<le> m + 1" using stands_left [OF y] stands_left [OF st] m(1) by simp
    then have "\<exists>b'. array_items hooks m [] (step_back s) = Some (Some (J_arr ([] @ xs)), b') \<and> stands_at b' (c # r) \<and>
        pb_content b' = pb_content (step_back s) \<and> pb_depth b' = pb_depth (step_back s) - 1"
      using items [unfolded items_read_def, rule_format, of "step_back s" y "[]" "c # r" m "[]"] y False w sp
      by (simp add: whitespace_def)
    then show ?thesis using eq False m(2) sp by simp
  qed
qed

lemma items_read_Cons:
  assumes hooks: "\<And>i m. hooks i m" and x: "value_reads hooks fmt d x" "int_json x" and xs: "items_read hooks fmt d xs"
  shows "items_read hooks fmt d (x # xs)"
  unfolding items_read_def
proof (intro allI impI, elim conjE)
  fix b y ws items r n
  let ?sep = "if xs = [] then [] else '','' @ pretty fmt '' ''"
  let ?rest = "?sep @ elements_text fmt d xs @ CHR '']'' # r"
  assume st: "stands_at b (y # ws @ elements_text fmt d (x # xs) @ CHR '']'' # r)" and ws: "whitespace ws"
    and w: "list_all (json_within (CJSON_NESTING_LIMIT - pb_depth b)) (x # xs)" and n: "3 * left b \<le> n + 1"
  obtain m where m: "n = Suc m" "3 * left b \<le> m + 2" using n stands_left [OF st] by (cases n) auto
  obtain b1 where b1: "cJSON_New_Item hooks b = (True, b1)" "pb_content b1 = pb_content b" "pb_depth b1 = pb_depth b"
      "pb_offset b1 = pb_offset b" using new_item [of hooks b] hooks by blast
  obtain h u where h: "json_text fmt d x = h # u" "code_of h > 32" using json_text_head [OF x(2)] by blast
  define s where s: "s = skipped (advance 1 b1)"
  have "stands_at (advance 1 b1) (ws @ h # u @ ?rest)"
    using stands_advance [of b1 y] st b1 h by (simp add: stands_cong [of b1 b])
  then have ss: "stands_at s (json_text fmt d x @ ?rest)" using stands_skip [OF _ ws h(2)] h(1) by (simp add: s)
  obtain c q where c: "?rest = c # q" "c = (if xs = [] then CHR '']'' else CHR '','')" by (cases "xs = []") auto
  have nc: "\<not> number_char c" using c(2) by (simp add: number_char_def isdigit_def)
  have sp: "pb_content s = pb_content b" "pb_depth s = pb_depth b" using b1 by (simp_all add: s)
  have "3 * left s + 1 \<le> m" using stands_left [OF ss] stands_left [OF st] m(2) by simp
  then obtain b2 where b2: "parse_value hooks m s = Some (Some x, b2)" "stands_at b2 (c # q)" "pb_content b2 = pb_content b"
      "pb_depth b2 = pb_depth b"
    using x(1) [unfolded value_reads_def, rule_format, of s c q m] ss c(1) nc w sp by auto
  define t where t: "t = skipped b2"
  have st2: "stands_at t (c # q)" using stands_skip [of b2 "[]" c q] b2(2) c(2) by (simp add: t whitespace_def)
  have tp: "pb_content t = pb_content b" "pb_depth t = pb_depth b" using b2 by (simp_all add: t)
  have eq: "array_items hooks n items b =
      (if xs = [] then close_container (J_arr (items @ [x])) t else array_items hooks m (items @ [x]) t)"
    using b1 b2(1) stands_is_at [OF st2] c(2) unfolding m(1) array_items_eq Let_def s t
    by (simp del: One_nat_def)
  show "\<exists>b'. array_items hooks n items b = Some (Some (J_arr (items @ x # xs)), b') \<and> stands_at b' r \<and>
      pb_content b' = pb_content b \<and> pb_depth b' = pb_depth b - 1"
  proof (cases "xs = []")
    case True
    then have "q = r" using c by simp
    then show ?thesis using stands_close [OF st2, of "J_arr (items @ [x])"] eq True tp by auto
  next
    case False
    then have "stands_at t (CHR '','' # pretty fmt '' '' @ elements_text fmt d xs @ CHR '']'' # r)" using st2 c(1) by simp
    moreover have "3 * left t \<le> m + 1" using stands_left [OF st2] stands_left [OF st] m(2) c(1) h by simp
    ultimately have "\<exists>b'. array_items hooks m (items @ [x]) t = Some (Some (J_arr ((items @ [x]) @ xs)), b') \<and>
        stands_at b' r \<and> pb_content b' = pb_content t \<and> pb_depth b' = pb_depth t - 1"
      using xs [unfolded items_read_def, rule_format, of t "CHR '',''" "pretty fmt '' ''" r m "items @ [x]"] False w tp
      by (simp add: whitespace_def pretty_def)
    then show ?thesis using eq False tp by simp
  qed
qed

lemma pretty_whitespace: "whitespace cs \<Longrightarrow> whitespace (pretty fmt cs)"
  by (simp add: pretty_def whitespace_def)

lemma indent_whitespace: "whitespace (replicate k TAB)" "whitespace [NEWLINE]" "whitespace [TAB]"
  by (simp_all add: whitespace_def TAB_def NEWLINE_def list_all_iff)

lemma whitespace_append: "whitespace (a @ b) \<longleftrightarrow> whitespace a \<and> whitespace b"
  by (simp add: whitespace_def)

lemmas indentation = pretty_whitespace indent_whitespace whitespace_append

lemma object_reads:
  assumes members: "members_read hooks fmt (d + 1) kvs"
  shows "value_reads hooks fmt d (J_obj kvs)"
  unfolding value_reads_def
proof (intro allI impI, elim conjE)
  fix b c r n
  assume b: "stands_at b (json_text fmt d (J_obj kvs) @ c # r)" and w: "json_within (CJSON_NESTING_LIMIT - pb_depth b) (J_obj kvs)"
    and n: "3 * left b + 1 \<le> n"
  let ?d = "b\<lparr>pb_depth := pb_depth b + 1\<rparr>" and ?fin = "pretty fmt (replicate d TAB)"
  let ?ws = "pretty fmt [NEWLINE] @ (if kvs = [] then ?fin else pretty fmt (replicate (d + 1) TAB))"
  let ?e = "members_body fmt (d + 1) kvs @ ?fin @ CHR ''}'' # c # r"
  let ?f = "if kvs = [] then CHR ''}'' # c # r else ?e"
  have st: "stands_at b (CHR ''{'' # ?ws @ ?f)"
    using b members_body_Cons(1) [of fmt "d + 1"] by (cases kvs) auto
  obtain m where m: "3 * left b \<le> Suc m" "parse_value hooks n b = parse_object hooks (Suc m) b"
    using stands_container(2) [OF st n refl] by blast
  have depth: "pb_depth b < CJSON_NESTING_LIMIT" using w by simp
  define s where s: "s = opened b"
  have sp: "pb_content s = pb_content b" "pb_depth s = pb_depth b + 1" "pb_offset b < pb_offset s"
    using opened_props [OF _ s] stands_inside [OF st] by simp_all
  have "\<exists>x u. ?f = x # u \<and> code_of x > 32 \<and> (x = CHR ''}'' \<longleftrightarrow> kvs = [])"
  proof (cases kvs)
    case (Cons kv kvs')
    then show ?thesis using members_body_Cons(2) [of fmt "d + 1"] by (cases kv) (simp add: quoted_text_def)
  qed simp
  then obtain x u where xu: "?f = x # u" "code_of x > 32" "x = CHR ''}'' \<longleftrightarrow> kvs = []" by blast
  have "stands_at (advance 1 ?d) (?ws @ x # u)" using stands_advance [of ?d] st xu(1) by simp
  then have ss: "stands_at s (x # u)" unfolding s by (rule stands_skip) (use xu(2) in \<open>simp_all add: indentation del: replicate_Suc\<close>)
  have o: "is_at ?d CHR ''{'' = Some True" using stands_is_at [of ?d "CHR ''{''"] st by simp
  have eq: "parse_object hooks (Suc m) b =
      (if kvs = [] then close_container (J_obj []) s else object_members hooks m [] (step_back s))"
    using depth o stands_inside [OF ss] stands_is_at [OF ss] xu(3) unfolding parse_object_eq Let_def
    by (simp add: s can_access_at_index_def del: One_nat_def)
  show "\<exists>b'. parse_value hooks n b = Some (Some (J_obj kvs), b') \<and> stands_at b' (c # r) \<and>
      pb_content b' = pb_content b \<and> pb_depth b' = pb_depth b"
  proof (cases "kvs = []")
    case True
    then have "u = c # r" using xu by simp
    then show ?thesis using stands_close [OF ss, of "J_obj []"] eq True m(2) sp by auto
  next
    case False
    obtain y where y: "stands_at (step_back s) (y # [] @ ?e)" using stands_back [OF ss] sp(3) xu(1) False by auto
    have "3 * left (step_back s) \<le> m + 1" using stands_left [OF y] stands_left [OF st] m(1) False by simp
    then have "\<exists>b'. object_members hooks m [] (step_back s) = Some (Some (J_obj ([] @ kvs)), b') \<and> stands_at b' (c # r) \<and>
        pb_content b' = pb_content (step_back s) \<and> pb_depth b' = pb_depth (step_back s) - 1"
      using members [unfolded members_read_def, rule_format, of "step_back s" y "[]" ?fin "c # r" m "[]"] y False w sp
      by (simp add: indentation whitespace_def [of "[]"])
    then show ?thesis using eq False m(2) sp by simp
  qed
qed

text \<open>A member up to the text behind its value, with the block of its item allocated.\<close>

lemma member_reads:
  assumes hooks: "\<And>i m. hooks i m" and v: "value_reads hooks fmt d v" "int_json v"
    and st: "stands_at b (y # ws @ quoted_text k @ CHR '':'' # pretty fmt [TAB] @ json_text fmt d v @ c # q)" and ws: "whitespace ws"
    and c: "\<not> number_char c" and k: "NUL \<notin> set k" and w: "json_within (CJSON_NESTING_LIMIT - pb_depth b) v"
    and m: "3 * left b \<le> m + 2"
  obtains b1 a b2 b3 where "cJSON_New_Item hooks b = (True, b1)" "can_access_at_index b1 1"
    "parse_string hooks (skipped (advance 1 b1)) = Some (Some k, a)"
    "b2 = skipped a" "is_at b2 CHR '':'' = Some True"
    "parse_value hooks m (skipped (advance 1 b2)) = Some (Some v, b3)"
    "stands_at b3 (c # q)" "pb_content b3 = pb_content b" "pb_depth b3 = pb_depth b"
proof -
  let ?v = "pretty fmt [TAB] @ json_text fmt d v @ c # q"
  obtain b1 where b1: "cJSON_New_Item hooks b = (True, b1)" "pb_content b1 = pb_content b" "pb_depth b1 = pb_depth b"
      "pb_offset b1 = pb_offset b" using new_item [of hooks b] hooks by blast
  have st1: "stands_at b1 (y # ws @ quoted_text k @ CHR '':'' # ?v)" using st stands_cong [of b1 b] b1 by simp
  have acc: "can_access_at_index b1 1" using stands_left [OF st1] by (simp add: can_access_at_index_def quoted_text_def)
  define s where s: "s = skipped (advance 1 b1)"
  have "stands_at (advance 1 b1) (ws @ QUOTE # (concat (map escaped k) @ [QUOTE]) @ CHR '':'' # ?v)"
    using stands_advance [OF st1] by (simp add: quoted_text_def)
  from stands_skip [OF this ws] have ss: "stands_at s (quoted_text k @ CHR '':'' # ?v)" by (simp add: s quoted_text_def)
  obtain a where a: "parse_string hooks s = Some (Some k, a)" "stands_at a (CHR '':'' # ?v)" "pb_content a = pb_content s"
      "pb_depth a = pb_depth s" using parse_string_quoted [of s k "CHR '':'' # ?v" hooks] ss k hooks by blast
  define b2 where b2: "b2 = skipped a"
  have st2: "stands_at b2 (CHR '':'' # ?v)" using stands_skip [of a "[]" "CHR '':''" ?v] a(2) by (simp add: b2 whitespace_def)
  obtain h u where h: "json_text fmt d v = h # u" "code_of h > 32" using json_text_head [OF v(2)] by blast
  define e where e: "e = skipped (advance 1 b2)"
  have "stands_at (advance 1 b2) (pretty fmt [TAB] @ h # u @ c # q)" using stands_advance [OF st2] h by simp
  from stands_skip [OF this _ h(2)] have se: "stands_at e (json_text fmt d v @ c # q)"
    by (simp add: e h indentation)
  have ep: "pb_content e = pb_content b" "pb_depth e = pb_depth b" using a b1 by (simp_all add: e b2 s)
  have "3 * left e + 1 \<le> m" using stands_left [OF se] stands_left [OF st] m by (simp add: quoted_text_def)
  then obtain b3 where b3: "parse_value hooks m e = Some (Some v, b3)" "stands_at b3 (c # q)" "pb_content b3 = pb_content e"
      "pb_depth b3 = pb_depth e" using v(1) [unfolded value_reads_def, rule_format, of e c q m] se c w ep by auto
  show ?thesis
    by (rule that [OF b1(1) acc a(1) [unfolded s] b2 _ b3(1) [unfolded e]]) (use stands_is_at [OF st2] b3 ep in auto)
qed

lemma head_not_number:
  assumes "whitespace ws" and "\<not> number_char c"
  shows "\<exists>x q. ws @ c # r = x # q \<and> \<not> number_char x"
  using assms by (cases ws) (auto simp: whitespace_def number_char_def isdigit_def)

lemma members_read_Cons:
  assumes hooks: "\<And>i m. hooks i m" and v: "value_reads hooks fmt d v" "int_json v" and kvs: "members_read hooks fmt d kvs"
  shows "members_read hooks fmt d ((k, v) # kvs)"
  unfolding members_read_def
proof (intro allI impI, elim conjE)
  fix b y ws members ws' r n
  let ?nl = "pretty fmt [NEWLINE]" and ?tabs = "pretty fmt (replicate d TAB)"
  let ?rest = "(if kvs = [] then [] else '','') @ ?nl @ members_text fmt d kvs @ ws' @ CHR ''}'' # r"
  assume st: "stands_at b (y # ws @ members_body fmt d ((k, v) # kvs) @ ws' @ CHR ''}'' # r)"
    and ws: "whitespace ws" "whitespace ws'"
    and w: "list_all (\<lambda>(k, v). NUL \<notin> set k \<and> json_within (CJSON_NESTING_LIMIT - pb_depth b) v) ((k, v) # kvs)"
    and n: "3 * left b \<le> n + 1"
  obtain m where m: "n = Suc m" "3 * left b \<le> m + 2" using n stands_left [OF st] by (cases n) auto
  have st': "stands_at b (y # ws @ quoted_text k @ CHR '':'' # pretty fmt [TAB] @ json_text fmt d v @ ?rest)"
    using st by (simp add: members_body_Cons(2))
  have "\<exists>c q. ?rest = c # q \<and> \<not> number_char c"
  proof (cases "kvs = []")
    case True
    then show ?thesis using head_not_number [of "?nl @ ws'" "CHR ''}''" r] ws(2) by (simp add: indentation number_char_def isdigit_def)
  qed (simp add: number_char_def isdigit_def)
  then obtain c q where c: "?rest = c # q" "\<not> number_char c" by blast
  obtain b1 a b2 b3 where b1: "cJSON_New_Item hooks b = (True, b1)" "can_access_at_index b1 1"
    "parse_string hooks (skipped (advance 1 b1)) = Some (Some k, a)"
    "b2 = skipped a" "is_at b2 CHR '':'' = Some True"
    "parse_value hooks m (skipped (advance 1 b2)) = Some (Some v, b3)"
    "stands_at b3 (c # q)" "pb_content b3 = pb_content b" "pb_depth b3 = pb_depth b"
    by (rule member_reads [OF hooks v st' [unfolded c(1)] ws(1) c(2) _ _ m(2)]) (use w in auto)
  define t where t: "t = skipped b3"
  have st2: "stands_at t (if kvs = [] then CHR ''}'' # r else CHR '','' # ?nl @ members_text fmt d kvs @ ws' @ CHR ''}'' # r)"
    using stands_skip [of b3 "?nl @ ws'" "CHR ''}''" r] stands_skip [of b3 "[]" "CHR '',''"] b1(7) c(1) ws(2)
    by (auto simp: t indentation whitespace_def [of "[]"] split: if_splits)
  have tp: "pb_content t = pb_content b" "pb_depth t = pb_depth b" using b1 by (simp_all add: t)
  have at: "is_at t CHR '','' = Some (kvs \<noteq> [])" "kvs = [] \<Longrightarrow> is_at t CHR ''}'' = Some True"
    using st2 stands_is_at [of t] by (auto split: if_splits)
  have eq: "object_members hooks n members b =
      (if kvs = [] then close_container (J_obj (members @ [(k, v)])) t else object_members hooks m (members @ [(k, v)]) t)"
    using b1(1-6) at unfolding m(1) object_members_eq Let_def t by (simp del: One_nat_def)
  show "\<exists>b'. object_members hooks n members b = Some (Some (J_obj (members @ (k, v) # kvs)), b') \<and> stands_at b' r \<and>
      pb_content b' = pb_content b \<and> pb_depth b' = pb_depth b - 1"
  proof (cases "kvs = []")
    case True
    then show ?thesis using stands_close [of t "CHR ''}''" r "J_obj (members @ [(k, v)])"] st2 eq tp by auto
  next
    case False
    then obtain k' v' kvs' where kv: "kvs = (k', v') # kvs'" by (cases kvs) auto
    have st3: "stands_at t (CHR '','' # (?nl @ ?tabs) @ members_body fmt d kvs @ ws' @ CHR ''}'' # r)"
      using st2 by (simp add: kv members_body_Cons(1) del: members_text.simps)
    have "3 * left t \<le> m + 1" using stands_left [OF st3] stands_left [OF st'] m(2)
      by (simp add: kv members_body_Cons(1) quoted_text_def del: members_text.simps)
    then have "\<exists>b'. object_members hooks m (members @ [(k, v)]) t = Some (Some (J_obj ((members @ [(k, v)]) @ kvs)), b') \<and>
        stands_at b' r \<and> pb_content b' = pb_content t \<and> pb_depth b' = pb_depth t - 1"
      using kvs [unfolded members_read_def, rule_format, of t "CHR '',''" "?nl @ ?tabs" ws' r m "members @ [(k, v)]"]
        st3 False w ws(2) tp by (simp add: indentation)
    then show ?thesis using eq False tp by simp
  qed
qed

section \<open>Trees\<close>

lemma text_reads:
  assumes "\<And>i m. hooks i m"
  shows "int_json j \<Longrightarrow> value_reads hooks fmt d j"
    and "list_all int_json xs \<Longrightarrow> items_read hooks fmt d xs"
    and "list_all (int_json \<circ> snd) kvs \<Longrightarrow> members_read hooks fmt d kvs"
proof (induction fmt d j and fmt d xs and fmt d kvs rule: json_text_elements_text_members_text.induct)
  case (3 fmt d n)
  then show ?case by (rule number_reads)
next
  case (5 fmt d xs)
  then show ?case by (simp add: array_reads)
next
  case (6 fmt d kvs)
  then show ?case by (simp add: object_reads comp_def case_prod_unfold)
next
  case (7 fmt d)
  show ?case by (simp add: items_read_def)
next
  case (8 fmt d x xs)
  then show ?case using items_read_Cons assms by simp
next
  case (9 fmt d)
  show ?case by (simp add: members_read_def)
next
  case (10 fmt d k v kvs)
  then show ?case using members_read_Cons assms by simp
qed (use constants_read string_reads assms in blast)+

lemma within_wf: "json_within n j \<Longrightarrow> json_wf j"
proof (induction j arbitrary: n)
  case (J_arr xs)
  then show ?case by (auto simp: list_all_iff)
next
  case (J_obj kvs)
  then show ?case by (fastforce simp: list_all_iff)
qed auto

lemma stands_no_bom: "stands_at b (x # u) \<Longrightarrow> x \<noteq> CHR 0xEF \<Longrightarrow> pb_offset b = 0 \<Longrightarrow> skip_utf8_bom b = Some (Some b)"
  by (auto simp: stands_at_def literal_here_def)

lemma parse_text:
  assumes hooks: "\<And>i m. hooks i m" and j: "int_json j" "json_within CJSON_NESTING_LIMIT j"
  obtains r where "cJSON_ParseWithOpts hooks (json_text fmt 0 j) req = Some r" "ps_item r = Some j"
    "ps_end r = length (json_text fmt 0 j)"
proof -
  let ?t = "json_text fmt 0 j"
  let ?b = "\<lparr>pb_content = ?t @ [NUL], pb_offset = 0, pb_depth = 0, pb_calls = 0, pb_live = 0\<rparr>"
  have "NUL \<notin> set ?t" by (rule json_text_no_nul(1) [OF within_wf [OF j(2)]])
  then have c: "c_string ?t = ?t" by (auto simp: c_string_def takeWhile_eq_all_conv)
  obtain b1 where b1: "cJSON_New_Item hooks ?b = (True, b1)" "pb_content b1 = ?t @ [NUL]" "pb_depth b1 = 0" "pb_offset b1 = 0"
    using new_item [of hooks ?b] hooks by auto
  obtain h u where h: "?t = h # u" "code_of h > 32" "h \<noteq> CHR 0xEF" using json_text_head [OF j(1)] by blast
  have st: "stands_at b1 (h # u @ [NUL])" using b1 h(1) by (simp add: stands_at_def)
  define s where s: "s = skipped b1"
  have ss: "stands_at s (?t @ [NUL])" using stands_skip [of b1 "[]" h "u @ [NUL]"] st h by (simp add: s whitespace_def)
  have sp: "pb_content s = ?t @ [NUL]" "pb_depth s = 0" using b1 by (simp_all add: s)
  have reads: "value_reads hooks fmt 0 j" by (rule text_reads(1) [OF hooks j(1)])
  have fuel: "3 * left s + 1 \<le> 3 * length (?t @ [NUL]) + 1" using stands_left [OF ss] by simp
  obtain b2 where b2: "parse_value hooks (3 * length (?t @ [NUL]) + 1) s = Some (Some j, b2)" "stands_at b2 [NUL]"
      "pb_content b2 = ?t @ [NUL]"
    using reads [unfolded value_reads_def, rule_format, of s NUL "[]" "3 * length (?t @ [NUL]) + 1"] fuel ss sp j(2)
    by (auto simp: number_char_def isdigit_def)
  have o2: "pb_offset b2 = length ?t" using stands_left [OF b2(2)] b2(3) by simp
  define t where t: "t = skipped b2"
  have "blank_end (pb_content b2) (length ?t) = length ?t + 1" using b2(3) by (simp add: blank_end_def)
  then have ot: "pb_offset t = length ?t" "pb_content t = ?t @ [NUL]" using o2 b2(3)
    by (simp_all add: t skipped_def can_access_at_index_def)
  then have "is_at t NUL = Some True" by (simp add: is_at_total)
  then have "\<exists>r. cJSON_ParseWithOpts hooks ?t req = Some r \<and> ps_item r = Some j \<and> ps_end r = length ?t"
    using b1(1) stands_no_bom [OF st h(3) b1(4)] b2(1) o2 ot(1)
    unfolding cJSON_ParseWithOpts_def cJSON_ParseWithLengthOpts_def c s t by (simp add: Let_def)
  then show ?thesis using that by blast
qed

text \<open>
  C15: parsing undoes printing. Whatever allocations of the printer failed, a text it returned, formatted
  or not, is read back as the tree it was given, whole: also by a parse that demands the end of the text
  behind the value, provided that every allocation of the parser succeeds. The tree is any that the parser
  could have built, with integers of at most fifteen digits as its numbers; other numbers may change,
  for they are printed with no more digits than a tolerant comparison asks for.
\<close>

theorem json_print_parse:
  assumes "\<forall>i m. hooks i m" and "int_json j" and "json_within CJSON_NESTING_LIMIT j"
    and "print hooks' r fmt j = Some (Some t)"
  shows "\<exists>r. cJSON_ParseWithOpts hooks t req = Some r \<and> ps_item r = Some j \<and> ps_end r = length t"
proof -
  have "t = json_text fmt 0 j" using print_result [OF within_wf [OF assms(3)], of hooks' r fmt] assms(4) by auto
  moreover obtain r' where "cJSON_ParseWithOpts hooks (json_text fmt 0 j) req = Some r'" "ps_item r' = Some j"
      "ps_end r' = length (json_text fmt 0 j)"
    by (rule parse_text [where hooks = hooks and j = j and fmt = fmt and req = req]) (use assms(1-3) in auto)
  ultimately show ?thesis by blast
qed

text \<open>
  C40: whatever bytes were parsed, the tree is fit for every later walk over it: its containers are nested at
  most 1000 deep, which bounds the recursion, its names and strings are C strings and its numbers
  doubles, and printing it, whatever allocations fail, faults nowhere and returns the text of the tree or none.
\<close>

theorem json_parse_printable:
  assumes "cJSON_Parse hooks input = Some j"
  shows "json_within CJSON_NESTING_LIMIT j \<and>
    (print hooks' r fmt j = Some None \<or> print hooks' r fmt j = Some (Some (json_text fmt 0 j)))"
  using parse_within [OF assms] print_result [OF within_wf [OF parse_within [OF assms]], of hooks' r fmt] by simp

theorem json_parse_printable_witness:
  "print (\<lambda>_ _. True) True False (J_arr []) = Some None \<or>
   print (\<lambda>_ _. True) True False (J_arr []) = Some (Some ''[]'')"
proof -
  have "cJSON_Parse (\<lambda>_ _. True) ''[]'' = Some (J_arr [])" by code_simp
  from json_parse_printable [OF this, of "\<lambda>_ _. True" True False] show ?thesis by simp
qed

theorem json_print_parse_witness:
  "\<exists>r. cJSON_ParseWithOpts (\<lambda>_ _. True) ''[true,-7]'' True = Some r \<and>
     ps_item r = Some (J_arr [J_bool True, J_num (double_of_int (- 7))]) \<and> ps_end r = 9"
proof -
  let ?j = "J_arr [J_bool True, J_num (double_of_int (- 7))]"
  have "fmt_dec (- 7) = ''-7''" by code_simp
  then have "json_text False 0 ?j = ''[true,-7]''" using number_text_int [of "- 7"] by (simp add: pretty_def)
  moreover have "json_wf ?j" by (simp add: double_of_int_wf)
  ultimately have "print (\<lambda>_ _. True) True False ?j = Some (Some ''[true,-7]'')"
    using print_result [of ?j "\<lambda>_ _. True" True False] by (simp add: INT_MAX_def)
  moreover have "int_json ?j" by (simp add: double_of_int_facts(3))
  moreover have "json_within CJSON_NESTING_LIMIT ?j" by (simp add: double_of_int_wf CJSON_NESTING_LIMIT_def)
  ultimately show ?thesis using json_print_parse [of "\<lambda>_ _. True" ?j "\<lambda>_ _. True" True False "''[true,-7]''" True]
    by (simp add: eval_nat_numeral)
qed

end
