(* ===== verification/Json_Minify.thy ===== *)
theory Json_Minify
  imports Json_Print_Sound
begin

text \<open>
  \<^verbatim>\<open>cJSON_Minify\<close> of \<^verbatim>\<open>src/cjson/cJSON.c\<close>, which removes blanks and comments from a text in place. The place that is
  written is never behind a character that is still to be read, so the result is a function of the text that is left.
\<close>

section \<open>Operations\<close>

fun skip_oneline_comment :: "string \<Rightarrow> string" where
  "skip_oneline_comment [] = []"
| "skip_oneline_comment (c # cs) = (if c = NEWLINE then cs else skip_oneline_comment cs)"

fun skip_multiline_comment :: "string \<Rightarrow> string" where
  "skip_multiline_comment [] = []"
| "skip_multiline_comment (c # cs) =
     (if c = CHR ''*'' \<and> cs \<noteq> [] \<and> hd cs = CHR ''/'' then tl cs else skip_multiline_comment cs)"

text \<open>The characters written and the text left, behind the opening quote.\<close>

fun minify_string :: "string \<Rightarrow> string \<times> string" where
  "minify_string [] = ([], [])"
| "minify_string (c # cs) =
     (if c = QUOTE then ([QUOTE], cs)
      else if c = BACKSLASH \<and> cs \<noteq> [] \<and> hd cs = QUOTE then
        (case minify_string (tl cs) of (out, rest) \<Rightarrow> (c # QUOTE # out, rest))
      else (case minify_string cs of (out, rest) \<Rightarrow> (c # out, rest)))"

lemma skip_oneline_length: "length (skip_oneline_comment s) \<le> length s"
  by (induction s) auto

lemma skip_multiline_length: "length (skip_multiline_comment s) \<le> length s"
  by (induction s) auto

lemma minify_string_length: "length (snd (minify_string s)) \<le> length s"
  by (induction s rule: minify_string.induct) (auto split: prod.splits)

function cJSON_Minify :: "string \<Rightarrow> string" where
  "cJSON_Minify [] = []"
| "cJSON_Minify (c # cs) =
     (if c = CHR '' '' \<or> c = TAB \<or> c = CHR 0x0D \<or> c = NEWLINE then cJSON_Minify cs
      else if c = CHR ''/'' then
        (if cs \<noteq> [] \<and> hd cs = CHR ''/'' then cJSON_Minify (skip_oneline_comment (tl cs))
         else if cs \<noteq> [] \<and> hd cs = CHR ''*'' then cJSON_Minify (skip_multiline_comment (tl cs))
         else cJSON_Minify cs)
      else if c = QUOTE then QUOTE # fst (minify_string cs) @ cJSON_Minify (snd (minify_string cs))
      else c # cJSON_Minify cs)"
  by pat_completeness auto
termination
proof (relation "measure length")
  fix c :: char and cs :: string
  assume "cs \<noteq> [] \<and> hd cs = CHR ''/''"
  then show "(skip_oneline_comment (tl cs), c # cs) \<in> measure length"
    using skip_oneline_length [of "tl cs"] by simp
next
  fix c :: char and cs :: string
  assume "cs \<noteq> [] \<and> hd cs = CHR ''*''"
  then show "(skip_multiline_comment (tl cs), c # cs) \<in> measure length"
    using skip_multiline_length [of "tl cs"] by simp
next
  fix c :: char and cs :: string
  show "(snd (minify_string cs), c # cs) \<in> measure length"
    using minify_string_length [of cs] by simp
qed simp_all


section \<open>Characters of numbers\<close>

text \<open>A number is printed with digits and a few other characters.\<close>

definition number_class :: "(char \<Rightarrow> bool) \<Rightarrow> bool" where
  "number_class P \<longleftrightarrow> (\<forall>c. isdigit c \<longrightarrow> P c) \<and> list_all P ''-+.enul''"

lemma dec_chars_class: "number_class P \<Longrightarrow> list_all P (dec_chars n)"
  using dec_chars_digits(1) [of n] by (auto simp: number_class_def list_all_iff)

lemma with_point_class:
  "number_class P \<Longrightarrow> list_all P w \<Longrightarrow> list_all P f \<Longrightarrow> list_all P (with_point w f)"
  by (auto simp: with_point_def strip_zeros_def Let_def list_all_iff number_class_def dest: set_dropWhileD)

lemma fmt_g_class:
  assumes "number_class P"
  shows "list_all P (fmt_g prec d)"
proof -
  have zero: "P CHR ''0''" and others: "list_all P ''-+.enul''"
    using assms by (simp_all add: number_class_def isdigit_def)
  have "list_all P (fmt_exponent x)" for x
    using dec_chars_class [OF assms] zero others by (simp add: fmt_exponent_def Let_def)
  moreover have "list_all P (take k (dec_chars n))" "list_all P (drop k (dec_chars n))" for k n
    using dec_chars_class [OF assms, of n] by (auto simp: list_all_iff dest: in_set_takeD in_set_dropD)
  moreover have "list_all P (replicate k CHR ''0'' @ dec_chars n)" for k n
    using dec_chars_class [OF assms, of n] zero by (induction k) simp_all
  ultimately show ?thesis
    using with_point_class [OF assms] zero others by (simp add: fmt_g_def Let_def split: prod.splits del: One_nat_def)
qed

lemma number_text_class:
  assumes "number_class P" and "number_text d = Some t"
  shows "list_all P t"
proof -
  have "list_all P (fmt_dec i)" for i
    using dec_chars_class [OF assms(1)] assms(1) by (simp add: fmt_dec_def number_class_def)
  moreover have "list_all P ''null''" using assms(1) by (simp add: number_class_def)
  ultimately show ?thesis
    using assms(2) fmt_g_class [OF assms(1)]
    by (auto simp: number_text_def sprintf26_def split: if_splits option.splits bind_splits)
qed

section \<open>Minifying a printed text\<close>

definition plain_char :: "char \<Rightarrow> bool" where
  "plain_char c \<longleftrightarrow> c \<notin> {CHR '' '', TAB, CHR 0x0D, NEWLINE, CHR ''/'', QUOTE}"

lemma plain_numbers: "number_class plain_char"
  by (auto simp: number_class_def plain_char_def isdigit_def TAB_def NEWLINE_def)

lemma minify_plain: "list_all plain_char t \<Longrightarrow> cJSON_Minify (t @ r) = t @ cJSON_Minify r"
  by (induction t) (auto simp: plain_char_def)

lemmas literals = TAB_def NEWLINE_def

lemma minify_tabs: "cJSON_Minify (replicate d CHR 0x09 @ r) = cJSON_Minify r"
  by (induction d) (simp_all add: literals)

lemma minify_string_copy:
  "c \<noteq> QUOTE \<Longrightarrow> c \<noteq> BACKSLASH \<Longrightarrow> minify_string (c # r) = (c # fst (minify_string r), snd (minify_string r))"
  by (simp split: prod.splits)

lemma hex_small_unquoted: "hex_small n \<noteq> QUOTE" "hex_small n \<noteq> BACKSLASH"
proof -
  have "\<forall>i\<in>{..<16}. ''0123456789abcdef'' ! i \<noteq> QUOTE \<and> ''0123456789abcdef'' ! i \<noteq> BACKSLASH"
    by (simp add: lessThan_nat_numeral lessThan_Suc)
  then show "hex_small n \<noteq> QUOTE" "hex_small n \<noteq> BACKSLASH" by (simp_all add: hex_small_def)
qed

lemma escaped_start: "\<exists>a u. escaped c = a # u \<and> a \<noteq> QUOTE"
  by (rule escaped_cases [of c]) (auto simp: short_escape_def split: if_splits)

lemma minify_escaped_string:
  "s = [] \<or> last s \<noteq> BACKSLASH \<Longrightarrow>
     minify_string (concat (map escaped s) @ QUOTE # r) = (concat (map escaped s) @ [QUOTE], r)"
proof (induction s)
  case Nil
  then show ?case by simp
next
  case (Cons c s)
  have ih: "minify_string (concat (map escaped s) @ QUOTE # r) = (concat (map escaped s) @ [QUOTE], r)"
    using Cons by (cases s) auto
  show ?case
  proof (cases rule: escaped_cases [of c])
    case (1 x)
    show ?thesis
    proof (cases "c = BACKSLASH")
      case True
      then obtain c' s' where s: "s = c' # s'" using Cons.prems by (cases s) auto
      obtain a u where a: "escaped c' = a # u" "a \<noteq> QUOTE" using escaped_start by blast
      have x: "x = BACKSLASH" using 1(1) True by (simp add: short_escape_def)
      show ?thesis using ih 1(2) by (simp add: x s a)
    next
      case False
      have "x = QUOTE \<or> x \<noteq> QUOTE \<and> x \<noteq> BACKSLASH"
        using 1(1) False by (auto simp: short_escape_def split: if_splits)
      then show ?thesis using ih 1(2) by auto
    qed
  next
    case 2
    have "c \<noteq> QUOTE" "c \<noteq> BACKSLASH" using 2(1) by (auto simp: short_escape_def)
    then show ?thesis using ih 2(3) by simp
  next
    case 3
    show ?thesis using ih 3(3) hex_small_unquoted by simp
  qed
qed

fun minify_safe :: "json \<Rightarrow> bool" where
  "minify_safe (J_str s) \<longleftrightarrow> s = [] \<or> last s \<noteq> BACKSLASH"
| "minify_safe (J_arr xs) \<longleftrightarrow> list_all minify_safe xs"
| "minify_safe (J_obj kvs) \<longleftrightarrow> list_all (\<lambda>(k, v). (k = [] \<or> last k \<noteq> BACKSLASH) \<and> minify_safe v) kvs"
| "minify_safe j \<longleftrightarrow> True"

lemma minify_quoted:
  "s = [] \<or> last s \<noteq> BACKSLASH \<Longrightarrow> cJSON_Minify (quoted_text s @ r) = quoted_text s @ cJSON_Minify r"
  using minify_escaped_string [of s r] by (simp add: quoted_text_def TAB_def NEWLINE_def)

lemma minify_text:
  "minify_safe j \<Longrightarrow> cJSON_Minify (json_text True d j @ r) = json_text False d j @ cJSON_Minify r"
  "list_all minify_safe xs \<Longrightarrow> cJSON_Minify (elements_text True d xs @ r) = elements_text False d xs @ cJSON_Minify r"
  "list_all (\<lambda>(k, v). (k = [] \<or> last k \<noteq> BACKSLASH) \<and> minify_safe v) kvs \<Longrightarrow>
     cJSON_Minify (members_text True d kvs @ r) = members_text False d kvs @ cJSON_Minify r"
proof (induction "True" d j and "True" d xs and "True" d kvs arbitrary: r and r and r
    rule: json_text_elements_text_members_text.induct)
  case (3 d n)
  show ?case
  proof (cases "number_text n")
    case (Some t)
    then show ?thesis using minify_plain [OF number_text_class [OF plain_numbers Some]] by simp
  qed simp
next
  case (4 d s)
  then show ?case using minify_quoted by simp
next
  case (6 d kvs)
  then show ?case by (simp add: pretty_def literals minify_tabs)
next
  case (8 d x xs)
  then show ?case by (simp add: pretty_def literals)
next
  case (10 d k v kvs)
  then show ?case by (simp add: pretty_def literals minify_tabs minify_quoted)
qed (simp_all add: literals)

text \<open>
  Minifying a formatted text gives the unformatted text of the same tree, when no string and no name ends with a
  backslash.
\<close>

theorem minify_is_unformatted:
  assumes "minify_safe j"
  shows "cJSON_Minify (json_text True 0 j) = json_text False 0 j"
  using minify_text(1) [OF assms, of 0 "[]"] by simp

text \<open>
  A string that ends with a backslash is printed with two of them; the second is taken to escape the closing quote,
  so that what follows the string is copied as a part of it.
\<close>

lemma minify_trailing_backslash:
  "cJSON_Minify [QUOTE, BACKSLASH, BACKSLASH, QUOTE, CHR '','', CHR '' '', CHR ''1''] =
     [QUOTE, BACKSLASH, BACKSLASH, QUOTE, CHR '','', CHR '' '', CHR ''1'']"
  by (simp add: TAB_def NEWLINE_def)

end
