(* ===== verification/Reply_Lines.thy ===== *)
theory Reply_Lines
  imports Json_Roundtrip Json_Minify Control
begin

text \<open>
  Replies on the wire: \<^verbatim>\<open>send_all\<close> and \<^verbatim>\<open>reply\<close> of \<^verbatim>\<open>src/control.c\<close>. A reply is a text and a newline, sent in as many pieces
  as the socket takes. The texts that the printer makes without formatting hold no control character, so a client that
  reads lines gets the replies one by one.
\<close>

section \<open>Operations\<close>

text \<open>
  The bytes a call of \<^verbatim>\<open>send_all\<close> puts on the socket, for what each \<^verbatim>\<open>send\<close> returned; it ends silently on an error.
  The two calls of \<^verbatim>\<open>reply\<close> meet results of their own.
\<close>

definition control_send_all :: "send_result list \<Rightarrow> string \<Rightarrow> string option" where
  "control_send_all rs s = map_option snd (send_all rs s)"

definition reply_bytes :: "send_result list \<Rightarrow> send_result list \<Rightarrow> string \<Rightarrow> string option" where
  "reply_bytes rs rs' json =
     (case control_send_all rs json of
        None \<Rightarrow> None
      | Some a \<Rightarrow> (case control_send_all rs' [NEWLINE] of None \<Rightarrow> None | Some b \<Rightarrow> Some (a @ b)))"

text \<open>A client that reads lines.\<close>

fun client_lines :: "string \<Rightarrow> string \<Rightarrow> string list" where
  "client_lines acc [] = []"
| "client_lines acc (c # cs) = (if c = NEWLINE then rev acc # client_lines [] cs else client_lines (c # acc) cs)"

section \<open>Texts without control characters\<close>

abbreviation no_controls :: "string \<Rightarrow> bool" where
  "no_controls \<equiv> list_all (\<lambda>c. 31 < code_of c)"

lemma number_text_no_controls: "number_text d = Some t \<Longrightarrow> no_controls t"
  by (rule number_text_class) (simp add: number_class_def isdigit_def)

lemma hex_small_no_controls [simp]: "31 < code_of (hex_small n)"
proof -
  have "\<forall>i\<in>{..<16}. 31 < code_of (''0123456789abcdef'' ! i)"
    by (simp add: lessThan_nat_numeral lessThan_Suc)
  then show ?thesis by (simp add: hex_small_def)
qed

lemma escaped_no_controls: "no_controls (escaped c)"
proof (cases rule: escaped_cases [of c])
  case (1 x)
  then show ?thesis by (auto simp: short_escape_def split: if_splits)
qed simp_all

lemma quoted_no_controls: "no_controls (quoted_text s)"
  using escaped_no_controls by (auto simp: quoted_text_def list_all_iff)

lemma json_text_no_controls:
  "no_controls (json_text False d j)" "no_controls (elements_text False d xs)" "no_controls (members_text False d kvs)"
proof (induction "False" d j and "False" d xs and "False" d kvs rule: json_text_elements_text_members_text.induct)
  case (3 d n)
  then show ?case by (cases "number_text n") (simp_all add: number_text_no_controls)
qed (simp_all add: quoted_no_controls pretty_def)

lemma no_controls_no_newline: "no_controls s \<Longrightarrow> NEWLINE \<notin> set s"
  by (auto simp: list_all_iff NEWLINE_def)

section \<open>Replies\<close>

lemma send_all_whole: "Failed \<notin> set rs \<Longrightarrow> send_all rs s = Some (ok, out) \<Longrightarrow> ok \<and> out = s"
  by (induction rs s arbitrary: ok out rule: send_all.induct) auto

lemma send_all_prefix: "send_all rs s = Some (ok, out) \<Longrightarrow> \<exists>rest. s = out @ rest \<and> (ok \<longrightarrow> rest = [])"
proof (induction rs s arbitrary: ok out rule: send_all.induct)
  case (5 n rs c cs)
  then obtain out' where "send_all rs (drop n (c # cs)) = Some (ok, out')" "out = take n (c # cs) @ out'" by auto
  with 5(1) show ?case by (metis append.assoc append_take_drop_id)
qed auto

lemma client_lines_reply: "NEWLINE \<notin> set t \<Longrightarrow> client_lines acc (t @ NEWLINE # s) = (rev acc @ t) # client_lines [] s"
  by (induction t arbitrary: acc) auto

lemma reply_bytes_whole: "Failed \<notin> set rs \<Longrightarrow> Failed \<notin> set rs' \<Longrightarrow> reply_bytes rs rs' t = Some b \<Longrightarrow> b = t @ [NEWLINE]"
  by (auto simp: reply_bytes_def control_send_all_def split: option.splits dest!: send_all_whole)


text \<open>
  C33: however the socket cuts the replies of a connection into pieces, as long as no send fails, a client that reads
  lines gets exactly the texts of the replies, in order, whatever their strings contain.
\<close>

theorem replies_are_lines:
  assumes "list_all json_wf js" and "list_all2 (\<lambda>j t. cJSON_PrintUnformatted hooks j = Some (Some t)) js ts"
    and "list_all2 (\<lambda>t b. \<exists>rs rs'. Failed \<notin> set rs \<and> Failed \<notin> set rs' \<and> reply_bytes rs rs' t = Some b) ts bs"
  shows "client_lines [] (concat bs) = ts"
  using assms
proof (induction ts arbitrary: js bs)
  case Nil
  then show ?case by simp
next
  case (Cons t ts)
  then obtain j js' b bs' where l: "js = j # js'" "bs = b # bs'"
    by (auto simp: list_all2_Cons2 list_all2_Cons1)
  with Cons.prems have h: "json_wf j" "cJSON_PrintUnformatted hooks j = Some (Some t)"
    "\<exists>rs rs'. Failed \<notin> set rs \<and> Failed \<notin> set rs' \<and> reply_bytes rs rs' t = Some b"
    and ih: "client_lines [] (concat bs') = ts"
    using Cons.IH by auto
  have "t = json_text False 0 j"
    using print_result [OF h(1), of hooks True False] h(2) by (auto simp: cJSON_PrintUnformatted_def)
  then have "NEWLINE \<notin> set t" using json_text_no_controls(1) no_controls_no_newline by blast
  moreover have "b = t @ [NEWLINE]" using h(3) reply_bytes_whole by blast
  ultimately show ?case using client_lines_reply [of t "[]" "concat bs'"] ih l by simp
qed


theorem replies_are_lines_witness:
  "client_lines [] (concat [[QUOTE, BACKSLASH, CHR ''n'', QUOTE, NEWLINE]]) = [[QUOTE, BACKSLASH, CHR ''n'', QUOTE]]"
proof (rule replies_are_lines)
  show "list_all json_wf [J_str [NEWLINE]]" by (simp add: NEWLINE_def)
  have "json_text False 0 (J_str [NEWLINE]) = [QUOTE, BACKSLASH, CHR ''n'', QUOTE]"
    by (simp add: quoted_text_def escaped_def short_escape_def NEWLINE_def)
  then show "list_all2 (\<lambda>j t. cJSON_PrintUnformatted (\<lambda>_ _. True) j = Some (Some t)) [J_str [NEWLINE]]
      [[QUOTE, BACKSLASH, CHR ''n'', QUOTE]]"
    using print_result [of "J_str [NEWLINE]" "\<lambda>_ _. True" True False]
    by (simp add: cJSON_PrintUnformatted_def INT_MAX_def NEWLINE_def)
  have "reply_bytes [Sent 2, Interrupted, Sent 9] [Sent 1] [QUOTE, BACKSLASH, CHR ''n'', QUOTE] =
      Some [QUOTE, BACKSLASH, CHR ''n'', QUOTE, NEWLINE]"
    by (simp add: reply_bytes_def control_send_all_def)
  moreover have "Failed \<notin> set [Sent 2, Interrupted, Sent 9]" "Failed \<notin> set [Sent 1]" by simp_all
  ultimately have "\<exists>rs rs'. Failed \<notin> set rs \<and> Failed \<notin> set rs' \<and>
      reply_bytes rs rs' [QUOTE, BACKSLASH, CHR ''n'', QUOTE] = Some [QUOTE, BACKSLASH, CHR ''n'', QUOTE, NEWLINE]"
    by blast
  then show "list_all2 (\<lambda>t b. \<exists>rs rs'. Failed \<notin> set rs \<and> Failed \<notin> set rs' \<and> reply_bytes rs rs' t = Some b)
      [[QUOTE, BACKSLASH, CHR ''n'', QUOTE]] [[QUOTE, BACKSLASH, CHR ''n'', QUOTE, NEWLINE]]"
    by (simp only: list_all2_Cons list_all2_Nil simp_thms)
qed

end
