(* ===== verification/Json_Heap.thy ===== *)
theory Json_Heap
  imports Json_Parse
begin

text \<open>
  The structures of \<^verbatim>\<open>src/cjson/cJSON.c\<close> on the heap: nodes in doubly linked lists whose first node
  points back to the last, and the operations that build, search, change and free them. A field of
  \<^verbatim>\<open>struct cJSON\<close> is a map from addresses; \<^verbatim>\<open>type\<close>, \<^verbatim>\<open>valuestring\<close>, \<^verbatim>\<open>valueint\<close> and \<^verbatim>\<open>valuedouble\<close> are one content, the
  two flags of \<^verbatim>\<open>type\<close> fields of their own. An access through a pointer to memory that is not allocated,
  and a loop that does not end, are the value \<open>None\<close>. Strings are values; the number of live blocks counts them.
\<close>

section \<open>The heap\<close>

type_synonym addr = nat

datatype content = C_invalid | C_null | C_bool bool | C_num cdouble | C_str string | C_raw string | C_array | C_object

record cjson_heap =
  h_alloc :: "addr \<Rightarrow> bool"
  h_top :: addr
  h_next :: "addr \<Rightarrow> addr option"
  h_prev :: "addr \<Rightarrow> addr option"
  h_child :: "addr \<Rightarrow> addr option"
  h_content :: "addr \<Rightarrow> content"
  h_string :: "addr \<Rightarrow> string option"
  h_is_reference :: "addr \<Rightarrow> bool"
  h_string_is_const :: "addr \<Rightarrow> bool"
  h_calls :: nat
  h_blocks :: int

text \<open>The program goes on only if the pointer can be followed.\<close>

definition access :: "addr \<Rightarrow> cjson_heap \<Rightarrow> unit option" where
  "access a h = (if h_alloc h a then Some () else None)"

abbreviation set_next :: "addr \<Rightarrow> addr option \<Rightarrow> cjson_heap \<Rightarrow> cjson_heap" where
  "set_next a p h \<equiv> h\<lparr>h_next := (h_next h)(a := p)\<rparr>"

abbreviation set_prev :: "addr \<Rightarrow> addr option \<Rightarrow> cjson_heap \<Rightarrow> cjson_heap" where
  "set_prev a p h \<equiv> h\<lparr>h_prev := (h_prev h)(a := p)\<rparr>"

abbreviation set_child :: "addr \<Rightarrow> addr option \<Rightarrow> cjson_heap \<Rightarrow> cjson_heap" where
  "set_child a p h \<equiv> h\<lparr>h_child := (h_child h)(a := p)\<rparr>"

abbreviation set_content :: "addr \<Rightarrow> content \<Rightarrow> cjson_heap \<Rightarrow> cjson_heap" where
  "set_content a c h \<equiv> h\<lparr>h_content := (h_content h)(a := c)\<rparr>"

section \<open>Allocation\<close>

text \<open>A new node has an address that was never used; all its fields are zero.\<close>

definition new_node :: "alloc_hooks \<Rightarrow> cjson_heap \<Rightarrow> addr option \<times> cjson_heap" where
  "new_node hooks h =
     (let a = h_top h; h = h\<lparr>h_calls := h_calls h + 1\<rparr>
      in if hooks (h_calls h - 1) SIZEOF_CJSON then
           (Some a, h\<lparr>h_alloc := (h_alloc h)(a := True), h_top := a + 1, h_next := (h_next h)(a := None),
                      h_prev := (h_prev h)(a := None), h_child := (h_child h)(a := None),
                      h_content := (h_content h)(a := C_invalid), h_string := (h_string h)(a := None),
                      h_is_reference := (h_is_reference h)(a := False),
                      h_string_is_const := (h_string_is_const h)(a := False)\<rparr>)
         else (None, h))"

definition cJSON_strdup :: "alloc_hooks \<Rightarrow> string option \<Rightarrow> cjson_heap \<Rightarrow> string option \<times> cjson_heap" where
  "cJSON_strdup hooks s h =
     (case s of
        None \<Rightarrow> (None, h)
      | Some t \<Rightarrow>
          if hooks (h_calls h) (length t + 1) then (Some t, h\<lparr>h_calls := h_calls h + 1, h_blocks := h_blocks h + 1\<rparr>)
          else (None, h\<lparr>h_calls := h_calls h + 1\<rparr>))"

text \<open>The blocks a node owns besides itself are released with it.\<close>

definition owned_text :: "content \<Rightarrow> int" where
  "owned_text c = (case c of C_str _ \<Rightarrow> 1 | C_raw _ \<Rightarrow> 1 | _ \<Rightarrow> 0)"

definition release :: "addr \<Rightarrow> cjson_heap \<Rightarrow> cjson_heap" where
  "release a h =
     h\<lparr>h_alloc := (h_alloc h)(a := False),
       h_blocks := h_blocks h - (if h_is_reference h a then 0 else owned_text (h_content h a)) -
         (if \<not> h_string_is_const h a \<and> h_string h a \<noteq> None then 1 else 0)\<rparr>"

partial_function (option) delete_nodes :: "addr option \<Rightarrow> cjson_heap \<Rightarrow> cjson_heap option" where
  "delete_nodes item h =
     (case item of
        None \<Rightarrow> Some h
      | Some a \<Rightarrow> do {
          access a h;
          let nxt = h_next h a;
          h \<leftarrow> (if \<not> h_is_reference h a then delete_nodes (h_child h a) h else Some h);
          delete_nodes nxt (release a h)
        })"

section \<open>Searching\<close>

partial_function (option) count_nodes :: "addr option \<Rightarrow> cjson_heap \<Rightarrow> nat option" where
  "count_nodes child h =
     (case child of
        None \<Rightarrow> Some 0
      | Some a \<Rightarrow> do {
          access a h;
          n \<leftarrow> count_nodes (h_next h a) h;
          Some (n + 1)
        })"

text \<open>The count is a \<^verbatim>\<open>size_t\<close>; the result is an \<^verbatim>\<open>int\<close>.\<close>

definition array_size :: "addr option \<Rightarrow> cjson_heap \<Rightarrow> int option" where
  "array_size array h =
     (case array of
        None \<Rightarrow> Some 0
      | Some a \<Rightarrow> do {
          access a h;
          n \<leftarrow> count_nodes (h_child h a) h;
          Some (signed_take_bit 31 (int n))
        })"

fun nth_node :: "addr option \<Rightarrow> nat \<Rightarrow> cjson_heap \<Rightarrow> addr option option" where
  "nth_node None i h = Some None"
| "nth_node (Some a) 0 h = Some (Some a)"
| "nth_node (Some a) (Suc i) h = do {
     access a h;
     nth_node (h_next h a) i h
   }"

definition get_array_item :: "addr option \<Rightarrow> nat \<Rightarrow> cjson_heap \<Rightarrow> addr option option" where
  "get_array_item array index h =
     (case array of
        None \<Rightarrow> Some None
      | Some a \<Rightarrow> do {
          access a h;
          nth_node (h_child h a) index h
        })"

definition cJSON_GetArrayItem :: "addr option \<Rightarrow> int \<Rightarrow> cjson_heap \<Rightarrow> addr option option" where
  "cJSON_GetArrayItem array index h = (if index < 0 then Some None else get_array_item array (nat index) h)"

definition same_letters :: "string \<Rightarrow> string \<Rightarrow> bool" where
  "same_letters s t \<longleftrightarrow> map tolower s = map tolower t"

definition names_match :: "bool \<Rightarrow> string \<Rightarrow> string \<Rightarrow> bool" where
  "names_match case_sensitive s t = (if case_sensitive then s = t else same_letters s t)"

text \<open>A node without a name ends a search that respects case and is passed over by the other.\<close>

partial_function (option) find_node :: "bool \<Rightarrow> string \<Rightarrow> addr option \<Rightarrow> cjson_heap \<Rightarrow> addr option option" where
  "find_node case_sensitive name current h =
     (case current of
        None \<Rightarrow> Some None
      | Some a \<Rightarrow> do {
          access a h;
          case h_string h a of
            None \<Rightarrow> if case_sensitive then Some None else find_node case_sensitive name (h_next h a) h
          | Some s \<Rightarrow>
              if names_match case_sensitive name s then Some (Some a)
              else find_node case_sensitive name (h_next h a) h
        })"

definition object_item :: "bool \<Rightarrow> addr option \<Rightarrow> string option \<Rightarrow> cjson_heap \<Rightarrow> addr option option" where
  "object_item case_sensitive object name h =
     (case (object, name) of
        (Some a, Some s) \<Rightarrow> do {
          access a h;
          find_node case_sensitive s (h_child h a) h
        }
      | _ \<Rightarrow> Some None)"

definition cJSON_GetObjectItem :: "addr option \<Rightarrow> string option \<Rightarrow> cjson_heap \<Rightarrow> addr option option" where
  "cJSON_GetObjectItem = object_item False"

definition cJSON_GetObjectItemCaseSensitive :: "addr option \<Rightarrow> string option \<Rightarrow> cjson_heap \<Rightarrow> addr option option" where
  "cJSON_GetObjectItemCaseSensitive = object_item True"

definition cJSON_HasObjectItem :: "addr option \<Rightarrow> string option \<Rightarrow> cjson_heap \<Rightarrow> bool option" where
  "cJSON_HasObjectItem object name h = map_option (\<lambda>p. p \<noteq> None) (cJSON_GetObjectItem object name h)"

text \<open>The kind of a node.\<close>

definition item_is :: "(content \<Rightarrow> bool) \<Rightarrow> addr option \<Rightarrow> cjson_heap \<Rightarrow> bool option" where
  "item_is kind item h =
     (case item of
        None \<Rightarrow> Some False
      | Some a \<Rightarrow> do {
          access a h;
          Some (kind (h_content h a))
        })"

definition node_IsInvalid :: "addr option \<Rightarrow> cjson_heap \<Rightarrow> bool option" where
  "node_IsInvalid = item_is (\<lambda>c. c = C_invalid)"

definition node_IsFalse :: "addr option \<Rightarrow> cjson_heap \<Rightarrow> bool option" where
  "node_IsFalse = item_is (\<lambda>c. c = C_bool False)"

definition node_IsTrue :: "addr option \<Rightarrow> cjson_heap \<Rightarrow> bool option" where
  "node_IsTrue = item_is (\<lambda>c. c = C_bool True)"

definition node_IsBool :: "addr option \<Rightarrow> cjson_heap \<Rightarrow> bool option" where
  "node_IsBool = item_is (\<lambda>c. c = C_bool True \<or> c = C_bool False)"

definition node_IsNull :: "addr option \<Rightarrow> cjson_heap \<Rightarrow> bool option" where
  "node_IsNull = item_is (\<lambda>c. c = C_null)"

definition node_IsNumber :: "addr option \<Rightarrow> cjson_heap \<Rightarrow> bool option" where
  "node_IsNumber = item_is (\<lambda>c. case c of C_num _ \<Rightarrow> True | _ \<Rightarrow> False)"

definition node_IsString :: "addr option \<Rightarrow> cjson_heap \<Rightarrow> bool option" where
  "node_IsString = item_is (\<lambda>c. case c of C_str _ \<Rightarrow> True | _ \<Rightarrow> False)"

definition node_IsArray :: "addr option \<Rightarrow> cjson_heap \<Rightarrow> bool option" where
  "node_IsArray = item_is (\<lambda>c. c = C_array)"

definition node_IsObject :: "addr option \<Rightarrow> cjson_heap \<Rightarrow> bool option" where
  "node_IsObject = item_is (\<lambda>c. c = C_object)"

definition node_IsRaw :: "addr option \<Rightarrow> cjson_heap \<Rightarrow> bool option" where
  "node_IsRaw = item_is (\<lambda>c. case c of C_raw _ \<Rightarrow> True | _ \<Rightarrow> False)"

section \<open>Adding\<close>

definition suffix_object :: "addr \<Rightarrow> addr \<Rightarrow> cjson_heap \<Rightarrow> cjson_heap option" where
  "suffix_object prev item h = do {
     access prev h;
     access item h;
     Some (set_prev item (Some prev) (set_next prev (Some item) h))
   }"

definition add_item_to_array :: "addr option \<Rightarrow> addr option \<Rightarrow> cjson_heap \<Rightarrow> (bool \<times> cjson_heap) option" where
  "add_item_to_array array item h =
     (case (item, array) of
        (Some i, Some a) \<Rightarrow>
          if a = i then Some (False, h)
          else do {
            access a h;
            case h_child h a of
              None \<Rightarrow> do {
                access i h;
                Some (True, set_next i None (set_prev i (Some i) (set_child a (Some i) h)))
              }
            | Some c \<Rightarrow> do {
                access c h;
                case h_prev h c of
                  None \<Rightarrow> Some (True, h)
                | Some l \<Rightarrow> do {
                    h \<leftarrow> suffix_object l i h;
                    c \<leftarrow> h_child h a;
                    Some (True, set_prev c (Some i) h)
                  }
              }
          }
      | _ \<Rightarrow> Some (False, h))"

definition cJSON_AddItemToArray :: "addr option \<Rightarrow> addr option \<Rightarrow> cjson_heap \<Rightarrow> (bool \<times> cjson_heap) option" where
  "cJSON_AddItemToArray = add_item_to_array"

text \<open>The old name is released unless it is a constant.\<close>

definition rename :: "addr \<Rightarrow> string \<Rightarrow> bool \<Rightarrow> cjson_heap \<Rightarrow> cjson_heap" where
  "rename i key constant_key h =
     (let h = (if \<not> h_string_is_const h i \<and> h_string h i \<noteq> None then h\<lparr>h_blocks := h_blocks h - 1\<rparr> else h)
      in h\<lparr>h_string := (h_string h)(i := Some key), h_string_is_const := (h_string_is_const h)(i := constant_key)\<rparr>)"

definition add_item_to_object ::
  "alloc_hooks \<Rightarrow> addr option \<Rightarrow> string option \<Rightarrow> addr option \<Rightarrow> bool \<Rightarrow> cjson_heap \<Rightarrow> (bool \<times> cjson_heap) option" where
  "add_item_to_object hooks object string item constant_key h =
     (case (object, string, item) of
        (Some a, Some s, Some i) \<Rightarrow>
          if a = i then Some (False, h)
          else
            (case (if constant_key then (Some s, h) else cJSON_strdup hooks (Some s) h) of
               (None, h) \<Rightarrow> Some (False, h)
             | (Some key, h) \<Rightarrow> do {
                 access i h;
                 add_item_to_array object item (rename i key constant_key h)
               })
      | _ \<Rightarrow> Some (False, h))"

definition cJSON_AddItemToObject ::
  "alloc_hooks \<Rightarrow> addr option \<Rightarrow> string option \<Rightarrow> addr option \<Rightarrow> cjson_heap \<Rightarrow> (bool \<times> cjson_heap) option" where
  "cJSON_AddItemToObject hooks object string item h = add_item_to_object hooks object string item False h"

definition cJSON_AddItemToObjectCS ::
  "alloc_hooks \<Rightarrow> addr option \<Rightarrow> string option \<Rightarrow> addr option \<Rightarrow> cjson_heap \<Rightarrow> (bool \<times> cjson_heap) option" where
  "cJSON_AddItemToObjectCS hooks object string item h = add_item_to_object hooks object string item True h"

section \<open>Creating\<close>

definition create :: "alloc_hooks \<Rightarrow> content \<Rightarrow> cjson_heap \<Rightarrow> addr option \<times> cjson_heap" where
  "create hooks c h =
     (case new_node hooks h of
        (None, h) \<Rightarrow> (None, h)
      | (Some a, h) \<Rightarrow> (Some a, set_content a c h))"

definition cJSON_CreateNull :: "alloc_hooks \<Rightarrow> cjson_heap \<Rightarrow> addr option \<times> cjson_heap" where
  "cJSON_CreateNull hooks = create hooks C_null"

definition cJSON_CreateTrue :: "alloc_hooks \<Rightarrow> cjson_heap \<Rightarrow> addr option \<times> cjson_heap" where
  "cJSON_CreateTrue hooks = create hooks (C_bool True)"

definition cJSON_CreateFalse :: "alloc_hooks \<Rightarrow> cjson_heap \<Rightarrow> addr option \<times> cjson_heap" where
  "cJSON_CreateFalse hooks = create hooks (C_bool False)"

definition cJSON_CreateBool :: "alloc_hooks \<Rightarrow> bool \<Rightarrow> cjson_heap \<Rightarrow> addr option \<times> cjson_heap" where
  "cJSON_CreateBool hooks boolean = create hooks (C_bool boolean)"

definition cJSON_CreateNumber :: "alloc_hooks \<Rightarrow> cdouble \<Rightarrow> cjson_heap \<Rightarrow> addr option \<times> cjson_heap" where
  "cJSON_CreateNumber hooks num = create hooks (C_num num)"

definition cJSON_CreateArray :: "alloc_hooks \<Rightarrow> cjson_heap \<Rightarrow> addr option \<times> cjson_heap" where
  "cJSON_CreateArray hooks = create hooks C_array"

definition cJSON_CreateObject :: "alloc_hooks \<Rightarrow> cjson_heap \<Rightarrow> addr option \<times> cjson_heap" where
  "cJSON_CreateObject hooks = create hooks C_object"

text \<open>A node with a text of its own; without the text there is no node either.\<close>

definition create_text ::
  "alloc_hooks \<Rightarrow> (string \<Rightarrow> content) \<Rightarrow> string option \<Rightarrow> cjson_heap \<Rightarrow> (addr option \<times> cjson_heap) option" where
  "create_text hooks c s h =
     (case new_node hooks h of
        (None, h) \<Rightarrow> Some (None, h)
      | (Some a, h) \<Rightarrow>
          (case cJSON_strdup hooks s h of
             (None, h) \<Rightarrow> do {
               h \<leftarrow> delete_nodes (Some a) h;
               Some (None, h)
             }
           | (Some t, h) \<Rightarrow> Some (Some a, set_content a (c t) h)))"

definition cJSON_CreateString ::
  "alloc_hooks \<Rightarrow> string option \<Rightarrow> cjson_heap \<Rightarrow> (addr option \<times> cjson_heap) option" where
  "cJSON_CreateString hooks = create_text hooks C_str"

definition cJSON_CreateRaw ::
  "alloc_hooks \<Rightarrow> string option \<Rightarrow> cjson_heap \<Rightarrow> (addr option \<times> cjson_heap) option" where
  "cJSON_CreateRaw hooks = create_text hooks C_raw"

text \<open>The wrappers that create a node and add it, or delete it again.\<close>

definition add_created ::
  "alloc_hooks \<Rightarrow> addr option \<Rightarrow> string option \<Rightarrow> (addr option \<times> cjson_heap) option \<Rightarrow> (addr option \<times> cjson_heap) option" where
  "add_created hooks object name made = do {
     (item, h) \<leftarrow> made;
     (ok, h) \<leftarrow> add_item_to_object hooks object name item False h;
     if ok then Some (item, h)
     else do {
       h \<leftarrow> delete_nodes item h;
       Some (None, h)
     }
   }"

definition cJSON_AddNullToObject ::
  "alloc_hooks \<Rightarrow> addr option \<Rightarrow> string option \<Rightarrow> cjson_heap \<Rightarrow> (addr option \<times> cjson_heap) option" where
  "cJSON_AddNullToObject hooks object name h = add_created hooks object name (Some (cJSON_CreateNull hooks h))"

definition cJSON_AddTrueToObject ::
  "alloc_hooks \<Rightarrow> addr option \<Rightarrow> string option \<Rightarrow> cjson_heap \<Rightarrow> (addr option \<times> cjson_heap) option" where
  "cJSON_AddTrueToObject hooks object name h = add_created hooks object name (Some (cJSON_CreateTrue hooks h))"

definition cJSON_AddFalseToObject ::
  "alloc_hooks \<Rightarrow> addr option \<Rightarrow> string option \<Rightarrow> cjson_heap \<Rightarrow> (addr option \<times> cjson_heap) option" where
  "cJSON_AddFalseToObject hooks object name h = add_created hooks object name (Some (cJSON_CreateFalse hooks h))"

definition cJSON_AddBoolToObject ::
  "alloc_hooks \<Rightarrow> addr option \<Rightarrow> string option \<Rightarrow> bool \<Rightarrow> cjson_heap \<Rightarrow> (addr option \<times> cjson_heap) option" where
  "cJSON_AddBoolToObject hooks object name b h = add_created hooks object name (Some (cJSON_CreateBool hooks b h))"

definition cJSON_AddNumberToObject ::
  "alloc_hooks \<Rightarrow> addr option \<Rightarrow> string option \<Rightarrow> cdouble \<Rightarrow> cjson_heap \<Rightarrow> (addr option \<times> cjson_heap) option" where
  "cJSON_AddNumberToObject hooks object name n h = add_created hooks object name (Some (cJSON_CreateNumber hooks n h))"

definition cJSON_AddStringToObject ::
  "alloc_hooks \<Rightarrow> addr option \<Rightarrow> string option \<Rightarrow> string option \<Rightarrow> cjson_heap \<Rightarrow> (addr option \<times> cjson_heap) option" where
  "cJSON_AddStringToObject hooks object name s h = add_created hooks object name (cJSON_CreateString hooks s h)"

definition cJSON_AddRawToObject ::
  "alloc_hooks \<Rightarrow> addr option \<Rightarrow> string option \<Rightarrow> string option \<Rightarrow> cjson_heap \<Rightarrow> (addr option \<times> cjson_heap) option" where
  "cJSON_AddRawToObject hooks object name s h = add_created hooks object name (cJSON_CreateRaw hooks s h)"

definition cJSON_AddObjectToObject ::
  "alloc_hooks \<Rightarrow> addr option \<Rightarrow> string option \<Rightarrow> cjson_heap \<Rightarrow> (addr option \<times> cjson_heap) option" where
  "cJSON_AddObjectToObject hooks object name h = add_created hooks object name (Some (cJSON_CreateObject hooks h))"

definition cJSON_AddArrayToObject ::
  "alloc_hooks \<Rightarrow> addr option \<Rightarrow> string option \<Rightarrow> cjson_heap \<Rightarrow> (addr option \<times> cjson_heap) option" where
  "cJSON_AddArrayToObject hooks object name h = add_created hooks object name (Some (cJSON_CreateArray hooks h))"

section \<open>Removing, inserting and replacing\<close>

text \<open>A write through a pointer that must not be NULL.\<close>

definition via :: "addr option \<Rightarrow> cjson_heap \<Rightarrow> addr option" where
  "via p h = do {
     a \<leftarrow> p;
     access a h;
     Some a
   }"

definition cJSON_DetachItemViaPointer ::
  "addr option \<Rightarrow> addr option \<Rightarrow> cjson_heap \<Rightarrow> (addr option \<times> cjson_heap) option" where
  "cJSON_DetachItemViaPointer parent item h =
     (case (parent, item) of
        (Some a, Some i) \<Rightarrow> do {
          access a h;
          access i h;
          h \<leftarrow> (if h_child h a \<noteq> Some i then do {
                  p \<leftarrow> via (h_prev h i) h;
                  Some (set_next p (h_next h i) h)
                } else Some h);
          h \<leftarrow> (case h_next h i of
                  None \<Rightarrow> Some h
                | Some n \<Rightarrow> do {
                    access n h;
                    Some (set_prev n (h_prev h i) h)
                  });
          h \<leftarrow> (if h_child h a = Some i then Some (set_child a (h_next h i) h)
                else if h_next h i = None then do {
                  c \<leftarrow> via (h_child h a) h;
                  Some (set_prev c (h_prev h i) h)
                } else Some h);
          Some (Some i, set_next i None (set_prev i None h))
        }
      | _ \<Rightarrow> Some (None, h))"

definition cJSON_DetachItemFromArray ::
  "addr option \<Rightarrow> int \<Rightarrow> cjson_heap \<Rightarrow> (addr option \<times> cjson_heap) option" where
  "cJSON_DetachItemFromArray array which h =
     (if which < 0 then Some (None, h)
      else do {
        item \<leftarrow> get_array_item array (nat which) h;
        cJSON_DetachItemViaPointer array item h
      })"

definition cJSON_DeleteItemFromArray :: "addr option \<Rightarrow> int \<Rightarrow> cjson_heap \<Rightarrow> cjson_heap option" where
  "cJSON_DeleteItemFromArray array which h = do {
     (item, h) \<leftarrow> cJSON_DetachItemFromArray array which h;
     delete_nodes item h
   }"

definition detach_from_object ::
  "bool \<Rightarrow> addr option \<Rightarrow> string option \<Rightarrow> cjson_heap \<Rightarrow> (addr option \<times> cjson_heap) option" where
  "detach_from_object case_sensitive object name h = do {
     to_detach \<leftarrow> object_item case_sensitive object name h;
     cJSON_DetachItemViaPointer object to_detach h
   }"

definition delete_from_object :: "bool \<Rightarrow> addr option \<Rightarrow> string option \<Rightarrow> cjson_heap \<Rightarrow> cjson_heap option" where
  "delete_from_object case_sensitive object name h = do {
     (item, h) \<leftarrow> detach_from_object case_sensitive object name h;
     delete_nodes item h
   }"

definition cJSON_InsertItemInArray ::
  "addr option \<Rightarrow> int \<Rightarrow> addr option \<Rightarrow> cjson_heap \<Rightarrow> (bool \<times> cjson_heap) option" where
  "cJSON_InsertItemInArray array which newitem h =
     (case newitem of
        None \<Rightarrow> Some (False, h)
      | Some i \<Rightarrow>
          if which < 0 then Some (False, h)
          else do {
            after \<leftarrow> get_array_item array (nat which) h;
            case (after, array) of
              (Some b, Some a) \<Rightarrow> do {
                access b h;
                if h_child h a \<noteq> Some b \<and> h_prev h b = None then Some (False, h)
                else do {
                  access i h;
                  let h = set_prev i (h_prev h b) (set_next i (Some b) h);
                  let h = set_prev b (Some i) h;
                  if h_child h a = Some b then Some (True, set_child a (Some i) h)
                  else do {
                    p \<leftarrow> via (h_prev h i) h;
                    Some (True, set_next p (Some i) h)
                  }
                }
              }
            | _ \<Rightarrow> add_item_to_array array newitem h
          })"

definition cJSON_ReplaceItemViaPointer ::
  "addr option \<Rightarrow> addr option \<Rightarrow> addr option \<Rightarrow> cjson_heap \<Rightarrow> (bool \<times> cjson_heap) option" where
  "cJSON_ReplaceItemViaPointer parent item replacement h =
     (case parent of
        None \<Rightarrow> Some (False, h)
      | Some a \<Rightarrow> do {
          access a h;
          case (h_child h a, replacement, item) of
            (Some c, Some r, Some i) \<Rightarrow>
              if r = i then Some (True, h)
              else do {
                access i h;
                access r h;
                let h = set_prev r (h_prev h i) (set_next r (h_next h i) h);
                h \<leftarrow> (case h_next h r of
                        None \<Rightarrow> Some h
                      | Some n \<Rightarrow> do {
                          access n h;
                          Some (set_prev n (Some r) h)
                        });
                h \<leftarrow> (if c = i then
                        let h = (if h_prev h c = Some c then set_prev r (Some r) h else h)
                        in Some (set_child a (Some r) h)
                      else do {
                        h \<leftarrow> (case h_prev h r of
                                None \<Rightarrow> Some h
                              | Some p \<Rightarrow> do {
                                  access p h;
                                  Some (set_next p (Some r) h)
                                });
                        if h_next h r = None then do {
                          access c h;
                          Some (set_prev c (Some r) h)
                        } else Some h
                      });
                h \<leftarrow> delete_nodes (Some i) (set_prev i None (set_next i None h));
                Some (True, h)
              }
          | _ \<Rightarrow> Some (False, h)
        })"

definition cJSON_ReplaceItemInArray ::
  "addr option \<Rightarrow> int \<Rightarrow> addr option \<Rightarrow> cjson_heap \<Rightarrow> (bool \<times> cjson_heap) option" where
  "cJSON_ReplaceItemInArray array which newitem h =
     (if which < 0 then Some (False, h)
      else do {
        item \<leftarrow> get_array_item array (nat which) h;
        cJSON_ReplaceItemViaPointer array item newitem h
      })"

definition replace_item_in_object ::
  "alloc_hooks \<Rightarrow> addr option \<Rightarrow> string option \<Rightarrow> addr option \<Rightarrow> bool \<Rightarrow> cjson_heap \<Rightarrow> (bool \<times> cjson_heap) option" where
  "replace_item_in_object hooks object name replacement case_sensitive h =
     (case (replacement, name) of
        (Some r, Some s) \<Rightarrow> do {
          access r h;
          let h = (if \<not> h_string_is_const h r \<and> h_string h r \<noteq> None then h\<lparr>h_blocks := h_blocks h - 1\<rparr> else h);
          case cJSON_strdup hooks (Some s) h of
            (None, h) \<Rightarrow> Some (False, h\<lparr>h_string := (h_string h)(r := None)\<rparr>)
          | (Some key, h) \<Rightarrow>
              let h = h\<lparr>h_string := (h_string h)(r := Some key), h_string_is_const := (h_string_is_const h)(r := False)\<rparr>
              in do {
                item \<leftarrow> object_item case_sensitive object name h;
                cJSON_ReplaceItemViaPointer object item replacement h
              }
        }
      | _ \<Rightarrow> Some (False, h))"

section \<open>References\<close>

definition create_reference :: "alloc_hooks \<Rightarrow> addr option \<Rightarrow> cjson_heap \<Rightarrow> (addr option \<times> cjson_heap) option" where
  "create_reference hooks item h =
     (case item of
        None \<Rightarrow> Some (None, h)
      | Some i \<Rightarrow>
          (case new_node hooks h of
             (None, h) \<Rightarrow> Some (None, h)
           | (Some a, h) \<Rightarrow> do {
               access i h;
               Some (Some a, h\<lparr>h_child := (h_child h)(a := h_child h i), h_content := (h_content h)(a := h_content h i),
                               h_string_is_const := (h_string_is_const h)(a := h_string_is_const h i),
                               h_is_reference := (h_is_reference h)(a := True)\<rparr>)
             }))"

definition cJSON_AddItemReferenceToArray ::
  "alloc_hooks \<Rightarrow> addr option \<Rightarrow> addr option \<Rightarrow> cjson_heap \<Rightarrow> (bool \<times> cjson_heap) option" where
  "cJSON_AddItemReferenceToArray hooks array item h =
     (if array = None then Some (False, h)
      else do {
        (r, h) \<leftarrow> create_reference hooks item h;
        add_item_to_array array r h
      })"

definition cJSON_AddItemReferenceToObject ::
  "alloc_hooks \<Rightarrow> addr option \<Rightarrow> string option \<Rightarrow> addr option \<Rightarrow> cjson_heap \<Rightarrow> (bool \<times> cjson_heap) option" where
  "cJSON_AddItemReferenceToObject hooks object name item h =
     (if object = None \<or> name = None then Some (False, h)
      else do {
        (r, h) \<leftarrow> create_reference hooks item h;
        add_item_to_object hooks object name r False h
      })"

end
