(* ===== verification/Json_Forest.thy ===== *)
theory Json_Forest
  imports Json_Heap "HOL-Library.Multiset"
begin

text \<open>
  What the heap structures of \<^verbatim>\<open>src/cjson/cJSON.c\<close> stand for. A tree of nodes remembers the address of every
  node; \<open>heap_holds\<close> says that the heap contains the tree, \<open>forest\<close> that the allocated nodes are exactly those of some
  trees, each once, and that the live blocks are exactly the texts they own. Every operation that changes links
  is one change of the children of one node, so one lemma on such a change serves them all.
\<close>

section \<open>Trees of nodes\<close>

datatype jtree = Node (root: addr) (label: "string option") (body: content) (kids: "jtree list")

primrec addrs :: "jtree \<Rightarrow> addr list" where
  "addrs (Node a s c ks) = a # concat (map addrs ks)"

primrec subtrees :: "jtree \<Rightarrow> jtree list" where
  "subtrees (Node a s c ks) = Node a s c ks # concat (map subtrees ks)"

text \<open>The JSON value a tree stands for; a raw or invalid node stands for none.\<close>

fun denote :: "jtree \<Rightarrow> json option" where
  "denote (Node a s c ks) =
     (case c of
        C_null \<Rightarrow> Some J_null
      | C_bool b \<Rightarrow> Some (J_bool b)
      | C_num n \<Rightarrow> Some (J_num n)
      | C_str t \<Rightarrow> Some (J_str t)
      | C_array \<Rightarrow> map_option J_arr (those (map denote ks))
      | C_object \<Rightarrow>
          map_option J_obj (those (map (\<lambda>k. case label k of None \<Rightarrow> None | Some n \<Rightarrow> map_option (Pair n) (denote k)) ks))
      | _ \<Rightarrow> None)"

text \<open>The tree with other children at one node.\<close>

fun graft :: "addr \<Rightarrow> jtree list \<Rightarrow> jtree \<Rightarrow> jtree" where
  "graft a ks' (Node b s c ks) = Node b s c (if b = a then ks' else map (graft a ks') ks)"

section \<open>Linked lists\<close>

fun hd_ptr :: "addr list \<Rightarrow> addr option \<Rightarrow> addr option" where
  "hd_ptr [] q = q"
| "hd_ptr (a # as) q = Some a"

fun last_ptr :: "addr option \<Rightarrow> addr list \<Rightarrow> addr option" where
  "last_ptr p [] = p"
| "last_ptr p (a # as) = last_ptr (Some a) as"

fun nexts :: "(addr \<Rightarrow> addr option) \<Rightarrow> addr list \<Rightarrow> addr option \<Rightarrow> bool" where
  "nexts f [] q = True"
| "nexts f (a # as) q = (f a = hd_ptr as q \<and> nexts f as q)"

fun prevs :: "(addr \<Rightarrow> addr option) \<Rightarrow> addr option \<Rightarrow> addr list \<Rightarrow> bool" where
  "prevs f p [] = True"
| "prevs f p (a # as) = (f a = p \<and> prevs f (Some a) as)"

text \<open>A list of siblings: the last has no successor and is the predecessor of the first.\<close>

definition linked :: "cjson_heap \<Rightarrow> addr list \<Rightarrow> bool" where
  "linked h as \<longleftrightarrow> nexts (h_next h) as None \<and> prevs (h_prev h) (last_ptr None as) as"

fun heap_holds :: "cjson_heap \<Rightarrow> jtree \<Rightarrow> bool" where
  "heap_holds h (Node a s c ks) \<longleftrightarrow>
     h_alloc h a \<and> h_string h a = s \<and> h_content h a = c \<and> \<not> h_is_reference h a \<and>
     h_child h a = hd_ptr (map root ks) None \<and> linked h (map root ks) \<and> (\<forall>k \<in> set ks. heap_holds h k)"

definition node_blocks :: "cjson_heap \<Rightarrow> addr \<Rightarrow> int" where
  "node_blocks h a =
     (if h_is_reference h a then 0 else owned_text (h_content h a)) +
     (if \<not> h_string_is_const h a \<and> h_string h a \<noteq> None then 1 else 0)"

definition forest_addrs :: "jtree list \<Rightarrow> addr list" where
  "forest_addrs ts = concat (map addrs ts)"

definition forest :: "cjson_heap \<Rightarrow> jtree list \<Rightarrow> bool" where
  "forest h ts \<longleftrightarrow>
     (\<forall>t \<in> set ts. heap_holds h t \<and> h_next h (root t) = None) \<and> distinct (forest_addrs ts) \<and>
     (\<forall>a. h_alloc h a \<longleftrightarrow> a \<in> set (forest_addrs ts)) \<and> (\<forall>a. h_alloc h a \<longrightarrow> a < h_top h) \<and>
     h_blocks h = sum_list (map (node_blocks h) (forest_addrs ts))"

section \<open>Lemmas on lists of nodes\<close>

lemma hd_ptr_append [simp]: "hd_ptr (xs @ ys) q = hd_ptr xs (hd_ptr ys q)"
  by (cases xs) simp_all

lemma last_ptr_append [simp]: "last_ptr p (xs @ ys) = last_ptr (last_ptr p xs) ys"
  by (induction p xs rule: last_ptr.induct) simp_all

lemma nexts_append [simp]: "nexts f (xs @ ys) q \<longleftrightarrow> nexts f xs (hd_ptr ys q) \<and> nexts f ys q"
  by (induction xs) auto

lemma prevs_append [simp]: "prevs f p (xs @ ys) \<longleftrightarrow> prevs f p xs \<and> prevs f (last_ptr p xs) ys"
  by (induction f p xs rule: prevs.induct) auto

lemma nexts_cong: "(\<And>a. a \<in> set xs \<Longrightarrow> f a = g a) \<Longrightarrow> nexts f xs q = nexts g xs q"
  by (induction xs) simp_all

lemma prevs_cong: "(\<And>a. a \<in> set xs \<Longrightarrow> f a = g a) \<Longrightarrow> prevs f p xs = prevs g p xs"
  by (induction f p xs rule: prevs.induct) simp_all

lemma nexts_upd [simp]: "a \<notin> set xs \<Longrightarrow> nexts (f(a := v)) xs q = nexts f xs q"
  by (rule nexts_cong) auto

lemma prevs_upd [simp]: "a \<notin> set xs \<Longrightarrow> prevs (f(a := v)) p xs = prevs f p xs"
  by (rule prevs_cong) auto

lemma last_ptr_snoc_cases: "xs = [] \<or> (\<exists>ys l. xs = ys @ [l])"
  by (cases xs rule: rev_cases) auto

lemma linked_cong:
  "(\<And>a. a \<in> set as \<Longrightarrow> h_next h' a = h_next h a \<and> h_prev h' a = h_prev h a) \<Longrightarrow> linked h' as = linked h as"
  unfolding linked_def by (metis nexts_cong prevs_cong)

section \<open>Lemmas on trees\<close>

lemma root_addrs [simp]: "root t \<in> set (addrs t)"
  by (cases t) simp

lemma roots_in: "root ` set us \<subseteq> set (concat (map addrs us))"
  by (induction us) auto

lemma tl_addrs: "set (tl (addrs t)) \<subseteq> set (addrs t)"
  by (cases t) auto

lemma addrs_subtrees: "map root (subtrees t) = addrs t"
  by (induction t) (simp add: map_concat comp_def cong: map_cong)

lemma subtree_addrs: "u \<in> set (subtrees t) \<Longrightarrow> set (addrs u) \<subseteq> set (addrs t)"
  by (induction t) auto

lemma subtree_root: "u \<in> set (subtrees t) \<Longrightarrow> root u \<in> set (addrs t)"
  using subtree_addrs root_addrs by blast

lemma kid_root_below: "k \<in> set ks \<Longrightarrow> root k \<in> set (tl (addrs (Node a s c ks)))"
  by (auto intro!: bexI [of _ k])

lemma concat_apart:
  "distinct (concat (map f ls)) \<Longrightarrow> k \<in> set ls \<Longrightarrow> l \<in> set ls \<Longrightarrow> k \<noteq> l \<Longrightarrow> set (f k) \<inter> set (f l) = {}"
  by (induction ls) auto

lemma concat_distinct: "distinct (concat (map f ls)) \<Longrightarrow> k \<in> set ls \<Longrightarrow> distinct (f k)"
  by (induction ls) auto

lemma root_not_below: "distinct (addrs t) \<Longrightarrow> root t \<notin> set (tl (addrs t))"
  by (cases t) simp

lemma kids_roots_apart:
  assumes "distinct (concat (map addrs ls))" and "l \<in> set ls"
  shows "root ` set ls \<inter> set (tl (addrs l)) = {}"
proof -
  have "root k \<notin> set (tl (addrs l))" if "k \<in> set ls" for k
  proof (cases "k = l")
    case True
    then show ?thesis using root_not_below concat_distinct [OF assms] by simp
  next
    case False
    then show ?thesis using concat_apart [OF assms(1) that assms(2)] root_addrs [of k] tl_addrs [of l] by blast
  qed
  then show ?thesis by blast
qed

lemma kid_below: "u \<in> set (subtrees t) \<Longrightarrow> k \<in> set (kids u) \<Longrightarrow> set (addrs k) \<subseteq> set (tl (addrs t))"
  by (cases t; cases u) (fastforce dest: subtree_addrs)

lemma subtree_unique: "u \<in> set (subtrees t) \<Longrightarrow> distinct (addrs t) \<Longrightarrow> root u = root t \<Longrightarrow> u = t"
  by (cases t) (auto dest: subtree_root)

lemma holds_subtree: "u \<in> set (subtrees t) \<Longrightarrow> heap_holds h t \<Longrightarrow> heap_holds h u"
  by (induction t) auto

lemma holds_alloc: "heap_holds h t \<Longrightarrow> a \<in> set (addrs t) \<Longrightarrow> h_alloc h a"
  by (induction t) auto

lemma graft_other: "a \<notin> set (addrs t) \<Longrightarrow> graft a ks' t = t"
  by (induction t) (auto simp: map_idI)

lemma root_graft [simp]: "root (graft a ks' t) = root t"
  by (cases t) simp

text \<open>A tree is still there when its nodes and the links below its root have not changed.\<close>

definition same_node :: "cjson_heap \<Rightarrow> cjson_heap \<Rightarrow> addr \<Rightarrow> bool" where
  "same_node h h' a \<longleftrightarrow>
     h_alloc h' a = h_alloc h a \<and> h_child h' a = h_child h a \<and> h_content h' a = h_content h a \<and>
     h_string h' a = h_string h a \<and> h_is_reference h' a = h_is_reference h a"

lemma holds_frame:
  assumes "heap_holds h t" and "\<And>a. a \<in> set (addrs t) \<Longrightarrow> same_node h h' a"
    and "\<And>a. a \<in> set (tl (addrs t)) \<Longrightarrow> h_next h' a = h_next h a \<and> h_prev h' a = h_prev h a"
  shows "heap_holds h' t"
  using assms
proof (induction t)
  case (Node a s c ks)
  have root: "same_node h h' a" using Node.prems(2) by simp
  have "linked h' (map root ks) = linked h (map root ks)"
    using Node.prems(3) kid_root_below by (intro linked_cong) auto
  moreover have "heap_holds h' k" if "k \<in> set ks" for k
  proof (rule Node.IH [OF that])
    show "heap_holds h k" using Node.prems(1) that by simp
    show "same_node h h' b" if "b \<in> set (addrs k)" for b
      using Node.prems(2) that \<open>k \<in> set ks\<close> by auto
    show "h_next h' b = h_next h b \<and> h_prev h' b = h_prev h b" if "b \<in> set (tl (addrs k))" for b
      using Node.prems(3) tl_addrs that \<open>k \<in> set ks\<close> by fastforce
  qed
  ultimately show ?case using Node.prems(1) root by (auto simp: same_node_def)
qed

section \<open>Changing the children of one node\<close>

text \<open>Only links of some nodes and the child pointer of one node have changed.\<close>

definition relinked :: "addr \<Rightarrow> addr list \<Rightarrow> addr set \<Rightarrow> cjson_heap \<Rightarrow> cjson_heap \<Rightarrow> bool" where
  "relinked a as S h h' \<longleftrightarrow>
     (\<exists>nx pv. h' = h\<lparr>h_next := nx, h_prev := pv, h_child := (h_child h)(a := hd_ptr as None)\<rparr> \<and>
        (\<forall>b. b \<notin> S \<longrightarrow> nx b = h_next h b \<and> pv b = h_prev h b)) \<and>
     linked h' as"

lemma relinked_links: "relinked a as S h h' \<Longrightarrow> b \<notin> S \<Longrightarrow> h_next h' b = h_next h b \<and> h_prev h' b = h_prev h b"
  by (auto simp: relinked_def)

lemma relinked_node: "relinked a as S h h' \<Longrightarrow> b \<noteq> a \<Longrightarrow> same_node h h' b"
  by (auto simp: relinked_def same_node_def)

lemma relinked_other:
  assumes "relinked a as S h h'" and "heap_holds h t" and "a \<notin> set (addrs t)" and "set (tl (addrs t)) \<inter> S = {}"
  shows "heap_holds h' t"
  using assms(2)
proof (rule holds_frame)
  show "same_node h h' b" if "b \<in> set (addrs t)" for b
    using relinked_node [OF assms(1)] assms(3) that by metis
  show "h_next h' b = h_next h b \<and> h_prev h' b = h_prev h b" if "b \<in> set (tl (addrs t))" for b
    using relinked_links [OF assms(1)] assms(4) that by blast
qed

lemma relinked_here:
  assumes "relinked a (map root ks') S h h'" and "heap_holds h (Node a s c ks)"
    and "\<And>k. k \<in> set ks' \<Longrightarrow> heap_holds h k \<and> a \<notin> set (addrs k) \<and> set (tl (addrs k)) \<inter> S = {}"
  shows "heap_holds h' (Node a s c ks')"
  using assms(2,3) relinked_other [OF assms(1)] assms(1) by (auto simp: relinked_def)

lemma holds_graft:
  assumes "relinked a (map root ks') S h h'" and "heap_holds h' (Node a s c ks')"
  shows "Node a s c ks \<in> set (subtrees t) \<Longrightarrow> distinct (addrs t) \<Longrightarrow> heap_holds h t \<Longrightarrow>
    S \<inter> set (addrs t) \<subseteq> root ` set ks \<Longrightarrow> heap_holds h' (graft a ks' t)"
proof (induction t)
  case (Node b s' c' ls)
  show ?case
  proof (cases "b = a")
    case True
    then have "Node a s c ks = Node b s' c' ls"
      using subtree_unique [OF Node.prems(1,2)] by simp
    then show ?thesis using True assms(2) by simp
  next
    case False
    obtain l where l: "l \<in> set ls" "Node a s c ks \<in> set (subtrees l)"
      using False Node.prems(1) by auto
    have below: "root ` set ks \<subseteq> set (tl (addrs l))"
      using kid_below [OF l(2)] root_addrs by fastforce
    have apart: "distinct (concat (map addrs ls))" using Node.prems(2) by simp
    have roots: "root ` set ls \<inter> S = {}"
    proof -
      have "root ` set ls \<subseteq> set (addrs (Node b s' c' ls))" using kid_root_below by fastforce
      then have "root ` set ls \<inter> S \<subseteq> set (tl (addrs l))" using Node.prems(4) below by blast
      then show ?thesis using kids_roots_apart [OF apart l(1)] by blast
    qed
    have "heap_holds h' (graft a ks' k)" if k: "k \<in> set ls" for k
    proof (cases "k = l")
      case True
      show ?thesis unfolding True
        by (rule Node.IH [OF l concat_distinct [OF apart l(1)]]) (use Node.prems(3,4) l(1) in auto)
    next
      case False
      have off: "set (addrs k) \<inter> set (addrs l) = {}" by (rule concat_apart [OF apart k l(1) False])
      then have a: "a \<notin> set (addrs k)" using subtree_root [OF l(2)] by auto
      have "S \<inter> set (addrs k) \<subseteq> set (tl (addrs l))" using Node.prems(4) below k by auto
      then have "set (tl (addrs k)) \<inter> S = {}" using off tl_addrs [of k] tl_addrs [of l] by blast
      then show ?thesis using relinked_other [OF assms(1) _ a] Node.prems(3) k by (simp add: graft_other [OF a])
    qed
    moreover have "linked h' (map root ls)"
    proof -
      have "linked h' (map root ls) = linked h (map root ls)"
        using relinked_links [OF assms(1)] roots by (intro linked_cong) auto
      then show ?thesis using Node.prems(3) by simp
    qed
    ultimately show ?thesis using False Node.prems(3) relinked_node [OF assms(1) False]
      by (auto simp: same_node_def comp_def)
  qed
qed

lemma mset_graft:
  "Node a s c ks \<in> set (subtrees t) \<Longrightarrow> distinct (addrs t) \<Longrightarrow>
     mset (addrs (graft a ks' t)) + mset (forest_addrs ks) = mset (addrs t) + mset (forest_addrs ks')"
proof (induction t)
  case (Node b s' c' ls)
  show ?case
  proof (cases "b = a")
    case True
    then have "Node a s c ks = Node b s' c' ls" using subtree_unique [OF Node.prems] by simp
    then show ?thesis by (simp add: forest_addrs_def)
  next
    case False
    obtain l where l: "l \<in> set ls" "Node a s c ks \<in> set (subtrees l)"
      using False Node.prems(1) by auto
    obtain xs ys where ls: "ls = xs @ l # ys" using l(1) by (auto simp: in_set_conv_decomp)
    have apart: "distinct (concat (map addrs ls))" using Node.prems(2) by simp
    have "a \<in> set (addrs l)" using subtree_root [OF l(2)] by simp
    then have "a \<notin> set (addrs k)" if "k \<in> set (xs @ ys)" for k
      using apart that unfolding ls by auto
    then have "map (graft a ks') xs = xs" "map (graft a ks') ys = ys"
      using graft_other by (simp_all add: map_idI)
    moreover have "mset (addrs (graft a ks' l)) + mset (forest_addrs ks) = mset (addrs l) + mset (forest_addrs ks')"
      by (rule Node.IH [OF l concat_distinct [OF apart l(1)]])
    ultimately show ?thesis using False by (simp add: ls ac_simps)
  qed
qed


lemma mset_forest_addrs: "mset (forest_addrs ts) = \<Sum>\<^sub># (image_mset (\<lambda>t. mset (addrs t)) (mset ts))"
  by (induction ts) (simp_all add: forest_addrs_def)

lemma set_forest_addrs: "set (forest_addrs ts) = (\<Union>t \<in> set ts. set (addrs t))"
  by (auto simp: forest_addrs_def)

lemma exchange:
  fixes A :: "'a multiset"
  assumes "K + U = K' + V" and "A + K = P + K'"
  shows "A + V = P + U"
proof -
  have "(A + V) + (K + K') = (A + K) + (K' + V)" by (simp add: ac_simps)
  also have "\<dots> = (P + U) + (K + K')" unfolding assms(2) assms(1) [symmetric] by (simp add: ac_simps)
  finally show ?thesis by simp
qed

lemma sum_list_mset: "mset xs = mset ys \<Longrightarrow> sum_list (map f xs) = (sum_list (map f ys) :: int)"
  by (metis mset_map sum_mset_sum_list)

lemma subtree_distinct: "u \<in> set (subtrees t) \<Longrightarrow> distinct (addrs t) \<Longrightarrow> distinct (addrs u)"
  by (induction t) (auto dest: concat_distinct)

text \<open>
  A forest is determined by its addresses, however they are arranged in trees.
\<close>

lemma forest_rearranged:
  assumes "forest h ts" and "mset (forest_addrs ts') = mset (forest_addrs ts)"
    and "\<And>t. t \<in> set ts' \<Longrightarrow> heap_holds h' t \<and> h_next h' (root t) = None"
    and "h_alloc h' = h_alloc h" and "h_top h' = h_top h" and "h_blocks h' = h_blocks h"
    and "node_blocks h' = node_blocks h"
  shows "forest h' ts'"
proof -
  have "distinct (forest_addrs ts') = distinct (forest_addrs ts)"
    using assms(2) by (rule mset_eq_imp_distinct_iff)
  moreover have "set (forest_addrs ts') = set (forest_addrs ts)"
    using assms(2) by (rule mset_eq_setD)
  moreover have "sum_list (map (node_blocks h) (forest_addrs ts')) = sum_list (map (node_blocks h) (forest_addrs ts))"
    using assms(2) by (rule sum_list_mset)
  ultimately show ?thesis using assms(1,3-) by (simp add: forest_def)
qed

lemma forest_permuted: "forest h ts \<Longrightarrow> mset ts' = mset ts \<Longrightarrow> forest h ts'"
  by (rule forest_rearranged) (auto simp: forest_def mset_forest_addrs dest: mset_eq_setD)

text \<open>The children of a node and the trees beside it have links of their own.\<close>

lemma movable_trees:
  assumes forest: "forest h (p # us @ ts)" and node: "Node a s c ks \<in> set (subtrees p)" and k: "k \<in> set (ks @ us)"
  shows "heap_holds h k \<and> a \<notin> set (addrs k) \<and> set (tl (addrs k)) \<inter> root ` set (ks @ us) = {}"
proof -
  have p: "heap_holds h p" "distinct (addrs p)" and us: "distinct (concat (map addrs us))"
    and pus: "set (addrs p) \<inter> set (concat (map addrs us)) = {}"
    and hus: "\<And>u. u \<in> set us \<Longrightarrow> heap_holds h u"
    using forest by (auto simp: forest_def forest_addrs_def)
  have a: "a \<in> set (addrs p)" using subtree_root [OF node] by simp
  have dn: "distinct (addrs (Node a s c ks))" by (rule subtree_distinct [OF node p(2)])
  have ksp: "set (addrs j) \<subseteq> set (addrs p)" if "j \<in> set ks" for j
    using kid_below [OF node] that tl_addrs by fastforce
  have rks: "root ` set ks \<subseteq> set (addrs p)" using ksp root_addrs by blast
  have rus: "root ` set us \<subseteq> set (concat (map addrs us))" by (rule roots_in)
  consider "k \<in> set ks" | "k \<in> set us" using k by auto
  then show ?thesis
  proof cases
    case 1
    have "heap_holds h k" using holds_subtree [OF node p(1)] 1 by simp
    moreover have "set (tl (addrs k)) \<inter> root ` set ks = {}" using kids_roots_apart [OF _ 1] dn by auto
    moreover have "set (tl (addrs k)) \<inter> root ` set us = {}" using tl_addrs [of k] ksp [OF 1] rus pus by blast
    ultimately show ?thesis using dn 1 by auto
  next
    case 2
    then have "set (addrs k) \<subseteq> set (concat (map addrs us))" by auto
    then have "a \<notin> set (addrs k)" "set (tl (addrs k)) \<inter> root ` set ks = {}"
      using a pus rks tl_addrs [of k] by blast+
    moreover have "set (tl (addrs k)) \<inter> root ` set us = {}" using kids_roots_apart [OF us 2] by auto
    ultimately show ?thesis using hus [OF 2] by auto
  qed
qed

text \<open>
  Trees move between the children of one node and the roots of the forest: those in \<open>us\<close> are taken from the
  forest, those in \<open>vs\<close> are given back.
\<close>

lemma forest_relink:
  assumes forest: "forest h (p # us @ ts)" and node: "Node a s c ks \<in> set (subtrees p)"
    and relinked: "relinked a (map root ks') (root ` set (ks @ us)) h h'"
    and moved: "mset ks + mset us = mset ks' + mset vs"
    and free: "\<And>v. v \<in> set vs \<Longrightarrow> h_next h' (root v) = None"
  shows "forest h' (graft a ks' p # vs @ ts)"
proof (rule forest_rearranged [OF forest])
  let ?S = "root ` set (ks @ us)"
  have p: "heap_holds h p" "distinct (addrs p)" "h_next h (root p) = None"
    and apart: "set (addrs p) \<inter> set (concat (map addrs (us @ ts))) = {}"
      "set (concat (map addrs us)) \<inter> set (concat (map addrs ts)) = {}"
    and ts: "\<And>t. t \<in> set ts \<Longrightarrow> heap_holds h t \<and> h_next h (root t) = None"
    using forest by (auto simp: forest_def forest_addrs_def)
  have sets: "set ks \<union> set us = set ks' \<union> set vs"
    using arg_cong [OF moved, of set_mset] by simp
  note movable = movable_trees [OF forest node]
  have rks: "root ` set ks \<subseteq> set (tl (addrs p))"
    using kid_below [OF node] root_addrs by fastforce
  have rus: "root ` set us \<subseteq> set (concat (map addrs us))" by (rule roots_in)
  have a: "a \<in> set (addrs p)" using subtree_root [OF node] by simp
  have here: "heap_holds h' (Node a s c ks')"
    by (rule relinked_here [OF relinked holds_subtree [OF node p(1)] movable]) (use sets in auto)
  have pus: "set (addrs p) \<inter> set (concat (map addrs us)) = {}" using apart(1) by auto
  then have "?S \<inter> set (addrs p) \<subseteq> root ` set ks" using rus unfolding set_append image_Un by blast
  then have tree: "heap_holds h' (graft a ks' p)" by (rule holds_graft [OF relinked here node p(2,1)])
  have "root p \<notin> ?S"
    using root_not_below [OF p(2)] rks rus pus root_addrs [of p] unfolding set_append image_Un by blast
  then have "h_next h' (root p) = None" using relinked_links [OF relinked] p(3) by simp
  moreover have "heap_holds h' v" if "v \<in> set vs" for v
    by (rule relinked_other [OF relinked]) (use movable [of v] sets that in auto)
  moreover have "heap_holds h' t \<and> h_next h' (root t) = None" if t: "t \<in> set ts" for t
  proof -
    have "set (addrs t) \<inter> set (addrs p) = {}" "set (addrs t) \<inter> set (concat (map addrs us)) = {}"
      using apart t by auto
    then have off: "set (addrs t) \<inter> ?S = {}" "a \<notin> set (addrs t)"
      using rks rus tl_addrs [of p] a unfolding set_append image_Un by blast+
    then have "heap_holds h' t" using relinked_other [OF relinked _ off(2)] ts [OF t] tl_addrs [of t] by blast
    moreover have "root t \<notin> ?S" using off(1) root_addrs [of t] by blast
    ultimately show ?thesis using relinked_links [OF relinked] ts [OF t] by simp
  qed
  ultimately show "heap_holds h' t \<and> h_next h' (root t) = None" if "t \<in> set (graft a ks' p # vs @ ts)" for t
    using tree free that by auto
  have "mset (forest_addrs ks) + mset (forest_addrs us) = mset (forest_addrs ks') + mset (forest_addrs vs)"
    using arg_cong [OF moved, of "\<lambda>m. \<Sum>\<^sub># (image_mset (\<lambda>t. mset (addrs t)) m)"] by (simp add: mset_forest_addrs)
  moreover note mset_graft [OF node p(2), of ks']
  ultimately have "mset (addrs (graft a ks' p)) + mset (forest_addrs vs) = mset (addrs p) + mset (forest_addrs us)"
    by (rule exchange)
  then show "mset (forest_addrs (graft a ks' p # vs @ ts)) = mset (forest_addrs (p # us @ ts))"
    by (simp add: forest_addrs_def)
qed (use relinked in \<open>auto simp: relinked_def node_blocks_def fun_eq_iff\<close>)

end
