(* ===== verification/Json_Heap_Sound.thy ===== *)
theory Json_Heap_Sound
  imports Json_Forest
begin

text \<open>
  The operations of \<^verbatim>\<open>src/cjson/cJSON.c\<close> on the heap are operations on forests: adding, detaching, inserting,
  replacing, deleting, searching, and the constructors with every outcome of the allocator.
\<close>

section \<open>The changes of links\<close>

text \<open>The node and its list of children, as far as the operations on links need them.\<close>

definition siblings :: "cjson_heap \<Rightarrow> addr \<Rightarrow> addr list \<Rightarrow> bool" where
  "siblings h a as \<longleftrightarrow>
     h_alloc h a \<and> h_child h a = hd_ptr as None \<and> linked h as \<and> distinct as \<and> a \<notin> set as \<and> (\<forall>b \<in> set as. h_alloc h b)"

lemma relinkedI:
  assumes "h_child h' = (h_child h)(a := hd_ptr as None)" and "linked h' as"
    and "\<And>b. b \<notin> S \<Longrightarrow> h_next h' b = h_next h b \<and> h_prev h' b = h_prev h b"
    and "h' = h\<lparr>h_next := h_next h', h_prev := h_prev h', h_child := h_child h'\<rparr>"
  shows "relinked a as S h h'"
  using assms unfolding relinked_def by metis

lemmas link_simps = add_item_to_array_def suffix_object_def access_def via_def siblings_def linked_def

lemma add_relinks:
  assumes "siblings h a as" and "h_alloc h i" and "i \<notin> set (a # as)" and "h_next h i = None"
  shows "\<exists>h'. add_item_to_array (Some a) (Some i) h = Some (True, h') \<and> relinked a (as @ [i]) (set (as @ [i])) h h'"
proof -
  consider "as = []" | l where "as = [l]" | c m l where "as = c # m @ [l]"
    by (metis append_Cons append_Nil list.exhaust rev_exhaust)
  then show ?thesis
    by cases (use assms in \<open>auto simp: link_simps intro!: relinkedI\<close>)
qed

text \<open>A place in a list of siblings: alone, first, last or between two others.\<close>

lemma place_cases:
  obtains (alone) "xs = []" "ys = []" | (first) n zs where "xs = []" "ys = n # zs"
    | (second) x where "xs = [x]" "ys = []" | (at_back) x x' m where "xs = x # m @ [x']" "ys = []"
    | (after_first) x n zs where "xs = [x]" "ys = n # zs" | (between) x x' m n zs where "xs = x # m @ [x']" "ys = n # zs"
  by (metis append_Cons append_Nil list.exhaust rev_exhaust)

lemma detach_relinks:
  assumes "siblings h a (xs @ i # ys)"
  shows "\<exists>h'. cJSON_DetachItemViaPointer (Some a) (Some i) h = Some (Some i, h') \<and>
    relinked a (xs @ ys) (set (xs @ i # ys)) h h' \<and> h_next h' i = None"
proof (cases xs ys rule: place_cases)
  case alone
  then show ?thesis using assms by (auto simp: cJSON_DetachItemViaPointer_def link_simps intro!: relinkedI)
next
  case first
  then show ?thesis using assms by (auto simp: cJSON_DetachItemViaPointer_def link_simps intro!: relinkedI)
next
  case second
  then show ?thesis using assms by (auto simp: cJSON_DetachItemViaPointer_def link_simps intro!: relinkedI)
next
  case at_back
  then show ?thesis using assms by (auto simp: cJSON_DetachItemViaPointer_def link_simps intro!: relinkedI)
next
  case after_first
  then show ?thesis using assms by (auto simp: cJSON_DetachItemViaPointer_def link_simps intro!: relinkedI)
next
  case between
  then show ?thesis using assms by (auto simp: cJSON_DetachItemViaPointer_def link_simps intro!: relinkedI)
qed

lemma nth_node_linked:
  "nexts (h_next h) (xs @ b # ys) None \<Longrightarrow> \<forall>c \<in> set xs. h_alloc h c \<Longrightarrow>
     nth_node (hd_ptr (xs @ b # ys) None) (length xs) h = Some (Some b)"
  by (induction xs) (auto simp: access_def)

lemma nth_node_beyond:
  "nexts (h_next h) as None \<Longrightarrow> \<forall>c \<in> set as. h_alloc h c \<Longrightarrow> length as \<le> n \<Longrightarrow> nth_node (hd_ptr as None) n h = Some None"
proof (induction as arbitrary: n)
  case (Cons a as)
  then show ?case by (cases n) (auto simp: access_def)
qed simp

lemma get_array_item_siblings:
  assumes "siblings h a as"
  shows "get_array_item (Some a) n h = Some (if n < length as then Some (as ! n) else None)"
proof (cases "n < length as")
  case True
  then have "as = take n as @ as ! n # drop (Suc n) as" by (rule id_take_nth_drop)
  then show ?thesis
    using assms True nth_node_linked [of h "take n as" "as ! n" "drop (Suc n) as"]
    by (auto simp: get_array_item_def siblings_def linked_def access_def dest: in_set_takeD)
next
  case False
  then show ?thesis using assms nth_node_beyond [of h as n]
    by (simp add: get_array_item_def siblings_def linked_def access_def)
qed

lemma insert_relinks:
  assumes "siblings h a (xs @ b # ys)" and "h_alloc h i" and "i \<notin> set (a # xs @ b # ys)" and "0 \<le> which"
    and "get_array_item (Some a) (nat which) h = Some (Some b)"
  shows "\<exists>h'. cJSON_InsertItemInArray (Some a) which (Some i) h = Some (True, h') \<and>
    relinked a (xs @ i # b # ys) (set (xs @ b # ys @ [i])) h h'"
proof -
  consider "xs = []" | x where "xs = [x]" | x x' m where "xs = x # m @ [x']"
    by (metis append_Cons append_Nil list.exhaust rev_exhaust)
  then show ?thesis
    by cases (use assms in \<open>auto simp: cJSON_InsertItemInArray_def link_simps intro!: relinkedI\<close>)
qed


lemma last_ptr_in: "last_ptr (Some n) zs = Some i \<Longrightarrow> i \<in> set (n # zs)"
  by (induction zs arbitrary: n) auto

lemma pair_result: "(do { h \<leftarrow> m; Some (True, h) }) = map_option (Pair True) m"
  by (cases m) simp_all

lemma replace_relinks:
  assumes "siblings h a (xs @ i # ys)" and "h_alloc h r" and "r \<notin> set (a # xs @ i # ys)"
  shows "\<exists>h'. cJSON_ReplaceItemViaPointer (Some a) (Some i) (Some r) h = map_option (Pair True) (delete_nodes (Some i) h') \<and>
    relinked a (xs @ r # ys) (set (xs @ i # ys @ [r])) h h' \<and> h_next h' i = None"
proof (cases xs ys rule: place_cases)
  case alone
  then show ?thesis using assms
    by (auto simp: cJSON_ReplaceItemViaPointer_def link_simps pair_result intro!: exI conjI relinkedI
        dest: last_ptr_in)
next
  case first
  then show ?thesis using assms
    by (auto simp: cJSON_ReplaceItemViaPointer_def link_simps pair_result intro!: exI conjI relinkedI
        dest: last_ptr_in)
next
  case second
  then show ?thesis using assms
    by (auto simp: cJSON_ReplaceItemViaPointer_def link_simps pair_result intro!: exI conjI relinkedI
        dest: last_ptr_in)
next
  case at_back
  then show ?thesis using assms
    by (auto simp: cJSON_ReplaceItemViaPointer_def link_simps pair_result intro!: exI conjI relinkedI
        dest: last_ptr_in)
next
  case after_first
  then show ?thesis using assms
    by (auto simp: cJSON_ReplaceItemViaPointer_def link_simps pair_result intro!: exI conjI relinkedI
        dest: last_ptr_in)
next
  case between
  then show ?thesis using assms
    by (auto simp: cJSON_ReplaceItemViaPointer_def link_simps pair_result intro!: exI conjI relinkedI
        dest: last_ptr_in)
qed

lemma forest_siblings:
  assumes "forest h (p # ts)" and "Node a s c ks \<in> set (subtrees p)"
  shows "siblings h a (map root ks)"
proof -
  have "heap_holds h p" "distinct (addrs p)" using assms(1) by (simp_all add: forest_def forest_addrs_def)
  then have h: "heap_holds h (Node a s c ks)" and d: "distinct (addrs (Node a s c ks))"
    using holds_subtree [OF assms(2)] subtree_distinct [OF assms(2)] by blast+
  have "distinct (map root ks)"
    using d
  proof (induction ks)
    case (Cons k ks)
    then have "set (addrs k) \<inter> set (concat (map addrs ks)) = {}" by auto
    then have "root k \<notin> root ` set ks" using roots_in [of ks] root_addrs [of k] by blast
    then show ?case using Cons by auto
  qed simp
  moreover have "a \<notin> set (map root ks)" using d roots_in [of ks] by auto
  moreover have "h_alloc h b" if "b \<in> set (map root ks)" for b
    using holds_alloc h that by auto
  ultimately show ?thesis using h by (auto simp: siblings_def)
qed

section \<open>Deleting\<close>

definition free_all :: "addr list \<Rightarrow> cjson_heap \<Rightarrow> cjson_heap" where
  "free_all as h =
     h\<lparr>h_alloc := (\<lambda>b. h_alloc h b \<and> b \<notin> set as), h_blocks := h_blocks h - sum_list (map (node_blocks h) as)\<rparr>"

lemma free_all_Nil [simp]: "free_all [] h = h"
  by (simp add: free_all_def)

lemma node_blocks_free_all [simp]: "node_blocks (free_all as h) = node_blocks h"
  by (simp add: free_all_def node_blocks_def fun_eq_iff)

lemma free_all_append: "free_all ys (free_all xs h) = free_all (xs @ ys) h"
  using node_blocks_free_all [of xs h] by (auto simp: free_all_def)

lemma release_free_all: "release a h = free_all [a] h"
  by (auto simp: release_def free_all_def node_blocks_def fun_eq_iff)

lemma free_all_order: "mset xs = mset ys \<Longrightarrow> free_all xs h = free_all ys h"
  using sum_list_mset [of xs ys "node_blocks h"] mset_eq_setD [of xs ys] by (simp add: free_all_def)

lemma free_all_next [simp]: "h_next (free_all as h) = h_next h"
  and free_all_alloc [simp]: "h_alloc (free_all as h) a \<longleftrightarrow> h_alloc h a \<and> a \<notin> set as"
  by (simp_all add: free_all_def)

lemma holds_free_all: "heap_holds h t \<Longrightarrow> set (addrs t) \<inter> set as = {} \<Longrightarrow> heap_holds (free_all as h) t"
  by (erule holds_frame) (auto simp: same_node_def free_all_def)

lemma delete_list:
  assumes "\<And>t h. t \<in> set ts \<Longrightarrow> heap_holds h t \<Longrightarrow> distinct (addrs t) \<Longrightarrow>
    delete_nodes (hd_ptr (map root (kids t)) None) h = Some (free_all (tl (addrs t)) h)"
  shows "\<forall>t \<in> set ts. heap_holds h t \<Longrightarrow> distinct (forest_addrs ts) \<Longrightarrow> nexts (h_next h) (map root ts) None \<Longrightarrow>
    delete_nodes (hd_ptr (map root ts) None) h = Some (free_all (forest_addrs ts) h)"
  using assms
proof (induction ts arbitrary: h)
  case Nil
  then show ?case by (simp add: delete_nodes.simps forest_addrs_def)
next
  case (Cons t ts)
  obtain a s c ks where t: "t = Node a s c ks" by (cases t)
  have h: "heap_holds h t" "distinct (addrs t)" "distinct (forest_addrs ts)" "set (addrs t) \<inter> set (forest_addrs ts) = {}"
    using Cons.prems(1,2) by (auto simp: forest_addrs_def)
  have kids: "delete_nodes (h_child h a) h = Some (free_all (tl (addrs t)) h)"
    using Cons.prems(4) [of t h] h(1,2) by (simp add: t)
  have "release a (free_all (tl (addrs t)) h) = free_all (addrs t) h"
    unfolding release_free_all free_all_append by (rule free_all_order) (simp add: t)
  then have "delete_nodes (Some a) h = delete_nodes (h_next h a) (free_all (addrs t) h)"
    using h(1) kids by (subst delete_nodes.simps) (simp add: t access_def)
  also have "h_next h a = hd_ptr (map root ts) None" using Cons.prems(3) by (simp add: t)
  also have "delete_nodes \<dots> (free_all (addrs t) h) = Some (free_all (forest_addrs ts) (free_all (addrs t) h))"
  proof (rule Cons.IH)
    show "\<forall>u \<in> set ts. heap_holds (free_all (addrs t) h) u"
      using Cons.prems(1) h(4) by (auto intro!: holds_free_all simp: set_forest_addrs)
  qed (use Cons.prems h(3) in auto)
  finally show ?case by (simp add: t free_all_append forest_addrs_def)
qed

lemma delete_kids:
  "heap_holds h t \<Longrightarrow> distinct (addrs t) \<Longrightarrow> delete_nodes (hd_ptr (map root (kids t)) None) h = Some (free_all (tl (addrs t)) h)"
proof (induction t arbitrary: h)
  case (Node a s c ks)
  have "delete_nodes (hd_ptr (map root ks) None) h = Some (free_all (forest_addrs ks) h)"
    by (rule delete_list) (use Node in \<open>auto simp: forest_addrs_def linked_def\<close>)
  then show ?case by (simp add: forest_addrs_def)
qed

lemma forest_delete:
  assumes "forest h (t # ts)"
  shows "\<exists>h'. delete_nodes (Some (root t)) h = Some h' \<and> forest h' ts \<and> h' = free_all (addrs t) h"
proof -
  have "delete_nodes (hd_ptr (map root [t]) None) h = Some (free_all (forest_addrs [t]) h)"
    by (rule delete_list [OF delete_kids]) (use assms in \<open>auto simp: forest_def forest_addrs_def\<close>)
  moreover have "forest (free_all (addrs t) h) ts"
    using assms unfolding forest_def
    by (auto simp: forest_addrs_def intro!: holds_free_all) (auto simp: free_all_def)
  ultimately show ?thesis by (simp add: forest_addrs_def)
qed


section \<open>Searching a forest\<close>

fun find_kid :: "bool \<Rightarrow> string \<Rightarrow> jtree list \<Rightarrow> jtree option" where
  "find_kid case_sensitive name [] = None"
| "find_kid case_sensitive name (k # ks) =
     (case label k of
        None \<Rightarrow> if case_sensitive then None else find_kid case_sensitive name ks
      | Some s \<Rightarrow> if names_match case_sensitive name s then Some k else find_kid case_sensitive name ks)"

lemma find_node_linked:
  "\<forall>k \<in> set ks. heap_holds h k \<Longrightarrow> nexts (h_next h) (map root ks) None \<Longrightarrow>
     find_node cs name (hd_ptr (map root ks) None) h = Some (map_option root (find_kid cs name ks))"
proof (induction ks)
  case Nil
  then show ?case by (simp add: find_node.simps)
next
  case (Cons k ks)
  then show ?case by (cases k) (subst find_node.simps, auto simp: access_def split: option.splits)
qed

lemma forest_holds: "forest h (p # ts) \<Longrightarrow> u \<in> set (subtrees p) \<Longrightarrow> heap_holds h u"
  unfolding forest_def by (auto intro: holds_subtree)

lemma object_item_forest:
  assumes "forest h (p # ts)" and "Node a s c ks \<in> set (subtrees p)"
  shows "object_item cs (Some a) (Some name) h = Some (map_option root (find_kid cs name ks))"
proof -
  have "heap_holds h (Node a s c ks)" by (rule forest_holds [OF assms])
  then show ?thesis using find_node_linked [of ks h cs name] by (simp add: object_item_def access_def linked_def)
qed

lemma find_kid_kids: "find_kid cs name ks = Some k \<Longrightarrow> k \<in> set ks"
  by (induction ks) (auto split: option.splits if_splits)

lemma find_kid_map_of:
  "those (map (\<lambda>k. case label k of None \<Rightarrow> None | Some n \<Rightarrow> map_option (Pair n) (denote k)) ks) = Some kvs \<Longrightarrow>
     Option.bind (find_kid True name ks) denote = map_of kvs name"
  by (induction ks arbitrary: kvs) (auto simp: names_match_def split: option.splits)

lemma count_nodes_linked:
  "\<forall>a \<in> set as. h_alloc h a \<Longrightarrow> nexts (h_next h) as None \<Longrightarrow> count_nodes (hd_ptr as None) h = Some (length as)"
proof (induction as)
  case Nil
  then show ?case by (simp add: count_nodes.simps)
next
  case (Cons a as)
  then show ?case by (subst hd_ptr.simps, subst count_nodes.simps) (simp add: access_def)
qed

lemma array_size_forest:
  assumes "forest h (p # ts)" and "Node a s c ks \<in> set (subtrees p)" and "length ks < 2 ^ 31"
  shows "array_size (Some a) h = Some (int (length ks))"
proof -
  have h: "siblings h a (map root ks)" by (rule forest_siblings [OF assms(1,2)])
  then have "count_nodes (hd_ptr (map root ks) None) h = Some (length ks)"
    using count_nodes_linked [of "map root ks" h] by (simp add: siblings_def linked_def)
  then show ?thesis using h assms(3)
    by (simp add: array_size_def access_def siblings_def signed_take_bit_int_eq_self)
qed

text \<open>The tests of the kind of a node are tests of the value it stands for.\<close>

lemma kinds_forest:
  assumes "forest h (p # ts)" and "u \<in> set (subtrees p)" and "denote u = Some j"
  shows "node_IsNull (Some (root u)) h = Some (j = J_null)"
    and "node_IsBool (Some (root u)) h = Some (\<exists>b. j = J_bool b)"
    and "node_IsTrue (Some (root u)) h = Some (j = J_bool True)"
    and "node_IsNumber (Some (root u)) h = Some (\<exists>n. j = J_num n)"
    and "node_IsString (Some (root u)) h = Some (\<exists>t. j = J_str t)"
    and "node_IsArray (Some (root u)) h = Some (cJSON_IsArray (Some j))"
    and "node_IsObject (Some (root u)) h = Some (cJSON_IsObject (Some j))"
proof -
  obtain a s c ks where u: "u = Node a s c ks" by (cases u)
  have h: "h_alloc h a" "h_content h a = c" using forest_holds [OF assms(1,2)] by (simp_all add: u)
  note defs = item_is_def access_def cJSON_IsArray_def cJSON_IsObject_def
  show "node_IsNull (Some (root u)) h = Some (j = J_null)"
    using assms(3) h by (cases c) (auto simp: u node_IsNull_def defs)
  show "node_IsBool (Some (root u)) h = Some (\<exists>b. j = J_bool b)"
    using assms(3) h by (cases c) (auto simp: u node_IsBool_def defs)
  show "node_IsTrue (Some (root u)) h = Some (j = J_bool True)"
    using assms(3) h by (cases c) (auto simp: u node_IsTrue_def defs)
  show "node_IsNumber (Some (root u)) h = Some (\<exists>n. j = J_num n)"
    using assms(3) h by (cases c) (auto simp: u node_IsNumber_def defs)
  show "node_IsString (Some (root u)) h = Some (\<exists>t. j = J_str t)"
    using assms(3) h by (cases c) (auto simp: u node_IsString_def defs)
  show "node_IsArray (Some (root u)) h = Some (cJSON_IsArray (Some j))"
    using assms(3) h by (cases c) (auto simp: u node_IsArray_def defs)
  show "node_IsObject (Some (root u)) h = Some (cJSON_IsObject (Some j))"
    using assms(3) h by (cases c) (auto simp: u node_IsObject_def defs)
qed

section \<open>Operations on forests\<close>

lemma forest_beside:
  assumes "forest h (p # t # ts)" and "Node a s c ks \<in> set (subtrees p)"
  shows "h_alloc h (root t) \<and> root t \<notin> set (a # map root ks) \<and> h_next h (root t) = None"
proof -
  have "a \<in> set (addrs p)" using subtree_root [OF assms(2)] by simp
  moreover have "root ` set ks \<subseteq> set (addrs p)"
    using kid_below [OF assms(2)] root_addrs tl_addrs [of p] by fastforce
  moreover have "root t \<notin> set (addrs p)"
    using assms(1) root_addrs [of t] by (auto simp: forest_def forest_addrs_def)
  ultimately show ?thesis using assms(1) holds_alloc by (auto simp: forest_def)
qed

lemma forest_add:
  assumes forest: "forest h (p # t # ts)" and node: "Node a s c ks \<in> set (subtrees p)"
  shows "\<exists>h'. add_item_to_array (Some a) (Some (root t)) h = Some (True, h') \<and> forest h' (graft a (ks @ [t]) p # ts)"
proof -
  obtain h' where h': "add_item_to_array (Some a) (Some (root t)) h = Some (True, h')"
    "relinked a (map root ks @ [root t]) (set (map root ks @ [root t])) h h'"
    using add_relinks [OF forest_siblings [OF forest node]] forest_beside [OF forest node] by blast
  have "forest h' (graft a (ks @ [t]) p # [] @ ts)"
    by (rule forest_relink [where us = "[t]", OF _ node]) (use forest h'(2) in auto)
  then show ?thesis using h'(1) by auto
qed

lemma forest_detach:
  assumes forest: "forest h (p # ts)" and node: "Node a s c (xs @ t # ys) \<in> set (subtrees p)"
  shows "\<exists>h'. cJSON_DetachItemViaPointer (Some a) (Some (root t)) h = Some (Some (root t), h') \<and>
    forest h' (graft a (xs @ ys) p # t # ts)"
proof -
  obtain h' where h': "cJSON_DetachItemViaPointer (Some a) (Some (root t)) h = Some (Some (root t), h')"
    "relinked a (map root xs @ map root ys) (set (map root xs @ root t # map root ys)) h h'" "h_next h' (root t) = None"
    using detach_relinks [of h a "map root xs" "root t" "map root ys"] forest_siblings [OF forest node] by auto
  have "forest h' (graft a (xs @ ys) p # [t] @ ts)"
    by (rule forest_relink [where us = "[]", OF _ node]) (use forest h'(2,3) in \<open>auto simp: image_Un\<close>)
  then show ?thesis using h'(1) by auto
qed

lemma forest_insert:
  assumes forest: "forest h (p # t # ts)" and node: "Node a s c ks \<in> set (subtrees p)"
  shows "\<exists>h'. cJSON_InsertItemInArray (Some a) (int n) (Some (root t)) h = Some (True, h') \<and>
    forest h' (graft a (take n ks @ t # drop n ks) p # ts)"
proof (cases "n < length ks")
  case True
  note sib = forest_siblings [OF forest node] and item = forest_beside [OF forest node]
  have split: "map root ks = map root (take n ks) @ root (ks ! n) # map root (drop (Suc n) ks)"
    using id_take_nth_drop [OF True] by (metis list.simps(9) map_append)
  have dropn: "drop n ks = ks ! n # drop (Suc n) ks" using True by (simp add: Cons_nth_drop_Suc)
  have at: "get_array_item (Some a) (nat (int n)) h = Some (Some (root (ks ! n)))"
    using get_array_item_siblings [OF sib, of n] True by simp
  obtain h' where h': "cJSON_InsertItemInArray (Some a) (int n) (Some (root t)) h = Some (True, h')"
    "relinked a (map root (take n ks) @ root t # root (ks ! n) # map root (drop (Suc n) ks))
       (set (map root (take n ks) @ root (ks ! n) # map root (drop (Suc n) ks) @ [root t])) h h'"
    using insert_relinks [where i = "root t", OF sib [unfolded split] _ _ _ at] item [unfolded split] by auto
  have "set (map root (take n ks) @ root (ks ! n) # map root (drop (Suc n) ks) @ [root t]) = root ` set (ks @ [t])"
    using arg_cong [OF split, of set] by auto
  then have "relinked a (map root (take n ks @ t # drop n ks)) (root ` set (ks @ [t])) h h'"
    using h'(2) by (simp add: dropn)
  moreover have "mset ks = mset (take n ks) + mset (drop n ks)" by (metis append_take_drop_id mset_append)
  ultimately have "forest h' (graft a (take n ks @ t # drop n ks) p # [] @ ts)"
    by (intro forest_relink [where us = "[t]", OF _ node]) (use forest in auto)
  then show ?thesis using h'(1) by auto
next
  case False
  have "get_array_item (Some a) n h = Some None"
    using get_array_item_siblings [OF forest_siblings [OF forest node], of n] False by simp
  then show ?thesis using forest_add [OF forest node] False by (auto simp: cJSON_InsertItemInArray_def)
qed

lemma forest_replace:
  assumes forest: "forest h (p # r # ts)" and node: "Node a s c (xs @ t # ys) \<in> set (subtrees p)"
  shows "\<exists>h'. cJSON_ReplaceItemViaPointer (Some a) (Some (root t)) (Some (root r)) h = Some (True, h') \<and>
    forest h' (graft a (xs @ r # ys) p # ts)"
proof -
  have "siblings h a (map root xs @ root t # map root ys)" using forest_siblings [OF forest node] by simp
  then obtain h' where h':
    "cJSON_ReplaceItemViaPointer (Some a) (Some (root t)) (Some (root r)) h = map_option (Pair True) (delete_nodes (Some (root t)) h')"
    "relinked a (map root xs @ root r # map root ys) (set (map root xs @ root t # map root ys @ [root r])) h h'"
    "h_next h' (root t) = None"
    using replace_relinks [of h a "map root xs" "root t" "map root ys" "root r"] forest_beside [OF forest node] by auto
  have "forest h' (graft a (xs @ r # ys) p # [t] @ ts)"
    by (rule forest_relink [where us = "[r]", OF _ node]) (use forest h'(2,3) in \<open>auto simp: insert_commute image_Un\<close>)
  then have "forest h' (t # graft a (xs @ r # ys) p # ts)" by (rule forest_permuted) simp
  from forest_delete [OF this] show ?thesis using h'(1) by auto
qed


section \<open>Constructors\<close>

lemma forest_not_top: "forest h ts \<Longrightarrow> h_top h \<notin> set (forest_addrs ts)"
  by (auto simp: forest_def)

lemma forest_calls: "forest (h\<lparr>h_calls := n\<rparr>) ts = forest h ts"
proof -
  have "heap_holds (h\<lparr>h_calls := n\<rparr>) t = heap_holds h t" for t
    by (induction t) (auto simp: linked_def)
  moreover have "node_blocks (h\<lparr>h_calls := n\<rparr>) = node_blocks h"
    by (simp add: node_blocks_def fun_eq_iff)
  ultimately show ?thesis by (simp add: forest_def)
qed

text \<open>A forest keeps its trees when a node beside them changes.\<close>

lemma forest_extend:
  assumes "forest h ts" and "heap_holds h' t" and "addrs t = [h_top h]" and "h_next h' (h_top h) = None"
    and "\<And>b. b \<noteq> h_top h \<Longrightarrow> same_node h h' b \<and> h_next h' b = h_next h b \<and> h_prev h' b = h_prev h b \<and>
      node_blocks h' b = node_blocks h b"
    and "h_top h' = h_top h + 1" and "h_blocks h' = h_blocks h + node_blocks h' (h_top h)"
  shows "forest h' (t # ts)"
proof -
  note top = forest_not_top [OF assms(1)]
  have off: "b \<noteq> h_top h" if "b \<in> set (addrs u)" "u \<in> set ts" for b u
    using top that by (auto simp: set_forest_addrs)
  have "heap_holds h' u \<and> h_next h' (root u) = None" if u: "u \<in> set ts" for u
  proof -
    have "heap_holds h u" "h_next h (root u) = None" using assms(1) u by (auto simp: forest_def)
    then show ?thesis
      using assms(5) off u tl_addrs [of u] root_addrs [of u]
      by (metis holds_frame subsetD)
  qed
  moreover have "sum_list (map (node_blocks h') (forest_addrs ts)) = sum_list (map (node_blocks h) (forest_addrs ts))"
    using assms(5) top by (intro arg_cong [of _ _ sum_list] map_cong refl) metis
  moreover have "h_alloc h' a \<longleftrightarrow> a = h_top h \<or> h_alloc h a" for a
    using assms(2,3,5) holds_alloc [of h' t "h_top h"] by (cases "a = h_top h") (auto simp: same_node_def)
  moreover have "root t = h_top h" using assms(3) by (cases t) simp
  ultimately show ?thesis
    using assms top by (auto simp: forest_def forest_addrs_def less_Suc_eq)
qed

text \<open>The heap with a new node of a given content.\<close>

definition with_node :: "content \<Rightarrow> cjson_heap \<Rightarrow> cjson_heap" where
  "with_node c h =
     (let a = h_top h
      in h\<lparr>h_alloc := (h_alloc h)(a := True), h_top := a + 1, h_next := (h_next h)(a := None),
           h_prev := (h_prev h)(a := None), h_child := (h_child h)(a := None),
           h_content := (h_content h)(a := c), h_string := (h_string h)(a := None),
           h_is_reference := (h_is_reference h)(a := False),
           h_string_is_const := (h_string_is_const h)(a := False), h_blocks := h_blocks h + owned_text c\<rparr>)"

lemma with_node_forest:
  assumes "forest h ts"
  shows "forest (with_node c h) (Node (h_top h) None c [] # ts)"
  by (rule forest_extend [OF assms]) (auto simp: with_node_def Let_def linked_def same_node_def node_blocks_def)

lemma new_node_cases:
  "new_node hooks h =
     (if hooks (h_calls h) SIZEOF_CJSON then (Some (h_top h), with_node C_invalid (h\<lparr>h_calls := h_calls h + 1\<rparr>))
      else (None, h\<lparr>h_calls := h_calls h + 1\<rparr>))"
  by (simp add: new_node_def with_node_def Let_def owned_text_def)

lemma create_forest:
  assumes "forest h ts" and "owned_text c = 0"
  shows "case create hooks c h of
      (None, h') \<Rightarrow> forest h' ts \<and> \<not> hooks (h_calls h) SIZEOF_CJSON
    | (Some a, h') \<Rightarrow> forest h' (Node a None c [] # ts)"
proof (cases "hooks (h_calls h) SIZEOF_CJSON")
  case True
  have "set_content (h_top h) c (with_node C_invalid (h\<lparr>h_calls := h_calls h + 1\<rparr>)) = with_node c (h\<lparr>h_calls := h_calls h + 1\<rparr>)"
    using assms(2) by (simp add: with_node_def Let_def owned_text_def)
  then show ?thesis
    using with_node_forest [of "h\<lparr>h_calls := h_calls h + 1\<rparr>" ts c] assms(1) True
    by (simp add: create_def new_node_cases forest_calls)
next
  case False
  then show ?thesis using assms by (simp add: create_def new_node_cases forest_calls)
qed

lemma create_text_forest:
  assumes "forest h ts" and "owned_text (c t) = 1"
  shows "\<exists>r h'. create_text hooks c (Some t) h = Some (r, h') \<and>
    (case r of None \<Rightarrow> forest h' ts \<and> (\<exists>i n. \<not> hooks i n) | Some a \<Rightarrow> forest h' (Node a None (c t) [] # ts))"
proof (cases "hooks (h_calls h) SIZEOF_CJSON")
  case True
  let ?h = "h\<lparr>h_calls := h_calls h + 1\<rparr>"
  have f: "forest ?h ts" using assms(1) by (simp add: forest_calls)
  show ?thesis
  proof (cases "hooks (h_calls h + 1) (length t + 1)")
    case True
    have "owned_text C_invalid = 0" by (simp add: owned_text_def)
    then have "create_text hooks c (Some t) h = Some (Some (h_top h), (with_node (c t) ?h)\<lparr>h_calls := h_calls h + 2\<rparr>)"
      using True \<open>hooks (h_calls h) SIZEOF_CJSON\<close> assms(2)
      by (simp add: create_text_def new_node_cases cJSON_strdup_def with_node_def Let_def)
    then show ?thesis using with_node_forest [OF f, of "c t"] by (simp add: forest_calls)
  next
    case False
    have "forest ((with_node C_invalid ?h)\<lparr>h_calls := h_calls h + 2\<rparr>) (Node (h_top h) None C_invalid [] # ts)"
      using with_node_forest [OF f, of C_invalid] by (simp add: forest_calls)
    from forest_delete [OF this] show ?thesis
      using False \<open>hooks (h_calls h) SIZEOF_CJSON\<close>
      by (auto simp: create_text_def new_node_cases cJSON_strdup_def with_node_def Let_def)
  qed
next
  case False
  then show ?thesis using assms by (auto simp: create_text_def new_node_cases forest_calls)
qed


section \<open>Naming and adding\<close>

text \<open>The root of a tree gets a name; the old one is released.\<close>

lemma forest_rename:
  assumes "forest h (t # ts)" and "h_blocks h0 = h_blocks h + (if k then 0 else 1)"
    and "h0 = h\<lparr>h_calls := h_calls h0, h_blocks := h_blocks h0\<rparr>"
  shows "forest (rename (root t) key k h0) (Node (root t) (Some key) (body t) (kids t) # ts)"
proof -
  obtain a s c ks where t: "t = Node a s c ks" by (cases t)
  let ?h = "rename a key k h0"
  have keeps: "b \<noteq> a \<Longrightarrow> same_node h ?h b" "h_next ?h = h_next h" "h_prev ?h = h_prev h" "h_alloc ?h = h_alloc h"
    "b \<noteq> a \<Longrightarrow> node_blocks ?h b = node_blocks h b" "h_top ?h = h_top h" "h_child ?h = h_child h"
    "h_content ?h = h_content h" "h_is_reference ?h = h_is_reference h" "h_string ?h a = Some key" for b
    by (subst assms(3), simp add: rename_def same_node_def node_blocks_def Let_def)+
  have blocks: "h_blocks ?h = h_blocks h - node_blocks h a + node_blocks ?h a"
    using assms(2) by (subst assms(3), subst (2) assms(3)) (simp add: rename_def node_blocks_def Let_def)
  have a: "a \<notin> set (concat (map addrs ks))" "a \<notin> set (forest_addrs ts)"
    using assms(1) by (auto simp: forest_def forest_addrs_def t)
  have other: "heap_holds ?h u" if "heap_holds h u" "a \<notin> set (addrs u)" for u
    using that keeps by (metis holds_frame)
  have sums: "sum_list (map (node_blocks ?h) xs) = sum_list (map (node_blocks h) xs)" if "a \<notin> set xs" for xs
    using keeps(5) that by (intro arg_cong [of _ _ sum_list] map_cong refl) metis
  have tree: "heap_holds ?h (Node a (Some key) c ks)"
    using assms(1) keeps a(1) other by (auto simp: forest_def t linked_def)
  have "heap_holds ?h u" if "u \<in> set ts" for u
    using assms(1) that a(2) by (intro other) (auto simp: forest_def forest_addrs_def)
  then show ?thesis
    using assms(1) tree keeps blocks sums [OF a(1)] sums [OF a(2)]
    by (auto simp: forest_def t forest_addrs_def)
qed

lemma forest_add_to_object:
  assumes forest: "forest h (p # t # ts)" and node: "Node a s c ks \<in> set (subtrees p)"
  shows "\<exists>ok h'. add_item_to_object hooks (Some a) (Some name) (Some (root t)) k h = Some (ok, h') \<and>
    (if ok then forest h' (graft a (ks @ [Node (root t) (Some name) (body t) (kids t)]) p # ts)
     else forest h' (p # t # ts) \<and> (\<exists>i n. \<not> hooks i n))"
proof -
  let ?t = "Node (root t) (Some name) (body t) (kids t)"
  note beside = forest_beside [OF forest node]
  have swap: "forest h (t # p # ts)" using forest by (rule forest_permuted) simp
  have add: "\<exists>h'. add_item_to_array (Some a) (Some (root t)) (rename (root t) name k h0) = Some (True, h') \<and>
      forest h' (graft a (ks @ [?t]) p # ts)"
    if "h_blocks h0 = h_blocks h + (if k then 0 else 1)" "h0 = h\<lparr>h_calls := h_calls h0, h_blocks := h_blocks h0\<rparr>" for h0
  proof -
    have "forest (rename (root t) name k h0) (p # ?t # ts)"
      using forest_rename [OF swap that] by (rule forest_permuted) simp
    from forest_add [OF this node] show ?thesis by simp
  qed
  show ?thesis
  proof (cases "k \<or> hooks (h_calls h) (length name + 1)")
    case True
    let ?h = "if k then h else h\<lparr>h_calls := h_calls h + 1, h_blocks := h_blocks h + 1\<rparr>"
    have "add_item_to_object hooks (Some a) (Some name) (Some (root t)) k h =
        add_item_to_array (Some a) (Some (root t)) (rename (root t) name k ?h)"
      using True beside by (cases k) (simp_all add: add_item_to_object_def cJSON_strdup_def access_def)
    then show ?thesis using add [of ?h] by (intro exI [of _ True]) auto
  next
    case False
    then show ?thesis
      using forest beside by (auto simp: add_item_to_object_def cJSON_strdup_def forest_calls)
  qed
qed


lemma delete_null [simp]: "delete_nodes None h = Some h"
  by (simp add: delete_nodes.simps)

text \<open>A node that could not be created or not be added leaves nothing behind.\<close>

lemma add_created_forest:
  assumes forest: "forest h0 (p # ts)" and node: "Node a s c ks \<in> set (subtrees p)"
    and made: "case r of None \<Rightarrow> forest h (p # ts) \<and> (\<exists>i n. \<not> hooks i n) | Some i \<Rightarrow> forest h (Node i None b [] # p # ts)"
  shows "\<exists>q h'. add_created hooks (Some a) (Some name) (Some (r, h)) = Some (q, h') \<and>
    (case q of
       None \<Rightarrow> forest h' (p # ts) \<and> (\<exists>i n. \<not> hooks i n)
     | Some i \<Rightarrow> forest h' (graft a (ks @ [Node i (Some name) b []]) p # ts))"
proof (cases r)
  case None
  then show ?thesis using made by (simp add: add_created_def add_item_to_object_def)
next
  case (Some i)
  let ?t = "Node i None b []"
  have "forest h (p # ?t # ts)" using made Some by (auto intro: forest_permuted)
  from forest_add_to_object [OF this node, of hooks name False, unfolded jtree.sel] obtain ok h' where
    add: "add_item_to_object hooks (Some a) (Some name) (Some i) False h = Some (ok, h')"
    and result: "if ok then forest h' (graft a (ks @ [Node i (Some name) b []]) p # ts)
      else forest h' (p # ?t # ts) \<and> (\<exists>i n. \<not> hooks i n)"
    by blast
  show ?thesis
  proof (cases ok)
    case True
    then show ?thesis using add result Some by (simp add: add_created_def)
  next
    case False
    then have "forest h' (?t # p # ts)" using result by (auto intro: forest_permuted)
    from forest_delete [OF this] show ?thesis using add result Some False by (auto simp: add_created_def)
  qed
qed


text \<open>The same for the nodes that own no text: null, the booleans, numbers, arrays and objects.\<close>

lemma heap_add_plain:
  assumes "forest h (p # ts)" and "Node a s c ks \<in> set (subtrees p)" and "owned_text b = 0"
  shows "\<exists>q h'. add_created hooks (Some a) (Some name) (Some (create hooks b h)) = Some (q, h') \<and>
    (case q of
       None \<Rightarrow> forest h' (p # ts) \<and> (\<exists>i n. \<not> hooks i n)
     | Some i \<Rightarrow> forest h' (graft a (ks @ [Node i (Some name) b []]) p # ts))"
proof -
  obtain r h1 where make: "create hooks b h = (r, h1)" by fastforce
  then have "case r of None \<Rightarrow> forest h1 (p # ts) \<and> (\<exists>i n. \<not> hooks i n) | Some i \<Rightarrow> forest h1 (Node i None b [] # p # ts)"
    using create_forest [OF assms(1,3), of hooks] by (auto split: option.splits)
  from add_created_forest [OF assms(1,2) this] show ?thesis by (simp add: make)
qed

text \<open>Taking the child at an index, or the member of a name, out of a document; then it can be deleted.\<close>

lemma heap_detach_array:
  assumes "forest h (p # ts)" and "Node a s c ks \<in> set (subtrees p)" and "n < length ks"
  shows "\<exists>h'. cJSON_DetachItemFromArray (Some a) (int n) h = Some (Some (root (ks ! n)), h') \<and>
    forest h' (graft a (take n ks @ drop (Suc n) ks) p # ks ! n # ts)"
proof -
  have "ks = take n ks @ ks ! n # drop (Suc n) ks" using assms(3) by (rule id_take_nth_drop)
  then have "Node a s c (take n ks @ ks ! n # drop (Suc n) ks) \<in> set (subtrees p)" using assms(2) by simp
  from forest_detach [OF assms(1) this] show ?thesis
    using get_array_item_siblings [OF forest_siblings [OF assms(1,2)], of n] assms(3)
    by (simp add: cJSON_DetachItemFromArray_def)
qed

lemma heap_delete_array:
  assumes "forest h (p # ts)" and "Node a s c ks \<in> set (subtrees p)" and "n < length ks"
  shows "\<exists>h'. cJSON_DeleteItemFromArray (Some a) (int n) h = Some h' \<and>
    forest h' (graft a (take n ks @ drop (Suc n) ks) p # ts)"
proof -
  obtain h1 where h1: "cJSON_DetachItemFromArray (Some a) (int n) h = Some (Some (root (ks ! n)), h1)"
    "forest h1 (graft a (take n ks @ drop (Suc n) ks) p # ks ! n # ts)"
    using heap_detach_array [OF assms] by blast
  from h1(2) have "forest h1 (ks ! n # graft a (take n ks @ drop (Suc n) ks) p # ts)"
    by (rule forest_permuted) simp
  from forest_delete [OF this] show ?thesis using h1(1) by (auto simp: cJSON_DeleteItemFromArray_def)
qed

lemma heap_delete_member:
  assumes "forest h (p # ts)" and "Node a s c (xs @ t # ys) \<in> set (subtrees p)"
    and "find_kid cs name (xs @ t # ys) = Some t"
  shows "\<exists>h'. delete_from_object cs (Some a) (Some name) h = Some h' \<and> forest h' (graft a (xs @ ys) p # ts)"
proof -
  obtain h1 where h1: "cJSON_DetachItemViaPointer (Some a) (Some (root t)) h = Some (Some (root t), h1)"
    "forest h1 (graft a (xs @ ys) p # t # ts)"
    using forest_detach [OF assms(1,2)] by blast
  from h1(2) have "forest h1 (t # graft a (xs @ ys) p # ts)" by (rule forest_permuted) simp
  from forest_delete [OF this] show ?thesis
    using h1(1) object_item_forest [OF assms(1,2), of cs name] assms(3)
    by (auto simp: delete_from_object_def detach_from_object_def)
qed

text \<open>
  \<^verbatim>\<open>cJSON_AddItemReferenceToObject\<close> does not delete the reference it made when the name cannot be copied: the new
  node stays allocated and nobody heap_holds a pointer to it.
\<close>

lemma reference_leaks:
  assumes "h_alloc h i" and "h_alloc h a" and "\<not> h_alloc h (h_top h)"
    and "hooks (h_calls h) SIZEOF_CJSON" and "\<not> hooks (h_calls h + 1) (length name + 1)"
  shows "\<exists>h'. cJSON_AddItemReferenceToObject hooks (Some a) (Some name) (Some i) h = Some (False, h') \<and>
    h_alloc h' (h_top h) \<and> h_child h' a = h_child h a"
proof -
  have "a \<noteq> h_top h" "i \<noteq> h_top h" using assms(1-3) by auto
  then show ?thesis using assms
    by (auto simp: cJSON_AddItemReferenceToObject_def create_reference_def new_node_def access_def Let_def
        add_item_to_object_def cJSON_strdup_def)
qed

section \<open>Properties\<close>

text \<open>An object with one member, and a number that belongs to nothing yet.\<close>

definition sample_object :: jtree where
  "sample_object = Node 0 None C_object [Node 1 (Some ''a'') (C_str ''x'') []]"

definition sample_number :: jtree where
  "sample_number = Node 2 None (C_num (D_fin False 5 0)) []"

definition sample_heap :: cjson_heap where
  "sample_heap =
     \<lparr>h_alloc = (\<lambda>a. a < 3), h_top = 3, h_next = (\<lambda>a. None), h_prev = [1 \<mapsto> 1], h_child = [0 \<mapsto> 1],
      h_content = (\<lambda>a. if a = 0 then C_object else if a = 1 then C_str ''x'' else C_num (D_fin False 5 0)),
      h_string = [1 \<mapsto> ''a''], h_is_reference = (\<lambda>a. False), h_string_is_const = (\<lambda>a. False),
      h_calls = 0, h_blocks = 2\<rparr>"

lemma sample_forest: "forest sample_heap [sample_object, sample_number]"
  by (auto simp: forest_def forest_addrs_def sample_heap_def sample_object_def sample_number_def linked_def
      node_blocks_def owned_text_def less_Suc_eq numeral_3_eq_3)

lemma sample_subtree: "Node 0 None C_object [Node 1 (Some ''a'') (C_str ''x'') []] \<in> set (subtrees sample_object)"
  by (simp add: sample_object_def)

text \<open>
  C18: \<^verbatim>\<open>cJSON_AddStringToObject\<close> on any object of any document, with any allocator: it ends without following a bad
  pointer; if it returns an item, the object has exactly one more member, at its end, with that name and string;
  if it returns NULL the document is as before, no node and no text is left behind, and the allocator refused a request.
\<close>

theorem heap_add_string:
  assumes "forest h (p # ts)" and "Node a s c ks \<in> set (subtrees p)"
  shows "\<exists>q h'. cJSON_AddStringToObject hooks (Some a) (Some name) (Some text) h = Some (q, h') \<and>
    (case q of
       None \<Rightarrow> forest h' (p # ts) \<and> (\<exists>i n. \<not> hooks i n)
     | Some i \<Rightarrow> forest h' (graft a (ks @ [Node i (Some name) (C_str text) []]) p # ts))"
proof -
  have "owned_text (C_str text) = 1" by (simp add: owned_text_def)
  from create_text_forest [OF assms(1), of C_str, OF this, of hooks] obtain r h1 where
    "create_text hooks C_str (Some text) h = Some (r, h1)"
    "case r of None \<Rightarrow> forest h1 (p # ts) \<and> (\<exists>i n. \<not> hooks i n) | Some i \<Rightarrow> forest h1 (Node i None (C_str text) [] # p # ts)"
    by blast
  then show ?thesis using add_created_forest [where r = r and h = h1 and hooks = hooks and b = "C_str text" and name = name, OF assms]
    by (simp add: cJSON_AddStringToObject_def cJSON_CreateString_def)
qed

theorem heap_add_string_witness:
  "\<exists>q h'. cJSON_AddStringToObject (\<lambda>i n. i = 0) (Some 0) (Some ''b'') (Some ''y'') sample_heap = Some (q, h') \<and>
    (case q of
       None \<Rightarrow> forest h' [sample_object, sample_number] \<and> (\<exists>(i::nat) (n::nat). i \<noteq> 0)
     | Some i \<Rightarrow>
         forest h'
           [graft 0 ([Node 1 (Some ''a'') (C_str ''x'') []] @ [Node i (Some ''b'') (C_str ''y'') []]) sample_object, sample_number])"
  by (rule heap_add_string [OF sample_forest sample_subtree])

text \<open>
  C26: \<^verbatim>\<open>cJSON_Delete\<close> of a whole document ends, frees every node of it exactly once together with the texts they own,
  and nothing else.
\<close>

theorem heap_delete_exact:
  assumes "forest h (t # ts)"
  shows "\<exists>h'. delete_nodes (Some (root t)) h = Some h' \<and> forest h' ts \<and>
    (\<forall>a. h_alloc h' a \<longleftrightarrow> h_alloc h a \<and> a \<notin> set (addrs t)) \<and>
    h_blocks h' = h_blocks h - sum_list (map (node_blocks h) (addrs t))"
proof -
  obtain h' where "delete_nodes (Some (root t)) h = Some h'" "forest h' ts" "h' = free_all (addrs t) h"
    using forest_delete [OF assms] by blast
  then show ?thesis by (simp add: free_all_def)
qed

theorem heap_delete_exact_witness:
  "\<exists>h'. delete_nodes (Some (root sample_object)) sample_heap = Some h' \<and> forest h' [sample_number] \<and>
    (\<forall>a. h_alloc h' a \<longleftrightarrow> h_alloc sample_heap a \<and> a \<notin> set (addrs sample_object)) \<and>
    h_blocks h' = h_blocks sample_heap - sum_list (map (node_blocks sample_heap) (addrs sample_object))"
  by (rule heap_delete_exact [OF sample_forest])

text \<open>
  C28: \<^verbatim>\<open>cJSON_GetObjectItemCaseSensitive\<close> on an object of a document follows only good pointers and finds the child
  that stands for the member the JSON value has under that name, or NULL when it has none.
\<close>

theorem heap_lookup_refines:
  assumes "forest h (p # ts)" and "Node a s C_object ks \<in> set (subtrees p)"
    and "denote (Node a s C_object ks) = Some (J_obj kvs)"
  shows "\<exists>q. cJSON_GetObjectItemCaseSensitive (Some a) (Some name) h = Some (map_option root q) \<and>
    (\<forall>k. q = Some k \<longrightarrow> k \<in> set ks) \<and> Option.bind q denote = get_object_item (Some (J_obj kvs)) name"
proof (intro exI conjI)
  show "cJSON_GetObjectItemCaseSensitive (Some a) (Some name) h = Some (map_option root (find_kid True name ks))"
    using object_item_forest [OF assms(1,2)] by (simp add: cJSON_GetObjectItemCaseSensitive_def)
  show "\<forall>k. find_kid True name ks = Some k \<longrightarrow> k \<in> set ks" using find_kid_kids by blast
  show "Option.bind (find_kid True name ks) denote = get_object_item (Some (J_obj kvs)) name"
    using assms(3) find_kid_map_of [of ks kvs name] by (auto simp: get_object_item_def)
qed

theorem heap_lookup_refines_witness:
  "\<exists>q. cJSON_GetObjectItemCaseSensitive (Some 0) (Some ''a'') sample_heap = Some (map_option root q) \<and>
    (\<forall>k. q = Some k \<longrightarrow> k \<in> set [Node 1 (Some ''a'') (C_str ''x'') []]) \<and>
    Option.bind q denote = get_object_item (Some (J_obj [(''a'', J_str ''x'')])) ''a''"
  by (rule heap_lookup_refines [OF sample_forest sample_subtree]) simp

text \<open>
  C27: \<^verbatim>\<open>cJSON_ReplaceItemInArray\<close> puts a document in the place of one child of a node, wherever it stands among its
  siblings, and frees the child it replaces; beyond the last child and for a negative index it changes nothing.
\<close>

theorem heap_replace_refines:
  assumes "forest h (p # r # ts)" and "Node a s c ks \<in> set (subtrees p)"
  shows "\<exists>ok h'. cJSON_ReplaceItemInArray (Some a) i (Some (root r)) h = Some (ok, h') \<and>
    (if 0 \<le> i \<and> nat i < length ks then ok \<and> forest h' (graft a (ks[nat i := r]) p # ts) else \<not> ok \<and> h' = h)"
proof (cases "0 \<le> i \<and> nat i < length ks")
  case True
  define n where "n = nat i"
  have n: "n < length ks" "i = int n" using True by (auto simp: n_def)
  have split: "ks = take n ks @ ks ! n # drop (Suc n) ks" using n(1) by (rule id_take_nth_drop)
  have "Node a s c (take n ks @ ks ! n # drop (Suc n) ks) \<in> set (subtrees p)" using assms(2) split by simp
  from forest_replace [OF assms(1) this] obtain h' where
    "cJSON_ReplaceItemViaPointer (Some a) (Some (root (ks ! n))) (Some (root r)) h = Some (True, h')"
    "forest h' (graft a (take n ks @ r # drop (Suc n) ks) p # ts)" by blast
  moreover have "get_array_item (Some a) n h = Some (Some (root (ks ! n)))"
    using get_array_item_siblings [OF forest_siblings [OF assms], of n] n(1) by simp
  ultimately show ?thesis using n by (auto simp: cJSON_ReplaceItemInArray_def upd_conv_take_nth_drop)
next
  case False
  have "get_array_item (Some a) (nat i) h = Some None" if "0 \<le> i"
    using get_array_item_siblings [OF forest_siblings [OF assms], of "nat i"] False that by simp
  moreover have "h_alloc h a" using forest_holds [OF assms] by simp
  ultimately show ?thesis
    using False by (auto simp: cJSON_ReplaceItemInArray_def cJSON_ReplaceItemViaPointer_def access_def split: option.splits)
qed

theorem heap_replace_refines_witness:
  "\<exists>ok h'. cJSON_ReplaceItemInArray (Some 0) 0 (Some (root sample_number)) sample_heap = Some (ok, h') \<and>
    (if 0 \<le> (0::int) \<and> nat 0 < length [Node 1 (Some ''a'') (C_str ''x'') []]
     then ok \<and> forest h' [graft 0 ([Node 1 (Some ''a'') (C_str ''x'') []][nat 0 := sample_number]) sample_object]
     else \<not> ok \<and> h' = sample_heap)"
  by (rule heap_replace_refines [OF sample_forest sample_subtree])

end
