(* ===== verification/Dgram_Open.thy ===== *)
theory Dgram_Open
  imports Data_Session
begin

text \<open>
  The sockets behind the data sessions: \<^verbatim>\<open>edog_dgram_open\<close> and \<^verbatim>\<open>edog_dgram_close\<close> of \<^verbatim>\<open>src/dgram.c\<close> over the descriptors
  of the process and the socket files, and \<^verbatim>\<open>ecat_data_open\<close> and \<^verbatim>\<open>ecat_data_close\<close> of \<^verbatim>\<open>src/data.c\<close> with them. What the
  system calls return is an argument; of the kernel it is assumed only that a new descriptor was not in use.
\<close>

section \<open>Descriptors and socket files\<close>

record sock =
  s_nonblock :: bool
  s_bound :: "sockaddr option"

record net =
  n_socks :: "int \<rightharpoonup> sock"
  n_files :: "string \<rightharpoonup> nat"

text \<open>The outcome of the system calls of one \<^verbatim>\<open>edog_dgram_open\<close>.\<close>

record open_io =
  o_socket :: "int option"
  o_getfl :: bool
  o_setfl :: bool
  o_bind :: bool
  o_mode :: nat
  o_chmod :: bool
  o_port :: "u16 option"
  o_pid :: int

definition close_sock :: "int \<Rightarrow> net \<Rightarrow> net" where
  "close_sock fd n = n\<lparr>n_socks := (n_socks n)(fd := None)\<rparr>"

definition unlink :: "string \<Rightarrow> net \<Rightarrow> net" where
  "unlink path n = n\<lparr>n_files := (n_files n)(path := None)\<rparr>"

definition set_nonblocking :: "open_io \<Rightarrow> int \<Rightarrow> net \<Rightarrow> bool \<times> net" where
  "set_nonblocking io fd n =
     (if \<not> o_getfl io then (False, n)
      else if \<not> o_setfl io then (False, n)
      else (True, n\<lparr>n_socks := (n_socks n)(fd := map_option (\<lambda>s. s\<lparr>s_nonblock := True\<rparr>) (n_socks n fd))\<rparr>))"

definition bind_fd :: "int \<Rightarrow> sockaddr \<Rightarrow> net \<Rightarrow> net" where
  "bind_fd fd a n = n\<lparr>n_socks := (n_socks n)(fd := map_option (\<lambda>s. s\<lparr>s_bound := Some a\<rparr>) (n_socks n fd))\<rparr>"

text \<open>\<^verbatim>\<open>snprintf\<close> of a text into a buffer with the given size.\<close>

definition snprintf_text :: "nat \<Rightarrow> string \<Rightarrow> string" where
  "snprintf_text cap s = take (cap - 1) s"

definition local_socket_path :: "string \<Rightarrow> int \<Rightarrow> int \<Rightarrow> string" where
  "local_socket_path state_dir master_index pid =
     state_dir @ ''/etherdog-data-'' @ fmt_dec master_index @ ''-'' @ fmt_dec pid @ ''.sock''"

definition INADDR_LOOPBACK :: u32 where "INADDR_LOOPBACK = 0x7F000001"

text \<open>On success the descriptor, the bound path (empty for UDP) and the endpoint text.\<close>

definition edog_dgram_open ::
  "open_io \<Rightarrow> sockaddr \<Rightarrow> string \<Rightarrow> int \<Rightarrow> nat \<Rightarrow> nat \<Rightarrow> net \<Rightarrow> (int \<times> string \<times> string) option \<times> net" where
  "edog_dgram_open io peer state_dir master_index local_path_size endpoint_size n =
     (case o_socket io of
        None \<Rightarrow> (None, n)
      | Some fd \<Rightarrow>
          let n = n\<lparr>n_socks := (n_socks n)(fd \<mapsto> \<lparr>s_nonblock = False, s_bound = None\<rparr>)\<rparr>
          in case set_nonblocking io fd n of
               (False, n) \<Rightarrow> (None, close_sock fd n)
             | (True, n) \<Rightarrow>
                 (case peer of
                    SA_UNIX _ \<Rightarrow>
                      let path = local_socket_path state_dir master_index (o_pid io)
                      in if length path \<ge> sun_path_size \<or> length path \<ge> local_path_size then (None, close_sock fd n)
                         else let n = unlink path n
                              in if \<not> o_bind io then (None, close_sock fd n)
                                 else let n = bind_fd fd (SA_UNIX path) n;
                                          n = n\<lparr>n_files := (n_files n)(path \<mapsto> (if o_chmod io then 384 else o_mode io))\<rparr>
                                      in (Some (fd, snprintf_text local_path_size path,
                                                snprintf_text endpoint_size (''unix:'' @ path)), n)
                  | _ \<Rightarrow>
                      if \<not> o_bind io then (None, close_sock fd n)
                      else (case o_port io of
                              None \<Rightarrow> (None, close_sock fd n)
                            | Some port \<Rightarrow>
                                (Some (fd, [], snprintf_text endpoint_size (''udp:127.0.0.1:'' @ fmt_dec (uint port))),
                                 bind_fd fd (SA_INET INADDR_LOOPBACK port) n))))"

definition edog_dgram_close :: "int \<Rightarrow> string \<Rightarrow> net \<Rightarrow> net" where
  "edog_dgram_close fd local_path n =
     (let n = (if fd \<ge> 0 then close_sock fd n else n)
      in if local_path \<noteq> [] then unlink local_path n else n)"

section \<open>Sessions with their sockets\<close>

text \<open>\<^verbatim>\<open>sizeof (d->local_path)\<close>, and the size of the buffer for the endpoint in \<^verbatim>\<open>open_data\<close>.\<close>

definition local_path_size :: nat where "local_path_size = 108"
definition endpoint_size :: nat where "endpoint_size = 160"

definition close_session :: "'d ecat_master_instance \<times> net \<Rightarrow> 'd ecat_master_instance \<times> net" where
  "close_session s =
     (case s of (inst, n) \<Rightarrow>
        (ecat_data_close inst, edog_dgram_close (d_fd (i_data inst)) (d_local_path (i_data inst)) n))"

definition open_session ::
  "open_io \<Rightarrow> string \<Rightarrow> string \<Rightarrow> int \<Rightarrow> u64 \<Rightarrow> 'd ecat_master_instance \<times> net \<Rightarrow>
   (u64 \<times> string) option \<times> 'd ecat_master_instance \<times> net" where
  "open_session io client_endpoint state_dir master_index fresh s =
     (case s of (inst, n) \<Rightarrow>
        (case edog_dgram_parse client_endpoint of
           None \<Rightarrow> (None, inst, n)
         | Some peer \<Rightarrow>
             let n = edog_dgram_close (d_fd (i_data inst)) (d_local_path (i_data inst)) n
             in if d_rx_buf (i_data inst) = None \<or> d_tx_buf (i_data inst) = None then
                  (None, snd (ecat_data_open client_endpoint None fresh inst), n)
                else
                  (case edog_dgram_open io peer state_dir master_index local_path_size endpoint_size n of
                     (None, n) \<Rightarrow> (None, snd (ecat_data_open client_endpoint None fresh inst), n)
                   | (Some (fd, path, local), n) \<Rightarrow>
                       (map_option (\<lambda>session. (session, local)) (fst (ecat_data_open client_endpoint (Some (fd, path)) fresh inst)),
                        snd (ecat_data_open client_endpoint (Some (fd, path)) fresh inst), n))))"

section \<open>One socket\<close>

text \<open>The kernel hands out descriptors that are not in use.\<close>

definition socket_ok :: "open_io \<Rightarrow> net \<Rightarrow> bool" where
  "socket_ok io n \<longleftrightarrow> (\<forall>fd. o_socket io = Some fd \<longrightarrow> 0 \<le> fd \<and> n_socks n fd = None)"

lemmas open_defs = edog_dgram_open_def set_nonblocking_def bind_fd_def close_sock_def unlink_def Let_def

lemma open_fails:
  assumes "socket_ok io n" and "edog_dgram_open io peer dir m ls es n = (None, n')"
  shows "n_socks n' = n_socks n \<and> (\<forall>p. p \<noteq> local_socket_path dir m (o_pid io) \<longrightarrow> n_files n' p = n_files n p)"
  using assms by (auto simp: socket_ok_def open_defs fun_upd_idem split: option.splits if_splits sockaddr.splits)

lemma open_succeeds:
  assumes "socket_ok io n" and "edog_dgram_open io peer dir m ls es n = (Some (fd, path, ep_text), n')"
  shows "0 \<le> fd \<and> n_socks n fd = None \<and>
    (\<exists>a. n_socks n' = (n_socks n)(fd \<mapsto> \<lparr>s_nonblock = True, s_bound = Some a\<rparr>) \<and>
       ((\<exists>p. peer = SA_UNIX p) \<and> path = local_socket_path dir m (o_pid io) \<and> a = SA_UNIX path \<and> length path < sun_path_size \<and>
          ep_text = snprintf_text es (''unix:'' @ path) \<and>
          n_files n' = (n_files n)(path \<mapsto> (if o_chmod io then 384 else o_mode io)) \<or>
        path = [] \<and> n_files n' = n_files n \<and>
          (\<exists>port. o_port io = Some port \<and> a = SA_INET INADDR_LOOPBACK port \<and>
             ep_text = snprintf_text es (''udp:127.0.0.1:'' @ fmt_dec (uint port)))))"
  using assms
  by (auto simp: socket_ok_def open_defs snprintf_text_def split: option.splits if_splits sockaddr.splits)


text \<open>The endpoint text of a UDP socket reads back as its address.\<close>

lemma dec_chars_last_colon: "CHR '':'' \<notin> set (dec_chars k)"
  using dec_chars_digits(1) [of k] by (auto simp: list_all_iff isdigit_def)

lemma split_last_append: "c \<notin> set t \<Longrightarrow> split_last c (s @ c # t) = Some (s, t)"
  by (simp add: split_last_def dropWhile_append takeWhile_append)

lemma udp_endpoint_parses:
  fixes port :: u16
  assumes "port \<noteq> 0"
  shows "edog_dgram_parse (''udp:127.0.0.1:'' @ fmt_dec (uint port)) = Some (SA_INET INADDR_LOOPBACK port)"
proof -
  have range: "0 < uint port" "uint port < 65536"
    using assms uint_lt2p [of port] by (auto simp: unsigned_eq_0_iff order_less_le)
  have t: "fmt_dec (uint port) = dec_chars (nat (uint port))" by (simp add: fmt_dec_def)
  have split: "split_last CHR '':'' (''127.0.0.1:'' @ fmt_dec (uint port)) = Some (''127.0.0.1'', fmt_dec (uint port))"
    using split_last_append [of "CHR '':''" "fmt_dec (uint port)" "''127.0.0.1''"] dec_chars_last_colon by (simp add: t)
  have port: "strtol 10 (fmt_dec (uint port)) = Some (uint port, [])"
    by (rule strtol_fmt_dec) (use range in auto)
  have host: "inet_pton ''127.0.0.1'' = Some INADDR_LOOPBACK"
    by (simp add: inet_pton_def inet_octet_def isdigit_def digits_value_def INADDR_LOOPBACK_def)
  show ?thesis
    using split port host range
    by (simp add: edog_dgram_parse_def starts_with_def is_loopback_def INADDR_LOOPBACK_def)
qed

lemma unix_endpoint_parses:
  "path \<noteq> [] \<Longrightarrow> length path < sun_path_size \<Longrightarrow> edog_dgram_parse (''unix:'' @ path) = Some (SA_UNIX path)"
  by (simp add: edog_dgram_parse_def starts_with_def Let_def)

lemma endpoint_fits:
  "length path < sun_path_size \<Longrightarrow> snprintf_text endpoint_size (''unix:'' @ path) = ''unix:'' @ path"
  by (simp add: snprintf_text_def sun_path_size_def endpoint_size_def)


lemma udp_endpoint_fits:
  fixes port :: u16
  shows "snprintf_text endpoint_size (''udp:127.0.0.1:'' @ fmt_dec (uint port)) = ''udp:127.0.0.1:'' @ fmt_dec (uint port)"
proof -
  have "unat port < 65536" using unsigned_less [of port] by simp
  then have "length (dec_chars (nat (uint port))) \<le> 5" by (intro dec_chars_length) auto
  then show ?thesis by (simp add: snprintf_text_def endpoint_size_def fmt_dec_def)
qed

section \<open>The descriptors over time\<close>

text \<open>
  An open session has exactly one descriptor, a non-blocking bound socket that nobody else has; a closed one has none.
  \<open>others\<close> are the sockets of the rest of the process.
\<close>

definition own_socket :: "(int \<rightharpoonup> sock) \<Rightarrow> ecat_data_session \<Rightarrow> net \<Rightarrow> bool" where
  "own_socket others d n \<longleftrightarrow>
     (if d_open d then
        0 \<le> d_fd d \<and> others (d_fd d) = None \<and>
        (\<exists>a. n_socks n = others(d_fd d \<mapsto> \<lparr>s_nonblock = True, s_bound = Some a\<rparr>))
      else d_fd d = - 1 \<and> d_local_path d = [] \<and> n_socks n = others)"

text \<open>What can happen to a session: it is opened, it is closed, or the bus thread works with it.\<close>

inductive socket_step ::
  "string \<Rightarrow> int \<Rightarrow> string \<Rightarrow> 'd ecat_master_instance \<times> net \<Rightarrow> 'd ecat_master_instance \<times> net \<Rightarrow> bool"
  for state_dir :: string and master_index :: int where
  step_open: "socket_ok io (snd (close_session s)) \<Longrightarrow>
    socket_step state_dir master_index ep s (snd (open_session io ep state_dir master_index fresh s))"
| step_close: "socket_step state_dir master_index ep s (close_session s)"
| step_work: "d_open (i_data inst') = d_open (i_data inst) \<Longrightarrow> d_fd (i_data inst') = d_fd (i_data inst) \<Longrightarrow>
    d_local_path (i_data inst') = d_local_path (i_data inst) \<Longrightarrow>
    socket_step state_dir master_index ep (inst, n) (inst', n)"

definition sockets_start :: "(int \<rightharpoonup> sock) \<Rightarrow> 'd ecat_master_instance \<times> net \<Rightarrow> bool" where
  "sockets_start others s \<longleftrightarrow>
     (case s of (inst, n) \<Rightarrow>
        \<not> d_open (i_data inst) \<and> d_fd (i_data inst) = - 1 \<and> d_local_path (i_data inst) = [] \<and> n_socks n = others)"

definition sockets_good :: "(int \<rightharpoonup> sock) \<Rightarrow> 'd ecat_master_instance \<times> net \<Rightarrow> bool" where
  "sockets_good others s \<longleftrightarrow> (case s of (inst, n) \<Rightarrow> own_socket others (i_data inst) n)"

lemma close_restores:
  "own_socket others d n \<Longrightarrow> n_socks (edog_dgram_close (d_fd d) (d_local_path d) n) = others"
  by (auto simp: own_socket_def edog_dgram_close_def close_sock_def unlink_def Let_def fun_upd_idem split: if_splits)

lemma closed_own: "n_socks n = others \<Longrightarrow> own_socket others (close_locked d) n"
  by (simp add: own_socket_def close_locked_def)

lemma close_session_good: "sockets_good others s \<Longrightarrow> sockets_good others (close_session s)"
  by (cases s) (simp add: sockets_good_def close_session_def ecat_data_close_def closed_own close_restores)

lemma open_session_good:
  assumes good: "sockets_good others s" and kernel: "socket_ok io (snd (close_session s))"
  shows "sockets_good others (snd (open_session io ep dir m fresh s))"
proof -
  obtain inst n where s: "s = (inst, n)" by (cases s)
  let ?n = "edog_dgram_close (d_fd (i_data inst)) (d_local_path (i_data inst)) n"
  have base: "n_socks ?n = others" using good close_restores by (simp add: sockets_good_def s)
  have ok: "socket_ok io ?n" using kernel by (simp add: s close_session_def)
  show ?thesis
  proof (cases "edog_dgram_parse ep")
    case None
    then show ?thesis using good by (simp add: s open_session_def)
  next
    case (Some peer)
    show ?thesis
    proof (cases "d_rx_buf (i_data inst) = None \<or> d_tx_buf (i_data inst) = None")
      case True
      then show ?thesis using Some closed_own [OF base, of "i_data inst"]
        by (auto simp: s open_session_def ecat_data_open_def sockets_good_def Let_def close_locked_def)
    next
      case False
      show ?thesis
      proof (cases "edog_dgram_open io peer dir m local_path_size endpoint_size ?n")
        case (Pair r n')
        show ?thesis
        proof (cases r)
          case None
          then have "n_socks n' = others" using open_fails [OF ok] Pair base by simp
          then show ?thesis using Some False Pair None closed_own [of n' others "i_data inst"]
            by (auto simp: s open_session_def ecat_data_open_def sockets_good_def Let_def close_locked_def)
        next
          case (Some opened)
          obtain fd path ep_text where opened: "opened = (fd, path, ep_text)" by (cases opened)
          have "0 \<le> fd \<and> others fd = None \<and> (\<exists>a. n_socks n' = others(fd \<mapsto> \<lparr>s_nonblock = True, s_bound = Some a\<rparr>))"
            using open_succeeds [OF ok, of peer dir m local_path_size endpoint_size fd path ep_text n'] Pair Some opened base by auto
          then show ?thesis using \<open>edog_dgram_parse ep = Some peer\<close> False Pair Some opened
            by (auto simp: s open_session_def ecat_data_open_def sockets_good_def Let_def close_locked_def own_socket_def)
        qed
      qed
    qed
  qed
qed

lemma socket_step_good: "socket_step dir m ep s t \<Longrightarrow> sockets_good others s \<Longrightarrow> sockets_good others t"
proof (induction rule: socket_step.induct)
  case (step_open io s ep fresh)
  then show ?case by (intro open_session_good)
next
  case (step_close ep s)
  then show ?case by (intro close_session_good)
next
  case (step_work inst' inst ep n)
  then show ?case by (simp add: sockets_good_def own_socket_def)
qed

interpretation sockets: step_invariant "sockets_start others" "socket_step dir m" "sockets_good others" for others dir m
proof unfold_locales
  show "sockets_start others s \<Longrightarrow> sockets_good others s" for s :: "'a ecat_master_instance \<times> net"
    by (cases s) (simp add: sockets_start_def sockets_good_def own_socket_def)
qed (rule socket_step_good)

section \<open>Properties\<close>

text \<open>
  C14: whatever is opened and closed on a master, with whatever outcome of the system calls, an open session has exactly
  one descriptor, a non-blocking bound socket, a closed one has none, and the other sockets of the process are untouched.
\<close>

theorem data_sockets_balanced:
  assumes "reach (sockets_start others) (socket_step dir m) (inst, n)"
  shows "if d_open (i_data inst) then
      0 \<le> d_fd (i_data inst) \<and> others (d_fd (i_data inst)) = None \<and>
      (\<exists>a. n_socks n = others(d_fd (i_data inst) \<mapsto> \<lparr>s_nonblock = True, s_bound = Some a\<rparr>))
    else n_socks n = others"
  using sockets.reach_good [OF assms] by (auto simp: sockets_good_def own_socket_def)

text \<open>
  C35: the endpoint that an open command reports to the client is the address of the socket the session receives on: the
  program's own parser reads it back as that address.
\<close>

theorem data_endpoint_names_socket:
  assumes "open_session io ep dir m fresh s = (Some (session, reported), inst, n)"
    and "socket_ok io (snd (close_session s))" and "o_port io \<noteq> Some 0"
  shows "\<exists>a. edog_dgram_parse reported = Some a \<and>
    n_socks n (d_fd (i_data inst)) = Some \<lparr>s_nonblock = True, s_bound = Some a\<rparr> \<and>
    d_open (i_data inst) \<and> session = fresh \<and> d_session (i_data inst) = fresh"
proof -
  obtain inst0 n0 where s: "s = (inst0, n0)" by (cases s)
  let ?n = "edog_dgram_close (d_fd (i_data inst0)) (d_local_path (i_data inst0)) n0"
  have ok: "socket_ok io ?n" using assms(2) by (simp add: s close_session_def)
  obtain peer fd path where p: "edog_dgram_parse ep = Some peer"
    and opened: "edog_dgram_open io peer dir m local_path_size endpoint_size ?n = (Some (fd, path, reported), n)"
    and i: "session = fresh" "d_fd (i_data inst) = fd" "d_open (i_data inst)" "d_session (i_data inst) = fresh"
    using assms(1)
    by (auto simp: s open_session_def ecat_data_open_def Let_def close_locked_def split: option.splits if_splits prod.splits)
  obtain a where a: "n_socks n = (n_socks ?n)(fd \<mapsto> \<lparr>s_nonblock = True, s_bound = Some a\<rparr>)"
    and "path = local_socket_path dir m (o_pid io) \<and> a = SA_UNIX path \<and> length path < sun_path_size \<and>
         reported = snprintf_text endpoint_size (''unix:'' @ path) \<or>
       (\<exists>port. o_port io = Some port \<and> a = SA_INET INADDR_LOOPBACK port \<and>
         reported = snprintf_text endpoint_size (''udp:127.0.0.1:'' @ fmt_dec (uint port)))"
    using open_succeeds [OF ok opened] by blast
  moreover have "local_socket_path dir m k \<noteq> []" for k by (simp add: local_socket_path_def)
  ultimately have "edog_dgram_parse reported = Some a"
    using assms(3) by (metis endpoint_fits unix_endpoint_parses udp_endpoint_fits udp_endpoint_parses)
  then show ?thesis using a i by simp
qed


definition sample_io :: open_io where
  "sample_io = \<lparr>o_socket = Some 7, o_getfl = True, o_setfl = True, o_bind = True, o_mode = 493, o_chmod = True,
     o_port = Some 4000, o_pid = 12\<rparr>"

definition sample_net :: net where
  "sample_net = \<lparr>n_socks = [3 \<mapsto> \<lparr>s_nonblock = False, s_bound = None\<rparr>], n_files = Map.empty\<rparr>"

lemma sample_kernel: "socket_ok sample_io (snd (close_session (example_started, sample_net)))"
  by (simp add: socket_ok_def sample_io_def sample_net_def close_session_def edog_dgram_close_def example_started_def
      close_sock_def unlink_def Let_def zero_session_def)

definition sample_after :: "(u64 \<times> string) option \<times> unit ecat_master_instance \<times> net" where
  "sample_after = open_session sample_io ''unix:/run/plc.sock'' ''/run'' 0 5 (example_started, sample_net)"

lemma sample_opened:
  "fst sample_after = Some (5, ''unix:/run/etherdog-data-0-12.sock'')" "d_open (i_data (fst (snd sample_after)))"
  by (simp_all add: sample_after_def open_session_def edog_dgram_parse_def starts_with_def Let_def sun_path_size_def
      example_started_eq(2) edog_dgram_open_def sample_io_def set_nonblocking_def bind_fd_def unlink_def
      local_socket_path_def fmt_dec_def dec_chars.simps dec_char_def snprintf_text_def local_path_size_def
      endpoint_size_def ecat_data_open_def zero_session_def close_locked_def)

lemma sample_reach:
  "reach (sockets_start (n_socks sample_net)) (socket_step ''/run'' 0) (fst (snd sample_after), snd (snd sample_after))"
proof -
  have "sockets_start (n_socks sample_net) (example_started, sample_net)"
    by (simp add: sockets_start_def example_started_eq(2) zero_session_def)
  moreover have "socket_step ''/run'' 0 ''unix:/run/plc.sock'' (example_started, sample_net) (snd sample_after)"
    unfolding sample_after_def by (rule step_open [OF sample_kernel])
  ultimately show ?thesis by (auto intro: reach.intros)
qed

theorem data_sockets_balanced_witness:
  "\<exists>a. n_socks (snd (snd sample_after)) =
     (n_socks sample_net)(d_fd (i_data (fst (snd sample_after))) \<mapsto> \<lparr>s_nonblock = True, s_bound = Some a\<rparr>)"
  using data_sockets_balanced [OF sample_reach] sample_opened(2) by simp

theorem data_endpoint_names_socket_witness:
  "\<exists>a. edog_dgram_parse ''unix:/run/etherdog-data-0-12.sock'' = Some a \<and>
    n_socks (snd (snd sample_after)) (d_fd (i_data (fst (snd sample_after)))) =
      Some \<lparr>s_nonblock = True, s_bound = Some a\<rparr>"
proof -
  have "open_session sample_io ''unix:/run/plc.sock'' ''/run'' 0 5 (example_started, sample_net) =
      (Some (5, ''unix:/run/etherdog-data-0-12.sock''), fst (snd sample_after), snd (snd sample_after))"
    using sample_opened(1) unfolding sample_after_def by (metis prod.collapse)
  from data_endpoint_names_socket [OF this sample_kernel] show ?thesis by (auto simp: sample_io_def)
qed

end
