(* ===== verification/Monitor_Log.thy ===== *)
theory Monitor_Log
  imports Bus Log
begin

text \<open>
  What the monitor thread of \<^verbatim>\<open>src/bus.c\<close> logs: the errors it took from SOEM (\<^verbatim>\<open>log_ecat_error\<close>) and the transitions it
  noticed between two passes. A message is its level and the values put into it; the wording is left out.
\<close>

section \<open>Errors of the slaves\<close>

datatype ec_err_type =
    EC_ERR_TYPE_SDO_ERROR | EC_ERR_TYPE_EMERGENCY | EC_ERR_TYPE_PACKET_ERROR | EC_ERR_TYPE_SDOINFO_ERROR
  | EC_ERR_TYPE_FOE_ERROR | EC_ERR_TYPE_FOE_BUF2SMALL | EC_ERR_TYPE_FOE_PACKETNUMBER | EC_ERR_TYPE_SOE_ERROR
  | EC_ERR_TYPE_MBX_ERROR | EC_ERR_TYPE_FOE_FILE_NOTFOUND | EC_ERR_TYPE_EOE_INVALID_RX_DATA | EC_ERR_TYPE_other nat

fun ecat_err_type_name :: "ec_err_type \<Rightarrow> string" where
  "ecat_err_type_name EC_ERR_TYPE_SDO_ERROR = ''SDO''"
| "ecat_err_type_name EC_ERR_TYPE_EMERGENCY = ''EMERGENCY''"
| "ecat_err_type_name EC_ERR_TYPE_PACKET_ERROR = ''PACKET''"
| "ecat_err_type_name EC_ERR_TYPE_SDOINFO_ERROR = ''SDOINFO''"
| "ecat_err_type_name EC_ERR_TYPE_FOE_ERROR = ''FOE''"
| "ecat_err_type_name EC_ERR_TYPE_FOE_BUF2SMALL = ''FOE_BUF2SMALL''"
| "ecat_err_type_name EC_ERR_TYPE_FOE_PACKETNUMBER = ''FOE_PKTNUM''"
| "ecat_err_type_name EC_ERR_TYPE_SOE_ERROR = ''SOE''"
| "ecat_err_type_name EC_ERR_TYPE_MBX_ERROR = ''MBX''"
| "ecat_err_type_name EC_ERR_TYPE_FOE_FILE_NOTFOUND = ''FOE_NOTFOUND''"
| "ecat_err_type_name EC_ERR_TYPE_EOE_INVALID_RX_DATA = ''EOE_RX''"
| "ecat_err_type_name (EC_ERR_TYPE_other n) = ''UNKNOWN''"

record ec_error =
  Etype :: ec_err_type
  er_slave :: u16
  er_index :: u16
  er_subidx :: u8
  er_abort :: u32
  ErrorCode :: u16
  ErrorReg :: u8
  er_b1 :: u8
  er_w1 :: u16
  er_w2 :: u16

datatype monitor_message =
    M_emergency string u16 u16 u8 u8 u16 u16
  | M_error string u16 u16 u8 u32
  | M_recovering_wkc int
  | M_recovering_al u32
  | M_wkc_errors int int
  | M_wkc_cleared

type_synonym monitor_line = "edog_log_level \<times> monitor_message"

definition log_ecat_error :: "ec_error \<Rightarrow> monitor_line" where
  "log_ecat_error e =
     (let type = ecat_err_type_name (Etype e)
      in if Etype e = EC_ERR_TYPE_EMERGENCY then
           (if ErrorCode e = 0 then EDOG_LOG_INFO else EDOG_LOG_ERROR,
            M_emergency type (er_slave e) (ErrorCode e) (ErrorReg e) (er_b1 e) (er_w1 e) (er_w2 e))
         else (EDOG_LOG_WARN, M_error type (er_slave e) (er_index e) (er_subidx e) (er_abort e)))"

section \<open>Transitions\<close>

text \<open>What one pass reads of the instance, and what the thread remembers of earlier passes.\<close>

record monitor_view =
  mv_state :: ecat_bus_state
  mv_al_trigger :: u32
  mv_consec :: int
  mv_expected :: int

definition view_of :: "'d ecat_master_instance \<Rightarrow> monitor_view" where
  "view_of inst =
     \<lparr>mv_state = i_bus_state inst, mv_al_trigger = i_recovery_al_trigger inst,
      mv_consec = i_consecutive_wkc_errors inst, mv_expected = i_expected_wkc inst\<rparr>"

record monitor_memory =
  last_logged_state :: "ecat_bus_state option"
  last_logged_consec_wkc :: int

definition monitor_memory_start :: monitor_memory where
  "monitor_memory_start = \<lparr>last_logged_state = None, last_logged_consec_wkc = 0\<rparr>"

definition log_state_change :: "monitor_view \<Rightarrow> monitor_memory \<Rightarrow> monitor_line list \<times> monitor_memory" where
  "log_state_change v m =
     (if Some (mv_state v) \<noteq> last_logged_state m then
        (if mv_state v = ECAT_STATE_RECOVERING then
           (if mv_al_trigger v = 0 then [(EDOG_LOG_WARN, M_recovering_wkc ECAT_WKC_ERROR_THRESHOLD)]
            else [(EDOG_LOG_WARN, M_recovering_al (mv_al_trigger v AND 0xFFFF))])
         else [], m\<lparr>last_logged_state := Some (mv_state v)\<rparr>)
      else ([], m))"

definition log_wkc_change :: "monitor_view \<Rightarrow> monitor_memory \<Rightarrow> monitor_line list \<times> monitor_memory" where
  "log_wkc_change v m =
     (if mv_consec v > 0 \<and> last_logged_consec_wkc m = 0 then
        ([(EDOG_LOG_WARN, M_wkc_errors (mv_consec v) (mv_expected v))], m\<lparr>last_logged_consec_wkc := mv_consec v\<rparr>)
      else if mv_consec v = 0 \<and> last_logged_consec_wkc m \<noteq> 0 then
        ([(EDOG_LOG_INFO, M_wkc_cleared)], m\<lparr>last_logged_consec_wkc := 0\<rparr>)
      else ([], m))"

definition log_transitions :: "monitor_view \<Rightarrow> monitor_memory \<Rightarrow> monitor_line list \<times> monitor_memory" where
  "log_transitions v m =
     (case log_state_change v m of (a, m) \<Rightarrow> (case log_wkc_change v m of (b, m) \<Rightarrow> (a @ b, m)))"

fun monitor_log :: "monitor_view list \<Rightarrow> monitor_memory \<Rightarrow> monitor_line list \<times> monitor_memory" where
  "monitor_log [] m = ([], m)"
| "monitor_log (v # vs) m =
     (case log_transitions v m of (a, m) \<Rightarrow> (case monitor_log vs m of (b, m) \<Rightarrow> (a @ b, m)))"

section \<open>Properties\<close>

text \<open>The two kinds of messages about the working counter, in the order in which they were logged: warnings are \<open>True\<close>.\<close>

fun wkc_kind :: "monitor_message \<Rightarrow> bool list" where
  "wkc_kind (M_wkc_errors a b) = [True]"
| "wkc_kind M_wkc_cleared = [False]"
| "wkc_kind m = []"

definition wkc_history :: "monitor_line list \<Rightarrow> bool list" where
  "wkc_history ls = concat (map (\<lambda>(_, m). wkc_kind m) ls)"

fun alternates :: "bool \<Rightarrow> bool list \<Rightarrow> bool" where
  "alternates b [] = True"
| "alternates b (x # xs) \<longleftrightarrow> x = b \<and> alternates (\<not> b) xs"

definition recovery_messages :: "monitor_line list \<Rightarrow> monitor_line list" where
  "recovery_messages = filter (\<lambda>(_, m). case m of M_recovering_wkc _ \<Rightarrow> True | M_recovering_al _ \<Rightarrow> True | _ \<Rightarrow> False)"

text \<open>The passes at which a state other than that of the pass before is seen to be RECOVERING.\<close>

fun recoveries_entered :: "ecat_bus_state option \<Rightarrow> monitor_view list \<Rightarrow> monitor_view list" where
  "recoveries_entered old [] = []"
| "recoveries_entered old (v # vs) =
     (if mv_state v = ECAT_STATE_RECOVERING \<and> old \<noteq> Some ECAT_STATE_RECOVERING then [v] else []) @
     recoveries_entered (Some (mv_state v)) vs"

lemma history_append [simp]: "wkc_history (xs @ ys) = wkc_history xs @ wkc_history ys"
  by (simp add: wkc_history_def)

lemma recovery_append [simp]: "recovery_messages (xs @ ys) = recovery_messages xs @ recovery_messages ys"
  by (simp add: recovery_messages_def)

lemma log_transitions_facts:
  assumes "log_transitions v m = (ls, m')" and "0 \<le> mv_consec v"
  shows "wkc_history ls = (if (0 < mv_consec v) = (last_logged_consec_wkc m \<noteq> 0) then [] else [0 < mv_consec v])"
    and "last_logged_consec_wkc m' \<noteq> 0 \<longleftrightarrow> 0 < mv_consec v"
    and "last_logged_state m' = Some (mv_state v)"
    and "length (recovery_messages ls) = length (recoveries_entered (last_logged_state m) [v])"
  using assms
  by (auto simp: log_transitions_def log_state_change_def log_wkc_change_def recovery_messages_def wkc_history_def split: if_splits)

text \<open>
  Over any number of passes, the log of the monitor tells how the bus is: warnings about the working counter and
  the notes that clear them alternate, the last of them is a warning exactly if the last pass still saw errors, and
  there is one warning for each time the monitor saw the bus enter recovery.
\<close>

theorem monitor_log_truthful:
  assumes "list_all (\<lambda>v. 0 \<le> mv_consec v) vs" and "vs \<noteq> []"
    and "monitor_log vs monitor_memory_start = (ls, m)"
  shows "alternates True (wkc_history ls) \<and>
    ((wkc_history ls \<noteq> [] \<and> last (wkc_history ls)) \<longleftrightarrow> 0 < mv_consec (last vs)) \<and>
    length (recovery_messages ls) = length (recoveries_entered None vs)"
proof -
  have general: "alternates (last_logged_consec_wkc m0 = 0) (wkc_history ls) \<and>
      (last ((last_logged_consec_wkc m0 \<noteq> 0) # wkc_history ls) \<longleftrightarrow> last ((last_logged_consec_wkc m0 \<noteq> 0) # map (\<lambda>v. 0 < mv_consec v) vs)) \<and>
      length (recovery_messages ls) = length (recoveries_entered (last_logged_state m0) vs)"
    if "list_all (\<lambda>v. 0 \<le> mv_consec v) vs" "monitor_log vs m0 = (ls, m)" for vs m0 ls m
    using that
  proof (induction vs arbitrary: m0 ls)
    case Nil
    then show ?case by (simp add: recovery_messages_def wkc_history_def)
  next
    case (Cons v vs)
    obtain a m1 b where t: "log_transitions v m0 = (a, m1)" "monitor_log vs m1 = (b, m)" "ls = a @ b"
      using Cons.prems(2) by (auto split: prod.splits)
    note f = log_transitions_facts [OF t(1)]
    have "0 \<le> mv_consec v" using Cons.prems(1) by simp
    note f = f [OF this]
    from Cons.IH [OF _ t(2)] Cons.prems(1) show ?case
      using f by (auto simp: t(3) split: if_splits)
  qed
  show ?thesis
    using general [OF assms(1,3)] assms(2) by (auto simp: monitor_memory_start_def last_map split: if_splits)
qed


definition sample_views :: "monitor_view list" where
  "sample_views =
     [\<lparr>mv_state = ECAT_STATE_OPERATIONAL, mv_al_trigger = 0, mv_consec = 1, mv_expected = 3\<rparr>,
      \<lparr>mv_state = ECAT_STATE_RECOVERING, mv_al_trigger = 0, mv_consec = 4, mv_expected = 3\<rparr>,
      \<lparr>mv_state = ECAT_STATE_OPERATIONAL, mv_al_trigger = 0, mv_consec = 0, mv_expected = 3\<rparr>]"

theorem monitor_log_truthful_witness:
  "alternates True (wkc_history (fst (monitor_log sample_views monitor_memory_start))) \<and>
   length (recovery_messages (fst (monitor_log sample_views monitor_memory_start))) = 1"
proof -
  let ?l = "monitor_log sample_views monitor_memory_start"
  have "list_all (\<lambda>v. 0 \<le> mv_consec v) sample_views" "sample_views \<noteq> []" by (simp_all add: sample_views_def)
  moreover have "length (recoveries_entered None sample_views) = 1" by (simp add: sample_views_def)
  ultimately show ?thesis using monitor_log_truthful [of sample_views "fst ?l" "snd ?l"] by simp
qed

end
