(* ===== verification/Spec2Isabelle.thy ===== *)
theory Spec2Isabelle
  imports Config_Sound Data_Session Master_Sound Bus_Runs Main_Entry Proc Reply_Lines Json_Heap_Sound Dgram_Open Monitor_Log
begin

text \<open>
  EtherDOG is a daemon that drives EtherCAT buses for a PLC runtime. It reads a JSON file with up to
  four masters, brings each of them up through the SOEM library, exchanges process data with the
  slaves in a real-time thread, recovers slaves in a monitor thread, passes the process image to a
  client over datagrams and is controlled by JSON lines over a local socket. This library models its
  C sources under \<^verbatim>\<open>src/src\<close> and \<^verbatim>\<open>src/include\<close> as functions over records and proves that they do what
  the daemon relies on.

  \<^bold>\<open>Parts, theories and sources.\<close>

  \<^item> \<^verbatim>\<open>Prelude\<close>: shared lemmas, byte buffers, and the three contracts that components are held to: \<open>byte_codec\<close>
    (an integer in a buffer), \<open>invariant_machine\<close> (operations that keep an invariant) and \<open>step_invariant\<close>
    (the same for labelled steps; every machine is one, by a sublocale). \<^verbatim>\<open>CLib\<close>: what the sources use of C, such
    as \<^verbatim>\<open>strtol\<close>, \<^verbatim>\<open>strtod\<close>, \<^verbatim>\<open>%d\<close> and IEEE doubles. \<^verbatim>\<open>Json\<close>: the tree that cJSON builds and its accessors.
  \<^item> \<^verbatim>\<open>Json_Parse\<close>, \<^verbatim>\<open>Json_Print\<close>: the parser and the printer of \<^verbatim>\<open>cjson/cJSON.c\<close> over byte buffers. \<^verbatim>\<open>Json_Parse_Sound\<close>,
    \<^verbatim>\<open>Json_Number\<close>, \<^verbatim>\<open>Json_Print_Sound\<close>, \<^verbatim>\<open>Json_Roundtrip\<close>: memory safety and balance of the parser, the text
    that the printer implements, and that parsing undoes printing. \<^verbatim>\<open>Json_Minify\<close>: removing blanks.
    \<^verbatim>\<open>Json_Heap\<close>: the operations of the library on nodes and pointers. \<^verbatim>\<open>Json_Forest\<close>, \<^verbatim>\<open>Json_Heap_Sound\<close>: the trees a
    heap holds, and the operations as operations on trees.
  \<^item> \<^verbatim>\<open>Protocol\<close>: the process-data frame of \<^verbatim>\<open>etherdog_protocol.h\<close>.
  \<^item> \<^verbatim>\<open>Config\<close>, \<^verbatim>\<open>Config_Parse\<close>, \<^verbatim>\<open>Config_Validate\<close>: the records of \<^verbatim>\<open>config.h\<close> and the parser and validator of
    \<^verbatim>\<open>config.c\<close>. \<^verbatim>\<open>Config_Sound\<close>: what an accepted file guarantees.
  \<^item> \<^verbatim>\<open>Soem\<close>: the part of SOEM the program sees. \<^verbatim>\<open>Instance\<close>: \<^verbatim>\<open>ecat_master_instance_t\<close> and its buffers.
  \<^item> \<^verbatim>\<open>Layout\<close>: \<^verbatim>\<open>layout.c\<close>, where each PDO entry sits in the process image.
  \<^item> \<^verbatim>\<open>Dgram\<close>, \<^verbatim>\<open>Data\<close>, \<^verbatim>\<open>Data_Session\<close>: \<^verbatim>\<open>dgram.c\<close> and \<^verbatim>\<open>data.c\<close>, the client's datagrams, the output watchdog, and the
    abstract mailbox they implement. \<^verbatim>\<open>Dgram_Open\<close>: the sockets behind the sessions.
  \<^item> \<^verbatim>\<open>Iface_State\<close>: \<^verbatim>\<open>iface_state.c\<close>, tuning of the network interface and its restoration after a crash.
  \<^item> \<^verbatim>\<open>Master\<close>, \<^verbatim>\<open>Master_Sound\<close>: \<^verbatim>\<open>master.c\<close>, every phase of a master from the scan to the close. \<^verbatim>\<open>Coupler\<close>: its
    diagnostics of modular couplers.
  \<^item> \<^verbatim>\<open>Bus\<close>, \<^verbatim>\<open>Bus_Fields\<close>, \<^verbatim>\<open>Bus_Sound\<close>: \<^verbatim>\<open>bus.c\<close>, start and stop of a master, one cycle, one monitor pass, the
    lifecycle of all masters. \<^verbatim>\<open>Bus_Threads\<close>: the control thread and the bus and monitor threads of a master as
    a step relation, with the lock for acyclic traffic, and its invariant. \<^verbatim>\<open>Bus_Runs\<close>: what runs of these steps do, and that
    start, stop, cycle and monitor pass are such runs. \<^verbatim>\<open>Monitor_Log\<close>: what the monitor thread logs.
  \<^item> \<^verbatim>\<open>Replies\<close>, \<^verbatim>\<open>Commands\<close>: the commands of \<^verbatim>\<open>bus.c\<close> and their JSON replies.
  \<^item> \<^verbatim>\<open>Log\<close>: \<^verbatim>\<open>log.c\<close>, the ring of entries and the sink. \<^verbatim>\<open>Control\<close>: \<^verbatim>\<open>control.c\<close>, authentication, the line protocol
    and the client table; its contract with the commands is the locale \<open>command_service\<close>. \<^verbatim>\<open>Reply_Lines\<close>: replies on
    the wire.
  \<^item> \<^verbatim>\<open>Daemon\<close>: the two together. \<^verbatim>\<open>Proc\<close>: \<^verbatim>\<open>proc.c\<close>, running a helper program. \<^verbatim>\<open>Main_Entry\<close>: \<^verbatim>\<open>main.c\<close> and the loop of
    \<^verbatim>\<open>edog_control_run\<close>, from the arguments to the exit status. This theory: from the configuration file to the threads.

  \<^bold>\<open>State and effects.\<close> A C structure is a record with the fields of the source, prefixed where names clash.
  Widths that matter are words (\<open>u8\<close> to \<open>u64\<close>); fields of type \<^verbatim>\<open>int\<close> are integers. Heap buffers are optional
  byte lists, pointers into the I/O map are offsets, a failing call is an \<open>option\<close>, a sum or a boolean in front of
  the new state. SOEM, a git submodule, is a record of functions that every caller takes as an argument; nothing is
  assumed of them except where a statement says so. The same holds for \<^verbatim>\<open>ethtool\<close> and for what a system call returned (clock readings, datagrams, whether a lock, a socket or memory was
  obtained). \<open>recording_soem\<close> in \<^verbatim>\<open>Master_Sound\<close> is a concrete library on which the witnesses run.
  The configuration parser and the commands take the JSON text functions as arguments too, so that their theorems hold
  for any, and in particular for the modelled \<open>cJSON_Parse\<close> and \<open>cJSON_PrintUnformatted\<close>. In the JSON text theories an
  access to a byte outside a buffer is the value \<open>None\<close>, for the comparison with a literal and the skipping of blanks
  too, and that it does not happen is a theorem. The same holds for pointers in \<^verbatim>\<open>Json_Heap\<close>; its loops along links, which would not end on a
  cycle, have the value \<open>None\<close> then too.

  \<^bold>\<open>Loops.\<close> Loops over arrays are recursion over lists. Loops with a counter are bounded as in the source: the
  transition to OPERATIONAL polls at most \<open>poll_retries\<close> times, zero outputs are sent at most three times, the
  query of the log ends at the next id (\<open>query_from\<close>, by a measure), the lines in a client's buffer are consumed one
  by one (\<open>serve_lines\<close>, by a measure). The mutual recursion of the JSON parser takes fuel; its entry points give it
  three calls for each byte and one more, which \<open>json_parse_safe\<close> shows to be enough on every input. The endless loops of the threads and of the poll server are one iteration
  each (\<open>bus_iteration\<close>, \<open>monitor_pass\<close>, \<open>control_round\<close>); what holds over time is stated of any number of them.

  \<^bold>\<open>What is shown.\<close>

  \<^item> Files: an accepted file yields well-formed masters on distinct interfaces; the validator's loops decide the
    stated conditions; stations of modules obey their slot rules.
  \<^item> Process data: outputs come only from frames of the session's client that are newer than the last one
    accepted, or are zero; the drain loop
    implements a mailbox of the newest frame; a silent client's outputs are zeroed in time; every history keeps the
    session's buffers consistent; layout rows are the configured entries, and those of one slave and direction do not overlap. A session has exactly
    one socket while it is open and none otherwise, and reports the address of that socket.
  \<^item> Masters: opening, configuring, starting and stopping end in one of the stated outcomes on every path, the
    mapping stays in its buffer, closing sends zero outputs before it closes the library, SDO values and watchdog ticks are exact.
  \<^item> Threads: in every interleaving in which a master is started only with both running flags clear, of each kind
    at most one thread exists, the running flags match the threads, each thread changes the bus state
    only along its own transitions, recovery ends after at most five passes and waits at most for one step of the control
    thread, and buffers are freed only when no thread is left. The condition on the start (\<open>careful_step\<close>) is not checked
    by \<^verbatim>\<open>ecat_bus_start\<close>: the steps themselves (\<open>thread_step\<close>) allow a start from ERROR with live threads, as the
    program does, and \<open>error_keeps_threads\<close> and \<open>start_beside_monitor\<close> show that this happens and leaves two monitors.
    A master that is IDLE or STOPPED is always started with the condition (\<open>stopped_start_careful\<close>).
    The log of the monitor tells how the bus is.
  \<^item> Control: unauthenticated clients can do nothing and learn nothing, the way bytes are split over reads does not matter,
    queries leave the masters alone, any traffic keeps the masters well formed; replies arrive as
    lines whatever they contain; the log query is the
    restriction of the recorded history to its last thousand entries.
  \<^item> JSON text: the parser returns on every input, reads and writes only its buffers and leaks nothing, whatever allocations
    fail; the printer returns the specified text or none; printed trees whose numbers are
    integers of at most fifteen digits parse back. On the heap, adding, replacing,
    removing and deleting nodes change exactly the tree they are meant to change, whatever the allocator does;
    a lookup finds the member that the JSON value has.
  \<^item> The process: whatever its arguments, its surroundings and the traffic, it ends without masters in
    its table, those it had stopped and freed; the only ones left behind are those that a configure dropped in ERROR
    with a thread still running. After a crash the next start puts the settings of the interface back. A tcp control socket is never open without a token; helper programs get the
    descriptors meant for them and their output is captured within its buffer.

  \<^bold>\<open>Not modelled.\<close> Log output on stderr and its wording, signal handlers beyond the stop they request, the creation of stream sockets and of
  threads, scheduling priorities, the busy-poll socket option, and the data races that relaxed atomics permit between diagnostic counters. Texts that failing
  operations write for a reply are arguments of the commands. A step of a thread
  is the work between two accesses to the shared bus state, a running flag or \<^verbatim>\<open>acyclic_lock\<close>; the other mutexes, held only
  within such a step, are not part of the state. Two counts of type \<^verbatim>\<open>int\<close> that would overflow on extreme
  configurations, the slots of a station (\<open>fill_slots\<close>) and a timeout in microseconds (\<open>preop_timeout_us\<close>), are unbounded. Of \<^verbatim>\<open>cjson/cJSON.c\<close>, the functions that the program never calls
  (\<^verbatim>\<open>cJSON_Duplicate\<close>, \<^verbatim>\<open>cJSON_Compare\<close>, arrays from C arrays).
\<close>

section \<open>From the file to the threads\<close>

lemma configured_masters:
  assumes "ecat_bus_configure S mem pmem parse locks path file b = (True, b')"
    and "inst \<in> set (g_masters b')"
  shows "world_init (resting h inst) \<and> config_wf (i_config inst)"
proof -
  have p: "path \<notin> {None, Some []}"
    using assms by (auto simp: ecat_bus_configure_def free_masters_def Let_def split: if_splits)
  obtain insts where i: "ecat_config_parse_all pmem parse file ECAT_MAX_MASTERS = Inr insts"
      "g_masters b' = map (\<lambda>nc. set_bus_state ECAT_STATE_IDLE
         ((ecat_data_init (new_instance S nc))\<lparr>i_diag := diag_reset\<rparr>)) insts"
    using assms(1) p by (auto simp: ecat_bus_configure_def Let_def split: if_splits sum.splits)
  then obtain nc where nc: "nc \<in> set insts" "inst = set_bus_state ECAT_STATE_IDLE
      ((ecat_data_init (new_instance S nc))\<lparr>i_diag := diag_reset\<rparr>)"
    using assms(2) by auto
  have "config_wf (snd nc)"
    using parse_all_wf [OF i(1)] nc(1) by (auto simp: list_all_iff case_prod_unfold)
  then show ?thesis
    by (simp add: nc(2) resting_def world_init_def unthreaded_def set_bus_state_def ecat_data_init_def new_instance_def
        thread_flags_def zero_defs)
qed

lemma reach_mono: "(\<And>s. I s \<Longrightarrow> J s) \<Longrightarrow> reach I R s \<Longrightarrow> reach J R s"
  by (rotate_tac 1, induction rule: reach.induct) (auto intro: reach.intros)

text \<open>
  C9: a master of an accepted configuration file has a well-formed configuration, and whatever its
  control, bus and monitor threads do afterwards, in any interleaving in which it is started only with both running
  flags clear, its running flags and its bus state fit the threads it has, of each kind at most one exists, bus states that were read stay
  until they have been acted on, recovery stays bounded, and the acyclic lock has the holder that is using it.
\<close>

theorem configured_masters_run_safely:
  assumes "ecat_bus_configure S mem pmem parse locks path file b = (True, b')"
    and "inst \<in> set (g_masters b')"
    and "reach (\<lambda>s. s = resting h inst) (careful_step E k) s"
  shows "config_wf (i_config inst) \<and> lock_ok s \<and> alone s \<and> flags_ok s \<and> owner_ok s \<and> attempts_ok s"
proof -
  note c = configured_masters [OF assms(1,2)]
  have "reach world_init (careful_step E k) s"
    using reach_mono [OF _ assms(3)] c by blast
  with c show ?thesis using threads.reach_good by (auto simp: threads_ok_def)
qed

text \<open>A file with the one slave that the recording library finds.\<close>

definition plain_slave :: json where
  "plain_slave = J_obj [(''position'', J_num (D_fin False 1 0)), (''vendor_id'', J_str ''0x2''), (''product_code'', J_str ''0x3'')]"

definition plain_root :: json where
  "plain_root =
     J_arr [J_obj [(''protocol'', J_str ''EtherCAT''), (''name'', J_str ''line''),
       (''config'', J_obj [(''master'', J_obj [(''interface'', J_str ''eth1'')]), (''slaves'', J_arr [plain_slave])])]]"

lemma plain_slave_parses:
  "\<exists>s. parse_slave (\<lambda>_. True) plain_slave = Inr s \<and> validate_slaves [s] \<and> position s = 1 \<and> vendor_id s = 2 \<and>
     product_code s = 3 \<and> sdo_configs s = [] \<and> \<not> m_present (modular s)"
  by (simp add: plain_slave_def parse_slave_def get_hex_u32_def get_object_item_def parse_hex_u32_def hex_nibble_def
      ctype_defs Let_def parse_revision_def parse_elements_def parse_pdo_array_def parse_pdo_def
      get_string_def safe_strcpy_def c_copy_def parse_mandatory_pdos_def parse_modular_def
      default_slave_config_def zero_slave_def parse_slave_config_def cJSON_IsObject_def
      validate_pdos_def validate_station_def assigned_pdos_def get_int_def valueint_def no_modular_def)

lemma plain_parses:
  "\<exists>nc. ecat_config_parse_all (\<lambda>_. True) (\<lambda>_. Some plain_root) (Some ''[]'') ECAT_MAX_MASTERS = Inr [nc] \<and> fits_recording (snd nc)"
proof -
  obtain s where s: "parse_slave (\<lambda>_. True) plain_slave = Inr s" "validate_slaves [s]"
    and f: "position s = 1" "vendor_id s = 2" "product_code s = 3" "sdo_configs s = []" "\<not> m_present (modular s)"
    using plain_slave_parses by blast
  show ?thesis
    by (simp add: ecat_config_parse_all_def read_file_def plain_root_def get_string_def
        get_object_item_def tolower_def parse_sections_def Let_def parse_slaves_section_def
        parse_elements_def ecat_config_validate_def parse_master_section_def safe_strcpy_def c_copy_def
        ecat_config_init_defaults_def get_int_def ECAT_IFNAME_MAX_def ECAT_MAX_MASTERS_def fits_recording_def s f
        del: validate_slaves.simps)
qed

theorem configured_masters_run_safely_witness:
  "\<exists>b' s. ecat_bus_configure recording_soem (\<lambda>_. True) (\<lambda>_. True) (\<lambda>_. Some plain_root) (\<lambda>_. True)
       (Some ''bus.json'') (Some ''[]'') \<lparr>g_masters = [], g_config_path = [], g_leaked = []\<rparr> = (True, b') \<and>
     reach (\<lambda>w. w = resting \<lparr>files = Map.empty, nic = (0::nat)\<rparr> (hd (g_masters b'))) (careful_step recording_env 0) s \<and>
     busy s \<and> config_wf (i_config (hd (g_masters b'))) \<and> lock_ok s \<and> alone s \<and> flags_ok s \<and> owner_ok s \<and> attempts_ok s"
proof -
  let ?h = "\<lparr>files = Map.empty, nic = (0::nat)\<rparr>"
  obtain nc where nc: "ecat_config_parse_all (\<lambda>_. True) (\<lambda>_. Some plain_root) (Some ''[]'') ECAT_MAX_MASTERS = Inr [nc]"
      "fits_recording (snd nc)"
    using plain_parses by blast
  let ?i = "set_bus_state ECAT_STATE_IDLE ((ecat_data_init (new_instance recording_soem nc))\<lparr>i_diag := diag_reset\<rparr>)"
  obtain b' where b: "ecat_bus_configure recording_soem (\<lambda>_. True) (\<lambda>_. True) (\<lambda>_. Some plain_root) (\<lambda>_. True)
       (Some ''bus.json'') (Some ''[]'') \<lparr>g_masters = [], g_config_path = [], g_leaked = []\<rparr> = (True, b')" "g_masters b' = [?i]"
    by (simp add: ecat_bus_configure_def ecat_bus_any_active_def nc Let_def free_masters_def)
  have "fits_recording (i_config ?i)" "i_bus_state ?i = ECAT_STATE_IDLE" "thread_flags ?i = (False, False)"
    using nc(2) by (simp_all add: set_bus_state_def ecat_data_init_def new_instance_def thread_flags_def zero_defs)
  from busy_reachable [OF this, of ?h] obtain s where s: "care_reach recording_env (resting ?h ?i) s" "busy s" by blast
  have "?i \<in> set (g_masters b')" using b(2) by simp
  from configured_masters_run_safely [OF b(1) this s(1)] b s show ?thesis
    by (intro exI [of _ b'] exI [of _ s]) simp
qed

end
